(* ===== verification/Prelude.thy ===== *)
theory Prelude
  imports Main "HOL-Library.Word"
begin

text \<open>
  Shared vocabulary of the development: the machine integer types of the Go sources, the outcome
  type of a computation that may panic, the collections of simplification rules the component
  theories extend, and generic lemmas on lists, words and bit strings.

  Conventions.  A Go \<^verbatim>\<open>byte\<close> is an \<^typ>\<open>8 word\<close>, a \<^verbatim>\<open>uint64\<close> is a \<^typ>\<open>64 word\<close> (so addition,
  subtraction and multiplication wrap exactly as in Go), a \<^verbatim>\<open>*big.Int\<close> is an \<^typ>\<open>int\<close>, a slice of
  bytes is a list (\<^verbatim>\<open>nil\<close> and the empty slice are both \<open>[]\<close>; no modelled operation tells them
  apart).
\<close>

unbundle bit_operations_syntax

type_synonym u8 = "8 word"
type_synonym u64 = "64 word"
type_synonym bytes = "u8 list"

named_theorems go_simps \<open>unfolding rules of the modelled operations\<close>
named_theorems bound_intros \<open>range facts about modelled integers\<close>

section \<open>Outcomes\<close>

text \<open>
  \<open>Done\<close> is a normal return (a Go error is part of the returned value), \<open>Panic\<close> a Go runtime panic
  (index out of range, failed type assertion), and \<open>NoFuel\<close> says that the bound on the number of
  interpreter iterations handed to the model was too small; the theorems on termination show how
  large it has to be.
\<close>

datatype 'a res = Done 'a | Panic | NoFuel

definition rbind :: "'a res \<Rightarrow> ('a \<Rightarrow> 'b res) \<Rightarrow> 'b res" where
  "rbind m k = (case m of Done a \<Rightarrow> k a | Panic \<Rightarrow> Panic | NoFuel \<Rightarrow> NoFuel)"

lemma rbind_simps [simp]:
  "rbind (Done a) k = k a"
  "rbind Panic k = Panic"
  "rbind NoFuel k = NoFuel"
  by (simp_all add: rbind_def)

lemma rbind_eq_Done [simp]:
  "rbind m k = Done b \<longleftrightarrow> (\<exists>a. m = Done a \<and> k a = Done b)"
  by (cases m) auto

lemma rbind_eq_Panic:
  "rbind m k = Panic \<longleftrightarrow> m = Panic \<or> (\<exists>a. m = Done a \<and> k a = Panic)"
  by (cases m) auto

lemma rbind_eq_NoFuel:
  "rbind m k = NoFuel \<longleftrightarrow> m = NoFuel \<or> (\<exists>a. m = Done a \<and> k a = NoFuel)"
  by (cases m) auto

definition of_option :: "'a option \<Rightarrow> 'a res" where
  "of_option x = (case x of None \<Rightarrow> Panic | Some a \<Rightarrow> Done a)"

lemma of_option_simps [simp]:
  "of_option None = Panic"
  "of_option (Some a) = Done a"
  by (simp_all add: of_option_def)

lemma of_option_eq_Done [simp]: "of_option x = Done a \<longleftrightarrow> x = Some a"
  by (cases x) auto

lemma of_option_not_NoFuel [simp]: "of_option x \<noteq> NoFuel"
  by (cases x) auto

text \<open>A fallible computation: a panic, lack of fuel, an error value or a result.\<close>

type_synonym ('e, 'a) fallible = "('e + 'a) res"

definition ebind :: "('e, 'a) fallible \<Rightarrow> ('a \<Rightarrow> ('e, 'b) fallible) \<Rightarrow> ('e, 'b) fallible" where
  "ebind m f = rbind m (\<lambda>r. case r of Inl e \<Rightarrow> Done (Inl e) | Inr x \<Rightarrow> f x)"

abbreviation eok :: "'a \<Rightarrow> ('e, 'a) fallible" where
  "eok x \<equiv> Done (Inr x)"

abbreviation efail :: "'e \<Rightarrow> ('e, 'a) fallible" where
  "efail e \<equiv> Done (Inl e)"

definition eopt :: "'a option \<Rightarrow> ('e, 'a) fallible" where
  "eopt x = (case x of None \<Rightarrow> Panic | Some v \<Rightarrow> eok v)"

lemma ebind_simps [simp]:
  "ebind (eok x) f = f x"
  "ebind (efail e) f = efail e"
  "ebind Panic f = Panic"
  "ebind NoFuel f = NoFuel"
  by (simp_all add: ebind_def)

lemma eopt_simps [simp]: "eopt None = Panic" "eopt (Some x) = eok x"
  by (simp_all add: eopt_def)

lemma ebind_eq_ok: "ebind m f = eok y \<longleftrightarrow> (\<exists>x. m = eok x \<and> f x = eok y)"
proof (cases m)
  case (Done r)
  then show ?thesis by (cases r) simp_all
qed simp_all

section \<open>Slices\<close>

text \<open>\<^verbatim>\<open>copy(dst[i:], src)\<close> for a source that may be shorter than the room in the destination.\<close>

definition copy_at :: "nat \<Rightarrow> nat \<Rightarrow> 'a list \<Rightarrow> 'a list \<Rightarrow> 'a list" where
  "copy_at off sz src dst =
     take off dst @ take sz src @ drop (off + min sz (length src)) dst"

lemma length_copy_at [simp]:
  "off + sz \<le> length dst \<Longrightarrow> length (copy_at off sz src dst) = length dst"
  by (auto simp: copy_at_def min_def)

lemma nth_copy_at:
  assumes "off + sz \<le> length dst" and "i < length dst"
  shows "copy_at off sz src dst ! i =
    (if off \<le> i \<and> i < off + min sz (length src) then src ! (i - off) else dst ! i)"
  using assms by (auto simp: copy_at_def nth_append min_def)

text \<open>The slice expression \<^verbatim>\<open>xs[a:b]\<close>; outside the bounds Go panics.\<close>

definition slice :: "'a list \<Rightarrow> nat \<Rightarrow> nat \<Rightarrow> 'a list option" where
  "slice xs a b = (if a \<le> b \<and> b \<le> length xs then Some (take (b - a) (drop a xs)) else None)"

lemma slice_length: "slice xs a b = Some ys \<Longrightarrow> length ys = b - a"
  by (auto simp: slice_def split: if_splits)

section \<open>Words\<close>

lemma unat_less_2p64 [bound_intros]: "unat (x :: u64) < 2 ^ 64"
  using unsigned_less [of x] by simp

lemma unat_plus_u64: "unat (a + b :: u64) = (unat a + unat b) mod 2 ^ 64"
  by (simp add: unat_word_ariths)

lemma unat_plus_nowrap:
  "unat a + unat b < 2 ^ 64 \<Longrightarrow> unat (a + b :: u64) = unat a + unat b"
  by (simp add: unat_word_ariths)

lemma unat_mult_nowrap:
  "unat a * unat b < 2 ^ 64 \<Longrightarrow> unat (a * b :: u64) = unat a * unat b"
  by (simp add: unat_word_ariths)

lemma unat_sub_nowrap: "b \<le> a \<Longrightarrow> unat (a - b :: u64) = unat a - unat b"
  by (rule unat_sub)

lemma unat_of_nat_u64: "n < 2 ^ 64 \<Longrightarrow> unat (word_of_nat n :: u64) = n"
  by (simp add: unat_of_nat take_bit_nat_eq_self)

lemma unat_of_int_u64: "0 \<le> x \<Longrightarrow> x < 2 ^ 64 \<Longrightarrow> unat (word_of_int x :: u64) = nat x"
  by (simp add: unat_eq_nat_uint uint_word_of_int)

lemma and_mask_mod: "(x::int) AND (2 ^ n - 1) = x mod 2 ^ n"
  by (simp add: take_bit_eq_mod flip: mask_eq_exp_minus_1 take_bit_eq_mask)

end
