(* ===== verification/Big_Math.thy ===== *)
theory Big_Math
  imports Prelude
begin

text \<open>
  Arbitrary precision integers as the sources use them (the methods of \<^verbatim>\<open>big.Int\<close> the code calls)
  and the helpers of \<^verbatim>\<open>src/common/math\<close>: 256-bit masking, the two's complement reading, byte access,
  padding, square-and-multiply exponentiation and the overflow checked 64-bit operations.
\<close>

unbundle bit_operations_syntax

section \<open>The big.Int methods used by the program\<close>

text \<open>Big-endian bytes to integer: \<^verbatim>\<open>SetBytes\<close>.\<close>

definition SetBytes :: "bytes \<Rightarrow> int" where
  "SetBytes bs = foldl (\<lambda>acc b. acc * 256 + uint b) 0 bs"

text \<open>Minimal big-endian bytes of the absolute value: \<^verbatim>\<open>Bytes\<close>.\<close>

fun nat_bytes :: "nat \<Rightarrow> bytes" where
  "nat_bytes n = (if n = 0 then [] else nat_bytes (n div 256) @ [word_of_nat (n mod 256)])"

declare nat_bytes.simps [simp del]

definition Bytes :: "int \<Rightarrow> bytes" where
  "Bytes x = nat_bytes (nat \<bar>x\<bar>)"

text \<open>\<^verbatim>\<open>BitLen\<close>: the length of the absolute value in bits.\<close>

fun nat_bitlen :: "nat \<Rightarrow> nat" where
  "nat_bitlen n = (if n = 0 then 0 else Suc (nat_bitlen (n div 2)))"

declare nat_bitlen.simps [simp del]

definition BitLen :: "int \<Rightarrow> nat" where
  "BitLen x = nat_bitlen (nat \<bar>x\<bar>)"

text \<open>
  \<^verbatim>\<open>Bits\<close>: the little-endian machine words of the absolute value (64-bit words, no leading zero
  word).
\<close>

fun nat_words :: "nat \<Rightarrow> u64 list" where
  "nat_words n = (if n = 0 then [] else word_of_nat (n mod 2 ^ 64) # nat_words (n div 2 ^ 64))"

declare nat_words.simps [simp del]

definition Bits :: "int \<Rightarrow> u64 list" where
  "Bits x = nat_words (nat \<bar>x\<bar>)"

text \<open>
  \<^verbatim>\<open>Uint64\<close> and \<^verbatim>\<open>Int64\<close>: the low 64 bits of the absolute value, negated for a negative \<^verbatim>\<open>Int64\<close>.
  The result of \<^verbatim>\<open>Int64\<close> is given as the integer the machine word denotes.
\<close>

definition Uint64 :: "int \<Rightarrow> u64" where
  "Uint64 x = word_of_int \<bar>x\<bar>"

definition Int64 :: "int \<Rightarrow> int" where
  "Int64 x = sint (if x < 0 then - Uint64 x else Uint64 x)"

section \<open>Lemmas on bytes, words and bit lengths\<close>

lemma SetBytes_Nil [simp]: "SetBytes [] = 0"
  by (simp add: SetBytes_def)

lemma SetBytes_snoc [simp]: "SetBytes (bs @ [b]) = SetBytes bs * 256 + uint b"
  by (simp add: SetBytes_def)

lemma SetBytes_append: "SetBytes (xs @ ys) = SetBytes xs * 256 ^ length ys + SetBytes ys"
proof (induction ys rule: rev_induct)
  case (snoc y ys)
  have "SetBytes (xs @ ys @ [y]) = SetBytes (xs @ ys) * 256 + uint y"
    using SetBytes_snoc [of "xs @ ys" y] by simp
  then show ?case
    by (simp add: snoc algebra_simps)
qed simp

lemma SetBytes_Cons: "SetBytes (b # bs) = uint b * 256 ^ length bs + SetBytes bs"
  using SetBytes_append [of "[b]" bs] by (simp add: SetBytes_def)

lemma SetBytes_nonneg [simp]: "0 \<le> SetBytes bs"
  by (induction bs rule: rev_induct) auto

lemma uint_byte_less: "uint (b :: u8) < 256"
  using uint_lt2p [of b] by simp

lemma mod_256_add: "0 \<le> b \<Longrightarrow> b < 256 \<Longrightarrow> (a * 256 + b) mod 256 = (b::int)"
  by (simp only: mod_mult_self3 mod_pos_pos_trivial)

lemma SetBytes_bound: "SetBytes bs < 256 ^ length bs"
proof (induction bs rule: rev_induct)
  case (snoc b bs)
  then show ?case
    using uint_byte_less [of b] by simp
qed simp

lemma SetBytes_replicate_zero [simp]: "SetBytes (replicate n 0 @ bs) = SetBytes bs"
proof -
  have "SetBytes (replicate n 0) = 0"
    by (induction n) (simp_all add: SetBytes_Cons)
  then show ?thesis
    by (simp add: SetBytes_append)
qed

lemma SetBytes_inject:
  "length xs = length ys \<Longrightarrow> SetBytes xs = SetBytes ys \<longleftrightarrow> xs = ys"
proof (induction xs ys rule: rev_induct2)
  case (4 x xs y ys)
  show ?case
  proof
    assume eq: "SetBytes (xs @ [x]) = SetBytes (ys @ [y])"
    have "uint x = (SetBytes xs * 256 + uint x) mod 256"
      "uint y = (SetBytes ys * 256 + uint y) mod 256"
      using mod_256_add [OF _ uint_byte_less] by simp_all
    with eq have xy: "x = y"
      by (metis SetBytes_snoc word_uint_eqI)
    with eq "4.IH" "4.prems" show "xs @ [x] = ys @ [y]"
      by simp
  qed simp
qed auto

lemma SetBytes_nat_bytes: "SetBytes (nat_bytes n) = int n"
proof (induction n rule: nat_bytes.induct)
  case (1 n)
  show ?case
  proof (cases "n = 0")
    case False
    have low: "uint (word_of_nat (n mod 256) :: u8) = int (n mod 256)"
      by (simp add: unsigned_of_nat take_bit_eq_mod)
    have "SetBytes (nat_bytes n) =
        SetBytes (nat_bytes (n div 256)) * 256 + uint (word_of_nat (n mod 256) :: u8)"
      using False by (subst nat_bytes.simps) simp
    also have "\<dots> = int (n div 256 * 256 + n mod 256)"
      using "1.IH" [OF False] low by (simp only: of_nat_add of_nat_mult of_nat_numeral)
    finally show ?thesis
      by (simp only: div_mult_mod_eq)
  qed (simp add: nat_bytes.simps)
qed

lemma SetBytes_Bytes: "SetBytes (Bytes x) = \<bar>x\<bar>"
  by (simp add: Bytes_def SetBytes_nat_bytes)

lemma length_nat_bytes_le: "length (nat_bytes n) \<le> k \<longleftrightarrow> n < 256 ^ k"
proof (induction n arbitrary: k rule: nat_bytes.induct)
  case (1 n)
  show ?case
  proof (cases "n = 0")
    case False
    have "length (nat_bytes n) = Suc (length (nat_bytes (n div 256)))"
      using False by (subst nat_bytes.simps) simp
    moreover have "n div 256 < 256 ^ j \<longleftrightarrow> n < 256 ^ Suc j" for j
      by (simp add: less_mult_imp_div_less div_less_iff_less_mult mult.commute)
    ultimately show ?thesis
      using False "1.IH" by (cases k) simp_all
  qed (simp add: nat_bytes.simps)
qed

lemma length_Bytes_le: "length (Bytes x) \<le> k \<longleftrightarrow> \<bar>x\<bar> < 256 ^ k"
proof -
  have "length (Bytes x) \<le> k \<longleftrightarrow> nat \<bar>x\<bar> < 256 ^ k"
    by (simp add: Bytes_def length_nat_bytes_le)
  also have "\<dots> \<longleftrightarrow> \<bar>x\<bar> < 256 ^ k"
    by (metis abs_ge_zero nat_less_eq_zless nat_numeral nat_power_eq zero_le_numeral)
  finally show ?thesis .
qed

lemma nat_bitlen_le: "nat_bitlen n \<le> k \<longleftrightarrow> n < 2 ^ k"
proof (induction n arbitrary: k rule: nat_bitlen.induct)
  case (1 n)
  show ?case
  proof (cases "n = 0")
    case False
    have "nat_bitlen n = Suc (nat_bitlen (n div 2))"
      using False by (subst nat_bitlen.simps) simp
    moreover have "n div 2 < 2 ^ j \<longleftrightarrow> n < 2 ^ Suc j" for j
      by (simp add: less_mult_imp_div_less div_less_iff_less_mult mult.commute)
    ultimately show ?thesis
      using False "1.IH" by (cases k) simp_all
  qed (simp add: nat_bitlen.simps)
qed

lemma BitLen_le: "BitLen x \<le> k \<longleftrightarrow> \<bar>x\<bar> < 2 ^ k"
proof -
  have "BitLen x \<le> k \<longleftrightarrow> nat \<bar>x\<bar> < 2 ^ k"
    by (simp add: BitLen_def nat_bitlen_le)
  also have "\<dots> \<longleftrightarrow> \<bar>x\<bar> < 2 ^ k"
    by (metis abs_ge_zero nat_less_eq_zless nat_numeral nat_power_eq zero_le_numeral)
  finally show ?thesis .
qed

lemma BitLen_gt: "k < BitLen x \<longleftrightarrow> 2 ^ k \<le> \<bar>x\<bar>"
  using BitLen_le [of x k] by linarith

lemma BitLen_pos: "0 < BitLen x \<longleftrightarrow> x \<noteq> 0"
  using BitLen_gt [of 0 x] by auto

lemma unat_Uint64: "0 \<le> x \<Longrightarrow> x < 2 ^ 64 \<Longrightarrow> unat (Uint64 x) = nat x"
  by (simp add: Uint64_def unat_of_int_u64)

lemma Int64_small: "0 \<le> x \<Longrightarrow> x < 2 ^ 63 \<Longrightarrow> Int64 x = x"
  by (simp add: Int64_def Uint64_def sint_sbintrunc' signed_take_bit_int_eq_self)

section \<open>Helpers of common/math/big.go\<close>

definition tt255 :: int where "tt255 = 2 ^ 255"
definition tt256 :: int where "tt256 = 2 ^ 256"
definition tt256m1 :: int where "tt256m1 = tt256 - 1"

definition BigMax :: "int \<Rightarrow> int \<Rightarrow> int" where
  "BigMax x y = (if x < y then y else x)"

definition BigMin :: "int \<Rightarrow> int \<Rightarrow> int" where
  "BigMin x y = (if y < x then y else x)"

definition U256 :: "int \<Rightarrow> int" where
  "U256 x = x AND tt256m1"

definition S256 :: "int \<Rightarrow> int" where
  "S256 x = (if x < tt255 then x else x - tt256)"

text \<open>
  \<^verbatim>\<open>Exp\<close>: the outer loop runs over the machine words of the exponent, the inner loop 64 times over the
  bits of one word; the pair is the running result and the repeatedly squared base.
\<close>

fun exp_word :: "nat \<Rightarrow> u64 \<Rightarrow> int \<times> int \<Rightarrow> int \<times> int" where
  "exp_word 0 word s = s"
| "exp_word (Suc i) word (result, base) =
     exp_word i (drop_bit 1 word)
       (if word AND 1 = 1 then U256 (result * base) else result, U256 (base * base))"

fun exp_words :: "u64 list \<Rightarrow> int \<times> int \<Rightarrow> int \<times> int" where
  "exp_words [] s = s"
| "exp_words (word # ws) s = exp_words ws (exp_word 64 word s)"

definition Exp :: "int \<Rightarrow> int \<Rightarrow> int" where
  "Exp base exponent = fst (exp_words (Bits exponent) (1, base))"

text \<open>
  \<^verbatim>\<open>ReadBits\<close>: fills the buffer from its end, eight bytes per machine word; \<open>i\<close> is the Go variable
  \<^verbatim>\<open>i\<close>, the number of buffer positions still to be written.
\<close>

fun readbits_word :: "nat \<Rightarrow> u64 \<Rightarrow> nat \<Rightarrow> bytes \<Rightarrow> nat \<times> bytes" where
  "readbits_word 0 d i buf = (i, buf)"
| "readbits_word (Suc j) d i buf =
     (if 0 < i then readbits_word j (drop_bit 8 d) (i - 1) (buf[i - 1 := ucast d]) else (i, buf))"

fun readbits_words :: "u64 list \<Rightarrow> nat \<Rightarrow> bytes \<Rightarrow> bytes" where
  "readbits_words [] i buf = buf"
| "readbits_words (d # ds) i buf =
     (case readbits_word 8 d i buf of (i', buf') \<Rightarrow> readbits_words ds i' buf')"

definition ReadBits :: "int \<Rightarrow> bytes \<Rightarrow> bytes" where
  "ReadBits x buf = readbits_words (Bits x) (length buf) buf"

definition PaddedBigBytes :: "int \<Rightarrow> nat \<Rightarrow> bytes" where
  "PaddedBigBytes x n = (if n \<le> BitLen x div 8 then Bytes x else ReadBits x (replicate n 0))"

definition bigEndianByteAt :: "int \<Rightarrow> nat \<Rightarrow> u8" where
  "bigEndianByteAt x n =
     (let words = Bits x; i = n div 8 in
      if length words \<le> i then 0 else ucast (drop_bit (8 * (n mod 8)) (words ! i)))"

definition Byte :: "int \<Rightarrow> nat \<Rightarrow> nat \<Rightarrow> u8" where
  "Byte x padlength n = (if padlength \<le> n then 0 else bigEndianByteAt x (padlength - 1 - n))"

section \<open>Helpers of common/math/integer.go\<close>

definition MaxUint64 :: u64 where "MaxUint64 = 18446744073709551615"

definition SafeSub :: "u64 \<Rightarrow> u64 \<Rightarrow> u64 \<times> bool" where
  "SafeSub x y = (x - y, x < y)"

definition SafeAdd :: "u64 \<Rightarrow> u64 \<Rightarrow> u64 \<times> bool" where
  "SafeAdd x y = (x + y, MaxUint64 - x < y)"

definition SafeMul :: "u64 \<Rightarrow> u64 \<Rightarrow> u64 \<times> bool" where
  "SafeMul x y = (if x = 0 \<or> y = 0 then (0, False) else (x * y, MaxUint64 div x < y))"

section \<open>256-bit reductions\<close>

lemma U256_mod: "U256 x = x mod 2 ^ 256"
  by (simp add: U256_def tt256m1_def tt256_def and_mask_mod del: power_numeral)

lemma U256_nonneg [simp, bound_intros]: "0 \<le> U256 x"
  by (simp add: U256_mod)

lemma U256_less [simp, bound_intros]: "U256 x < 2 ^ 256"
  by (simp add: U256_mod)

lemma U256_id: "0 \<le> x \<Longrightarrow> x < 2 ^ 256 \<Longrightarrow> U256 x = x"
  by (simp add: U256_mod)

lemma U256_eq_iff: "U256 x = x \<longleftrightarrow> 0 \<le> x \<and> x < 2 ^ 256"
  by (metis U256_id U256_less U256_nonneg)

lemma mod_upper_half:
  fixes x h :: int
  assumes "h \<le> x" "x < 2 * h"
  shows "(x + h) mod (2 * h) = x - h"
proof -
  have "(x + h) mod (2 * h) = ((x - h) + 2 * h) mod (2 * h)"
    by (simp add: algebra_simps)
  also have "\<dots> = (x - h) mod (2 * h)"
    by (rule mod_add_self2)
  also have "\<dots> = x - h"
    using assms by (intro mod_pos_pos_trivial) auto
  finally show ?thesis .
qed

lemma S256_sint: "0 \<le> x \<Longrightarrow> x < 2 ^ 256 \<Longrightarrow> S256 x = sint (word_of_int x :: 256 word)"
proof (cases "x < 2 ^ 255")
  case True
  assume "0 \<le> x" "x < 2 ^ 256"
  with True show ?thesis
    by (simp add: S256_def tt255_def tt256_def int_word_sint)
next
  case False
  assume a: "0 \<le> x" "x < 2 ^ 256"
  then have "(x + 2 ^ 255) mod 2 ^ 256 = x - 2 ^ 255"
    using False mod_upper_half [of "2 ^ 255" x] by simp
  with False show ?thesis
    by (simp add: S256_def tt255_def tt256_def int_word_sint)
qed

lemma U256_S256: "0 \<le> x \<Longrightarrow> x < 2 ^ 256 \<Longrightarrow> U256 (S256 x) = x"
  by (simp add: S256_def U256_mod tt256_def)

lemma S256_range: "0 \<le> x \<Longrightarrow> x < 2 ^ 256 \<Longrightarrow> - (2 ^ 255) \<le> S256 x \<and> S256 x < 2 ^ 255"
  by (simp add: S256_def tt255_def tt256_def)

lemma S256_idem: "x < 2 ^ 256 \<Longrightarrow> S256 (S256 x) = S256 x"
  by (simp add: S256_def tt255_def tt256_def)

subsection \<open>Exponentiation\<close>

lemmas U256_less_numeral [simp] = U256_less [simplified]

lemma U256_mult: "U256 (U256 x * y) = U256 (x * y)" "U256 (x * U256 y) = U256 (x * y)"
  by (simp_all add: U256_mod mod_mult_left_eq mod_mult_right_eq)

lemma U256_mult_power: "U256 (x * U256 y ^ n) = U256 (x * y ^ n)"
  by (metis U256_mod U256_mult(2) power_mod)

lemma unat_bit0_split:
  "unat (word :: u64) = 2 * unat (drop_bit 1 word) + of_bool (word AND 1 = 1)"
proof -
  have "unat (drop_bit 1 word) = unat word div 2"
    by (simp add: drop_bit_eq_div unat_div)
  moreover have "word AND 1 = 1 \<longleftrightarrow> odd (unat word)"
    using bit_unsigned_iff [where 'a = nat and 'b = 64, of word 0] by (simp add: and_one_eq mod_2_eq_odd bit_0)
  ultimately show ?thesis
    by (auto elim: evenE oddE)
qed

lemma exp_word_spec:
  assumes "0 \<le> r" "r < 2 ^ 256" and "unat word < 2 ^ n"
  shows "fst (exp_word n word (r, b)) = U256 (r * b ^ unat word) \<and>
    (\<forall>k. U256 (snd (exp_word n word (r, b)) ^ k) = U256 (b ^ (2 ^ n * k)))"
  using assms
proof (induction n arbitrary: word r b)
  case 0
  then show ?case by (simp add: U256_id)
next
  case (Suc n)
  let ?bit = "word AND 1 = 1"
  let ?r = "if ?bit then U256 (r * b) else r"
  let ?w = "drop_bit 1 word"
  have w: "unat word = 2 * unat ?w + of_bool ?bit"
    by (rule unat_bit0_split)
  have step: "exp_word (Suc n) word (r, b) = exp_word n ?w (?r, U256 (b * b))"
    by simp
  have "unat ?w < 2 ^ n"
    using w Suc.prems(3) by (cases ?bit) simp_all
  then have IH: "fst (exp_word (Suc n) word (r, b)) = U256 (?r * U256 (b * b) ^ unat ?w)"
    "U256 (snd (exp_word (Suc n) word (r, b)) ^ k) = U256 (U256 (b * b) ^ (2 ^ n * k))" for k
    using Suc.IH [of ?r ?w "U256 (b * b)"] Suc.prems(1,2)
    unfolding step by (cases ?bit; simp)+
  have "U256 (?r * (b * b) ^ unat ?w) = U256 (r * b ^ unat word)"
    by (subst w) (auto simp: U256_mult power_add power_mult power2_eq_square algebra_simps)
  moreover have "U256 ((b * b) ^ (2 ^ n * k)) = U256 (b ^ (2 ^ Suc n * k))" for k
    by (simp add: power_mult power2_eq_square)
  ultimately show ?case
    using U256_mult_power [of 1 "b * b"] unfolding IH by (simp only: U256_mult_power mult_1 simp_thms)
qed

lemma exp_words_spec:
  assumes "0 \<le> r" "r < 2 ^ 256"
  shows "fst (exp_words (nat_words m) (r, b)) = U256 (r * b ^ m)"
  using assms
proof (induction m arbitrary: r b rule: nat_words.induct)
  case (1 m)
  show ?case
  proof (cases "m = 0")
    case True
    with "1.prems" show ?thesis by (simp add: nat_words.simps U256_id)
  next
    case False
    let ?w = "word_of_nat (m mod 2 ^ 64) :: u64"
    obtain r' b' where rb: "exp_word 64 ?w (r, b) = (r', b')"
      by fastforce
    have w: "unat ?w = m mod 2 ^ 64"
      by (simp add: unat_of_nat_u64)
    have r': "r' = U256 (r * b ^ (m mod 2 ^ 64))"
      using exp_word_spec [OF "1.prems", of ?w 64 b] w unfolding rb by simp
    have b': "U256 (b' ^ k) = U256 (b ^ (2 ^ 64 * k))" for k
      using exp_word_spec [OF "1.prems", of ?w 64 b] w unfolding rb by simp
    have "fst (exp_words (nat_words m) (r, b)) = fst (exp_words (nat_words (m div 2 ^ 64)) (r', b'))"
      using False by (subst nat_words.simps) (simp only: if_False exp_words.simps rb)
    also have "\<dots> = U256 (r' * U256 (b' ^ (m div 2 ^ 64)))"
      using "1.IH" [OF False] by (simp add: r' U256_mult)
    also have "\<dots> = U256 (r * b ^ (m mod 2 ^ 64) * b ^ (2 ^ 64 * (m div 2 ^ 64)))"
      by (simp only: r' b' U256_mult)
    also have "\<dots> = U256 (r * b ^ m)"
      by (simp only: mult.assoc mod_mult_div_eq flip: power_add)
    finally show ?thesis .
  qed
qed

lemma Exp_power: "0 \<le> e \<Longrightarrow> Exp b e = b ^ nat e mod 2 ^ 256"
  using exp_words_spec [of 1 "nat e" b] by (simp add: Exp_def Bits_def U256_mod)

subsection \<open>Fixed-width big-endian bytes\<close>

definition be_bytes :: "nat \<Rightarrow> nat \<Rightarrow> bytes" where
  "be_bytes n m = rev (map (\<lambda>p. word_of_nat (m div 256 ^ p)) [0..<n])"

lemma length_be_bytes [simp]: "length (be_bytes n m) = n"
  by (simp add: be_bytes_def)

lemma nth_be_bytes: "i < n \<Longrightarrow> be_bytes n m ! i = word_of_nat (m div 256 ^ (n - 1 - i))"
  by (simp add: be_bytes_def rev_nth)

lemma be_bytes_Suc: "be_bytes (Suc n) m = be_bytes n (m div 256) @ [word_of_nat m]"
proof -
  have "map (\<lambda>p. word_of_nat (m div 256 ^ p) :: u8) [0..<Suc n] =
      word_of_nat m # map (\<lambda>p. word_of_nat (m div 256 div 256 ^ p)) [0..<n]"
    by (simp add: upt_conv_Cons map_Suc_upt [symmetric] div_mult2_eq comp_def del: upt_Suc)
  then show ?thesis
    by (simp add: be_bytes_def)
qed

lemma uint_word_of_nat_u8: "uint (word_of_nat m :: u8) = int (m mod 256)"
  by (simp add: unsigned_of_nat take_bit_eq_mod)

lemma SetBytes_be_bytes: "SetBytes (be_bytes n m) = int (m mod 256 ^ n)"
proof (induction n arbitrary: m)
  case 0
  then show ?case by (simp add: be_bytes_def)
next
  case (Suc n)
  have "SetBytes (be_bytes (Suc n) m) = int (m div 256 mod 256 ^ n) * 256 + int (m mod 256)"
    by (simp only: be_bytes_Suc SetBytes_snoc Suc.IH uint_word_of_nat_u8)
  also have "\<dots> = int (256 * (m div 256 mod 256 ^ n) + m mod 256)"
    by (simp only: of_nat_add of_nat_mult of_nat_numeral mult.commute)
  also have "\<dots> = int (m mod 256 ^ Suc n)"
    by (simp only: power_Suc mod_mult2_eq)
  finally show ?case .
qed

lemma be_bytes_unique:
  "length bs = n \<Longrightarrow> SetBytes bs = int m \<Longrightarrow> bs = be_bytes n m"
proof -
  assume len: "length bs = n" and val: "SetBytes bs = int m"
  have "int m < 256 ^ n"
    using SetBytes_bound [of bs] len val by simp
  then have "m < 256 ^ n"
    by (metis of_nat_less_iff of_nat_numeral of_nat_power)
  then have "SetBytes bs = SetBytes (be_bytes n m)"
    by (simp add: val SetBytes_be_bytes)
  then show ?thesis
    using SetBytes_inject [of bs "be_bytes n m"] len by simp
qed

lemma nth_nat_words:
  "i < length (nat_words m) \<Longrightarrow> nat_words m ! i = word_of_nat (m div 2 ^ (64 * i) mod 2 ^ 64)"
proof (induction m arbitrary: i rule: nat_words.induct)
  case (1 m)
  have ne: "m \<noteq> 0"
    using "1.prems" by (cases "m = 0") (simp_all add: nat_words.simps)
  have unfold: "nat_words m = word_of_nat (m mod 2 ^ 64) # nat_words (m div 2 ^ 64)"
    using ne by (subst nat_words.simps) simp
  show ?case
  proof (cases i)
    case 0
    then show ?thesis by (simp add: unfold)
  next
    case (Suc j)
    have "m div 2 ^ 64 div 2 ^ (64 * j) = m div 2 ^ (64 * i)"
      by (simp only: Suc mult_Suc_right power_add div_mult2_eq)
    then show ?thesis
      using "1.IH" [OF ne, of j] "1.prems" by (simp only: unfold Suc nth_Cons_Suc length_Cons Suc_less_eq)
  qed
qed

lemma length_nat_words_le: "length (nat_words m) \<le> k \<longleftrightarrow> m < 2 ^ (64 * k)"
proof (induction m arbitrary: k rule: nat_words.induct)
  case (1 m)
  show ?case
  proof (cases "m = 0")
    case False
    have "length (nat_words m) = Suc (length (nat_words (m div 2 ^ 64)))"
      using False by (subst nat_words.simps) simp
    moreover have "m div 2 ^ 64 < 2 ^ (64 * j) \<longleftrightarrow> m < 2 ^ (64 * Suc j)" for j
      by (simp only: mult_Suc_right power_add div_less_iff_less_mult zero_less_power zero_less_numeral)
        (simp only: mult.commute)
    ultimately show ?thesis
      using False "1.IH" by (cases k) simp_all
  qed (simp add: nat_words.simps)
qed

lemma ucast_shift_word:
  assumes "r < 8"
  shows "(ucast (drop_bit (8 * r) (word_of_nat (m mod 2 ^ 64) :: u64)) :: u8) = word_of_nat (m div 256 ^ r)"
proof (rule bit_word_eqI)
  fix n assume "n < LENGTH(8)"
  then have n: "n < 8" by simp
  have "256 ^ r = (2 :: nat) ^ (8 * r)"
    by (simp add: power_mult)
  then have "bit (word_of_nat (m div 256 ^ r) :: u8) n \<longleftrightarrow> bit m (8 * r + n)"
    using n by (simp add: bit_of_nat_iff bit_drop_bit_eq flip: drop_bit_eq_div)
  moreover have "bit (m mod 2 ^ 64) (8 * r + n) = bit m (8 * r + n)"
    using n assms by (simp only: bit_take_bit_iff flip: take_bit_eq_mod) simp
  ultimately show "bit (ucast (drop_bit (8 * r) (word_of_nat (m mod 2 ^ 64) :: u64)) :: u8) n
      \<longleftrightarrow> bit (word_of_nat (m div 256 ^ r) :: u8) n"
    using n assms by (simp add: bit_ucast_iff bit_drop_bit_eq bit_of_nat_iff bit_take_bit_iff)
qed

lemma bigEndianByteAt_spec:
  assumes "0 \<le> x"
  shows "bigEndianByteAt x n = word_of_nat (nat x div 256 ^ n)"
proof (cases "length (nat_words (nat x)) \<le> n div 8")
  case True
  then have "nat x < 2 ^ (64 * (n div 8))"
    by (simp add: length_nat_words_le)
  also have "\<dots> \<le> 2 ^ (8 * n)"
    by (rule power_increasing) auto
  also have "\<dots> = (256 :: nat) ^ n"
    by (simp add: power_mult)
  finally show ?thesis
    using True assms by (simp add: bigEndianByteAt_def Bits_def)
next
  case False
  have "nat x div 2 ^ (64 * (n div 8)) div 256 ^ (n mod 8) = nat x div 256 ^ n"
  proof -
    have "(2 :: nat) ^ (64 * (n div 8)) * 256 ^ (n mod 8) = 256 ^ (8 * (n div 8) + n mod 8)"
      by (simp only: power_add power_mult) simp
    also have "\<dots> = 256 ^ n"
      by simp
    finally show ?thesis
      by (simp only: div_mult2_eq [symmetric])
  qed
  then show ?thesis
    using False assms ucast_shift_word [of "n mod 8" "nat x div 2 ^ (64 * (n div 8))"]
    by (simp only: bigEndianByteAt_def Bits_def Let_def if_False nth_nat_words not_le abs_of_nonneg mod_less_divisor zero_less_numeral) simp
qed

lemma Byte_spec: "0 \<le> x \<Longrightarrow> n < k \<Longrightarrow> Byte x k n = be_bytes k (nat x) ! n"
  by (simp add: Byte_def bigEndianByteAt_spec nth_be_bytes)

lemma readbits_word_len [simp]: "length (snd (readbits_word j d i buf)) = length buf"
  by (induction j arbitrary: d i buf) auto

lemma readbits_word_fst [simp]: "fst (readbits_word j d i buf) = i - j"
  by (induction j arbitrary: d i buf) auto

lemma readbits_word_nth:
  "i \<le> length buf \<Longrightarrow> q < length buf \<Longrightarrow> snd (readbits_word j d i buf) ! q =
    (if i - j \<le> q \<and> q < i then ucast (drop_bit (8 * (i - 1 - q)) d) else buf ! q)"
proof (induction j arbitrary: d i buf)
  case (Suc j)
  show ?case
  proof (cases "0 < i")
    case True
    have IH: "snd (readbits_word (Suc j) d i buf) ! q =
        (if i - 1 - j \<le> q \<and> q < i - 1 then ucast (drop_bit (8 * (i - 1 - 1 - q)) (drop_bit 8 d))
         else buf[i - 1 := ucast d] ! q)"
      using Suc.IH [of "i - 1" "buf[i - 1 := ucast d]" "drop_bit 8 d"] Suc.prems True by simp
    have eq: "drop_bit (8 * (i - 1 - 1 - q)) (drop_bit 8 d) = drop_bit (8 * (i - 1 - q)) d"
      if "q < i - 1"
    proof -
      have "8 * (i - 1 - 1 - q) + 8 = 8 * (i - 1 - q)"
        using that by linarith
      then show ?thesis
        by (simp only: drop_bit_drop_bit)
    qed
    consider "q < i - 1" | "q = i - 1" | "i \<le> q"
      using True by linarith
    then show ?thesis
    proof cases
      case 1
      then have "q < i" by simp
      with 1 show ?thesis by (simp only: IH eq) simp
    next
      case 2
      then show ?thesis using Suc.prems True by (subst IH) auto
    next
      case 3
      then show ?thesis using Suc.prems True by (subst IH) auto
    qed
  qed simp
qed auto

lemma readbits_words_len [simp]: "length (readbits_words ds i buf) = length buf"
  by (induction ds arbitrary: i buf) (simp_all add: case_prod_beta)

lemma readbits_words_nth:
  assumes "i \<le> length buf" and "\<forall>q < i. buf ! q = 0" and "q < length buf"
  shows "readbits_words (nat_words m) i buf ! q =
    (if q < i then word_of_nat (m div 256 ^ (i - 1 - q)) else buf ! q)"
  using assms
proof (induction m arbitrary: i buf rule: nat_words.induct)
  case (1 m)
  show ?case
  proof (cases "m = 0")
    case True
    with "1.prems" show ?thesis
      by (simp add: nat_words.simps)
  next
    case False
    let ?w = "word_of_nat (m mod 2 ^ 64) :: u64"
    define buf' where "buf' = snd (readbits_word 8 ?w i buf)"
    have rb: "readbits_word 8 ?w i buf = (i - 8, buf')"
      by (simp only: buf'_def prod_eq_iff readbits_word_fst fst_conv snd_conv simp_thms)
    have len: "length buf' = length buf"
      by (simp only: buf'_def readbits_word_len)
    have nth: "buf' ! r = (if i - 8 \<le> r \<and> r < i then word_of_nat (m div 256 ^ (i - 1 - r)) else buf ! r)"
      if "r < length buf" for r
      using readbits_word_nth [OF "1.prems"(1) that, of 8 ?w] ucast_shift_word [of "i - 1 - r" m]
      unfolding buf'_def by (cases "i - 8 \<le> r \<and> r < i") auto
    have "readbits_words (nat_words m) i buf = readbits_words (nat_words (m div 2 ^ 64)) (i - 8) buf'"
      using False by (subst nat_words.simps) (simp only: if_False readbits_words.simps rb prod.case)
    moreover have "i - 8 \<le> length buf'" "\<forall>r < i - 8. buf' ! r = 0" "q < length buf'"
      using "1.prems" by (simp_all add: len nth)
    ultimately have IH: "readbits_words (nat_words m) i buf ! q =
        (if q < i - 8 then word_of_nat (m div 2 ^ 64 div 256 ^ (i - 8 - 1 - q)) else buf' ! q)"
      using "1.IH" [OF False, of "i - 8" buf'] by (simp only:)
    show ?thesis
    proof (cases "q < i - 8")
      case True
      have "(2 :: nat) ^ 64 * 256 ^ (i - 8 - 1 - q) = 256 ^ (8 + (i - 8 - 1 - q))"
        by (simp only: power_add) simp
      also have "8 + (i - 8 - 1 - q) = i - 1 - q"
        using True by simp
      finally have "m div 2 ^ 64 div 256 ^ (i - 8 - 1 - q) = m div 256 ^ (i - 1 - q)"
        by (simp only: div_mult2_eq [symmetric])
      moreover have "q < i"
        using True by simp
      ultimately show ?thesis
        using True by (simp only: IH if_True)
    next
      case False
      then show ?thesis
        using "1.prems" by (simp only: IH nth) auto
    qed
  qed
qed

lemma ReadBits_spec: "0 \<le> x \<Longrightarrow> ReadBits x (replicate n 0) = be_bytes n (nat x)"
  by (simp add: ReadBits_def Bits_def readbits_words_nth list_eq_iff_nth_eq nth_be_bytes)

lemma PaddedBigBytes_spec:
  assumes "0 \<le> x" "x < 256 ^ n"
  shows "PaddedBigBytes x n = be_bytes n (nat x)"
proof (cases "n \<le> BitLen x div 8")
  case True
  have len: "length (Bytes x) \<le> n"
    using assms by (simp add: length_Bytes_le)
  have "\<not> length (Bytes x) < n"
  proof
    assume "length (Bytes x) < n"
    then have "length (Bytes x) \<le> n - 1" and n: "0 < n"
      by auto
    then have "x < 256 ^ (n - 1)"
      using assms by (simp add: length_Bytes_le)
    also have "256 ^ (n - 1) = (2 :: int) ^ (8 * (n - 1))"
      by (simp add: power_mult)
    finally have "BitLen x \<le> 8 * (n - 1)"
      using assms by (simp add: BitLen_le)
    then show False
      using True n by (simp add: div_le_mono)
  qed
  with len have "length (Bytes x) = n"
    by simp
  then have "Bytes x = be_bytes n (nat x)"
    using assms by (intro be_bytes_unique) (simp_all add: SetBytes_Bytes)
  with True show ?thesis
    by (simp add: PaddedBigBytes_def)
next
  case False
  then show ?thesis
    using assms by (simp add: PaddedBigBytes_def ReadBits_spec)
qed

subsection \<open>Overflow flags\<close>

lemma unat_max: "unat MaxUint64 = 2 ^ 64 - 1"
  by (simp add: MaxUint64_def)

lemma le_MaxUint64: "x \<le> MaxUint64"
  using unat_less_2p64 [of x] by (simp add: word_le_nat_alt unat_max)

lemma SafeAdd_spec:
  "SafeAdd x y = (z, ov) \<Longrightarrow> (ov \<longleftrightarrow> 2 ^ 64 \<le> unat x + unat y) \<and> (\<not> ov \<longrightarrow> unat z = unat x + unat y)"
proof -
  assume "SafeAdd x y = (z, ov)"
  then have z: "z = x + y" and ov: "ov \<longleftrightarrow> MaxUint64 - x < y"
    by (auto simp: SafeAdd_def)
  have "unat (MaxUint64 - x) = 2 ^ 64 - 1 - unat x"
    by (simp only: unat_sub_nowrap le_MaxUint64 unat_max)
  then have "ov \<longleftrightarrow> 2 ^ 64 \<le> unat x + unat y"
    using unat_less_2p64 [of x] by (auto simp: ov word_less_nat_alt)
  then show ?thesis
    by (auto simp: z unat_plus_nowrap)
qed

lemma SafeMul_spec:
  "SafeMul x y = (z, ov) \<Longrightarrow> (ov \<longleftrightarrow> 2 ^ 64 \<le> unat x * unat y) \<and> (\<not> ov \<longrightarrow> unat z = unat x * unat y)"
proof (cases "x = 0 \<or> y = 0")
  case False
  assume "SafeMul x y = (z, ov)"
  then have z: "z = x * y" and ov: "ov \<longleftrightarrow> MaxUint64 div x < y"
    using False by (auto simp: SafeMul_def)
  have "0 < unat x"
    using False by (simp add: unat_gt_0)
  then have "(2 ^ 64 - 1) div unat x < unat y \<longleftrightarrow> 2 ^ 64 \<le> unat x * unat y"
    by (simp only: div_less_iff_less_mult mult.commute) auto
  then have "ov \<longleftrightarrow> 2 ^ 64 \<le> unat x * unat y"
    by (simp add: ov word_less_nat_alt unat_div unat_max)
  then show ?thesis
    by (auto simp: z unat_mult_nowrap)
qed (auto simp: SafeMul_def)

lemma SafeSub_spec:
  "SafeSub x y = (z, ov) \<Longrightarrow> (ov \<longleftrightarrow> unat x < unat y) \<and> (\<not> ov \<longrightarrow> unat z = unat x - unat y)"
  by (auto simp: SafeSub_def word_less_nat_alt unat_sub_nowrap word_le_nat_alt)

section \<open>Properties\<close>

text \<open>
  C31. The square-and-multiply loop of \<^verbatim>\<open>Exp\<close> over the machine words of the exponent computes the
  power modulo two to the 256.
\<close>

theorem Exp_correct: "0 \<le> e \<Longrightarrow> Exp b e = b ^ nat e mod 2 ^ 256"
  by (rule Exp_power)

theorem Exp_correct_witness: "Exp 7 5 = 16807"
  using Exp_correct [of 5 7] by simp

text \<open>
  \<^verbatim>\<open>PaddedBigBytes\<close> writes an integer that fits as exactly n big-endian bytes, and reading them back
  gives the integer.
\<close>

lemma PaddedBigBytes_roundtrip:
  "0 \<le> x \<Longrightarrow> x < 256 ^ n \<Longrightarrow> length (PaddedBigBytes x n) = n \<and> SetBytes (PaddedBigBytes x n) = x"
  by (simp add: PaddedBigBytes_spec SetBytes_be_bytes nat_less_iff of_nat_power)

end
