(* ===== verification/Common_Types.thy ===== *)
theory Common_Types
  imports Big_Math
begin

text \<open>
  \<^verbatim>\<open>src/common/types.go\<close> and \<^verbatim>\<open>src/common/bytes.go\<close>: the 32-byte \<^verbatim>\<open>Hash\<close> and the 20-byte \<^verbatim>\<open>Address\<close>,
  their conversions from byte strings and big integers, and the padding helpers.  The two array types
  share one contract, the locale \<open>fixed_bytes\<close>, interpreted once for each of them.
\<close>

type_synonym Hash = bytes
type_synonym Address = bytes

definition HashLength :: nat where "HashLength = 32"
definition AddressLength :: nat where "AddressLength = 20"

text \<open>The zero values \<^verbatim>\<open>Hash{}\<close> and \<^verbatim>\<open>Address{}\<close>.\<close>

definition zeroHash :: Hash where "zeroHash = replicate HashLength 0"
definition zeroAddress :: Address where "zeroAddress = replicate AddressLength 0"

text \<open>
  \<^verbatim>\<open>SetBytes\<close> crops from the left and copies to the end of the array; the bytes before stay as they
  were.
\<close>

definition Hash_SetBytes :: "Hash \<Rightarrow> bytes \<Rightarrow> Hash" where
  "Hash_SetBytes h b =
     (let b' = (if HashLength < length b then drop (length b - HashLength) b else b)
      in take (HashLength - length b') h @ b')"

definition BytesToHash :: "bytes \<Rightarrow> Hash" where
  "BytesToHash b = Hash_SetBytes zeroHash b"

definition bytes_of_string :: "string \<Rightarrow> bytes" where
  "bytes_of_string s = map of_char s"

definition StringToHash :: "string \<Rightarrow> Hash" where
  "StringToHash s = BytesToHash (bytes_of_string s)"

definition BigToHash :: "int \<Rightarrow> Hash" where
  "BigToHash b = BytesToHash (Bytes b)"

definition Hash_Big :: "Hash \<Rightarrow> int" where
  "Hash_Big h = SetBytes h"

definition EmptyHash :: "Hash \<Rightarrow> bool" where
  "EmptyHash h \<longleftrightarrow> h = zeroHash"

definition Address_SetBytes :: "Address \<Rightarrow> bytes \<Rightarrow> Address" where
  "Address_SetBytes a b =
     (let b' = (if AddressLength < length b then drop (length b - AddressLength) b else b)
      in take (AddressLength - length b') a @ b')"

definition BytesToAddress :: "bytes \<Rightarrow> Address" where
  "BytesToAddress b = Address_SetBytes zeroAddress b"

definition StringToAddress :: "string \<Rightarrow> Address" where
  "StringToAddress s = BytesToAddress (bytes_of_string s)"

definition BigToAddress :: "int \<Rightarrow> Address" where
  "BigToAddress b = BytesToAddress (Bytes b)"

definition Address_Big :: "Address \<Rightarrow> int" where
  "Address_Big a = SetBytes a"

definition Address_Hash :: "Address \<Rightarrow> Hash" where
  "Address_Hash a = BytesToHash a"

text \<open>The length argument is a Go \<^verbatim>\<open>int\<close>; a negative one leaves the slice alone.\<close>

definition RightPadBytes :: "bytes \<Rightarrow> int \<Rightarrow> bytes" where
  "RightPadBytes sl l =
     (if l \<le> int (length sl) then sl else sl @ replicate (nat l - length sl) 0)"

definition LeftPadBytes :: "bytes \<Rightarrow> int \<Rightarrow> bytes" where
  "LeftPadBytes sl l =
     (if l \<le> int (length sl) then sl else replicate (nat l - length sl) 0 @ sl)"

section \<open>The contract of the fixed-width byte arrays\<close>

locale fixed_bytes =
  fixes width :: nat
    and of_bytes :: "bytes \<Rightarrow> bytes"
  assumes of_bytes_length: "length (of_bytes b) = width"
    and of_bytes_value: "SetBytes (of_bytes b) = SetBytes b mod 256 ^ width"
begin

lemma of_bytes_be: "of_bytes b = be_bytes width (nat (SetBytes b mod 256 ^ width))"
  by (rule be_bytes_unique) (simp_all add: of_bytes_length of_bytes_value)

lemma of_bytes_id: "length b = width \<Longrightarrow> of_bytes b = b"
  using SetBytes_inject [of "of_bytes b" b] SetBytes_bound [of b]
  by (simp add: of_bytes_length of_bytes_value)

lemma of_bytes_eq_iff:
  "of_bytes b = of_bytes c \<longleftrightarrow> SetBytes b mod 256 ^ width = SetBytes c mod 256 ^ width"
  using SetBytes_inject [of "of_bytes b" "of_bytes c"]
  by (auto simp: of_bytes_length of_bytes_value)

lemma of_big_value: "SetBytes (of_bytes (Bytes x)) = \<bar>x\<bar> mod 256 ^ width"
  by (simp add: of_bytes_value SetBytes_Bytes)

lemma of_big_roundtrip: "0 \<le> x \<Longrightarrow> x < 256 ^ width \<Longrightarrow> SetBytes (of_bytes (Bytes x)) = x"
  by (simp add: of_big_value)

lemma to_big_roundtrip: "length b = width \<Longrightarrow> of_bytes (Bytes (SetBytes b)) = b"
  using of_bytes_eq_iff [of "Bytes (SetBytes b)" b] by (simp add: SetBytes_Bytes of_bytes_id)

lemma of_big_inject:
  "0 \<le> x \<Longrightarrow> x < 256 ^ width \<Longrightarrow> 0 \<le> y \<Longrightarrow> y < 256 ^ width \<Longrightarrow>
   of_bytes (Bytes x) = of_bytes (Bytes y) \<longleftrightarrow> x = y"
  by (simp add: of_bytes_eq_iff SetBytes_Bytes)

end

text \<open>Cropping to the last \<open>n\<close> bytes and padding with zeros on the left keeps the low \<open>8n\<close> bits.\<close>

lemma crop_value: "SetBytes (drop (length b - n) b) = SetBytes b mod 256 ^ n"
proof (cases "n \<le> length b")
  case True
  have "SetBytes b = SetBytes (take (length b - n) b @ drop (length b - n) b)"
    by simp
  also have "\<dots> = SetBytes (take (length b - n) b) * 256 ^ n + SetBytes (drop (length b - n) b)"
    using True by (subst SetBytes_append) simp
  finally have "SetBytes b mod 256 ^ n = SetBytes (drop (length b - n) b) mod 256 ^ n"
    by simp
  then show ?thesis
    using SetBytes_bound [of "drop (length b - n) b"] True by simp
next
  case False
  have "SetBytes b < 256 ^ length b"
    by (rule SetBytes_bound)
  also have "\<dots> \<le> 256 ^ n"
    using False by (intro power_increasing) simp_all
  finally show ?thesis
    using False by simp
qed

lemma BytesToHash_unfold:
  "BytesToHash b = replicate (HashLength - length (drop (length b - HashLength) b)) 0
     @ drop (length b - HashLength) b"
  by (auto simp: BytesToHash_def Hash_SetBytes_def zeroHash_def Let_def)

lemma BytesToAddress_unfold:
  "BytesToAddress b = replicate (AddressLength - length (drop (length b - AddressLength) b)) 0
     @ drop (length b - AddressLength) b"
  by (auto simp: BytesToAddress_def Address_SetBytes_def zeroAddress_def Let_def)

interpretation hash: fixed_bytes HashLength BytesToHash
  by unfold_locales (simp_all only: BytesToHash_unfold SetBytes_replicate_zero crop_value, simp)

interpretation addr: fixed_bytes AddressLength BytesToAddress
  by unfold_locales (simp_all only: BytesToAddress_unfold SetBytes_replicate_zero crop_value, simp)

section \<open>Consequences\<close>

lemma hash_bound: "(256 :: int) ^ HashLength = 2 ^ 256"
  by (simp add: HashLength_def)

lemma length_BigToHash [simp]: "length (BigToHash x) = 32"
  using hash.of_bytes_length by (simp add: BigToHash_def HashLength_def)

lemma length_BytesToHash [simp]: "length (BytesToHash x) = 32"
  using hash.of_bytes_length by (simp add: HashLength_def)

lemma length_BytesToAddress [simp]: "length (BytesToAddress x) = 20"
  using addr.of_bytes_length by (simp add: AddressLength_def)

lemma length_BigToAddress [simp]: "length (BigToAddress x) = 20"
  by (simp add: BigToAddress_def)

lemma Hash_Big_BigToHash: "0 \<le> x \<Longrightarrow> x < 2 ^ 256 \<Longrightarrow> Hash_Big (BigToHash x) = x"
  unfolding Hash_Big_def BigToHash_def by (rule hash.of_big_roundtrip) (simp_all add: HashLength_def)

lemma BigToHash_Hash_Big: "length h = 32 \<Longrightarrow> BigToHash (Hash_Big h) = h"
  unfolding Hash_Big_def BigToHash_def by (rule hash.to_big_roundtrip) (simp add: HashLength_def)

lemma Hash_Big_range: "length h = 32 \<Longrightarrow> 0 \<le> Hash_Big h \<and> Hash_Big h < 2 ^ 256"
  using SetBytes_bound [of h] by (simp add: Hash_Big_def)

lemma Address_Big_range: "length a = 20 \<Longrightarrow> 0 \<le> Address_Big a \<and> Address_Big a < 2 ^ 160"
  using SetBytes_bound [of a] by (simp add: Address_Big_def)

lemma BigToHash_inject:
  "0 \<le> x \<Longrightarrow> x < 2 ^ 256 \<Longrightarrow> 0 \<le> y \<Longrightarrow> y < 2 ^ 256 \<Longrightarrow> BigToHash x = BigToHash y \<longleftrightarrow> x = y"
  unfolding BigToHash_def by (rule hash.of_big_inject) (simp_all add: HashLength_def)

lemma BigToHash_zero: "BigToHash 0 = zeroHash"
  by (simp add: BigToHash_def Bytes_def nat_bytes.simps BytesToHash_unfold zeroHash_def)

lemma EmptyHash_BigToHash: "0 \<le> x \<Longrightarrow> x < 2 ^ 256 \<Longrightarrow> EmptyHash (BigToHash x) \<longleftrightarrow> x = 0"
  using BigToHash_inject [of x 0] by (simp add: EmptyHash_def BigToHash_zero)

lemma length_RightPadBytes: "length (RightPadBytes s l) = max (length s) (nat l)"
  by (auto simp: RightPadBytes_def)

lemma length_LeftPadBytes: "length (LeftPadBytes s l) = max (length s) (nat l)"
  by (auto simp: LeftPadBytes_def)

section \<open>Properties\<close>

text \<open>
  Storage words: an integer below two to the 256 survives the conversion to a hash and back, and
  every 32-byte hash is the conversion of its number.
\<close>

lemma hash_roundtrip:
  "0 \<le> x \<Longrightarrow> x < 2 ^ 256 \<Longrightarrow> length h = HashLength \<Longrightarrow>
   Hash_Big (BigToHash x) = x \<and> BigToHash (Hash_Big h) = h"
  by (metis Hash_Big_BigToHash BigToHash_Hash_Big HashLength_def)

end
