(* ===== verification/Sha3.thy ===== *)
theory Sha3
  imports Common_Types
begin

text \<open>
  \<^verbatim>\<open>src/crypto/sha3\<close>: the Keccak-f[1600] permutation as the code unrolls it (four rounds per loop
  iteration, each round with its own lane numbering), the sponge with its buffering \<^verbatim>\<open>Write\<close>, and the
  \<^verbatim>\<open>Keccak256\<close> entry points of \<^verbatim>\<open>src/crypto/crypto.go\<close>.  The main result is that absorbing is
  independent of how the input is cut into \<^verbatim>\<open>Write\<close> calls, and that hashing never panics and returns
  32 bytes.
\<close>

unbundle bit_operations_syntax

section \<open>The permutation (keccakf.go)\<close>

definition keccak_rc :: "u64 list" where
  "keccak_rc =
    [0x0000000000000001,
     0x0000000000008082,
     0x800000000000808A,
     0x8000000080008000,
     0x000000000000808B,
     0x0000000080000001,
     0x8000000080008081,
     0x8000000000008009,
     0x000000000000008A,
     0x0000000000000088,
     0x0000000080008009,
     0x000000008000000A,
     0x000000008000808B,
     0x800000000000008B,
     0x8000000000008089,
     0x8000000000008003,
     0x8000000000008002,
     0x8000000000000080,
     0x000000000000800A,
     0x800000008000000A,
     0x8000000080008081,
     0x8000000000008080,
     0x0000000080000001,
     0x8000000080008008]"

definition keccak_round1 :: "u64 \<Rightarrow> u64 list \<Rightarrow> u64 list" where
  "keccak_round1 k a =
    (let bc0 = a ! 0 XOR a ! 5 XOR a ! 10 XOR a ! 15 XOR a ! 20;
       bc1 = a ! 1 XOR a ! 6 XOR a ! 11 XOR a ! 16 XOR a ! 21;
       bc2 = a ! 2 XOR a ! 7 XOR a ! 12 XOR a ! 17 XOR a ! 22;
       bc3 = a ! 3 XOR a ! 8 XOR a ! 13 XOR a ! 18 XOR a ! 23;
       bc4 = a ! 4 XOR a ! 9 XOR a ! 14 XOR a ! 19 XOR a ! 24;
       d0 = bc4 XOR (push_bit 1 bc1 OR drop_bit 63 bc1);
       d1 = bc0 XOR (push_bit 1 bc2 OR drop_bit 63 bc2);
       d2 = bc1 XOR (push_bit 1 bc3 OR drop_bit 63 bc3);
       d3 = bc2 XOR (push_bit 1 bc4 OR drop_bit 63 bc4);
       d4 = bc3 XOR (push_bit 1 bc0 OR drop_bit 63 bc0);
       bc0 = a ! 0 XOR d0;
       t = a ! 6 XOR d1;
       bc1 = push_bit 44 t OR drop_bit 20 t;
       t = a ! 12 XOR d2;
       bc2 = push_bit 43 t OR drop_bit 21 t;
       t = a ! 18 XOR d3;
       bc3 = push_bit 21 t OR drop_bit 43 t;
       t = a ! 24 XOR d4;
       bc4 = push_bit 14 t OR drop_bit 50 t;
       a = a[0 := bc0 XOR (bc2 AND NOT bc1) XOR k];
       a = a[6 := bc1 XOR (bc3 AND NOT bc2)];
       a = a[12 := bc2 XOR (bc4 AND NOT bc3)];
       a = a[18 := bc3 XOR (bc0 AND NOT bc4)];
       a = a[24 := bc4 XOR (bc1 AND NOT bc0)];
       t = a ! 10 XOR d0;
       bc2 = push_bit 3 t OR drop_bit 61 t;
       t = a ! 16 XOR d1;
       bc3 = push_bit 45 t OR drop_bit 19 t;
       t = a ! 22 XOR d2;
       bc4 = push_bit 61 t OR drop_bit 3 t;
       t = a ! 3 XOR d3;
       bc0 = push_bit 28 t OR drop_bit 36 t;
       t = a ! 9 XOR d4;
       bc1 = push_bit 20 t OR drop_bit 44 t;
       a = a[10 := bc0 XOR (bc2 AND NOT bc1)];
       a = a[16 := bc1 XOR (bc3 AND NOT bc2)];
       a = a[22 := bc2 XOR (bc4 AND NOT bc3)];
       a = a[3 := bc3 XOR (bc0 AND NOT bc4)];
       a = a[9 := bc4 XOR (bc1 AND NOT bc0)];
       t = a ! 20 XOR d0;
       bc4 = push_bit 18 t OR drop_bit 46 t;
       t = a ! 1 XOR d1;
       bc0 = push_bit 1 t OR drop_bit 63 t;
       t = a ! 7 XOR d2;
       bc1 = push_bit 6 t OR drop_bit 58 t;
       t = a ! 13 XOR d3;
       bc2 = push_bit 25 t OR drop_bit 39 t;
       t = a ! 19 XOR d4;
       bc3 = push_bit 8 t OR drop_bit 56 t;
       a = a[20 := bc0 XOR (bc2 AND NOT bc1)];
       a = a[1 := bc1 XOR (bc3 AND NOT bc2)];
       a = a[7 := bc2 XOR (bc4 AND NOT bc3)];
       a = a[13 := bc3 XOR (bc0 AND NOT bc4)];
       a = a[19 := bc4 XOR (bc1 AND NOT bc0)];
       t = a ! 5 XOR d0;
       bc1 = push_bit 36 t OR drop_bit 28 t;
       t = a ! 11 XOR d1;
       bc2 = push_bit 10 t OR drop_bit 54 t;
       t = a ! 17 XOR d2;
       bc3 = push_bit 15 t OR drop_bit 49 t;
       t = a ! 23 XOR d3;
       bc4 = push_bit 56 t OR drop_bit 8 t;
       t = a ! 4 XOR d4;
       bc0 = push_bit 27 t OR drop_bit 37 t;
       a = a[5 := bc0 XOR (bc2 AND NOT bc1)];
       a = a[11 := bc1 XOR (bc3 AND NOT bc2)];
       a = a[17 := bc2 XOR (bc4 AND NOT bc3)];
       a = a[23 := bc3 XOR (bc0 AND NOT bc4)];
       a = a[4 := bc4 XOR (bc1 AND NOT bc0)];
       t = a ! 15 XOR d0;
       bc3 = push_bit 41 t OR drop_bit 23 t;
       t = a ! 21 XOR d1;
       bc4 = push_bit 2 t OR drop_bit 62 t;
       t = a ! 2 XOR d2;
       bc0 = push_bit 62 t OR drop_bit 2 t;
       t = a ! 8 XOR d3;
       bc1 = push_bit 55 t OR drop_bit 9 t;
       t = a ! 14 XOR d4;
       bc2 = push_bit 39 t OR drop_bit 25 t;
       a = a[15 := bc0 XOR (bc2 AND NOT bc1)];
       a = a[21 := bc1 XOR (bc3 AND NOT bc2)];
       a = a[2 := bc2 XOR (bc4 AND NOT bc3)];
       a = a[8 := bc3 XOR (bc0 AND NOT bc4)];
       a = a[14 := bc4 XOR (bc1 AND NOT bc0)]
     in a)"

definition keccak_round2 :: "u64 \<Rightarrow> u64 list \<Rightarrow> u64 list" where
  "keccak_round2 k a =
    (let bc0 = a ! 0 XOR a ! 5 XOR a ! 10 XOR a ! 15 XOR a ! 20;
       bc1 = a ! 1 XOR a ! 6 XOR a ! 11 XOR a ! 16 XOR a ! 21;
       bc2 = a ! 2 XOR a ! 7 XOR a ! 12 XOR a ! 17 XOR a ! 22;
       bc3 = a ! 3 XOR a ! 8 XOR a ! 13 XOR a ! 18 XOR a ! 23;
       bc4 = a ! 4 XOR a ! 9 XOR a ! 14 XOR a ! 19 XOR a ! 24;
       d0 = bc4 XOR (push_bit 1 bc1 OR drop_bit 63 bc1);
       d1 = bc0 XOR (push_bit 1 bc2 OR drop_bit 63 bc2);
       d2 = bc1 XOR (push_bit 1 bc3 OR drop_bit 63 bc3);
       d3 = bc2 XOR (push_bit 1 bc4 OR drop_bit 63 bc4);
       d4 = bc3 XOR (push_bit 1 bc0 OR drop_bit 63 bc0);
       bc0 = a ! 0 XOR d0;
       t = a ! 16 XOR d1;
       bc1 = push_bit 44 t OR drop_bit 20 t;
       t = a ! 7 XOR d2;
       bc2 = push_bit 43 t OR drop_bit 21 t;
       t = a ! 23 XOR d3;
       bc3 = push_bit 21 t OR drop_bit 43 t;
       t = a ! 14 XOR d4;
       bc4 = push_bit 14 t OR drop_bit 50 t;
       a = a[0 := bc0 XOR (bc2 AND NOT bc1) XOR k];
       a = a[16 := bc1 XOR (bc3 AND NOT bc2)];
       a = a[7 := bc2 XOR (bc4 AND NOT bc3)];
       a = a[23 := bc3 XOR (bc0 AND NOT bc4)];
       a = a[14 := bc4 XOR (bc1 AND NOT bc0)];
       t = a ! 20 XOR d0;
       bc2 = push_bit 3 t OR drop_bit 61 t;
       t = a ! 11 XOR d1;
       bc3 = push_bit 45 t OR drop_bit 19 t;
       t = a ! 2 XOR d2;
       bc4 = push_bit 61 t OR drop_bit 3 t;
       t = a ! 18 XOR d3;
       bc0 = push_bit 28 t OR drop_bit 36 t;
       t = a ! 9 XOR d4;
       bc1 = push_bit 20 t OR drop_bit 44 t;
       a = a[20 := bc0 XOR (bc2 AND NOT bc1)];
       a = a[11 := bc1 XOR (bc3 AND NOT bc2)];
       a = a[2 := bc2 XOR (bc4 AND NOT bc3)];
       a = a[18 := bc3 XOR (bc0 AND NOT bc4)];
       a = a[9 := bc4 XOR (bc1 AND NOT bc0)];
       t = a ! 15 XOR d0;
       bc4 = push_bit 18 t OR drop_bit 46 t;
       t = a ! 6 XOR d1;
       bc0 = push_bit 1 t OR drop_bit 63 t;
       t = a ! 22 XOR d2;
       bc1 = push_bit 6 t OR drop_bit 58 t;
       t = a ! 13 XOR d3;
       bc2 = push_bit 25 t OR drop_bit 39 t;
       t = a ! 4 XOR d4;
       bc3 = push_bit 8 t OR drop_bit 56 t;
       a = a[15 := bc0 XOR (bc2 AND NOT bc1)];
       a = a[6 := bc1 XOR (bc3 AND NOT bc2)];
       a = a[22 := bc2 XOR (bc4 AND NOT bc3)];
       a = a[13 := bc3 XOR (bc0 AND NOT bc4)];
       a = a[4 := bc4 XOR (bc1 AND NOT bc0)];
       t = a ! 10 XOR d0;
       bc1 = push_bit 36 t OR drop_bit 28 t;
       t = a ! 1 XOR d1;
       bc2 = push_bit 10 t OR drop_bit 54 t;
       t = a ! 17 XOR d2;
       bc3 = push_bit 15 t OR drop_bit 49 t;
       t = a ! 8 XOR d3;
       bc4 = push_bit 56 t OR drop_bit 8 t;
       t = a ! 24 XOR d4;
       bc0 = push_bit 27 t OR drop_bit 37 t;
       a = a[10 := bc0 XOR (bc2 AND NOT bc1)];
       a = a[1 := bc1 XOR (bc3 AND NOT bc2)];
       a = a[17 := bc2 XOR (bc4 AND NOT bc3)];
       a = a[8 := bc3 XOR (bc0 AND NOT bc4)];
       a = a[24 := bc4 XOR (bc1 AND NOT bc0)];
       t = a ! 5 XOR d0;
       bc3 = push_bit 41 t OR drop_bit 23 t;
       t = a ! 21 XOR d1;
       bc4 = push_bit 2 t OR drop_bit 62 t;
       t = a ! 12 XOR d2;
       bc0 = push_bit 62 t OR drop_bit 2 t;
       t = a ! 3 XOR d3;
       bc1 = push_bit 55 t OR drop_bit 9 t;
       t = a ! 19 XOR d4;
       bc2 = push_bit 39 t OR drop_bit 25 t;
       a = a[5 := bc0 XOR (bc2 AND NOT bc1)];
       a = a[21 := bc1 XOR (bc3 AND NOT bc2)];
       a = a[12 := bc2 XOR (bc4 AND NOT bc3)];
       a = a[3 := bc3 XOR (bc0 AND NOT bc4)];
       a = a[19 := bc4 XOR (bc1 AND NOT bc0)]
     in a)"

definition keccak_round3 :: "u64 \<Rightarrow> u64 list \<Rightarrow> u64 list" where
  "keccak_round3 k a =
    (let bc0 = a ! 0 XOR a ! 5 XOR a ! 10 XOR a ! 15 XOR a ! 20;
       bc1 = a ! 1 XOR a ! 6 XOR a ! 11 XOR a ! 16 XOR a ! 21;
       bc2 = a ! 2 XOR a ! 7 XOR a ! 12 XOR a ! 17 XOR a ! 22;
       bc3 = a ! 3 XOR a ! 8 XOR a ! 13 XOR a ! 18 XOR a ! 23;
       bc4 = a ! 4 XOR a ! 9 XOR a ! 14 XOR a ! 19 XOR a ! 24;
       d0 = bc4 XOR (push_bit 1 bc1 OR drop_bit 63 bc1);
       d1 = bc0 XOR (push_bit 1 bc2 OR drop_bit 63 bc2);
       d2 = bc1 XOR (push_bit 1 bc3 OR drop_bit 63 bc3);
       d3 = bc2 XOR (push_bit 1 bc4 OR drop_bit 63 bc4);
       d4 = bc3 XOR (push_bit 1 bc0 OR drop_bit 63 bc0);
       bc0 = a ! 0 XOR d0;
       t = a ! 11 XOR d1;
       bc1 = push_bit 44 t OR drop_bit 20 t;
       t = a ! 22 XOR d2;
       bc2 = push_bit 43 t OR drop_bit 21 t;
       t = a ! 8 XOR d3;
       bc3 = push_bit 21 t OR drop_bit 43 t;
       t = a ! 19 XOR d4;
       bc4 = push_bit 14 t OR drop_bit 50 t;
       a = a[0 := bc0 XOR (bc2 AND NOT bc1) XOR k];
       a = a[11 := bc1 XOR (bc3 AND NOT bc2)];
       a = a[22 := bc2 XOR (bc4 AND NOT bc3)];
       a = a[8 := bc3 XOR (bc0 AND NOT bc4)];
       a = a[19 := bc4 XOR (bc1 AND NOT bc0)];
       t = a ! 15 XOR d0;
       bc2 = push_bit 3 t OR drop_bit 61 t;
       t = a ! 1 XOR d1;
       bc3 = push_bit 45 t OR drop_bit 19 t;
       t = a ! 12 XOR d2;
       bc4 = push_bit 61 t OR drop_bit 3 t;
       t = a ! 23 XOR d3;
       bc0 = push_bit 28 t OR drop_bit 36 t;
       t = a ! 9 XOR d4;
       bc1 = push_bit 20 t OR drop_bit 44 t;
       a = a[15 := bc0 XOR (bc2 AND NOT bc1)];
       a = a[1 := bc1 XOR (bc3 AND NOT bc2)];
       a = a[12 := bc2 XOR (bc4 AND NOT bc3)];
       a = a[23 := bc3 XOR (bc0 AND NOT bc4)];
       a = a[9 := bc4 XOR (bc1 AND NOT bc0)];
       t = a ! 5 XOR d0;
       bc4 = push_bit 18 t OR drop_bit 46 t;
       t = a ! 16 XOR d1;
       bc0 = push_bit 1 t OR drop_bit 63 t;
       t = a ! 2 XOR d2;
       bc1 = push_bit 6 t OR drop_bit 58 t;
       t = a ! 13 XOR d3;
       bc2 = push_bit 25 t OR drop_bit 39 t;
       t = a ! 24 XOR d4;
       bc3 = push_bit 8 t OR drop_bit 56 t;
       a = a[5 := bc0 XOR (bc2 AND NOT bc1)];
       a = a[16 := bc1 XOR (bc3 AND NOT bc2)];
       a = a[2 := bc2 XOR (bc4 AND NOT bc3)];
       a = a[13 := bc3 XOR (bc0 AND NOT bc4)];
       a = a[24 := bc4 XOR (bc1 AND NOT bc0)];
       t = a ! 20 XOR d0;
       bc1 = push_bit 36 t OR drop_bit 28 t;
       t = a ! 6 XOR d1;
       bc2 = push_bit 10 t OR drop_bit 54 t;
       t = a ! 17 XOR d2;
       bc3 = push_bit 15 t OR drop_bit 49 t;
       t = a ! 3 XOR d3;
       bc4 = push_bit 56 t OR drop_bit 8 t;
       t = a ! 14 XOR d4;
       bc0 = push_bit 27 t OR drop_bit 37 t;
       a = a[20 := bc0 XOR (bc2 AND NOT bc1)];
       a = a[6 := bc1 XOR (bc3 AND NOT bc2)];
       a = a[17 := bc2 XOR (bc4 AND NOT bc3)];
       a = a[3 := bc3 XOR (bc0 AND NOT bc4)];
       a = a[14 := bc4 XOR (bc1 AND NOT bc0)];
       t = a ! 10 XOR d0;
       bc3 = push_bit 41 t OR drop_bit 23 t;
       t = a ! 21 XOR d1;
       bc4 = push_bit 2 t OR drop_bit 62 t;
       t = a ! 7 XOR d2;
       bc0 = push_bit 62 t OR drop_bit 2 t;
       t = a ! 18 XOR d3;
       bc1 = push_bit 55 t OR drop_bit 9 t;
       t = a ! 4 XOR d4;
       bc2 = push_bit 39 t OR drop_bit 25 t;
       a = a[10 := bc0 XOR (bc2 AND NOT bc1)];
       a = a[21 := bc1 XOR (bc3 AND NOT bc2)];
       a = a[7 := bc2 XOR (bc4 AND NOT bc3)];
       a = a[18 := bc3 XOR (bc0 AND NOT bc4)];
       a = a[4 := bc4 XOR (bc1 AND NOT bc0)]
     in a)"

definition keccak_round4 :: "u64 \<Rightarrow> u64 list \<Rightarrow> u64 list" where
  "keccak_round4 k a =
    (let bc0 = a ! 0 XOR a ! 5 XOR a ! 10 XOR a ! 15 XOR a ! 20;
       bc1 = a ! 1 XOR a ! 6 XOR a ! 11 XOR a ! 16 XOR a ! 21;
       bc2 = a ! 2 XOR a ! 7 XOR a ! 12 XOR a ! 17 XOR a ! 22;
       bc3 = a ! 3 XOR a ! 8 XOR a ! 13 XOR a ! 18 XOR a ! 23;
       bc4 = a ! 4 XOR a ! 9 XOR a ! 14 XOR a ! 19 XOR a ! 24;
       d0 = bc4 XOR (push_bit 1 bc1 OR drop_bit 63 bc1);
       d1 = bc0 XOR (push_bit 1 bc2 OR drop_bit 63 bc2);
       d2 = bc1 XOR (push_bit 1 bc3 OR drop_bit 63 bc3);
       d3 = bc2 XOR (push_bit 1 bc4 OR drop_bit 63 bc4);
       d4 = bc3 XOR (push_bit 1 bc0 OR drop_bit 63 bc0);
       bc0 = a ! 0 XOR d0;
       t = a ! 1 XOR d1;
       bc1 = push_bit 44 t OR drop_bit 20 t;
       t = a ! 2 XOR d2;
       bc2 = push_bit 43 t OR drop_bit 21 t;
       t = a ! 3 XOR d3;
       bc3 = push_bit 21 t OR drop_bit 43 t;
       t = a ! 4 XOR d4;
       bc4 = push_bit 14 t OR drop_bit 50 t;
       a = a[0 := bc0 XOR (bc2 AND NOT bc1) XOR k];
       a = a[1 := bc1 XOR (bc3 AND NOT bc2)];
       a = a[2 := bc2 XOR (bc4 AND NOT bc3)];
       a = a[3 := bc3 XOR (bc0 AND NOT bc4)];
       a = a[4 := bc4 XOR (bc1 AND NOT bc0)];
       t = a ! 5 XOR d0;
       bc2 = push_bit 3 t OR drop_bit 61 t;
       t = a ! 6 XOR d1;
       bc3 = push_bit 45 t OR drop_bit 19 t;
       t = a ! 7 XOR d2;
       bc4 = push_bit 61 t OR drop_bit 3 t;
       t = a ! 8 XOR d3;
       bc0 = push_bit 28 t OR drop_bit 36 t;
       t = a ! 9 XOR d4;
       bc1 = push_bit 20 t OR drop_bit 44 t;
       a = a[5 := bc0 XOR (bc2 AND NOT bc1)];
       a = a[6 := bc1 XOR (bc3 AND NOT bc2)];
       a = a[7 := bc2 XOR (bc4 AND NOT bc3)];
       a = a[8 := bc3 XOR (bc0 AND NOT bc4)];
       a = a[9 := bc4 XOR (bc1 AND NOT bc0)];
       t = a ! 10 XOR d0;
       bc4 = push_bit 18 t OR drop_bit 46 t;
       t = a ! 11 XOR d1;
       bc0 = push_bit 1 t OR drop_bit 63 t;
       t = a ! 12 XOR d2;
       bc1 = push_bit 6 t OR drop_bit 58 t;
       t = a ! 13 XOR d3;
       bc2 = push_bit 25 t OR drop_bit 39 t;
       t = a ! 14 XOR d4;
       bc3 = push_bit 8 t OR drop_bit 56 t;
       a = a[10 := bc0 XOR (bc2 AND NOT bc1)];
       a = a[11 := bc1 XOR (bc3 AND NOT bc2)];
       a = a[12 := bc2 XOR (bc4 AND NOT bc3)];
       a = a[13 := bc3 XOR (bc0 AND NOT bc4)];
       a = a[14 := bc4 XOR (bc1 AND NOT bc0)];
       t = a ! 15 XOR d0;
       bc1 = push_bit 36 t OR drop_bit 28 t;
       t = a ! 16 XOR d1;
       bc2 = push_bit 10 t OR drop_bit 54 t;
       t = a ! 17 XOR d2;
       bc3 = push_bit 15 t OR drop_bit 49 t;
       t = a ! 18 XOR d3;
       bc4 = push_bit 56 t OR drop_bit 8 t;
       t = a ! 19 XOR d4;
       bc0 = push_bit 27 t OR drop_bit 37 t;
       a = a[15 := bc0 XOR (bc2 AND NOT bc1)];
       a = a[16 := bc1 XOR (bc3 AND NOT bc2)];
       a = a[17 := bc2 XOR (bc4 AND NOT bc3)];
       a = a[18 := bc3 XOR (bc0 AND NOT bc4)];
       a = a[19 := bc4 XOR (bc1 AND NOT bc0)];
       t = a ! 20 XOR d0;
       bc3 = push_bit 41 t OR drop_bit 23 t;
       t = a ! 21 XOR d1;
       bc4 = push_bit 2 t OR drop_bit 62 t;
       t = a ! 22 XOR d2;
       bc0 = push_bit 62 t OR drop_bit 2 t;
       t = a ! 23 XOR d3;
       bc1 = push_bit 55 t OR drop_bit 9 t;
       t = a ! 24 XOR d4;
       bc2 = push_bit 39 t OR drop_bit 25 t;
       a = a[20 := bc0 XOR (bc2 AND NOT bc1)];
       a = a[21 := bc1 XOR (bc3 AND NOT bc2)];
       a = a[22 := bc2 XOR (bc4 AND NOT bc3)];
       a = a[23 := bc3 XOR (bc0 AND NOT bc4)];
       a = a[24 := bc4 XOR (bc1 AND NOT bc0)]
     in a)"

text \<open>One iteration of the loop \<^verbatim>\<open>for i := 0; i < 24; i += 4\<close>.\<close>

definition keccak_4rounds :: "nat \<Rightarrow> u64 list \<Rightarrow> u64 list" where
  "keccak_4rounds i a =
    keccak_round4 (keccak_rc ! (i + 3)) (keccak_round3 (keccak_rc ! (i + 2))
      (keccak_round2 (keccak_rc ! (i + 1)) (keccak_round1 (keccak_rc ! i) a)))"

definition keccakF1600 :: "u64 list \<Rightarrow> u64 list" where
  "keccakF1600 a = fold keccak_4rounds [0, 4, 8, 12, 16, 20] a"

section \<open>The sponge (sha3.go)\<close>

datatype spongeDirection = spongeAbsorbing | spongeSqueezing

record sponge =
  sp_a :: "u64 list"
  sp_buf :: bytes
  sp_rate :: nat
  sp_dsbyte :: u8
  sp_outputLen :: nat
  sp_direction :: spongeDirection

text \<open>\<^verbatim>\<open>binary.LittleEndian\<close>: eight bytes to a word and back.\<close>

definition le_Uint64 :: "bytes \<Rightarrow> u64" where
  "le_Uint64 b = word_of_int (SetBytes (rev (take 8 b)))"

definition le_PutUint64 :: "u64 \<Rightarrow> bytes" where
  "le_PutUint64 v = rev (be_bytes 8 (unat v))"

text \<open>\<^verbatim>\<open>xorInGeneric\<close>: lane \<open>i\<close> is xored with the \<open>i\<close>-th word of the block.\<close>

fun xorIn_loop :: "nat \<Rightarrow> nat \<Rightarrow> bytes \<Rightarrow> u64 list \<Rightarrow> u64 list" where
  "xorIn_loop 0 i b l = l"
| "xorIn_loop (Suc n) i b l = xorIn_loop n (Suc i) (drop 8 b) (l[i := l ! i XOR le_Uint64 b])"

definition xorIn :: "sponge \<Rightarrow> bytes \<Rightarrow> sponge" where
  "xorIn d b = d\<lparr>sp_a := xorIn_loop (length b div 8) 0 b (sp_a d)\<rparr>"

text \<open>\<^verbatim>\<open>copyOutGeneric\<close> fills a block of \<^verbatim>\<open>rate\<close> bytes (a multiple of eight for every constructor).\<close>

definition copyOut :: "sponge \<Rightarrow> bytes" where
  "copyOut d = concat (map (\<lambda>i. le_PutUint64 (sp_a d ! i)) [0..<sp_rate d div 8])"

definition permute :: "sponge \<Rightarrow> sponge" where
  "permute d = (case sp_direction d of
     spongeAbsorbing \<Rightarrow> (let d = xorIn d (sp_buf d) in d\<lparr>sp_buf := [], sp_a := keccakF1600 (sp_a d)\<rparr>)
   | spongeSqueezing \<Rightarrow> (let d = d\<lparr>sp_a := keccakF1600 (sp_a d)\<rparr> in d\<lparr>sp_buf := copyOut d\<rparr>))"

definition padAndPermute :: "sponge \<Rightarrow> u8 \<Rightarrow> sponge" where
  "padAndPermute d ds =
    (let b = sp_buf d @ [ds];
         b = b @ replicate (sp_rate d - length b) 0;
         b = b[sp_rate d - 1 := b ! (sp_rate d - 1) XOR 0x80];
         d = permute (d\<lparr>sp_buf := b\<rparr>);
         d = d\<lparr>sp_direction := spongeSqueezing\<rparr>
     in d\<lparr>sp_buf := copyOut d\<rparr>)"

text \<open>
  The loop of \<^verbatim>\<open>Write\<close>.  Writing to a squeezed sponge panics, a buffer longer than the rate is a slice
  bounds panic, and a zero rate never makes progress; all three are \<open>None\<close>, and none of them happens
  for a sponge made by the constructors of \<^verbatim>\<open>hashes.go\<close>.
\<close>

function sponge_Write :: "sponge \<Rightarrow> bytes \<Rightarrow> sponge option" where
  "sponge_Write d p =
    (if sp_direction d \<noteq> spongeAbsorbing \<or> sp_rate d = 0 \<or> sp_rate d < length (sp_buf d) then None
     else if p = [] then Some d
     else if sp_buf d = [] \<and> sp_rate d \<le> length p then
       (let d' = xorIn d (take (sp_rate d) p) in
        sponge_Write (d'\<lparr>sp_a := keccakF1600 (sp_a d')\<rparr>) (drop (sp_rate d) p))
     else
       (let todo = min (sp_rate d - length (sp_buf d)) (length p);
            d' = d\<lparr>sp_buf := sp_buf d @ take todo p\<rparr>
        in sponge_Write (if length (sp_buf d') = sp_rate d' then permute d' else d') (drop todo p)))"
  by pat_completeness auto
termination
  by (relation "measures [\<lambda>(d, p). length p, \<lambda>(d, p). length (sp_buf d)]")
    (auto simp: Let_def permute_def xorIn_def min_def split: if_splits)

declare sponge_Write.simps [simp del]

text \<open>
  The loop of \<^verbatim>\<open>Read\<close> on a squeezing sponge; an empty block (rate below eight) would never deliver
  output.
\<close>

fun sponge_Read_loop :: "nat \<Rightarrow> sponge \<Rightarrow> nat \<Rightarrow> bytes option" where
  "sponge_Read_loop 0 d n = (if n = 0 then Some [] else None)"
| "sponge_Read_loop (Suc fuel) d n =
    (if n = 0 then Some []
     else (let m = min n (length (sp_buf d));
               out = take m (sp_buf d);
               d' = d\<lparr>sp_buf := drop m (sp_buf d)\<rparr>;
               d'' = (if sp_buf d' = [] then permute d' else d')
           in map_option ((@) out) (sponge_Read_loop fuel d'' (n - m))))"

text \<open>\<^verbatim>\<open>Read\<close> of \<open>n\<close> bytes; one iteration per output byte is more than enough.\<close>

definition sponge_Read :: "sponge \<Rightarrow> nat \<Rightarrow> bytes option" where
  "sponge_Read d n =
    (let d' = (if sp_direction d = spongeAbsorbing then padAndPermute d (sp_dsbyte d) else d)
     in sponge_Read_loop n d' n)"

definition sponge_Sum :: "sponge \<Rightarrow> bytes option" where
  "sponge_Sum d = sponge_Read d (sp_outputLen d)"

section \<open>Constructors (hashes.go) and Keccak256 (crypto.go)\<close>

definition new_sponge :: "nat \<Rightarrow> nat \<Rightarrow> u8 \<Rightarrow> sponge" where
  "new_sponge r n ds = \<lparr>sp_a = replicate 25 0, sp_buf = [], sp_rate = r, sp_dsbyte = ds,
     sp_outputLen = n, sp_direction = spongeAbsorbing\<rparr>"

definition NewKeccak256 :: sponge where "NewKeccak256 = new_sponge 136 32 0x01"
definition NewKeccak512 :: sponge where "NewKeccak512 = new_sponge 72 64 0x01"

text \<open>The variadic argument of \<^verbatim>\<open>Keccak256\<close> is a list of byte strings, written one after the other.\<close>

fun write_all :: "sponge \<Rightarrow> bytes list \<Rightarrow> sponge option" where
  "write_all d [] = Some d"
| "write_all d (b # bs) = Option.bind (sponge_Write d b) (\<lambda>d'. write_all d' bs)"

definition Keccak256_res :: "bytes list \<Rightarrow> bytes option" where
  "Keccak256_res data = Option.bind (write_all NewKeccak256 data) sponge_Sum"

definition Keccak256 :: "bytes \<Rightarrow> bytes" where
  "Keccak256 data = (case Keccak256_res [data] of Some h \<Rightarrow> h | None \<Rightarrow> [])"

definition Keccak256Hash :: "bytes \<Rightarrow> Hash" where
  "Keccak256Hash data = BytesToHash (Keccak256 data)"

section \<open>Lengths\<close>

lemma length_Let_word: "(\<And>x :: u64. length (f x) = n) \<Longrightarrow> length (Let e f) = n"
  by (simp add: Let_def)

lemma length_Let_list:
  "length e = n \<Longrightarrow> (\<And>x :: u64 list. length x = n \<Longrightarrow> length (f x) = n) \<Longrightarrow> length (Let e f) = n"
  by (simp add: Let_def)

lemma length_keccak_round1 [simp]: "length (keccak_round1 k l) = length l"
  unfolding keccak_round1_def
  by (rule length_Let_word | rule length_Let_list, simp | assumption)+

lemma length_keccak_round2 [simp]: "length (keccak_round2 k l) = length l"
  unfolding keccak_round2_def
  by (rule length_Let_word | rule length_Let_list, simp | assumption)+

lemma length_keccak_round3 [simp]: "length (keccak_round3 k l) = length l"
  unfolding keccak_round3_def
  by (rule length_Let_word | rule length_Let_list, simp | assumption)+

lemma length_keccak_round4 [simp]: "length (keccak_round4 k l) = length l"
  unfolding keccak_round4_def
  by (rule length_Let_word | rule length_Let_list, simp | assumption)+

lemma length_keccakF1600 [simp]: "length (keccakF1600 l) = length l"
  by (simp add: keccakF1600_def keccak_4rounds_def)

lemma length_xorIn_loop [simp]: "length (xorIn_loop n i b l) = length l"
  by (induction n i b l rule: xorIn_loop.induct) auto

lemma length_le_PutUint64 [simp]: "length (le_PutUint64 v) = 8"
  by (simp add: le_PutUint64_def)

lemma length_copyOut [simp]: "length (copyOut d) = 8 * (sp_rate d div 8)"
  by (simp add: copyOut_def length_concat comp_def sum_list_triv)

lemma copyOut_nonempty [simp]: "8 \<le> sp_rate d \<Longrightarrow> copyOut d \<noteq> []"
  using length_copyOut [of d] by (metis div_greater_zero_iff length_greater_0_conv nat_0_less_mult_iff zero_less_numeral)

lemma xorIn_sel [simp]:
  "sp_buf (xorIn d b) = sp_buf d" "sp_rate (xorIn d b) = sp_rate d"
  "sp_dsbyte (xorIn d b) = sp_dsbyte d" "sp_outputLen (xorIn d b) = sp_outputLen d"
  "sp_direction (xorIn d b) = sp_direction d"
  by (simp_all add: xorIn_def)

lemma permute_sel [simp]:
  "sp_rate (permute d) = sp_rate d" "sp_dsbyte (permute d) = sp_dsbyte d"
  "sp_outputLen (permute d) = sp_outputLen d" "sp_direction (permute d) = sp_direction d"
  by (auto simp: permute_def Let_def split: spongeDirection.splits)

section \<open>Absorbing as a fold over whole blocks\<close>

text \<open>
  The specification of absorbing: as long as a whole block is left, xor it into the state and permute;
  what remains is the buffer.
\<close>

function absorb :: "nat \<Rightarrow> u64 list \<Rightarrow> bytes \<Rightarrow> u64 list \<times> bytes" where
  "absorb r l m =
    (if r = 0 \<or> length m < r then (l, m)
     else absorb r (keccakF1600 (xorIn_loop (r div 8) 0 (take r m) l)) (drop r m))"
  by pat_completeness auto
termination
  by (relation "measure (\<lambda>(r, l, m). length m)") auto

declare absorb.simps [simp del]

lemma absorb_small: "length m < r \<Longrightarrow> absorb r l m = (l, m)"
  by (simp add: absorb.simps)

lemma absorb_block:
  "0 < r \<Longrightarrow> r \<le> length m \<Longrightarrow>
   absorb r l m = absorb r (keccakF1600 (xorIn_loop (r div 8) 0 (take r m) l)) (drop r m)"
  by (simp add: absorb.simps)

lemma absorb_rest: "0 < r \<Longrightarrow> length (snd (absorb r l m)) < r"
  by (induction r l m rule: absorb.induct) (simp add: absorb.simps)

lemma absorb_append:
  "0 < r \<Longrightarrow> absorb r l (m @ m') = absorb r (fst (absorb r l m)) (snd (absorb r l m) @ m')"
proof (induction r l m rule: absorb.induct)
  case (1 r l m)
  show ?case
  proof (cases "length m < r")
    case False
    with 1 show ?thesis
      by (simp add: absorb_block [of r m] absorb_block [of r "m @ m'"])
  qed (simp add: absorb_small)
qed

text \<open>A sponge that may still be written to, with room in its buffer.\<close>

definition absorbing :: "sponge \<Rightarrow> bool" where
  "absorbing d \<longleftrightarrow> sp_direction d = spongeAbsorbing \<and> 0 < sp_rate d \<and> length (sp_buf d) < sp_rate d"

lemma sponge_Write_absorb:
  "absorbing d \<Longrightarrow> sponge_Write d p =
    (case absorb (sp_rate d) (sp_a d) (sp_buf d @ p) of
       (l, m) \<Rightarrow> Some (d\<lparr>sp_a := l, sp_buf := m\<rparr>))"
proof (induction d p rule: sponge_Write.induct)
  case (1 d p)
  let ?r = "sp_rate d"
  have ok: "sp_direction d = spongeAbsorbing" "0 < ?r" "length (sp_buf d) < ?r"
    using "1.prems" by (auto simp: absorbing_def)
  then have guard: "\<not> (sp_direction d \<noteq> spongeAbsorbing \<or> ?r = 0 \<or> ?r < length (sp_buf d))"
    by simp
  consider (empty) "p = []" | (fast) "p \<noteq> []" "sp_buf d = []" "?r \<le> length p"
    | (fill) "p \<noteq> []" "\<not> (sp_buf d = [] \<and> ?r \<le> length p)" "?r \<le> length (sp_buf d @ p)"
    | (short) "p \<noteq> []" "length (sp_buf d @ p) < ?r"
    by (cases "p = []"; cases "?r \<le> length (sp_buf d @ p)") auto
  then show ?case
  proof cases
    case empty
    with ok show ?thesis
      by (simp add: sponge_Write.simps absorb_small)
  next
    case fast
    then have nb: "\<not> (p = [])" "sp_buf d = [] \<and> ?r \<le> length p" by auto
    show ?thesis
      using "1.IH"(1) [OF guard nb refl] fast ok
      by (subst sponge_Write.simps) (simp add: absorbing_def xorIn_def absorb_block [of ?r p])
  next
    case fill
    let ?todo = "?r - length (sp_buf d)"
    let ?d = "d\<lparr>sp_buf := sp_buf d @ take ?todo p\<rparr>"
    have todo: "min ?todo (length p) = ?todo" and full: "length (sp_buf ?d) = ?r"
      using fill ok by (auto simp: min_def)
    have "sp_buf d @ p = sp_buf ?d @ drop ?todo p" by simp
    then have abs: "absorb ?r (sp_a d) (sp_buf d @ p) =
        absorb ?r (sp_a (permute ?d)) (sp_buf (permute ?d) @ drop ?todo p)"
      using ok full fill(3)
      by (simp add: absorb_block [of ?r "sp_buf d @ p"] permute_def Let_def xorIn_def)
    have inv: "absorbing (permute ?d)"
      using ok by (simp add: absorbing_def permute_def Let_def)
    have upd: "(permute ?d)\<lparr>sp_a := l, sp_buf := m\<rparr> = d\<lparr>sp_a := l, sp_buf := m\<rparr>" for l m
      using ok by (simp add: permute_def Let_def xorIn_def)
    have "sponge_Write d p = sponge_Write (permute ?d) (drop ?todo p)"
      using full ok fill(1,2) by (subst sponge_Write.simps) (auto simp: Let_def todo)
    also have "\<dots> = (case absorb ?r (sp_a (permute ?d)) (sp_buf (permute ?d) @ drop ?todo p) of
        (l, m) \<Rightarrow> Some ((permute ?d)\<lparr>sp_a := l, sp_buf := m\<rparr>))"
      using "1.IH"(2) [OF guard fill(1,2) refl refl] inv full ok by (simp add: todo)
    also have "\<dots> = (case absorb ?r (sp_a d) (sp_buf d @ p) of
        (l, m) \<Rightarrow> Some (d\<lparr>sp_a := l, sp_buf := m\<rparr>))"
      by (simp only: abs upd)
    finally show ?thesis .
  next
    case short
    then have todo: "min (?r - length (sp_buf d)) (length p) = length p"
      and nf: "\<not> (sp_buf d = [] \<and> ?r \<le> length p)"
      using ok by auto
    show ?thesis
      using "1.IH"(2) [OF guard short(1) nf refl refl] short ok nf
      by (subst sponge_Write.simps) (simp add: Let_def todo absorb_small sponge_Write.simps)
  qed
qed

lemma absorbing_update:
  "absorbing d \<Longrightarrow> absorbing (d\<lparr>sp_a := fst (absorb (sp_rate d) l m), sp_buf := snd (absorb (sp_rate d) l m)\<rparr>)"
  by (simp add: absorbing_def absorb_rest)

lemma write_all_absorb:
  "absorbing d \<Longrightarrow> write_all d bs = sponge_Write d (concat bs)"
proof (induction bs arbitrary: d)
  case Nil
  then show ?case
    by (auto simp: sponge_Write_absorb absorb_small absorbing_def)
next
  case (Cons b bs)
  let ?r = "sp_rate d"
  obtain l m where lm: "absorb ?r (sp_a d) (sp_buf d @ b) = (l, m)"
    by fastforce
  let ?d = "d\<lparr>sp_a := l, sp_buf := m\<rparr>"
  have inv: "absorbing ?d"
    using absorbing_update [OF Cons.prems, of "sp_a d" "sp_buf d @ b"] by (simp add: lm)
  have r: "0 < ?r"
    using Cons.prems by (simp add: absorbing_def)
  have "absorb ?r (sp_a d) (sp_buf d @ b @ concat bs) = absorb ?r l (m @ concat bs)"
    using absorb_append [OF r, of "sp_a d" "sp_buf d @ b" "concat bs"] by (simp add: lm)
  then show ?case
    using Cons.IH [OF inv] inv Cons.prems by (simp add: sponge_Write_absorb lm split: prod.splits)
qed

lemma NewKeccak256_absorbing: "absorbing NewKeccak256"
  by (simp add: absorbing_def NewKeccak256_def new_sponge_def)

section \<open>Squeezing\<close>

lemma sponge_Read_loop_total:
  "8 \<le> sp_rate d \<Longrightarrow> sp_direction d = spongeSqueezing \<Longrightarrow> sp_buf d \<noteq> [] \<Longrightarrow> n \<le> fuel \<Longrightarrow>
   \<exists>out. sponge_Read_loop fuel d n = Some out \<and> length out = n"
proof (induction fuel arbitrary: d n)
  case (Suc fuel)
  let ?m = "min n (length (sp_buf d))"
  let ?d1 = "d\<lparr>sp_buf := drop ?m (sp_buf d)\<rparr>"
  let ?d2 = "if sp_buf ?d1 = [] then permute ?d1 else ?d1"
  show ?case
  proof (cases "n = 0")
    case False
    have "sp_buf ?d2 \<noteq> []"
      using Suc.prems(1,2) by (auto simp: permute_def Let_def)
    moreover have "n - ?m \<le> fuel"
      using Suc.prems(3,4) False by (cases "sp_buf d") auto
    moreover have "8 \<le> sp_rate ?d2" "sp_direction ?d2 = spongeSqueezing"
      using Suc.prems by auto
    ultimately obtain out where "sponge_Read_loop fuel ?d2 (n - ?m) = Some out" "length out = n - ?m"
      using Suc.IH by blast
    with False show ?thesis
      by (auto simp: Let_def)
  qed simp
qed simp

lemma sponge_Sum_total:
  assumes "absorbing d" "8 \<le> sp_rate d"
  shows "\<exists>h. sponge_Sum d = Some h \<and> length h = sp_outputLen d"
proof -
  let ?d = "padAndPermute d (sp_dsbyte d)"
  have "sp_buf ?d \<noteq> []" "sp_direction ?d = spongeSqueezing" "8 \<le> sp_rate ?d"
    using assms by (auto simp: padAndPermute_def Let_def absorbing_def)
  then show ?thesis
    using assms sponge_Read_loop_total [of ?d "sp_outputLen d" "sp_outputLen d"]
    by (simp add: sponge_Sum_def sponge_Read_def absorbing_def Let_def)
qed

lemma Keccak256_res_total: "\<exists>h. Keccak256_res data = Some h \<and> length h = 32"
proof -
  obtain l m where lm: "absorb (sp_rate NewKeccak256) (sp_a NewKeccak256) (concat data) = (l, m)"
    by fastforce
  let ?d = "NewKeccak256\<lparr>sp_a := l, sp_buf := m\<rparr>"
  have "write_all NewKeccak256 data = Some ?d"
    using write_all_absorb [OF NewKeccak256_absorbing, of data] lm
    by (simp add: sponge_Write_absorb NewKeccak256_absorbing)
      (simp add: NewKeccak256_def new_sponge_def)
  moreover have "absorbing ?d"
    using absorbing_update [OF NewKeccak256_absorbing, of "sp_a NewKeccak256" "concat data"] lm by simp
  moreover have "8 \<le> sp_rate ?d" "sp_outputLen ?d = 32"
    by (simp_all add: NewKeccak256_def new_sponge_def)
  ultimately show ?thesis
    using sponge_Sum_total [of ?d] by (simp add: Keccak256_res_def)
qed

lemma length_Keccak256 [simp]: "length (Keccak256 data) = 32"
  using Keccak256_res_total [of "[data]"] by (auto simp: Keccak256_def)

lemma Keccak256_res_concat: "Keccak256_res data = Some (Keccak256 (concat data))"
proof -
  have "Keccak256_res data = Keccak256_res [concat data]"
    unfolding Keccak256_res_def by (simp add: write_all_absorb NewKeccak256_absorbing)
  then show ?thesis
    using Keccak256_res_total [of "[concat data]"] by (auto simp: Keccak256_def)
qed

lemma length_Keccak256Hash [simp]: "length (Keccak256Hash data) = 32"
  by (simp add: Keccak256Hash_def)

section \<open>Properties\<close>

text \<open>
  C30. The sponge is total and does not depend on how the input is cut into writes: \<^verbatim>\<open>Keccak256\<close> over
  several slices is the 32-byte hash of their concatenation.
\<close>

theorem Keccak256_chunks:
  "Keccak256_res data = Some (Keccak256 (concat data)) \<and> length (Keccak256 (concat data)) = 32"
  by (simp add: Keccak256_res_concat)

end
