(* ===== verification/RLP.thy ===== *)
theory RLP
  imports Common_Types Sha3
begin

text \<open>
  Recursive length prefix encoding: the encoding buffer and the writers of \<^verbatim>\<open>src/rlp/encode.go\<close>, the
  splitting functions of \<^verbatim>\<open>raw.go\<close>, and \<^verbatim>\<open>CreateAddress\<close> of \<^verbatim>\<open>src/crypto/crypto.go\<close>.  The values the
  reflection-driven writers accept form a datatype; a negative big integer is the only error.
\<close>

unbundle bit_operations_syntax

section \<open>Integers and headers\<close>

definition byte_at :: "u64 \<Rightarrow> nat \<Rightarrow> u8" where
  "byte_at i n = ucast (drop_bit n i)"

text \<open>\<^verbatim>\<open>putint\<close> returns the bytes it writes; the source returns how many there are.\<close>

definition putint :: "u64 \<Rightarrow> bytes" where
  "putint i =
    (if i < 0x100 then [byte_at i 0]
     else if i < 0x10000 then [byte_at i 8, byte_at i 0]
     else if i < 0x1000000 then [byte_at i 16, byte_at i 8, byte_at i 0]
     else if i < 0x100000000 then [byte_at i 24, byte_at i 16, byte_at i 8, byte_at i 0]
     else if i < 0x10000000000 then [byte_at i 32, byte_at i 24, byte_at i 16, byte_at i 8, byte_at i 0]
     else if i < 0x1000000000000 then
       [byte_at i 40, byte_at i 32, byte_at i 24, byte_at i 16, byte_at i 8, byte_at i 0]
     else if i < 0x100000000000000 then
       [byte_at i 48, byte_at i 40, byte_at i 32, byte_at i 24, byte_at i 16, byte_at i 8, byte_at i 0]
     else
       [byte_at i 56, byte_at i 48, byte_at i 40, byte_at i 32, byte_at i 24, byte_at i 16, byte_at i 8,
        byte_at i 0])"

text \<open>\<^verbatim>\<open>intsize\<close>: the loop shifts the integer right until nothing is left.\<close>

function intsize_loop :: "nat \<Rightarrow> u64 \<Rightarrow> nat" where
  "intsize_loop sz i = (let i = drop_bit 8 i in if i = 0 then sz else intsize_loop (sz + 1) i)"
  by pat_completeness auto
termination
proof (relation "measure (\<lambda>(sz, i). unat i)")
  fix sz :: nat and i x :: u64
  assume x: "x = drop_bit 8 i" "x \<noteq> 0"
  then have "unat x = unat i div 256"
    by (simp add: drop_bit_eq_div unat_div)
  with x(2) show "((sz + 1, x), (sz, i)) \<in> measure (\<lambda>(sz, i). unat i)"
    by (simp add: unat_eq_0 [symmetric])
qed simp

declare intsize_loop.simps [simp del]

definition intsize :: "u64 \<Rightarrow> nat" where
  "intsize i = intsize_loop 1 i"

definition headsize :: "u64 \<Rightarrow> nat" where
  "headsize sz = (if sz < 56 then 1 else 1 + intsize sz)"

definition ListSize :: "u64 \<Rightarrow> u64" where
  "ListSize contentSize = of_nat (headsize contentSize) + contentSize"

definition puthead :: "u8 \<Rightarrow> u8 \<Rightarrow> u64 \<Rightarrow> bytes" where
  "puthead smalltag largetag sz =
    (if sz < 56 then [smalltag + ucast sz]
     else (let b = putint sz in (largetag + of_nat (length b)) # b))"

section \<open>The encoding buffer\<close>

record listhead =
  lh_offset :: nat
  lh_size :: nat

record encbuf =
  eb_str :: bytes
  eb_lheads :: "listhead list"
  eb_lhsize :: nat

definition eb_reset :: encbuf where
  "eb_reset = \<lparr>eb_str = [], eb_lheads = [], eb_lhsize = 0\<rparr>"

definition eb_append :: "encbuf \<Rightarrow> bytes \<Rightarrow> encbuf" where
  "eb_append w b = w\<lparr>eb_str := eb_str w @ b\<rparr>"

definition eb_size :: "encbuf \<Rightarrow> nat" where
  "eb_size w = length (eb_str w) + eb_lhsize w"

definition encodeStringHeader :: "encbuf \<Rightarrow> nat \<Rightarrow> encbuf" where
  "encodeStringHeader w sz =
    (if sz < 56 then eb_append w [0x80 + of_nat sz]
     else (let b = putint (of_nat sz) in eb_append w ((0xB7 + of_nat (length b)) # b)))"

definition encodeString :: "encbuf \<Rightarrow> bytes \<Rightarrow> encbuf" where
  "encodeString w b =
    (if length b = 1 \<and> b ! 0 \<le> 0x7F then eb_append w [b ! 0]
     else eb_append (encodeStringHeader w (length b)) b)"

text \<open>\<^verbatim>\<open>list\<close> returns a pointer to the new header: its index.\<close>

definition eb_list :: "encbuf \<Rightarrow> nat \<times> encbuf" where
  "eb_list w =
    (length (eb_lheads w),
     w\<lparr>eb_lheads := eb_lheads w @ [\<lparr>lh_offset = length (eb_str w), lh_size = eb_lhsize w\<rparr>]\<rparr>)"

definition eb_listEnd :: "encbuf \<Rightarrow> nat \<Rightarrow> encbuf" where
  "eb_listEnd w i =
    (let lh = eb_lheads w ! i;
         sz = eb_size w - lh_offset lh - lh_size lh
     in w\<lparr>eb_lheads := (eb_lheads w)[i := lh\<lparr>lh_size := sz\<rparr>],
          eb_lhsize := eb_lhsize w + (if sz < 56 then 1 else 1 + intsize (of_nat sz))\<rparr>)"

definition lh_encode :: "listhead \<Rightarrow> bytes" where
  "lh_encode lh = puthead 0xC0 0xF7 (of_nat (lh_size lh))"

text \<open>
  \<^verbatim>\<open>toBytes\<close> fills a buffer of the precomputed size.  \<^verbatim>\<open>copy\<close> stops at the end of the buffer; writing a
  header past it panics.
\<close>

primrec toBytes_loop :: "bytes \<Rightarrow> listhead list \<Rightarrow> nat \<Rightarrow> nat \<Rightarrow> bytes \<Rightarrow> bytes option" where
  "toBytes_loop str [] strpos pos out =
    (if strpos \<le> length str \<and> pos \<le> length out
     then Some (copy_at pos (length out - pos) (drop strpos str) out) else None)"
| "toBytes_loop str (h # hs) strpos pos out =
    (if strpos \<le> lh_offset h \<and> lh_offset h \<le> length str \<and> pos \<le> length out then
       (let piece = take (lh_offset h - strpos) (drop strpos str);
            n = min (length out - pos) (length piece);
            out = copy_at pos n piece out;
            enc = lh_encode h
        in if pos + n + length enc \<le> length out then
             toBytes_loop str hs (strpos + n) (pos + n + length enc)
               (copy_at (pos + n) (length enc) enc out)
           else None)
     else None)"

definition toBytes :: "encbuf \<Rightarrow> bytes option" where
  "toBytes w = toBytes_loop (eb_str w) (eb_lheads w) 0 0 (replicate (eb_size w) 0)"

section \<open>Writers\<close>

datatype val =
    VUint u64
  | VBool bool
  | VBigInt int
  | VBytes bytes
  | VString bytes
  | VRaw bytes
  | VNilInterface
  | VNilPtr val
  | VList "val list"
  | VTail "val list"

text \<open>
  Slices, arrays and structs are lists of their elements.  A nil pointer carries the value that the nil handler of its
  type writes in its place (\<^verbatim>\<open>makePtrWriter\<close>); a slice field tagged \<open>tail\<close> is written without a list header.
\<close>

definition writeUint :: "u64 \<Rightarrow> encbuf \<Rightarrow> encbuf" where
  "writeUint i w =
    (if i = 0 then eb_append w [0x80]
     else if i < 128 then eb_append w [ucast i]
     else (let b = putint i in eb_append w ((0x80 + of_nat (length b)) # b)))"

definition writeBool :: "bool \<Rightarrow> encbuf \<Rightarrow> encbuf" where
  "writeBool b w = eb_append w [if b then 0x01 else 0x80]"

definition writeBigInt :: "int \<Rightarrow> encbuf \<Rightarrow> encbuf option" where
  "writeBigInt i w =
    (if i < 0 then None
     else if i = 0 then Some (eb_append w [0x80])
     else Some (encodeString w (Bytes i)))"

definition writeString :: "bytes \<Rightarrow> encbuf \<Rightarrow> encbuf" where
  "writeString s w =
    (if length s = 1 \<and> s ! 0 \<le> 0x7f then eb_append w [s ! 0]
     else eb_append (encodeStringHeader w (length s)) s)"

fun write_val :: "val \<Rightarrow> encbuf \<Rightarrow> encbuf option" and write_vals :: "val list \<Rightarrow> encbuf \<Rightarrow> encbuf option" where
  "write_val (VUint i) w = Some (writeUint i w)"
| "write_val (VBool b) w = Some (writeBool b w)"
| "write_val (VBigInt i) w = writeBigInt i w"
| "write_val (VBytes b) w = Some (encodeString w b)"
| "write_val (VString s) w = Some (writeString s w)"
| "write_val (VRaw b) w = Some (eb_append w b)"
| "write_val VNilInterface w = Some (eb_append w [0xC0])"
| "write_val (VNilPtr z) w = write_val z w"
| "write_val (VTail vs) w = write_vals vs w"
| "write_val (VList vs) w =
    (let (lh, w) = eb_list w in map_option (\<lambda>w. eb_listEnd w lh) (write_vals vs w))"
| "write_vals [] w = Some w"
| "write_vals (v # vs) w = Option.bind (write_val v w) (write_vals vs)"

definition EncodeToBytes :: "val \<Rightarrow> bytes option" where
  "EncodeToBytes v = Option.bind (write_val v eb_reset) toBytes"

text \<open>\<^verbatim>\<open>CreateAddress\<close> ignores the encoding error, which an address and a nonce cannot raise.\<close>

definition CreateAddress :: "Address \<Rightarrow> u64 \<Rightarrow> Address" where
  "CreateAddress b nonce =
    (case EncodeToBytes (VList [VBytes b, VUint nonce]) of
       None \<Rightarrow> BytesToAddress (drop 12 (Keccak256 []))
     | Some data \<Rightarrow> BytesToAddress (drop 12 (Keccak256 data)))"

section \<open>Splitting (raw.go)\<close>

datatype Kind = Byte_kind | String_kind | List_kind

datatype rlp_error =
    ErrUnexpectedEOF | EOF | EOL | ErrExpectedString | ErrExpectedList | ErrCanonInt | ErrCanonSize | ErrElemTooLarge
  | ErrValueTooLarge | ErrMoreThanOneValue | errNotInList | errNotAtEOL | errUintOverflow

definition readSize :: "bytes \<Rightarrow> nat \<Rightarrow> rlp_error + u64" where
  "readSize b slen =
    (if slen > length b then Inl ErrUnexpectedEOF
     else
       (let s = fold (\<lambda>x s. push_bit 8 s OR ucast x) (take slen b) (0 :: u64) in
        if s < 56 \<or> b ! 0 = 0 then Inl ErrCanonSize else Inr s))"

text \<open>The result of \<^verbatim>\<open>readKind\<close>: the kind, the size of the tag and the size of the content.\<close>

definition readKind :: "bytes \<Rightarrow> rlp_error + (Kind \<times> u64 \<times> u64)" where
  "readKind buf =
    (if length buf = 0 then Inl ErrUnexpectedEOF
     else
       (let b = buf ! 0;
            r = (if b < 0x80 then Inr (Byte_kind, 0, 1)
                 else if b < 0xB8 then
                   (if b - 0x80 = 1 \<and> length buf > 1 \<and> buf ! 1 < 128 then Inl ErrCanonSize
                    else Inr (String_kind, 1, ucast (b - 0x80)))
                 else if b < 0xC0 then
                   map_sum id (\<lambda>cs. (String_kind, ucast (b - 0xB7) + 1, cs)) (readSize (drop 1 buf) (unat (b - 0xB7)))
                 else if b < 0xF8 then Inr (List_kind, 1, ucast (b - 0xC0))
                 else
                   map_sum id (\<lambda>cs. (List_kind, ucast (b - 0xF7) + 1, cs)) (readSize (drop 1 buf) (unat (b - 0xF7))))
        in case r of
             Inl e \<Rightarrow> Inl e
           | Inr (k, ts, cs) \<Rightarrow> if cs > of_nat (length buf) - ts then Inl ErrValueTooLarge else Inr (k, ts, cs)))"

text \<open>\<open>None\<close> is a slice out of range.\<close>

definition rlp_Split :: "bytes \<Rightarrow> (rlp_error + (Kind \<times> bytes \<times> bytes)) option" where
  "rlp_Split b =
    (case readKind b of
       Inl e \<Rightarrow> Some (Inl e)
     | Inr (k, ts, cs) \<Rightarrow>
         (case (slice b (unat ts) (unat (ts + cs)), slice b (unat (ts + cs)) (length b)) of
            (Some content, Some rest) \<Rightarrow> Some (Inr (k, content, rest))
          | _ \<Rightarrow> None))"

definition SplitString :: "bytes \<Rightarrow> (rlp_error + (bytes \<times> bytes)) option" where
  "SplitString b =
    map_option (\<lambda>r. case r of
        Inl e \<Rightarrow> Inl e
      | Inr (k, content, rest) \<Rightarrow> if k = List_kind then Inl ErrExpectedString else Inr (content, rest))
      (rlp_Split b)"

definition SplitList :: "bytes \<Rightarrow> (rlp_error + (bytes \<times> bytes)) option" where
  "SplitList b =
    map_option (\<lambda>r. case r of
        Inl e \<Rightarrow> Inl e
      | Inr (k, content, rest) \<Rightarrow> if k \<noteq> List_kind then Inl ErrExpectedList else Inr (content, rest))
      (rlp_Split b)"

end
