(* ===== verification/RLP_Encoding.thy ===== *)
theory RLP_Encoding
  imports RLP
begin

text \<open>
  The recursive length prefix encoding (\<^verbatim>\<open>src/rlp/encode.go\<close>, \<^verbatim>\<open>raw.go\<close>): the reference encoding \<open>rlp\<close> by recursion on the
  value, the proof that the encoding buffer produces it, the two other ways out of the buffer (\<^verbatim>\<open>toWriter\<close> and the reader of
  \<^verbatim>\<open>EncodeToReader\<close>), and the splitting of encoded data.
\<close>

unbundle bit_operations_syntax

section \<open>The reference encoding\<close>

definition rlp_len :: "u8 \<Rightarrow> nat \<Rightarrow> bytes" where
  "rlp_len tag n =
    (if n < 56 then [tag + of_nat n]
     else (tag + 55 + of_nat (length (Bytes (int n)))) # Bytes (int n))"

definition rlp_string :: "bytes \<Rightarrow> bytes" where
  "rlp_string b = (if length b = 1 \<and> b ! 0 < 0x80 then b else rlp_len 0x80 (length b) @ b)"

fun rlp :: "val \<Rightarrow> bytes" where
  "rlp (VUint i) = rlp_string (Bytes (uint i))"
| "rlp (VBool b) = rlp_string (if b then [1] else [])"
| "rlp (VBigInt i) = rlp_string (Bytes i)"
| "rlp (VBytes b) = rlp_string b"
| "rlp (VString b) = rlp_string b"
| "rlp (VRaw b) = b"
| "rlp VNilInterface = rlp_len 0xC0 0"
| "rlp (VNilPtr z) = rlp z"
| "rlp (VList vs) = (let c = concat (map rlp vs) in rlp_len 0xC0 (length c) @ c)"
| "rlp (VTail vs) = concat (map rlp vs)"

text \<open>The values that can be encoded: no negative integers.\<close>

fun encodable :: "val \<Rightarrow> bool" where
  "encodable (VBigInt i) \<longleftrightarrow> 0 \<le> i"
| "encodable (VNilPtr z) \<longleftrightarrow> encodable z"
| "encodable (VList vs) \<longleftrightarrow> list_all encodable vs"
| "encodable (VTail vs) \<longleftrightarrow> list_all encodable vs"
| "encodable v \<longleftrightarrow> True"

section \<open>Integers\<close>

lemma byte_at_nat: "byte_at i (8 * k) = word_of_nat (unat i div 256 ^ k)"
proof -
  have "byte_at i (8 * k) = word_of_nat (unat (drop_bit (8 * k) i))"
    by (simp only: byte_at_def of_nat_unat)
  also have "unat (drop_bit (8 * k) i) = unat i div 256 ^ k"
    unfolding unat_drop_bit_eq by (simp add: drop_bit_eq_div power_mult)
  finally show ?thesis .
qed

lemma nat_bytes_be: "nat_bytes n = be_bytes (length (nat_bytes n)) n"
proof -
  have "n < 256 ^ length (nat_bytes n)" using length_nat_bytes_le [of n "length (nat_bytes n)"] by simp
  then have "SetBytes (be_bytes (length (nat_bytes n)) n) = SetBytes (nat_bytes n)"
    by (simp add: SetBytes_be_bytes SetBytes_nat_bytes)
  then show ?thesis by (subst (asm) SetBytes_inject) simp_all
qed

lemma nat_bytes_length: "256 ^ k \<le> n \<Longrightarrow> n < 256 ^ Suc k \<Longrightarrow> nat_bytes n = be_bytes (Suc k) n"
proof -
  assume "256 ^ k \<le> n" "n < 256 ^ Suc k"
  then have "length (nat_bytes n) = Suc k"
    using length_nat_bytes_le [of n k] length_nat_bytes_le [of n "Suc k"] by linarith
  then show ?thesis using nat_bytes_be [of n] by simp
qed

lemma putint_bytes:
  assumes "i \<noteq> 0"
  shows "putint i = Bytes (uint i)"
proof -
  have B: "Bytes (uint i) = nat_bytes (unat i)" by (simp add: Bytes_def)
  have be: "be_bytes (Suc k) (unat i) = map (\<lambda>j. byte_at i (8 * j)) (rev [0..<Suc k])" for k
    by (simp add: be_bytes_def byte_at_nat rev_map del: upt_Suc)
  have nb: "256 ^ k \<le> unat i \<Longrightarrow> unat i < 256 ^ Suc k \<Longrightarrow>
      nat_bytes (unat i) = map (\<lambda>j. byte_at i (8 * j)) (rev [0..<Suc k])" for k
    using nat_bytes_length [of k "unat i"] be [of k] by simp
  have pos: "1 \<le> unat i" and top: "unat i < 2 ^ 64"
    using assms unsigned_less [of i] by (simp_all add: Suc_le_eq unat_gt_0)
  show ?thesis
    unfolding B putint_def word_less_nat_alt
    using pos top nb [of 0] nb [of 1] nb [of 2] nb [of 3] nb [of 4] nb [of 5] nb [of 6] nb [of 7]
    by (simp add: upt_rec)
qed

lemma intsize_loop_bytes: "intsize_loop sz i = sz + length (nat_bytes (unat i div 256))"
proof (induction sz i rule: intsize_loop.induct)
  case (1 sz i)
  have d: "unat (drop_bit 8 i) = unat i div 256" unfolding unat_drop_bit_eq by (simp add: drop_bit_eq_div)
  show ?case
  proof (cases "drop_bit 8 i = 0")
    case True
    then have "unat i div 256 = 0" using d by simp
    with True show ?thesis by (simp add: intsize_loop.simps [of sz i] nat_bytes.simps)
  next
    case False
    then have "unat i div 256 \<noteq> 0" using d by (metis unat_eq_0)
    then have "nat_bytes (unat i div 256) = nat_bytes (unat i div 256 div 256) @ [word_of_nat (unat i div 256 mod 256)]"
      by (subst nat_bytes.simps) simp
    with False 1 [OF refl False] d show ?thesis by (simp add: intsize_loop.simps [of sz i])
  qed
qed

lemma intsize_putint: "i \<noteq> 0 \<Longrightarrow> intsize i = length (putint i)"
  by (simp add: intsize_def intsize_loop_bytes putint_bytes Bytes_def nat_bytes.simps [of "unat i"] unat_eq_0)

lemma length_Bytes_u64: "0 \<le> x \<Longrightarrow> x < 2 ^ 64 \<Longrightarrow> length (Bytes x) \<le> 8"
  by (simp add: length_Bytes_le)

lemma unat_of_nat_small: "n < 2 ^ 64 \<Longrightarrow> unat (of_nat n :: u64) = n"
  by (simp add: unsigned_of_nat take_bit_nat_eq_self)

lemma putint_of_nat: "0 < n \<Longrightarrow> n < 2 ^ 64 \<Longrightarrow> putint (of_nat n) = Bytes (int n)"
proof -
  assume n: "0 < n" "n < 2 ^ 64"
  then have "unat (of_nat n :: u64) = n" by (intro unat_of_nat_small)
  moreover from this n(1) have "(of_nat n :: u64) \<noteq> 0" by (metis unat_0 less_numeral_extra(3))
  ultimately show ?thesis using putint_bytes [of "of_nat n"] by (simp add: Bytes_def)
qed

lemma of_nat_less_56: "n < 2 ^ 64 \<Longrightarrow> (of_nat n :: u64) < 56 \<longleftrightarrow> n < 56"
  by (simp add: word_less_nat_alt unat_of_nat_small)

lemma puthead_len:
  assumes "n < 2 ^ 64"
  shows "puthead tag (tag + 55) (of_nat n) = rlp_len tag n"
proof -
  have "ucast (of_nat n :: u64) = (of_nat n :: u8)" 
    by (metis of_nat_unat unat_of_nat_small assms)
  then show ?thesis
    using assms by (simp add: puthead_def rlp_len_def of_nat_less_56 putint_of_nat Let_def)
qed

lemma encodeStringHeader_len: "n < 2 ^ 64 \<Longrightarrow> encodeStringHeader w n = eb_append w (rlp_len 0x80 n)"
  by (simp add: encodeStringHeader_def rlp_len_def putint_of_nat Let_def)

section \<open>The buffer\<close>

text \<open>What a part of the buffer stands for: string data from offset \<open>off\<close> with list headers merged in.\<close>

fun render :: "nat \<Rightarrow> bytes \<Rightarrow> listhead list \<Rightarrow> bytes" where
  "render off s [] = s"
| "render off s (h # hs) =
    take (lh_offset h - off) s @ lh_encode h @ render (lh_offset h) (drop (lh_offset h - off) s) hs"

fun heads_ok :: "nat \<Rightarrow> nat \<Rightarrow> listhead list \<Rightarrow> bool" where
  "heads_ok off lim [] \<longleftrightarrow> off \<le> lim"
| "heads_ok off lim (h # hs) \<longleftrightarrow> off \<le> lh_offset h \<and> heads_ok (lh_offset h) lim hs"

definition heads_size :: "listhead list \<Rightarrow> nat" where
  "heads_size hs = sum_list (map (length \<circ> lh_encode) hs)"

lemma heads_ok_le: "heads_ok off lim hs \<Longrightarrow> off \<le> lim"
  by (induction hs arbitrary: off) fastforce+

lemma length_render: "heads_ok off (off + length s) hs \<Longrightarrow> length (render off s hs) = length s + heads_size hs"
proof (induction off s hs rule: render.induct)
  case (2 off s h hs)
  then have "lh_offset h \<le> off + length s" using heads_ok_le by auto
  with 2 show ?case by (simp add: heads_size_def add.commute)
qed (simp add: heads_size_def)

lemma render_append:
  "heads_ok off (off + length s) hs \<Longrightarrow> heads_ok (off + length s) lim hs' \<Longrightarrow> 
    render off (s @ s') (hs @ hs') = render off s hs @ render (off + length s) s' hs' "
proof (induction off s hs rule: render.induct)
  case (1 off s)
  show ?case
  proof (cases hs')
    case (Cons h hs)
    then have "off + length s \<le> lh_offset h" using 1 by simp
    then have "length s \<le> lh_offset h - off" by simp
    with Cons show ?thesis by simp
  qed simp
next
  case (2 off s h hs)
  then have "lh_offset h \<le> off + length s" using heads_ok_le by auto
  with 2 show ?case by (simp add: add.commute)
qed

lemma heads_ok_append: "heads_ok off mid hs \<Longrightarrow> heads_ok mid lim hs' \<Longrightarrow> heads_ok off lim (hs @ hs')"
proof (induction hs arbitrary: off)
  case Nil
  then show ?case by (cases hs') (auto)
qed auto

definition adds :: "encbuf \<Rightarrow> encbuf \<Rightarrow> bytes \<Rightarrow> bool" where
  "adds w w' b \<longleftrightarrow> (\<exists>s hs. eb_str w' = eb_str w @ s \<and> eb_lheads w' = eb_lheads w @ hs \<and>
     eb_lhsize w' = eb_lhsize w + heads_size hs \<and> heads_ok (length (eb_str w)) (length (eb_str w) + length s) hs \<and>
     render (length (eb_str w)) s hs = b)"

lemma adds_refl: "adds w w []"
  unfolding adds_def by (intro exI [of _ "[]"]) (simp add: heads_size_def)

lemma adds_append: "adds w (eb_append w b) b"
  unfolding adds_def by (intro exI [of _ b] exI [of _ "[]"]) (simp add: heads_size_def eb_append_def)

lemma adds_trans:
  assumes "adds w w1 b1" "adds w1 w2 b2"
  shows "adds w w2 (b1 @ b2)"
proof -
  let ?n = "length (eb_str w)"
  obtain s1 hs1 where 1: "eb_str w1 = eb_str w @ s1" "eb_lheads w1 = eb_lheads w @ hs1"
    "eb_lhsize w1 = eb_lhsize w + heads_size hs1" "heads_ok ?n (?n + length s1) hs1" "render ?n s1 hs1 = b1"
    using assms(1) unfolding adds_def by blast
  obtain s2 hs2 where 2: "eb_str w2 = eb_str w1 @ s2" "eb_lheads w2 = eb_lheads w1 @ hs2"
    "eb_lhsize w2 = eb_lhsize w1 + heads_size hs2"
    "heads_ok (?n + length s1) (?n + length s1 + length s2) hs2" "render (?n + length s1) s2 hs2 = b2"
    using assms(2) 1(1) unfolding adds_def by auto
  have "heads_ok ?n (?n + length (s1 @ s2)) (hs1 @ hs2)"
    using heads_ok_append [OF 1(4) 2(4)] by (simp add: add.assoc)
  moreover have "render ?n (s1 @ s2) (hs1 @ hs2) = b1 @ b2"
    using render_append [OF 1(4) 2(4)] 1(5) 2(5) by simp
  ultimately show ?thesis
    unfolding adds_def using 1 2 by (intro exI [of _ "s1 @ s2"] exI [of _ "hs1 @ hs2"]) (simp add: heads_size_def)
qed

lemma lh_encode_len: "lh_size h < 2 ^ 64 \<Longrightarrow> lh_encode h = rlp_len 0xC0 (lh_size h)"
  using puthead_len [of "lh_size h" "0xC0"] by (simp add: lh_encode_def)

lemma length_rlp_len: "n < 2 ^ 64 \<Longrightarrow> length (rlp_len tag n) = (if n < 56 then 1 else 1 + intsize (of_nat n))"
  using intsize_putint [of "of_nat n"] of_nat_less_56 [of n] putint_of_nat [of n]
  by (cases "(of_nat n :: u64) = 0") (auto simp: rlp_len_def)

lemma adds_list:
  assumes "adds (snd (eb_list w)) w' c" "length c < 2 ^ 64"
  shows "adds w (eb_listEnd w' (fst (eb_list w))) (rlp_len 0xC0 (length c) @ c)"
proof -
  let ?n = "length (eb_str w)" and ?i = "length (eb_lheads w)"
  obtain s hs where 1: "eb_str w' = eb_str w @ s"
    "eb_lheads w' = (eb_lheads w @ [\<lparr>lh_offset = ?n, lh_size = eb_lhsize w\<rparr>]) @ hs"
    "eb_lhsize w' = eb_lhsize w + heads_size hs" "heads_ok ?n (?n + length s) hs" "render ?n s hs = c"
    using assms(1) unfolding adds_def eb_list_def by auto
  let ?h = "\<lparr>lh_offset = ?n, lh_size = length c\<rparr>"
  have c: "length c = length s + heads_size hs" using length_render [OF 1(4)] 1(5) by simp
  have e: "lh_encode ?h = rlp_len 0xC0 (length c)" using lh_encode_len [of ?h] assms(2) by simp
  have "eb_listEnd w' ?i = w'\<lparr>eb_lheads := eb_lheads w @ ?h # hs,
      eb_lhsize := eb_lhsize w' + length (rlp_len 0xC0 (length c))\<rparr>"
    using 1 c length_rlp_len [OF assms(2)] by (simp add: eb_listEnd_def eb_size_def Let_def nth_append)
  moreover have "heads_ok ?n (?n + length s) (?h # hs)" "render ?n s (?h # hs) = rlp_len 0xC0 (length c) @ c"
    using 1(4,5) e by simp_all
  moreover have "heads_size (?h # hs) = heads_size hs + length (rlp_len 0xC0 (length c))"
    using e by (simp add: heads_size_def)
  ultimately show ?thesis
    unfolding adds_def using 1 by (intro exI [of _ s] exI [of _ "?h # hs"]) (simp add: eb_list_def)
qed

lemma le_7F: "(x :: u8) \<le> 0x7F \<longleftrightarrow> x < 0x80"
  by (simp add: word_le_nat_alt word_less_nat_alt less_Suc_eq_le [symmetric])

lemma encodeString_adds: "length b < 2 ^ 64 \<Longrightarrow> adds w (encodeString w b) (rlp_string b)"
  using adds_append [of w "[b ! 0]"] adds_trans [OF adds_append adds_append, of w "rlp_len 0x80 (length b)" b]
  by (auto simp: encodeString_def rlp_string_def le_7F encodeStringHeader_len length_Suc_conv)

lemma writeString_encodeString: "writeString s w = encodeString w s"
  by (simp add: writeString_def encodeString_def)

lemma Bytes_small: "0 < x \<Longrightarrow> x < 256 \<Longrightarrow> Bytes x = [of_int x]"
proof -
  assume x: "0 < x" "x < 256"
  then have "nat x div 256 = 0" by simp
  then show ?thesis
    using x by (simp add: Bytes_def nat_bytes.simps [of "nat x"] nat_bytes.simps [of 0])
qed

lemma Bytes_0: "Bytes 0 = []"
  by (simp add: Bytes_def nat_bytes.simps)

lemma writeUint_adds: "adds w (writeUint i w) (rlp_string (Bytes (uint i)))"
proof (cases "i = 0")
  case True
  then show ?thesis using adds_append [of w "[0x80]"] by (simp add: writeUint_def rlp_string_def rlp_len_def Bytes_0)
next
  case False
  then have pos: "0 < uint i" using uint_0_iff [of i] uint_ge_0 [of i] by linarith
  show ?thesis
  proof (cases "i < 128")
    case True
    then have "uint i < 128" by (simp add: word_less_def)
    then have B: "Bytes (uint i) = [ucast i]" using pos by (simp add: Bytes_small)
    have "(ucast i :: u8) < 0x80" using True by (simp add: word_less_nat_alt unsigned_ucast_eq take_bit_eq_mod)
    then show ?thesis using adds_append [of w "[ucast i]"] False True by (simp add: writeUint_def rlp_string_def B)
  next
    case big: False
    have "length (Bytes (uint i)) \<le> 8" by (rule length_Bytes_u64) (use unsigned_less [of i] in simp_all)
    moreover have "\<not> (length (Bytes (uint i)) = 1 \<and> Bytes (uint i) ! 0 < 0x80)"
    proof
      assume "length (Bytes (uint i)) = 1 \<and> Bytes (uint i) ! 0 < 0x80"
      then obtain b where b: "Bytes (uint i) = [b]" "b < 0x80" by (auto simp: length_Suc_conv)
      then have "uint i = uint b" using SetBytes_Bytes [of "uint i"] by (simp add: SetBytes_def)
      then show False using b(2) big by (simp add: word_less_def)
    qed
    ultimately show ?thesis
      using adds_append [of w "(0x80 + of_nat (length (Bytes (uint i)))) # Bytes (uint i)"] False big
      by (auto simp: writeUint_def putint_bytes Let_def rlp_string_def rlp_len_def)
  qed
qed

lemma length_concat_member: "x \<in> set xs \<Longrightarrow> length (f x) \<le> length (concat (map f xs))"
  by (induction xs) auto

lemma write_val_adds:
  "encodable v \<Longrightarrow> length (rlp v) < 2 ^ 64 \<Longrightarrow> \<exists>w'. write_val v w = Some w' \<and> adds w w' (rlp v)"
  "list_all encodable vs \<Longrightarrow> length (concat (map rlp vs)) < 2 ^ 64 \<Longrightarrow>
     \<exists>w'. write_vals vs w = Some w' \<and> adds w w' (concat (map rlp vs))"
proof (induction v w and vs w rule: write_val_write_vals.induct)
  case (1 i w) then show ?case by (simp add: writeUint_adds)
next
  case (2 b w) then show ?case using adds_append [of w] by (simp add: writeBool_def rlp_string_def rlp_len_def)
next
  case (3 i w)
  have "length (Bytes i) < 2 ^ 64" using 3 by (simp add: rlp_string_def split: if_splits)
  then have "adds w (encodeString w (Bytes i)) (rlp_string (Bytes i))" by (rule encodeString_adds)
  moreover have "rlp_string [] = [0x80]" by (simp add: rlp_string_def rlp_len_def)
  ultimately show ?case
    using 3 adds_append [of w "[0x80]"] by (auto simp: writeBigInt_def Bytes_0)
next
  case (4 b w)
  have "length b < 2 ^ 64" using 4 by (simp add: rlp_string_def split: if_splits)
  then show ?case by (simp add: encodeString_adds)
next
  case (5 b w)
  have "length b < 2 ^ 64" using 5 by (simp add: rlp_string_def split: if_splits)
  then show ?case by (simp add: encodeString_adds writeString_encodeString)
next
  case (10 vs w)
  have c: "length (concat (map rlp vs)) < 2 ^ 64" using 10 by (simp add: Let_def)
  have e: "(fst (eb_list w), snd (eb_list w)) = eb_list w" by simp
  obtain w' where "write_vals vs (snd (eb_list w)) = Some w'" "adds (snd (eb_list w)) w' (concat (map rlp vs))"
    using 10(1) [OF refl e] 10(2) c by auto
  then show ?case using adds_list [OF _ c, of w w'] by (simp add: split_beta Let_def)
next
  case (12 v vs w)
  then obtain w1 where "write_val v w = Some w1" "adds w w1 (rlp v)" by auto
  with 12 show ?case using adds_trans by fastforce
qed (auto simp: adds_append adds_refl rlp_len_def)

lemma write_val_not_encodable:
  "\<not> encodable v \<Longrightarrow> write_val v w = None"
  "\<not> list_all encodable vs \<Longrightarrow> write_vals vs w = None"
proof (induction v w and vs w rule: write_val_write_vals.induct)
  case (12 v vs w) then show ?case by (cases "write_val v w") auto
next
  case (10 vs w) then show ?case by (cases "eb_list w") simp
qed (auto simp: writeBigInt_def)

section \<open>The output\<close>

lemma toBytes_loop_render:
  assumes "heads_ok strpos (length str) hs" "pos + length (render strpos (drop strpos str) hs) = length out"
  shows "toBytes_loop str hs strpos pos out = Some (take pos out @ render strpos (drop strpos str) hs)"
  using assms
proof (induction hs arbitrary: strpos pos out)
  case Nil
  then show ?case by (simp add: copy_at_def)
next
  case (Cons h hs)
  let ?n = "lh_offset h - strpos" and ?enc = "lh_encode h"
  have off: "strpos \<le> lh_offset h" "lh_offset h \<le> length str" using Cons.prems(1) heads_ok_le by auto
  let ?out1 = "copy_at pos ?n (take ?n (drop strpos str)) out"
  let ?out2 = "copy_at (pos + ?n) (length ?enc) ?enc ?out1"
  have len: "pos + ?n + length ?enc + length (render (lh_offset h) (drop (lh_offset h) str) hs) = length out"
    using Cons.prems(2) off by simp
  have t: "take (pos + ?n + length ?enc) ?out2 = take pos out @ take ?n (drop strpos str) @ ?enc"
    using len off by (simp add: copy_at_def)
  have "toBytes_loop str hs (lh_offset h) (pos + ?n + length ?enc) ?out2 =
      Some (take (pos + ?n + length ?enc) ?out2 @ render (lh_offset h) (drop (lh_offset h) str) hs)"
    using Cons.prems len by (intro Cons.IH) simp_all
  moreover have "min (length out - pos) (length (take ?n (drop strpos str))) = ?n" "strpos + ?n = lh_offset h"
    "pos + ?n + length ?enc \<le> length out" "pos \<le> length out"
    using len off by simp_all
  ultimately show ?case using off t unfolding toBytes_loop.simps Let_def by (simp del: diff_add_inverse)
qed

lemma toBytes_adds: "adds eb_reset w b \<Longrightarrow> toBytes w = Some b"
  unfolding adds_def toBytes_def eb_size_def eb_reset_def
  using toBytes_loop_render [of 0 "eb_str w" "eb_lheads w" 0 "replicate (length (eb_str w) + eb_lhsize w) 0"] length_render
  by fastforce

lemma EncodeToBytes_eq:
  "length (rlp v) < 2 ^ 64 \<Longrightarrow> EncodeToBytes v = (if encodable v then Some (rlp v) else None)"
  using write_val_adds(1) [of v eb_reset] write_val_not_encodable(1) [of v eb_reset] toBytes_adds
  by (auto simp: EncodeToBytes_def)

section \<open>Writing to a stream\<close>

text \<open>
  \<^verbatim>\<open>toWriter\<close> sends the pieces to a writer, which reports how many bytes it took and possibly an error.  The result is the
  error, the position in the string data and the writer; \<open>None\<close> is a slice out of range.
\<close>

primrec toWriter_loop :: "('w \<Rightarrow> bytes \<Rightarrow> nat \<times> 'e option \<times> 'w) \<Rightarrow> bytes \<Rightarrow> listhead list \<Rightarrow> nat \<Rightarrow> 'w \<Rightarrow> ('e option \<times> nat \<times> 'w) option" where
  "toWriter_loop wr str [] strpos out = Some (None, strpos, out)"
| "toWriter_loop wr str (h # hs) strpos out =
    (case (if lh_offset h > strpos
           then map_option (\<lambda>p. case wr out p of (n, err, out) \<Rightarrow> (err, strpos + n, out)) (slice str strpos (lh_offset h))
           else Some (None, strpos, out)) of
       None \<Rightarrow> None
     | Some (Some e, strpos, out) \<Rightarrow> Some (Some e, strpos, out)
     | Some (None, strpos, out) \<Rightarrow>
         (case wr out (lh_encode h) of
            (n, Some e, out) \<Rightarrow> Some (Some e, strpos, out)
          | (n, None, out) \<Rightarrow> toWriter_loop wr str hs strpos out))"

definition toWriter :: "('w \<Rightarrow> bytes \<Rightarrow> nat \<times> 'e option \<times> 'w) \<Rightarrow> encbuf \<Rightarrow> 'w \<Rightarrow> ('e option \<times> 'w) option" where
  "toWriter wr w out =
    (case toWriter_loop wr (eb_str w) (eb_lheads w) 0 out of
       None \<Rightarrow> None
     | Some (Some e, strpos, out) \<Rightarrow> Some (Some e, out)
     | Some (None, strpos, out) \<Rightarrow>
         if strpos < length (eb_str w) then
           (case wr out (drop strpos (eb_str w)) of (n, err, out) \<Rightarrow> Some (err, out))
         else Some (None, out))"

text \<open>\<^verbatim>\<open>Encode\<close> for a writer that is not itself an encoding buffer; the inner error is that of an unencodable value.\<close>

definition Encode_to :: "('w \<Rightarrow> bytes \<Rightarrow> nat \<times> 'e option \<times> 'w) \<Rightarrow> val \<Rightarrow> 'w \<Rightarrow> ('e option \<times> 'w) option option" where
  "Encode_to wr v out = map_option (\<lambda>w. toWriter wr w out) (write_val v eb_reset)"

text \<open>A writer that takes everything it is given.\<close>

locale io_writer =
  fixes wr :: "'w \<Rightarrow> bytes \<Rightarrow> nat \<times> 'e option \<times> 'w"
    and contents :: "'w \<Rightarrow> bytes"
  assumes wr_ok: "\<exists>out'. wr out p = (length p, None, out') \<and> contents out' = contents out @ p"
begin

lemma toWriter_loop_render:
  assumes "heads_ok strpos (length str) hs"
  shows "\<exists>strpos' out'. toWriter_loop wr str hs strpos out = Some (None, strpos', out') \<and> strpos' \<le> length str \<and>
    contents out' @ drop strpos' str = contents out @ render strpos (drop strpos str) hs"
  using assms
proof (induction hs arbitrary: strpos out)
  case (Cons h hs)
  have off: "strpos \<le> lh_offset h" "lh_offset h \<le> length str" using Cons.prems heads_ok_le by auto
  let ?p = "take (lh_offset h - strpos) (drop strpos str)"
  have sl: "slice str strpos (lh_offset h) = Some ?p" using off by (simp add: slice_def)
  have pl: "length ?p = lh_offset h - strpos" using off by simp
  obtain out1 where o1: "wr out ?p = (length ?p, None, out1)" "contents out1 = contents out @ ?p" using wr_ok by blast
  let ?out1 = "if lh_offset h > strpos then out1 else out"
  obtain out2 where o2: "wr ?out1 (lh_encode h) = (length (lh_encode h), None, out2)"
    "contents out2 = contents ?out1 @ lh_encode h" using wr_ok by blast
  have c1: "contents ?out1 = contents out @ ?p" using o1 off by simp
  have "toWriter_loop wr str (h # hs) strpos out = toWriter_loop wr str hs (lh_offset h) out2"
  proof (cases "strpos < lh_offset h")
    case True
    then show ?thesis using sl o1 o2 pl by simp
  next
    case False
    then show ?thesis using o2 off by simp
  qed
  with Cons.IH [of "lh_offset h" out2] Cons.prems off o2(2) c1 show ?case by simp
qed simp

lemma toWriter_adds:
  assumes "adds eb_reset w b"
  shows "\<exists>out'. toWriter wr w out = Some (None, out') \<and> contents out' = contents out @ b"
proof -
  have h: "heads_ok 0 (length (eb_str w)) (eb_lheads w)" "render 0 (eb_str w) (eb_lheads w) = b"
    using assms by (auto simp: adds_def eb_reset_def)
  then obtain sp out1 where l: "toWriter_loop wr (eb_str w) (eb_lheads w) 0 out = Some (None, sp, out1)" "sp \<le> length (eb_str w)"
    "contents out1 @ drop sp (eb_str w) = contents out @ b"
    using toWriter_loop_render [OF h(1), of out] by auto
  obtain out2 where "wr out1 (drop sp (eb_str w)) = (length (drop sp (eb_str w)), None, out2)"
    "contents out2 = contents out1 @ drop sp (eb_str w)" using wr_ok by blast
  with l show ?thesis by (auto simp: toWriter_def)
qed

lemma Encode_to_writer:
  assumes "encodable v" "length (rlp v) < 2 ^ 64"
  shows "\<exists>out'. Encode_to wr v out = Some (Some (None, out')) \<and> contents out' = contents out @ rlp v"
proof -
  obtain w where "write_val v eb_reset = Some w" "adds eb_reset w (rlp v)" using write_val_adds(1) [OF assms] by blast
  then show ?thesis using toWriter_adds by (simp add: Encode_to_def)
qed

end

text \<open>\<^verbatim>\<open>encbuf\<close> is itself a writer (\<^verbatim>\<open>encbuf.Write\<close>).\<close>

definition encbuf_Write :: "encbuf \<Rightarrow> bytes \<Rightarrow> nat \<times> unit option \<times> encbuf" where
  "encbuf_Write w b = (length b, None, eb_append w b)"

interpretation eb: io_writer encbuf_Write eb_str
  by unfold_locales (simp add: encbuf_Write_def eb_append_def)

section \<open>Reading the encoding\<close>

record encReader =
  er_buf :: "encbuf option"
  er_lhpos :: nat
  er_strpos :: nat
  er_piece :: "bytes option"

definition er_next :: "encReader \<Rightarrow> (bytes option \<times> encReader) option" where
  "er_next r =
    (case er_buf r of
       None \<Rightarrow> Some (None, r)
     | Some w \<Rightarrow>
         (case er_piece r of
            Some p \<Rightarrow> Some (Some p, r)
          | None \<Rightarrow>
              if er_lhpos r < length (eb_lheads w) then
                (let head = eb_lheads w ! er_lhpos r in
                 if lh_offset head > er_strpos r then
                   map_option (\<lambda>p. (Some p, r\<lparr>er_strpos := lh_offset head\<rparr>)) (slice (eb_str w) (er_strpos r) (lh_offset head))
                 else Some (Some (lh_encode head), r\<lparr>er_lhpos := er_lhpos r + 1\<rparr>))
              else if er_strpos r < length (eb_str w) then
                Some (Some (drop (er_strpos r) (eb_str w)), r\<lparr>er_strpos := length (eb_str w)\<rparr>)
              else Some (None, r)))"

definition er_left :: "encReader \<Rightarrow> nat" where
  "er_left r = (case er_buf r of None \<Rightarrow> 0 | Some w \<Rightarrow> (length (eb_lheads w) - er_lhpos r) + (length (eb_str w) - er_strpos r)) +
    (if er_piece r = None then 0 else 1)"

lemma er_next_left: "er_next r = Some (Some p, r') \<Longrightarrow> er_left (r'\<lparr>er_piece := None\<rparr>) < er_left r"
  by (auto simp: er_next_def er_left_def slice_def Let_def split: option.splits if_splits)

text \<open>
  \<^verbatim>\<open>Read\<close> with room for \<open>k\<close> bytes, of which \<open>acc\<close> is filled.  The result is the data, whether the end is reported, and the
  reader.
\<close>

function er_Read :: "nat \<Rightarrow> bytes \<Rightarrow> encReader \<Rightarrow> (bytes \<times> bool \<times> encReader) option" where
  "er_Read k acc r =
    (case er_next r of
       None \<Rightarrow> None
     | Some (None, r) \<Rightarrow> Some (acc, True, r\<lparr>er_buf := None, er_piece := None\<rparr>)
     | Some (Some p, r) \<Rightarrow>
         (let nn = min (k - length acc) (length p); acc = acc @ take nn p in
          if nn < length p then Some (acc, False, r\<lparr>er_piece := Some (drop nn p)\<rparr>)
          else er_Read k acc (r\<lparr>er_piece := None\<rparr>)))"
  by pat_completeness auto
termination
  by (relation "measure (\<lambda>(k, acc, r). er_left r)") (auto simp: er_next_left)

declare er_Read.simps [simp del]

definition EncodeToReader :: "val \<Rightarrow> (nat \<times> encReader) option" where
  "EncodeToReader v =
    map_option (\<lambda>w. (eb_size w, \<lparr>er_buf = Some w, er_lhpos = 0, er_strpos = 0, er_piece = None\<rparr>)) (write_val v eb_reset)"

text \<open>A client that reads with buffers of the given sizes: all the data, and whether the last read reported the end.\<close>

fun er_reads :: "nat list \<Rightarrow> encReader \<Rightarrow> (bytes \<times> bool) option" where
  "er_reads [] r = Some ([], False)"
| "er_reads [k] r = map_option (\<lambda>(d, eof, r). (d, eof)) (er_Read k [] r)"
| "er_reads (k # ks) r =
    Option.bind (er_Read k [] r) (\<lambda>(d, eof, r). map_option (\<lambda>(d', eof). (d @ d', eof)) (er_reads ks r))"

definition er_pending :: "encReader \<Rightarrow> bytes" where
  "er_pending r =
    (case er_buf r of
       None \<Rightarrow> []
     | Some w \<Rightarrow> (case er_piece r of None \<Rightarrow> [] | Some p \<Rightarrow> p) @
         render (er_strpos r) (drop (er_strpos r) (eb_str w)) (drop (er_lhpos r) (eb_lheads w)))"

definition er_ok :: "encReader \<Rightarrow> bool" where
  "er_ok r \<longleftrightarrow> er_piece r \<noteq> Some [] \<and>
    (\<forall>w. er_buf r = Some w \<longrightarrow> heads_ok (er_strpos r) (length (eb_str w)) (drop (er_lhpos r) (eb_lheads w)))"

lemma lh_encode_nonempty: "lh_encode h \<noteq> []"
  by (simp add: lh_encode_def puthead_def Let_def)

lemma er_next_pending:
  assumes "er_ok r"
  shows "(\<exists>r'. er_next r = Some (None, r') \<and> er_pending r = []) \<or>
    (\<exists>p r'. er_next r = Some (Some p, r') \<and> p \<noteq> [] \<and> er_buf r' \<noteq> None \<and> er_ok (r'\<lparr>er_piece := None\<rparr>) \<and>
       er_pending r = p @ er_pending (r'\<lparr>er_piece := None\<rparr>))"
proof (cases "er_buf r")
  case (Some w)
  let ?str = "eb_str w" and ?sp = "er_strpos r" and ?lh = "er_lhpos r"
  have ok: "heads_ok ?sp (length ?str) (drop ?lh (eb_lheads w))" "er_piece r \<noteq> Some []" using assms Some by (simp_all add: er_ok_def)
  show ?thesis
  proof (cases "er_piece r")
    case None
    show ?thesis
    proof (cases "?lh < length (eb_lheads w)")
      case True
      let ?h = "eb_lheads w ! ?lh"
      have d: "drop ?lh (eb_lheads w) = ?h # drop (Suc ?lh) (eb_lheads w)" using True by (simp add: Cons_nth_drop_Suc)
      then have off: "?sp \<le> lh_offset ?h" "lh_offset ?h \<le> length ?str" "heads_ok (lh_offset ?h) (length ?str) (drop (Suc ?lh) (eb_lheads w))"
        using ok(1) heads_ok_le by auto
      then show ?thesis
        using Some None True d lh_encode_nonempty
        by (auto simp: er_next_def er_pending_def er_ok_def slice_def Let_def)
    next
      case False
      then show ?thesis using Some None ok by (auto simp: er_next_def er_pending_def er_ok_def)
    qed
  qed (use Some assms in \<open>auto simp: er_next_def er_pending_def er_ok_def\<close>)
qed (simp add: er_next_def er_pending_def)

lemma er_Read_pending:
  "er_ok r \<Longrightarrow> length acc \<le> k \<Longrightarrow>
    \<exists>r'. er_Read k acc r = Some (acc @ take (k - length acc) (er_pending r), length (er_pending r) \<le> k - length acc, r') \<and>
      er_ok r' \<and> er_pending r' = drop (k - length acc) (er_pending r)"
proof (induction k acc r rule: er_Read.induct)
  case (1 k acc r)
  from er_next_pending [OF 1(2)] show ?case
  proof (elim disjE exE conjE)
    fix r' assume "er_next r = Some (None, r')" "er_pending r = []"
    then show ?thesis by (simp add: er_Read.simps [of k acc r] er_ok_def er_pending_def)
  next
    fix p r' assume n: "er_next r = Some (Some p, r')" "p \<noteq> []" "er_buf r' \<noteq> None" "er_ok (r'\<lparr>er_piece := None\<rparr>)"
      "er_pending r = p @ er_pending (r'\<lparr>er_piece := None\<rparr>)"
    let ?nn = "min (k - length acc) (length p)"
    show ?thesis
    proof (cases "?nn < length p")
      case True
      then have "k - length acc < length p" by simp
      then show ?thesis
        using n True by (auto simp: er_Read.simps [of k acc r] er_ok_def er_pending_def Let_def)
    next
      case False
      then have l: "length p \<le> k - length acc" by simp
      have "length q \<le> k - length (acc @ p) \<longleftrightarrow> length (p @ q) \<le> k - length acc" for q :: bytes
        using l 1(3) by auto
      with 1(1) [OF n(1) refl refl refl] False l 1(3) n show ?thesis
        by (simp add: er_Read.simps [of k acc r])
    qed
  qed
qed

lemma er_reads_pending: "er_ok r \<Longrightarrow> er_reads ks r = Some (take (sum_list ks) (er_pending r), ks \<noteq> [] \<and> length (er_pending r) \<le> sum_list ks)"
proof (induction ks r rule: er_reads.induct)
  case (2 k r)
  then show ?case using er_Read_pending [of r "[]" k] by auto
next
  case (3 k k' ks r)
  obtain r' where r': "er_Read k [] r = Some (take k (er_pending r), length (er_pending r) \<le> k, r')" "er_ok r'"
    "er_pending r' = drop k (er_pending r)" using er_Read_pending [of r "[]" k] 3(2) by auto
  then show ?case using 3(1) [OF r'(1) refl refl r'(2)] by (auto simp: take_add)
qed simp

lemma EncodeToReader_ok:
  assumes "encodable v" "length (rlp v) < 2 ^ 64"
  shows "\<exists>r. EncodeToReader v = Some (length (rlp v), r) \<and> er_ok r \<and> er_pending r = rlp v"
proof -
  obtain w where w: "write_val v eb_reset = Some w" "adds eb_reset w (rlp v)" using write_val_adds(1) [OF assms] by blast
  then have h: "heads_ok 0 (length (eb_str w)) (eb_lheads w)" "render 0 (eb_str w) (eb_lheads w) = rlp v"
    "eb_lhsize w = heads_size (eb_lheads w)"
    by (auto simp: adds_def eb_reset_def)
  then show ?thesis
    using w(1) length_render [of 0 "eb_str w" "eb_lheads w"] by (simp add: EncodeToReader_def er_ok_def er_pending_def eb_size_def)
qed

section \<open>Splitting\<close>

lemma push_or_add: "push_bit 8 s OR ucast x = s * 256 + (ucast (x :: u8) :: u64)"
proof -
  have "push_bit 8 s OR ucast x = push_bit 8 s + (ucast x :: u64)"
    by (rule disjunctive_add [symmetric]) (auto simp: bit_push_bit_iff bit_ucast_iff dest: bit_imp_le_length)
  then show ?thesis by (simp add: push_bit_eq_mult)
qed

lemma fold_bytes: "fold (\<lambda>x s. push_bit 8 s OR ucast x) xs (s :: u64) = s * 256 ^ length xs + of_int (SetBytes xs)"
  unfolding push_or_add
proof (induction xs arbitrary: s)
  case (Cons x xs)
  have "fold (\<lambda>x s. s * 256 + ucast x) (x # xs) s = (s * 256 + ucast x) * 256 ^ length xs + (of_int (SetBytes xs) :: u64)"
    by (simp add: Cons.IH)
  also have "\<dots> = s * 256 ^ length (x # xs) + of_int (SetBytes (x # xs))"
    by (simp add: SetBytes_Cons algebra_simps)
  finally show ?case .
qed simp

lemma nat_bytes_hd: "0 < n \<Longrightarrow> nat_bytes n \<noteq> [] \<and> hd (nat_bytes n) \<noteq> 0"
proof (induction n rule: nat_bytes.induct)
  case (1 n)
  show ?case
  proof (cases "n div 256 = 0")
    case True
    then have "n < 256" by simp
    then have "(word_of_nat n :: u8) \<noteq> 0" using 1(2) using nat_dvd_not_less [of n 256] by (simp add: word_of_nat_eq_0_iff)
    then show ?thesis using 1(2) \<open>n < 256\<close> by (simp add: nat_bytes.simps [of n] True nat_bytes.simps [of 0])
  next
    case False
    with 1 show ?thesis by (simp add: nat_bytes.simps [of n])
  qed
qed

lemma Bytes_hd: "0 < x \<Longrightarrow> Bytes x \<noteq> [] \<and> hd (Bytes x) \<noteq> 0"
  by (simp add: Bytes_def nat_bytes_hd)

lemma readSize_Bytes:
  assumes "56 \<le> n" "n < 2 ^ 64"
  shows "readSize (Bytes (int n) @ c) (length (Bytes (int n))) = Inr (of_nat n)"
proof -
  have "Bytes (int n) \<noteq> []" "hd (Bytes (int n)) \<noteq> 0" using Bytes_hd [of "int n"] assms(1) by simp_all
  then have "(Bytes (int n) @ c) ! 0 \<noteq> 0" by (simp add: nth_append hd_conv_nth)
  then show ?thesis
    using assms of_nat_less_56 [of n] by (simp add: readSize_def fold_bytes SetBytes_Bytes)
qed

lemma tag_cases: "1 \<le> k \<Longrightarrow> k \<le> 8 \<Longrightarrow> k = 1 \<or> k = 2 \<or> k = 3 \<or> k = 4 \<or> k = 5 \<or> k = 6 \<or> k = 7 \<or> k = (8 :: nat)"
  by linarith

lemma small_tag:
  assumes "n < 56"
  shows "\<not> 0x80 + (of_nat n :: u8) < 0x80" "0x80 + (of_nat n :: u8) < 0xB8" 
    "\<not> 0xC0 + (of_nat n :: u8) < 0xC0" "\<not> 0xC0 + (of_nat n :: u8) < 0x80" "\<not> 0xC0 + (of_nat n :: u8) < 0xB8" "0xC0 + (of_nat n :: u8) < 0xF8"
proof -
  have "unat (of_nat n :: u8) = n" using assms by (simp add: unsigned_of_nat take_bit_nat_eq_self)
  then show "\<not> 0x80 + (of_nat n :: u8) < 0x80" "0x80 + (of_nat n :: u8) < 0xB8" 
    "\<not> 0xC0 + (of_nat n :: u8) < 0xC0" "\<not> 0xC0 + (of_nat n :: u8) < 0x80" "\<not> 0xC0 + (of_nat n :: u8) < 0xB8" "0xC0 + (of_nat n :: u8) < 0xF8"
    using assms by (simp_all add: word_less_nat_alt unat_word_ariths)
qed

lemma large_tag:
  assumes "1 \<le> k" "k \<le> 8"
  shows "\<not> 0x80 + 55 + (of_nat k :: u8) < 0xB8" "0x80 + 55 + (of_nat k :: u8) < 0xC0" "unat (0x80 + 55 + (of_nat k :: u8) - 0xB7) = k"
    "\<not> 0xC0 + 55 + (of_nat k :: u8) < 0xF8" "unat (0xC0 + 55 + (of_nat k :: u8) - 0xF7) = k"
  using tag_cases [OF assms] by auto

lemma room_left: "h + n + r < 2 ^ 64 \<Longrightarrow> \<not> of_nat (h + n + r) - of_nat h < (of_nat n :: u64)"
proof -
  assume "h + n + r < 2 ^ 64"
  then have "unat (of_nat (n + r) :: u64) = n + r" "unat (of_nat n :: u64) = n" by (simp_all add: unat_of_nat_small del: of_nat_add)
  moreover have "of_nat (h + n + r) - of_nat h = (of_nat (n + r) :: u64)" by simp
  ultimately show ?thesis by (simp add: word_less_nat_alt del: of_nat_add)
qed

lemma readKind_head:
  assumes len: "length (rlp_len tag (length c)) + length c + length rest < 2 ^ 64"
    and k: "tag = 0x80 \<and> k = String_kind \<and> \<not> (length c = 1 \<and> c ! 0 < 0x80) \<or> tag = 0xC0 \<and> k = List_kind"
  shows "readKind (rlp_len tag (length c) @ c @ rest) = Inr (k, of_nat (length (rlp_len tag (length c))), of_nat (length c))"
proof (cases "length c < 56")
  case True
  have r: "\<not> of_nat (Suc (length c + length rest)) - 1 < (of_nat (length c) :: u64)"
    using room_left [of 1 "length c" "length rest"] len True by (simp add: rlp_len_def)
  have un: "unat (of_nat (length c) :: u8) = length c" using True by (simp add: unsigned_of_nat take_bit_nat_eq_self)
  have u: "ucast (of_nat (length c) :: u8) = (of_nat (length c) :: u64)"
    by (metis of_nat_unat un)
  have o: "(of_nat (length c) :: u8) = 1 \<longleftrightarrow> length c = 1" by (metis un unat_1 of_nat_1)
  show ?thesis
    using k r u o small_tag [OF True] True
    by (elim disjE conjE) (auto simp: rlp_len_def readKind_def nth_append Let_def)
next
  case False
  let ?B = "Bytes (int (length c))"
  have n: "56 \<le> length c" "length c < 2 ^ 64" using False len by simp_all
  have "0 < int (length c)" using n by linarith
  then have B: "1 \<le> length ?B" "length ?B \<le> 8"
    using Bytes_hd [of "int (length c)"] n length_Bytes_u64 [of "int (length c)"] by (simp_all add: Suc_le_eq)
  have rs: "readSize (?B @ c @ rest) (length ?B) = Inr (of_nat (length c))" using readSize_Bytes [OF n] .
  have t: "ucast (0x80 + 55 + (of_nat (length ?B) :: u8) - 0xB7) + 1 = (of_nat (Suc (length ?B)) :: u64)"
    "ucast (0xC0 + 55 + (of_nat (length ?B) :: u8) - 0xF7) + 1 = (of_nat (Suc (length ?B)) :: u64)"
    using large_tag(3,5) [OF B] by (metis of_nat_unat of_nat_Suc add.commute)+
  have r: "\<not> of_nat (Suc (length ?B + (length c + length rest))) - of_nat (Suc (length ?B)) < (of_nat (length c) :: u64)"
    using room_left [of "Suc (length ?B)" "length c" "length rest"] len False by (simp add: rlp_len_def add.assoc)
  have nlt: "\<not> 0x80 + 55 + (of_nat (length ?B) :: u8) < 0x80" "\<not> 0xC0 + 55 + (of_nat (length ?B) :: u8) < 0x80"
    "\<not> 0xC0 + 55 + (of_nat (length ?B) :: u8) < 0xB8" "\<not> 0xC0 + 55 + (of_nat (length ?B) :: u8) < 0xC0"
    using tag_cases [OF B] by auto
  show ?thesis
    using k rs t r nlt large_tag [OF B] False
    unfolding rlp_len_def readKind_def Let_def
    by (elim disjE conjE) (simp_all del: of_nat_Suc)
qed

lemma readKind_byte: "x < 0x80 \<Longrightarrow> length rest < 2 ^ 63 \<Longrightarrow> readKind (x # rest) = Inr (Byte_kind, 0, 1)"
  using room_left [of 0 1 "length rest"] by (simp add: readKind_def)

text \<open>An encoded item with its kind and content.\<close>

definition rlp_item :: "Kind \<Rightarrow> bytes \<Rightarrow> bytes \<Rightarrow> bool" where
  "rlp_item k b c \<longleftrightarrow>
    k = Byte_kind \<and> b = c \<and> length c = 1 \<and> c ! 0 < 0x80 \<or>
    k = String_kind \<and> b = rlp_len 0x80 (length c) @ c \<and> \<not> (length c = 1 \<and> c ! 0 < 0x80) \<or>
    k = List_kind \<and> b = rlp_len 0xC0 (length c) @ c"

lemma rlp_string_item: "rlp_item (if length b = 1 \<and> b ! 0 < 0x80 then Byte_kind else String_kind) (rlp_string b) b"
  by (simp add: rlp_item_def rlp_string_def)

lemma rlp_list_item: "rlp_item List_kind (rlp (VList vs)) (concat (map rlp vs))"
  by (simp add: rlp_item_def Let_def)

lemma length_rlp_len_le: "n < 2 ^ 64 \<Longrightarrow> 1 \<le> length (rlp_len tag n) \<and> length (rlp_len tag n) \<le> 9"
  using length_Bytes_u64 [of "int n"] by (simp add: rlp_len_def)

lemma rlp_Split_item:
  assumes "rlp_item k b c" "length (b @ rest) < 2 ^ 63"
  shows "rlp_Split (b @ rest) = Some (Inr (k, c, rest))"
proof (cases "k = Byte_kind")
  case True
  then obtain x where x: "b = [x]" "c = [x]" "x < 0x80" using assms(1) by (auto simp: rlp_item_def length_Suc_conv)
  then show ?thesis using readKind_byte [of x rest] True assms(2) by (simp add: rlp_Split_def slice_def)
next
  case False
  obtain tag where t: "b = rlp_len tag (length c) @ c"
    "tag = 0x80 \<and> k = String_kind \<and> \<not> (length c = 1 \<and> c ! 0 < 0x80) \<or> tag = 0xC0 \<and> k = List_kind"
    using assms(1) False unfolding rlp_item_def by blast
  let ?h = "rlp_len tag (length c)"
  have len: "length ?h + length c + length rest < 2 ^ 64" using assms(2) t(1) by simp
  have "unat (of_nat (length ?h) :: u64) = length ?h" "unat (of_nat (length ?h) + of_nat (length c) :: u64) = length ?h + length c"
    using len unat_of_nat_small [of "length ?h"] unat_of_nat_small [of "length ?h + length c"] by simp_all
  then show ?thesis using readKind_head [OF len t(2)] t(1) by (simp add: rlp_Split_def slice_def)
qed

lemma SplitString_rlp: "length (rlp_string b @ rest) < 2 ^ 63 \<Longrightarrow> SplitString (rlp_string b @ rest) = Some (Inr (b, rest))"
  using rlp_Split_item [OF rlp_string_item] by (simp add: SplitString_def)

lemma SplitList_rlp:
  "length (rlp (VList vs) @ rest) < 2 ^ 63 \<Longrightarrow> SplitList (rlp (VList vs) @ rest) = Some (Inr (concat (map rlp vs), rest))"
  using rlp_Split_item [OF rlp_list_item] by (simp add: SplitList_def)

text \<open>\<^verbatim>\<open>CountValues\<close>: every iteration takes at least one byte, so the length of the input is enough fuel.\<close>

primrec CountValues_loop :: "nat \<Rightarrow> nat \<Rightarrow> bytes \<Rightarrow> (rlp_error + nat) res" where
  "CountValues_loop 0 i b = (if b = [] then Done (Inr i) else NoFuel)"
| "CountValues_loop (Suc n) i b =
    (if b = [] then Done (Inr i)
     else
       (case readKind b of
          Inl e \<Rightarrow> Done (Inl e)
        | Inr (k, tagsize, sz) \<Rightarrow>
            (case slice b (unat (tagsize + sz)) (length b) of
               None \<Rightarrow> Panic
             | Some b \<Rightarrow> CountValues_loop n (i + 1) b)))"

definition CountValues :: "bytes \<Rightarrow> (rlp_error + nat) res" where
  "CountValues b = CountValues_loop (length b) 0 b"

lemma CountValues_loop_items:
  assumes "list_all (\<lambda>b. \<exists>k c. rlp_item k b c) bs" "length (concat bs) < 2 ^ 63" "length bs \<le> n"
  shows "CountValues_loop n i (concat bs) = Done (Inr (i + length bs))"
  using assms
proof (induction bs arbitrary: n i)
  case Nil
  then show ?case by (cases n) simp_all
next
  case (Cons b bs)
  obtain k c where kc: "rlp_item k b c" using Cons.prems(1) by auto
  then have ne: "b \<noteq> []" by (auto simp: rlp_item_def rlp_len_def)
  have "rlp_Split (b @ concat bs) = Some (Inr (k, c, concat bs))" using rlp_Split_item [OF kc] Cons.prems(2) by simp
  then obtain ts cs where "readKind (b @ concat bs) = Inr (k, ts, cs)" "slice (b @ concat bs) (unat (ts + cs)) (length (b @ concat bs)) = Some (concat bs)"
    by (auto simp: rlp_Split_def split: sum.splits option.splits)
  moreover obtain m where "n = Suc m" using Cons.prems(3) by (cases n) auto
  ultimately show ?case using Cons ne by simp
qed

lemma CountValues_items:
  assumes "list_all (\<lambda>b. \<exists>k c. rlp_item k b c) bs" "length (concat bs) < 2 ^ 63"
  shows "CountValues (concat bs) = Done (Inr (length bs))"
proof -
  have "length bs \<le> length (concat bs)"
    using assms(1) by (induction bs) (auto simp: rlp_item_def rlp_len_def Suc_le_eq split: if_splits)
  then show ?thesis using CountValues_loop_items [OF assms] by (simp add: CountValues_def)
qed

section \<open>Properties\<close>

text \<open>
  C11. The encoder implements the recursive length prefix encoding: it writes the data first and merges the list headers in
  afterwards, with sizes it has counted along the way, and the result is exactly the encoding by recursion on the value, for
  every value whose encoding is shorter than \<open>2 ^ 63\<close> bytes.  It fails exactly for values with a negative integer inside;
  booleans are encoded, as the bytes of one and zero.
\<close>

theorem EncodeToBytes_rlp:
  assumes "length (rlp v) < 2 ^ 63"
  shows "EncodeToBytes v = (if encodable v then Some (rlp v) else None)"
  using EncodeToBytes_eq [of v] assms by simp

theorem EncodeToBytes_rlp_witness:
  "EncodeToBytes (VList [VString [0x64, 0x6F, 0x67], VList [], VUint 1024]) = Some [0xC8, 0x83, 0x64, 0x6F, 0x67, 0xC0, 0x82, 0x04, 0x00] \<and>
   EncodeToBytes (VList [VBigInt (-1)]) = None"
proof -
  have e: "rlp (VList [VString [0x64, 0x6F, 0x67], VList [], VUint 1024]) = [0xC8, 0x83, 0x64, 0x6F, 0x67, 0xC0, 0x82, 0x04, 0x00]"
    "length (rlp (VList [VBigInt (-1)])) = 2"
    by code_simp+
  show ?thesis
    using EncodeToBytes_rlp [of "VList [VString [0x64, 0x6F, 0x67], VList [], VUint 1024]"] EncodeToBytes_rlp [of "VList [VBigInt (-1)]"] e
    by (simp del: rlp.simps)
qed

text \<open>
  C25. Reading an encoding in pieces gives the same bytes: with buffers of any sizes, empty ones included, the reads deliver the
  encoding from its beginning, as much as fits, and the end is reported with the read that delivers the last byte.
\<close>

theorem EncodeToReader_reads:
  assumes "encodable v" "length (rlp v) < 2 ^ 63" "EncodeToReader v = Some (sz, r)"
  shows "sz = length (rlp v) \<and> er_reads ks r = Some (take (sum_list ks) (rlp v), ks \<noteq> [] \<and> length (rlp v) \<le> sum_list ks)"
  using EncodeToReader_ok [OF assms(1)] assms(2,3) er_reads_pending [of r ks] by auto

theorem EncodeToReader_reads_witness:
  "\<exists>sz r. EncodeToReader (VList [VUint 7, VUint 1024]) = Some (sz, r) \<and> sz = 5 \<and> er_reads [2, 0, 3] r = Some ([0xC4, 7, 0x82, 4, 0], True)"
proof -
  let ?v = "VList [VUint 7, VUint 1024]"
  have e: "rlp ?v = [0xC4, 7, 0x82, 4, 0]" "encodable ?v" by code_simp+
  obtain r where r: "EncodeToReader ?v = Some (length (rlp ?v), r)" using EncodeToReader_ok [of ?v] e by (auto simp del: rlp.simps)
  show ?thesis using EncodeToReader_reads [OF e(2) _ r, of "[2, 0, 3]"] r e by (simp del: rlp.simps)
qed

end
