(* ===== verification/Trie_Keys.thy ===== *)
theory Trie_Keys
  imports Prelude "HOL-Library.Sublist"
begin

text \<open>
  The encodings of trie keys (\<^verbatim>\<open>src/trie/encoding.go\<close>): the bytes of a key, one byte for every nibble with an optional
  terminator, and the compact form of the nodes on disk.  Indexing outside a slice is the outcome \<open>None\<close>.
\<close>

unbundle bit_operations_syntax

section \<open>Operations\<close>

definition hasTerm :: "bytes \<Rightarrow> bool" where
  "hasTerm s \<longleftrightarrow> length s > 0 \<and> s ! (length s - 1) = 16"

fun prefixLen :: "bytes \<Rightarrow> bytes \<Rightarrow> nat" where
  "prefixLen (a # as) (b # bs) = (if a \<noteq> b then 0 else Suc (prefixLen as bs))"
| "prefixLen _ _ = 0"

text \<open>\<^verbatim>\<open>decodeNibbles\<close> writes pairs of nibbles over the beginning of a buffer.\<close>

fun decodeNibbles :: "bytes \<Rightarrow> bytes \<Rightarrow> bytes option" where
  "decodeNibbles [] buf = Some buf"
| "decodeNibbles (x # y # nibbles) (_ # buf) = map_option ((#) (push_bit 4 x OR y)) (decodeNibbles nibbles buf)"
| "decodeNibbles _ _ = None"

definition keybytesToHex :: "bytes \<Rightarrow> bytes" where
  "keybytesToHex str = concat (map (\<lambda>b. [b div 16, b mod 16]) str) @ [16]"

definition hexToKeybytes :: "bytes \<Rightarrow> bytes option" where
  "hexToKeybytes hex =
    (let hex = (if hasTerm hex then take (length hex - 1) hex else hex)
     in if odd (length hex) then None
        else decodeNibbles hex (replicate ((length hex + 1) div 2) 0))"

definition hexToCompact :: "bytes \<Rightarrow> bytes option" where
  "hexToCompact hex =
    (let (terminator, hex) = (if hasTerm hex then (1, take (length hex - 1) hex) else (0, hex));
         buf0 = push_bit 5 terminator;
         buf = replicate (length hex div 2) 0;
         (buf0, hex) = (if odd (length hex) then (buf0 OR push_bit 4 1 OR hex ! 0, drop 1 hex) else (buf0, hex))
     in map_option ((#) buf0) (decodeNibbles hex buf))"

definition compactToHex :: "bytes \<Rightarrow> bytes option" where
  "compactToHex compact =
    (let base = keybytesToHex compact; base = take (length base - 1) base
     in if base = [] then None
        else
          (let base = (if base ! 0 \<ge> 2 then base @ [16] else base);
               chop = unat (2 - (base ! 0 AND 1))
           in slice base chop (length base)))"

section \<open>Keys in hexadecimal form\<close>

definition nibbles :: "bytes \<Rightarrow> bool" where
  "nibbles ns \<longleftrightarrow> (\<forall>x \<in> set ns. x < 16)"

text \<open>A complete key ends with the terminator, a partial one may.\<close>

definition full_key :: "bytes \<Rightarrow> bool" where
  "full_key k \<longleftrightarrow> (\<exists>ns. nibbles ns \<and> k = ns @ [16])"

definition hex_key :: "bytes \<Rightarrow> bool" where
  "hex_key k \<longleftrightarrow> nibbles k \<or> full_key k"

lemma nibbles_simps [simp]:
  "nibbles []" "nibbles (x # ns) \<longleftrightarrow> x < 16 \<and> nibbles ns" "nibbles (ns @ ms) \<longleftrightarrow> nibbles ns \<and> nibbles ms"
  by (auto simp: nibbles_def)

lemma not_nibble_16 [simp]: "\<not> (16 :: u8) < 16"
  by simp

lemma full_key_simps [simp]: "\<not> full_key []" "full_key (x # k) \<longleftrightarrow> (x = 16 \<and> k = [] \<or> x < 16 \<and> full_key k)"
proof -
  show "\<not> full_key []" by (simp add: full_key_def)
  show "full_key (x # k) \<longleftrightarrow> (x = 16 \<and> k = [] \<or> x < 16 \<and> full_key k)"
  proof
    assume "full_key (x # k)"
    then obtain ns where "nibbles ns" "x # k = ns @ [16]" by (auto simp: full_key_def)
    then show "x = 16 \<and> k = [] \<or> x < 16 \<and> full_key k" by (cases ns) (auto simp: full_key_def)
  next
    assume "x = 16 \<and> k = [] \<or> x < 16 \<and> full_key k"
    then show "full_key (x # k)"
    proof
      assume "x = 16 \<and> k = []"
      then show ?thesis by (auto simp: full_key_def intro: exI [of _ "[]"])
    next
      assume "x < 16 \<and> full_key k"
      then obtain ns where "nibbles (x # ns)" "x # k = (x # ns) @ [16]" by (auto simp: full_key_def)
      then show ?thesis unfolding full_key_def by blast
    qed
  qed
qed

lemma full_key_append: "full_key (k @ k') \<longleftrightarrow> (if k' = [] then full_key k else nibbles k \<and> full_key k')"
  by (induction k) auto

lemma full_not_nibbles: "full_key k \<Longrightarrow> \<not> nibbles k"
  by (auto simp: full_key_def)

lemma hasTerm_snoc [simp]: "hasTerm (s @ [x]) \<longleftrightarrow> x = 16"
  by (simp add: hasTerm_def)

lemma hasTerm_full: "full_key k \<Longrightarrow> hasTerm k"
  by (auto simp: full_key_def)

lemma hasTerm_nibbles: "nibbles k \<Longrightarrow> \<not> hasTerm k"
  by (cases k rule: rev_cases) (auto simp: hasTerm_def)

text \<open>Complete keys are prefix free.\<close>

lemma full_key_prefix_free: "full_key k \<Longrightarrow> full_key k' \<Longrightarrow> prefix k k' \<Longrightarrow> k = k'"
  by (auto simp: prefix_def full_key_append full_not_nibbles split: if_splits)

section \<open>Nibbles\<close>

lemma nibble_high: "(b :: u8) div 16 < 16" and nibble_low: "(b :: u8) mod 16 < 16"
proof -
  have "unat b < 256" using unsigned_less [of b] by simp
  then show "b div 16 < 16" by (simp add: word_less_nat_alt unat_div less_mult_imp_div_less)
  show "b mod 16 < 16" by (simp add: word_less_nat_alt unat_mod)
qed

lemma nibble_join_div_mod:
  assumes "x < 16" "y < (16 :: u8)"
  shows "(push_bit 4 x OR y) div 16 = x" "(push_bit 4 x OR y) mod 16 = y"
proof -
  have "\<forall>x < 16. \<forall>y < 16. (push_bit 4 (word_of_nat x :: u8) OR word_of_nat y) div 16 = word_of_nat x \<and> 
     (push_bit 4 (word_of_nat x :: u8) OR word_of_nat y) mod 16 = word_of_nat y"
    by code_simp
  moreover have "unat x < 16" "unat y < 16" using assms by (simp_all add: word_less_nat_alt)
  ultimately have "(push_bit 4 (word_of_nat (unat x) :: u8) OR word_of_nat (unat y)) div 16 = word_of_nat (unat x) \<and> 
     (push_bit 4 (word_of_nat (unat x) :: u8) OR word_of_nat (unat y)) mod 16 = word_of_nat (unat y)" by blast
  then show "(push_bit 4 x OR y) div 16 = x" "(push_bit 4 x OR y) mod 16 = y" by simp_all
qed

lemma nibble_split: "push_bit 4 (b div 16) OR (b mod 16) = (b :: u8)"
proof -
  have "b mod 16 = take_bit 4 b" "b div 16 = drop_bit 4 b" by (simp_all add: take_bit_eq_mod drop_bit_eq_div)
  then show ?thesis by (simp add: bit_eq_iff) (auto simp: bit_simps)
qed

lemma keybytesToHex_simps [simp]:
  "keybytesToHex [] = [16]" "keybytesToHex (b # s) = b div 16 # b mod 16 # keybytesToHex s"
  by (simp_all add: keybytesToHex_def)

lemma full_key_keybytesToHex [simp]: "full_key (keybytesToHex s)"
  by (induction s) (simp_all add: nibble_high nibble_low)

lemma keybytesToHex_inject [simp]: "keybytesToHex s = keybytesToHex s' \<longleftrightarrow> s = s'"
proof
  show "s = s'" if "keybytesToHex s = keybytesToHex s'"
    using that
  proof (induction s arbitrary: s')
    case Nil
    then show ?case by (cases s') auto
  next
    case (Cons b s)
    then show ?case by (cases s') (auto, metis nibble_split)
  qed
qed simp

lemma decodeNibbles_pairs:
  "nibbles ns \<Longrightarrow> even (length ns) \<Longrightarrow> length ns div 2 \<le> length buf \<Longrightarrow>
    \<exists>bs. decodeNibbles ns buf = Some (bs @ drop (length ns div 2) buf) \<and> keybytesToHex bs = ns @ [16]"
proof (induction ns buf rule: decodeNibbles.induct)
  case (2 x y ns b buf)
  then obtain bs where "decodeNibbles ns buf = Some (bs @ drop (length ns div 2) buf)" "keybytesToHex bs = ns @ [16]" by auto
  then show ?case using 2(2) by (intro exI [of _ "(push_bit 4 x OR y) # bs"]) (simp add: nibble_join_div_mod)
qed auto

lemma decodeNibbles_bytes: "decodeNibbles (butlast (keybytesToHex s)) (replicate (length s) 0) = Some s"
  by (induction s) (simp_all add: keybytesToHex_def nibble_split)

lemma length_keybytesToHex [simp]: "length (keybytesToHex s) = 2 * length s + 1"
  by (induction s) simp_all

section \<open>Round trips\<close>

lemma hexToKeybytes_keybytesToHex: "hexToKeybytes (keybytesToHex s) = Some s"
  using decodeNibbles_bytes [of s] hasTerm_full [OF full_key_keybytesToHex, of s]
  by (simp add: hexToKeybytes_def Let_def butlast_conv_take)

lemma keybytesToHex_hexToKeybytes:
  assumes "full_key k" "odd (length k)"
  shows "\<exists>s. hexToKeybytes k = Some s \<and> keybytesToHex s = k"
proof -
  obtain ns where ns: "nibbles ns" "k = ns @ [16]" using assms(1) by (auto simp: full_key_def)
  then show ?thesis
    using decodeNibbles_pairs [OF ns(1), of "replicate (length ns div 2) 0"] assms(2) by (auto simp: hexToKeybytes_def Let_def)
qed

definition flag_byte :: "bool \<Rightarrow> bytes \<Rightarrow> u8" where
  "flag_byte t ns = push_bit 5 (if t then 1 else 0) OR (if odd (length ns) then push_bit 4 1 OR ns ! 0 else 0)"

lemma flag_byte_nibbles:
  assumes "nibbles ns"
  shows "flag_byte t ns div 16 = (if t then 2 else 0) + (if odd (length ns) then 1 else 0)"
    "odd (length ns) \<Longrightarrow> flag_byte t ns mod 16 = ns ! 0" 
proof -
  have x: "ns ! 0 < 16" if "odd (length ns)" using that assms by (cases ns) auto
  let ?h = "(if t then 2 else 0) + (if odd (length ns) then 1 else 0) :: u8"
  let ?l = "if odd (length ns) then ns ! 0 else 0"
  have "flag_byte t ns = push_bit 4 ?h OR ?l" by (auto simp: flag_byte_def push_bit_eq_mult or.assoc [symmetric])
  moreover have "?h < 16" "?l < 16" using x by simp_all
  ultimately show "flag_byte t ns div 16 = ?h" "odd (length ns) \<Longrightarrow> flag_byte t ns mod 16 = ns ! 0"
    using nibble_join_div_mod [of ?h ?l] by simp_all
qed

lemma hexToCompact_parts:
  assumes "nibbles ns"
  shows "hexToCompact (if t then ns @ [16] else ns) = 
    map_option ((#) (flag_byte t ns)) (decodeNibbles (if odd (length ns) then drop 1 ns else ns) (replicate (length ns div 2) 0))"
  using hasTerm_nibbles [OF assms] by (simp add: hexToCompact_def flag_byte_def or.assoc)

lemma compactToHex_Cons:
  "compactToHex (b # bs) = 
    Some (drop (if odd (b div 16) then 1 else 2) (b div 16 # b mod 16 # butlast (keybytesToHex bs)) @ (if b div 16 \<ge> 2 then [16] else []))"
proof -
  have "(x :: u8) AND 1 = (if odd x then 1 else 0)" for x by (simp add: one_and_eq and.commute odd_iff_mod_2_eq_one)
  then show ?thesis by (simp add: compactToHex_def Let_def slice_def butlast_conv_take)
qed

lemma compact_hex_inverse:
  assumes "hex_key k"
  shows "\<exists>c. hexToCompact k = Some c \<and> c \<noteq> [] \<and> compactToHex c = Some k"
proof -
  obtain t ns where k: "nibbles ns" "k = (if t then ns @ [16] else ns)"
    using assms by (auto simp: hex_key_def full_key_def split: if_splits) (metis+)
  define ms where "ms = (if odd (length ns) then drop 1 ns else ns)"
  have m: "nibbles ms" "even (length ms)" "length ms div 2 = length ns div 2" using k(1) by (cases ns; simp add: ms_def)+
  then obtain bs where bs: "decodeNibbles ms (replicate (length ns div 2) 0) = Some bs" "keybytesToHex bs = ms @ [16]"
    using decodeNibbles_pairs [OF m(1,2), of "replicate (length ns div 2) 0"] by auto
  have ns: "ns = ns ! 0 # ms" if "odd (length ns)" using that by (cases ns) (auto simp: ms_def)
  have two: "\<not> (2 :: u8) \<le> 1" by (simp add: word_le_nat_alt)
  show ?thesis
    using hexToCompact_parts [OF k(1), of t] bs k(2) flag_byte_nibbles [OF k(1), of t] ns two
    by (auto simp: compactToHex_Cons ms_def [symmetric]) (auto simp: ms_def)
qed

section \<open>Common prefixes\<close>

lemma prefixLen_le: "prefixLen a b \<le> length a" "prefixLen a b \<le> length b"
  by (induction a b rule: prefixLen.induct) auto

lemma take_prefixLen: "take (prefixLen a b) a = take (prefixLen a b) b"
  by (induction a b rule: prefixLen.induct) auto

lemma prefixLen_differ: "prefixLen a b < length a \<Longrightarrow> prefixLen a b < length b \<Longrightarrow> a ! prefixLen a b \<noteq> b ! prefixLen a b"
  by (induction a b rule: prefixLen.induct) auto

lemma prefixLen_prefix: "prefixLen a b = length b \<longleftrightarrow> prefix b a"
  by (induction a b rule: prefixLen.induct) auto

lemma prefixLen_longest: "prefixLen a b = length (longest_common_prefix a b)"
  by (induction a b rule: prefixLen.induct) auto

section \<open>Properties\<close>

text \<open>
  C26. The encodings of a trie key lose nothing: the nibbles of a byte string turn back into the byte string, and every key of
  nibbles, of even or odd length and with or without the terminator, has a compact form that turns back into the key.
\<close>

theorem key_roundtrips:
  assumes "hex_key k"
  shows "hexToKeybytes (keybytesToHex s) = Some s \<and> (\<exists>c. hexToCompact k = Some c \<and> compactToHex c = Some k)"
  using hexToKeybytes_keybytesToHex compact_hex_inverse [OF assms] by blast

theorem key_roundtrips_witness:
  "hexToKeybytes (keybytesToHex [0x12, 0xAB]) = Some [0x12, 0xAB] \<and>
   (\<exists>c. hexToCompact [1, 2, 3, 16] = Some c \<and> compactToHex c = Some [1, 2, 3, 16])"
  by (rule key_roundtrips) (simp add: hex_key_def)

end
