(* ===== verification/Trie_Nodes.thy ===== *)
theory Trie_Nodes
  imports RLP_Encoding Trie_Keys
begin

text \<open>
  The nodes of the trie and their decoding (\<^verbatim>\<open>src/trie/node.go\<close>).  Printing of nodes is left out.
\<close>

section \<open>Nodes\<close>

type_synonym u16 = "16 word"

text \<open>A nil hash is \<open>None\<close>, a nil node is \<open>NilNode\<close>; the children of a full node are an array of 17 nodes.\<close>

record nodeFlag =
  nf_hash :: "bytes option"
  nf_gen :: u16
  nf_dirty :: bool

datatype node =
    NilNode
  | fullNode "node list" nodeFlag
  | shortNode bytes node nodeFlag
  | hashNode bytes
  | valueNode bytes

definition flag_canUnload :: "nodeFlag \<Rightarrow> u16 \<Rightarrow> u16 \<Rightarrow> bool" where
  "flag_canUnload fl cachegen cachelimit \<longleftrightarrow> \<not> nf_dirty fl \<and> cachegen - nf_gen fl \<ge> cachelimit"

text \<open>The methods of the interface; calling one on a nil node panics.\<close>

fun canUnload :: "node \<Rightarrow> u16 \<Rightarrow> u16 \<Rightarrow> bool res" where
  "canUnload NilNode gen limit = Panic"
| "canUnload (fullNode cs fl) gen limit = Done (flag_canUnload fl gen limit)"
| "canUnload (shortNode k v fl) gen limit = Done (flag_canUnload fl gen limit)"
| "canUnload _ gen limit = Done False"

fun node_cache :: "node \<Rightarrow> (bytes option \<times> bool) res" where
  "node_cache NilNode = Panic"
| "node_cache (fullNode cs fl) = Done (nf_hash fl, nf_dirty fl)"
| "node_cache (shortNode k v fl) = Done (nf_hash fl, nf_dirty fl)"
| "node_cache _ = Done (None, True)"

section \<open>Decoding\<close>

datatype node_what =
    UnexpectedEOF
  | SplitError rlp_error
  | ListError rlp_error
  | ValueError rlp_error
  | WrongCount nat
  | OversizedNode nat
  | WrongStringSize nat

datatype path_elem = AtShort | AtFull | AtVal | AtChild nat

datatype node_error = PlainError node_what | PathError node_what "path_elem list"

fun wrapError :: "path_elem \<Rightarrow> node_error \<Rightarrow> node_error" where
  "wrapError ctx (PathError w stack) = PathError w (stack @ [ctx])"
| "wrapError ctx (PlainError w) = PathError w [ctx]"

definition on_error :: "('e \<Rightarrow> 'f) \<Rightarrow> ('e, 'a) fallible \<Rightarrow> ('f, 'a) fallible" where
  "on_error f m = rbind m (\<lambda>r. Done (map_sum f id r))"

definition split_with :: "(rlp_error \<Rightarrow> node_what) \<Rightarrow> (rlp_error + 'a) option \<Rightarrow> (node_error, 'a) fallible" where
  "split_with f x = on_error (PlainError \<circ> f) (of_option x)"

definition hashLen :: nat where
  "hashLen = 32"

type_synonym node_decoder = "bytes option \<Rightarrow> bytes \<Rightarrow> u16 \<Rightarrow> (node_error, node) fallible"

text \<open>
  The functions that decode the parts of a node take the decoder of embedded nodes as an argument.
\<close>

definition decodeRef :: "node_decoder \<Rightarrow> bytes \<Rightarrow> u16 \<Rightarrow> (node_error, node \<times> bytes) fallible" where
  "decodeRef dec buf cachegen =
    ebind (split_with SplitError (rlp_Split buf)) (\<lambda>(kind, val, rest).
      if kind = List_kind then
        (let sz = length buf - length rest in
         if sz > hashLen then efail (PlainError (OversizedNode sz))
         else ebind (dec None buf cachegen) (\<lambda>n. eok (n, rest)))
      else if kind = String_kind \<and> length val = 0 then eok (NilNode, rest)
      else if kind = String_kind \<and> length val = 32 then eok (hashNode val, rest)
      else efail (PlainError (WrongStringSize (length val))))"

definition decodeShort :: "node_decoder \<Rightarrow> bytes option \<Rightarrow> bytes \<Rightarrow> u16 \<Rightarrow> (node_error, node) fallible" where
  "decodeShort dec hash elems cachegen =
    ebind (split_with SplitError (SplitString elems)) (\<lambda>(kbuf, rest).
      let flag = \<lparr>nf_hash = hash, nf_gen = cachegen, nf_dirty = False\<rparr> in
      rbind (of_option (compactToHex kbuf)) (\<lambda>key.
        if hasTerm key then
          ebind (split_with ValueError (SplitString rest)) (\<lambda>(val, _). eok (shortNode key (valueNode val) flag))
        else
          ebind (on_error (wrapError AtVal) (decodeRef dec rest cachegen)) (\<lambda>(r, _). eok (shortNode key r flag))))"

primrec decode_children :: "node_decoder \<Rightarrow> nat \<Rightarrow> nat \<Rightarrow> bytes \<Rightarrow> u16 \<Rightarrow> (node_error, node list \<times> bytes) fallible" where
  "decode_children dec 0 i elems cachegen = eok ([], elems)"
| "decode_children dec (Suc m) i elems cachegen =
    ebind (on_error (wrapError (AtChild i)) (decodeRef dec elems cachegen)) (\<lambda>(cld, rest).
      ebind (decode_children dec m (i + 1) rest cachegen) (\<lambda>(clds, rest). eok (cld # clds, rest)))"

definition decodeFull :: "node_decoder \<Rightarrow> bytes option \<Rightarrow> bytes \<Rightarrow> u16 \<Rightarrow> (node_error, node) fallible" where
  "decodeFull dec hash elems cachegen =
    ebind (decode_children dec 16 0 elems cachegen) (\<lambda>(clds, elems).
      ebind (split_with SplitError (SplitString elems)) (\<lambda>(val, _).
        eok (fullNode (clds @ [if length val > 0 then valueNode val else NilNode])
          \<lparr>nf_hash = hash, nf_gen = cachegen, nf_dirty = False\<rparr>)))"

text \<open>The error of \<^verbatim>\<open>CountValues\<close> is dropped: the count is zero then.\<close>

primrec decodeNode :: "nat \<Rightarrow> node_decoder" where
  "decodeNode 0 = (\<lambda>hash buf cachegen. NoFuel)"
| "decodeNode (Suc n) = (\<lambda>hash buf cachegen.
    if length buf = 0 then efail (PlainError UnexpectedEOF)
    else
      ebind (split_with ListError (SplitList buf)) (\<lambda>(elems, _).
        rbind (CountValues elems) (\<lambda>r.
          let c = (case r of Inl e \<Rightarrow> 0 | Inr c \<Rightarrow> c) in
          if c = 2 then on_error (wrapError AtShort) (decodeShort (decodeNode n) hash elems cachegen)
          else if c = 17 then on_error (wrapError AtFull) (decodeFull (decodeNode n) hash elems cachegen)
          else efail (PlainError (WrongCount c)))))"

text \<open>An embedded node is shorter than the node around it, so the length of the input is enough fuel.\<close>

definition mustDecodeNode :: "bytes option \<Rightarrow> bytes \<Rightarrow> u16 \<Rightarrow> node res" where
  "mustDecodeNode hash buf cachegen =
    rbind (decodeNode (Suc (length buf)) hash buf cachegen) (\<lambda>r. case r of Inl e \<Rightarrow> Panic | Inr n \<Rightarrow> Done n)"

section \<open>Termination\<close>

lemma on_error_simps [simp]:
  "on_error f (eok x) = eok x" "on_error f (efail e) = efail (f e)" "on_error f Panic = Panic" "on_error f NoFuel = NoFuel"
  by (simp_all add: on_error_def)

lemma split_with_simps [simp]:
  "split_with f (Some (Inr x)) = eok x" "split_with f (Some (Inl e)) = efail (PlainError (f e))" "split_with f None = Panic"
  by (simp_all add: split_with_def on_error_def)

lemma ebind_eq_NoFuel: "ebind m f = NoFuel \<longleftrightarrow> m = NoFuel \<or> (\<exists>x. m = eok x \<and> f x = NoFuel)"
  by (cases m rule: res.exhaust; auto simp: ebind_def split: sum.splits)

lemma on_error_NoFuel [simp]: "on_error f m = NoFuel \<longleftrightarrow> m = NoFuel"
  by (cases m) (simp_all add: on_error_def)

lemma on_error_ok [simp]: "on_error f m = eok x \<longleftrightarrow> m = eok x"
  by (cases m) (auto simp: on_error_def map_sum_def split: sum.splits)

lemma split_with_NoFuel [simp]: "split_with f x \<noteq> NoFuel"
  by (simp add: split_with_def)

lemma split_with_ok [simp]: "split_with f x = eok y \<longleftrightarrow> x = Some (Inr y)"
  by (simp add: split_with_def)

lemma readSize_ok: "readSize b n = Inr s \<Longrightarrow> n \<le> length b"
  by (auto simp: readSize_def Let_def split: if_splits)


lemma readKind_bounds:
  assumes "readKind buf = Inr (k, ts, cs)" "length buf < 2 ^ 63"
  shows "unat ts + unat cs \<le> length buf" "1 \<le> unat ts + unat cs" "k = List_kind \<Longrightarrow> 1 \<le> unat ts"
proof -
  define b where "b = buf ! 0"
  have ne: "buf \<noteq> []" "\<not> of_nat (length buf) - ts < cs" using assms(1) by (auto simp: readKind_def Let_def split: if_splits sum.splits)
  have sz: "unat (ucast (b - c) + 1 :: u64) = unat (b - c) + 1" for c
  proof -
    have "unat (b - c) < 2 ^ LENGTH(8)" by (rule unsigned_less)
    then show ?thesis by (simp add: unat_word_ariths unsigned_ucast_eq take_bit_nat_eq_self)
  qed
  have size_ok: "map_sum id (\<lambda>cs. (k', t, cs)) (readSize (drop 1 buf) n) = Inr (k, ts, cs) \<Longrightarrow> k = k' \<and> ts = t \<and> n < length buf" for k' t n
    using ne(1) by (cases "readSize (drop 1 buf) n") (auto dest!: readSize_ok simp: less_Suc_eq_le Suc_diff_Suc neq_Nil_conv)
  consider "b < 0x80" | "\<not> b < 0x80" "b < 0xB8" | "\<not> b < 0x80" "\<not> b < 0xB8" "b < 0xC0"
    | "\<not> b < 0x80" "\<not> b < 0xB8" "\<not> b < 0xC0" "b < 0xF8" | "\<not> b < 0x80" "\<not> b < 0xB8" "\<not> b < 0xC0" "\<not> b < 0xF8"
    by (cases "b < 0x80"; cases "b < 0xB8"; cases "b < 0xC0"; cases "b < 0xF8") (simp_all only: not_False_eq_True)
  then have ts: "unat ts \<le> length buf \<and> 1 \<le> unat ts + unat cs \<and> (k = List_kind \<longrightarrow> 1 \<le> unat ts)"
  proof cases
    case 1
    then show ?thesis using assms(1) ne(1) unfolding readKind_def b_def [symmetric] Let_def by (simp split: if_splits)
  next
    case 2
    then show ?thesis using assms(1) ne(1) unfolding readKind_def b_def [symmetric] Let_def by (auto simp: Suc_le_eq split: if_splits)
  next
    case 3
    then have "map_sum id (\<lambda>cs. (String_kind, ucast (b - 0xB7) + 1, cs)) (readSize (drop 1 buf) (unat (b - 0xB7))) = Inr (k, ts, cs)"
      using assms(1) ne(1) unfolding readKind_def b_def [symmetric] Let_def by (auto split: if_splits sum.splits)
    then show ?thesis using size_ok sz [of "0xB7"] by fastforce
  next
    case 4
    then show ?thesis using assms(1) ne(1) unfolding readKind_def b_def [symmetric] Let_def by (auto simp: Suc_le_eq split: if_splits)
  next
    case 5
    then have "map_sum id (\<lambda>cs. (List_kind, ucast (b - 0xF7) + 1, cs)) (readSize (drop 1 buf) (unat (b - 0xF7))) = Inr (k, ts, cs)"
      using assms(1) ne(1) unfolding readKind_def b_def [symmetric] Let_def by (auto split: if_splits sum.splits)
    then show ?thesis using size_ok sz [of "0xF7"] by fastforce
  qed
  have "unat (of_nat (length buf) - ts :: u64) = length buf - unat ts"
    using ts assms(2) by (subst unat_sub) (simp_all add: word_le_nat_alt unat_of_nat_u64)
  then show "unat ts + unat cs \<le> length buf" using ts ne(2) unfolding word_less_nat_alt by linarith
  show "1 \<le> unat ts + unat cs" "k = List_kind \<Longrightarrow> 1 \<le> unat ts" using ts by simp_all
qed

lemma readKind_sum:
  assumes "readKind buf = Inr (k, ts, cs)" "length buf < 2 ^ 63"
  shows "unat (ts + cs) = unat ts + unat cs"
  using readKind_bounds(1) [OF assms] assms(2) by (intro unat_plus_nowrap) simp

lemma rlp_Split_bounds:
  assumes "length buf < 2 ^ 63"
  obtains e where "rlp_Split buf = Some (Inl e)"
    | k c rest where "rlp_Split buf = Some (Inr (k, c, rest))" "length c + length rest \<le> length buf" "length rest < length buf"
      "k = List_kind \<Longrightarrow> length c < length buf"
proof (cases "readKind buf")
  case (Inl e)
  then show thesis using that(1) [of e] by (simp add: rlp_Split_def)
next
  case (Inr r)
  then obtain k ts cs where r: "readKind buf = Inr (k, ts, cs)" by (cases r) auto
  note b = readKind_bounds [OF r assms] readKind_sum [OF r assms]
  have "rlp_Split buf = Some (Inr (k, take (unat cs) (drop (unat ts) buf), drop (unat ts + unat cs) buf))"
    using b r by (auto simp: rlp_Split_def slice_def)
  then show thesis by (rule that(2)) (use b in \<open>auto simp: min_def\<close>)
qed

lemma SplitString_bounds:
  assumes "length buf < 2 ^ 63"
  obtains e where "SplitString buf = Some (Inl e)"
    | c rest where "SplitString buf = Some (Inr (c, rest))" "length rest < length buf"
proof (rule rlp_Split_bounds [OF assms])
  fix k c rest
  assume "rlp_Split buf = Some (Inr (k, c, rest))" "length rest < length buf" "k = List_kind \<Longrightarrow> length c < length buf"
  then show thesis by (cases "k = List_kind") (auto simp: SplitString_def intro: that)
qed (auto simp: SplitString_def intro: that)

lemma SplitList_bounds:
  assumes "length buf < 2 ^ 63"
  obtains e where "SplitList buf = Some (Inl e)"
    | c rest where "SplitList buf = Some (Inr (c, rest))" "length c < length buf"
proof (rule rlp_Split_bounds [OF assms])
  fix k c rest
  assume "rlp_Split buf = Some (Inr (k, c, rest))" "length rest < length buf" "k = List_kind \<Longrightarrow> length c < length buf"
  then show thesis by (cases "k = List_kind") (auto simp: SplitList_def intro: that)
qed (auto simp: SplitList_def intro: that)

lemma CountValues_loop_returns: "length b \<le> n \<Longrightarrow> length b < 2 ^ 63 \<Longrightarrow> \<exists>r. CountValues_loop n i b = Done r"
proof (induction n arbitrary: i b)
  case (Suc n)
  show ?case
  proof (cases "b = [] \<or> (\<exists>e. readKind b = Inl e)")
    case False
    then obtain k ts cs where r: "readKind b = Inr (k, ts, cs)" "b \<noteq> []" by (cases "readKind b") auto
    note bd = readKind_bounds [OF r(1) Suc.prems(2)] readKind_sum [OF r(1) Suc.prems(2)]
    then have "length (drop (unat ts + unat cs) b) \<le> n" using Suc.prems(1) by simp
    then show ?thesis using Suc.IH [of "drop (unat ts + unat cs) b" "i + 1"] Suc.prems(2) r bd by (auto simp: slice_def)
  qed auto
qed simp

lemma CountValues_returns: "length b < 2 ^ 63 \<Longrightarrow> \<exists>r. CountValues b = Done r"
  by (simp add: CountValues_def CountValues_loop_returns)

lemma decodeRef_fuel:
  assumes "length buf < 2 ^ 63" "dec None buf g \<noteq> NoFuel"
  shows "decodeRef dec buf g \<noteq> NoFuel \<and> (\<forall>n rest. decodeRef dec buf g = eok (n, rest) \<longrightarrow> length rest < length buf)"
proof (rule rlp_Split_bounds [OF assms(1)])
  fix k c rest
  assume "rlp_Split buf = Some (Inr (k, c, rest))" "length rest < length buf"
  then show ?thesis using assms(2) by (auto simp: decodeRef_def Let_def ebind_eq_ok ebind_eq_NoFuel)
qed (simp add: decodeRef_def)

lemma decode_children_fuel:
  assumes "\<And>b. length b \<le> length buf \<Longrightarrow> dec None b g \<noteq> NoFuel" "length buf < 2 ^ 63"
  shows "decode_children dec m i buf g \<noteq> NoFuel \<and> 
    (\<forall>ns rest. decode_children dec m i buf g = eok (ns, rest) \<longrightarrow> length rest \<le> length buf \<and> length ns = m)"
  using assms
proof (induction m arbitrary: i buf)
  case (Suc m)
  have r: "decodeRef dec buf g \<noteq> NoFuel" "decodeRef dec buf g = eok (n, rest) \<Longrightarrow> length rest < length buf" for n rest
    using decodeRef_fuel [of buf dec g] Suc.prems by auto
  have ih: "decode_children dec m (i + 1) rest g \<noteq> NoFuel"
    "decode_children dec m (i + 1) rest g = eok (ns, rest') \<Longrightarrow> length rest' \<le> length rest \<and> length ns = m"
    if "decodeRef dec buf g = eok (n, rest)" for n rest ns rest'
    using Suc.IH [of rest "i + 1"] Suc.prems r(2) [OF that] by simp_all
  show ?case using r ih by (fastforce simp: ebind_eq_ok ebind_eq_NoFuel)
qed simp

lemma decodeNode_fuel: "length buf < n \<Longrightarrow> length buf < 2 ^ 63 \<Longrightarrow> decodeNode n h buf g \<noteq> NoFuel"
proof (induction n arbitrary: h buf)
  case (Suc n)
  show ?case
  proof (rule SplitList_bounds [OF Suc.prems(2)])
    fix c rest
    assume c: "SplitList buf = Some (Inr (c, rest))" "length c < length buf"
    then have dec: "\<And>b. length b \<le> length c \<Longrightarrow> decodeNode n None b g \<noteq> NoFuel" and len: "length c < 2 ^ 63"
      using Suc.IH Suc.prems by simp_all
    have short: "decodeShort (decodeNode n) h c g \<noteq> NoFuel"
    proof (rule SplitString_bounds [OF len])
      fix k r
      assume k: "SplitString c = Some (Inr (k, r))" "length r < length c"
      have "decodeRef (decodeNode n) r g \<noteq> NoFuel" using decodeRef_fuel [of r "decodeNode n" g] dec [of r] k len by simp
      then show ?thesis using k by (cases "compactToHex k") (auto simp: decodeShort_def Let_def ebind_eq_NoFuel)
    qed (simp add: decodeShort_def)
    have full: "decodeFull (decodeNode n) h c g \<noteq> NoFuel"
      using decode_children_fuel [of c "decodeNode n" g 16 0] dec len by (auto simp: decodeFull_def ebind_eq_NoFuel)
    obtain r where "CountValues c = Done r" using CountValues_returns [OF len] ..
    then show ?thesis using c short full by (auto simp: Let_def)
  qed auto
qed simp

lemma mustDecodeNode_fuel: "length buf < 2 ^ 63 \<Longrightarrow> mustDecodeNode h buf g \<noteq> NoFuel"
  using decodeNode_fuel [of buf "Suc (length buf)" h g] by (auto simp: mustDecodeNode_def rbind_eq_NoFuel split: sum.splits)

text \<open>A short node with an empty key makes the decoder panic: \<^verbatim>\<open>compactToHex\<close> reads the flag of a key without any byte.\<close>

lemma decodeNode_empty_key: "x < 0x80 \<Longrightarrow> decodeNode (Suc n) h [0xC2, 0x80, x] g = Panic"
proof -
  assume x: "x < 0x80"
  have "SplitList [0xC2, 0x80, x] = Some (Inr ([0x80, x], []))" "SplitString [0x80, x] = Some (Inr ([], [x]))"
    using x by (simp_all add: SplitList_def SplitString_def rlp_Split_def readKind_def slice_def)
  moreover have "rlp_item String_kind [0x80] []" "rlp_item Byte_kind [x] [x]" using x by (simp_all add: rlp_item_def rlp_len_def)
  then have "list_all (\<lambda>b. \<exists>k c. rlp_item k b c) [[0x80], [x]]" by auto
  then have "CountValues (concat [[0x80], [x]]) = Done (Inr (length [[0x80], [x]]))" by (rule CountValues_items) simp
  then have "CountValues [0x80, x] = Done (Inr 2)" by (simp add: numeral_2_eq_2)
  ultimately show ?thesis by (simp add: decodeShort_def compactToHex_def Let_def)
qed

end
