(* ===== verification/Trie_Ops.thy ===== *)
theory Trie_Ops
  imports Trie_Nodes Common_Types
begin

text \<open>
  The trie (\<^verbatim>\<open>src/trie/trie.go\<close>) and the node cache it reads from (\<^verbatim>\<open>src/trie/database.go\<close>, over the in-memory store of
  \<^verbatim>\<open>src/ethdb/memory_database.go\<close>).  Locks, counters and sizes of the cache are left out.
\<close>

section \<open>Database\<close>

text \<open>The node under the zero hash, which holds the references from outside, has no data.\<close>

record cachedNode =
  cn_blob :: "bytes option"
  cn_parents :: int
  cn_children :: "Hash \<rightharpoonup> int"

record Database =
  db_diskdb :: "bytes \<rightharpoonup> bytes"
  db_nodes :: "Hash \<rightharpoonup> cachedNode"

definition NewDatabase :: "(bytes \<rightharpoonup> bytes) \<Rightarrow> Database" where
  "NewDatabase diskdb =
    \<lparr>db_diskdb = diskdb, db_nodes = [zeroHash \<mapsto> \<lparr>cn_blob = None, cn_parents = 0, cn_children = Map.empty\<rparr>]\<rparr>"

text \<open>\<open>None\<close> is an error of the store, or a nil slice.\<close>

definition Node :: "Database \<Rightarrow> Hash \<Rightarrow> bytes option" where
  "Node db hash = (case db_nodes db hash of Some c \<Rightarrow> cn_blob c | None \<Rightarrow> db_diskdb db hash)"

section \<open>The trie\<close>

record Trie =
  tr_db :: "Database option"
  tr_root :: node
  tr_originalRoot :: Hash
  tr_cachegen :: u16
  tr_cachelimit :: u16

datatype trie_error = MissingNodeError Hash bytes

definition newFlag :: "Trie \<Rightarrow> nodeFlag" where
  "newFlag t = \<lparr>nf_hash = None, nf_gen = tr_cachegen t, nf_dirty = True\<rparr>"

definition resolveHash :: "Trie \<Rightarrow> bytes \<Rightarrow> bytes \<Rightarrow> (trie_error, node) fallible" where
  "resolveHash t n pre =
    (case tr_db t of
       None \<Rightarrow> Panic
     | Some db \<Rightarrow>
         (let hash = BytesToHash n in
          case Node db hash of
            None \<Rightarrow> efail (MissingNodeError hash pre)
          | Some enc \<Rightarrow> rbind (mustDecodeNode (Some n) enc (tr_cachegen t)) eok))"

definition resolve :: "Trie \<Rightarrow> node \<Rightarrow> bytes \<Rightarrow> (trie_error, node) fallible" where
  "resolve t n pre = (case n of hashNode h \<Rightarrow> resolveHash t h pre | _ \<Rightarrow> eok n)"

definition emptyRoot :: Hash where
  "emptyRoot =
    [0x56, 0xe8, 0x1f, 0x17, 0x1b, 0xcc, 0x55, 0xa6, 0xff, 0x83, 0x45, 0xe6, 0x92, 0xc0, 0xf8, 0x6e,
     0x5b, 0x48, 0xe0, 0x1b, 0x99, 0x6c, 0xad, 0xc0, 0x01, 0x62, 0x2f, 0xb5, 0xe3, 0x63, 0xb4, 0x21]"

definition Trie_New :: "Hash \<Rightarrow> Database option \<Rightarrow> (trie_error, Trie) fallible" where
  "Trie_New root db =
    (if db = None then Panic
     else
       (let trie = \<lparr>tr_db = db, tr_root = NilNode, tr_originalRoot = root, tr_cachegen = 0, tr_cachelimit = 0\<rparr> in
        if root \<noteq> zeroHash \<and> root \<noteq> emptyRoot then
          ebind (resolveHash trie root []) (\<lambda>rootnode. eok (trie\<lparr>tr_root := rootnode\<rparr>))
        else eok trie))"

text \<open>
  The recursive operations go through nodes loaded from the database, so their depth is bounded by fuel.  A key that is too
  short or not made of nibbles panics at the index of the children.
\<close>

primrec tryGet :: "nat \<Rightarrow> Trie \<Rightarrow> node \<Rightarrow> bytes \<Rightarrow> nat \<Rightarrow> (trie_error, bytes option \<times> node \<times> bool) fallible" where
  "tryGet 0 t origNode key pos = NoFuel"
| "tryGet (Suc n) t origNode key pos =
    (case origNode of
       NilNode \<Rightarrow> eok (None, NilNode, False)
     | valueNode v \<Rightarrow> eok (Some v, origNode, False)
     | shortNode k val fl \<Rightarrow>
         if int (length key) - int pos < int (length k) \<or> k \<noteq> take (length k) (drop pos key) then eok (None, origNode, False)
         else
           ebind (tryGet n t val key (pos + length k)) (\<lambda>(value, newnode, didResolve).
             eok (value, if didResolve then shortNode k newnode (fl\<lparr>nf_gen := tr_cachegen t\<rparr>) else origNode, didResolve))
     | fullNode cs fl \<Rightarrow>
         if \<not> (pos < length key \<and> unat (key ! pos) < length cs) then Panic
         else
           ebind (tryGet n t (cs ! unat (key ! pos)) key (pos + 1)) (\<lambda>(value, newnode, didResolve).
             eok (value, if didResolve then fullNode (cs[unat (key ! pos) := newnode]) (fl\<lparr>nf_gen := tr_cachegen t\<rparr>) else origNode,
               didResolve))
     | hashNode h \<Rightarrow>
         ebind (resolveHash t h (take pos key)) (\<lambda>child.
           ebind (tryGet n t child key pos) (\<lambda>(value, newnode, _). eok (value, newnode, True))))"

definition TryGet :: "nat \<Rightarrow> Trie \<Rightarrow> bytes \<Rightarrow> (trie_error, bytes option \<times> Trie) fallible" where
  "TryGet n t key =
    (let key = keybytesToHex key in
     ebind (tryGet n t (tr_root t) key 0) (\<lambda>(value, newroot, didResolve).
       eok (value, if didResolve then t\<lparr>tr_root := newroot\<rparr> else t)))"

primrec trie_insert :: "nat \<Rightarrow> Trie \<Rightarrow> node \<Rightarrow> bytes \<Rightarrow> bytes \<Rightarrow> node \<Rightarrow> (trie_error, bool \<times> node) fallible" where
  "trie_insert 0 t nd pre key value = NoFuel"
| "trie_insert (Suc n) t nd pre key value =
    (if length key = 0 then
       (case nd of
          valueNode v \<Rightarrow> (case value of valueNode w \<Rightarrow> eok (v \<noteq> w, value) | _ \<Rightarrow> Panic)
        | _ \<Rightarrow> eok (True, value))
     else
       (case nd of
          shortNode nKey nVal fl \<Rightarrow>
            (let matchlen = prefixLen key nKey in
             if matchlen = length nKey then
               ebind (trie_insert n t nVal (pre @ take matchlen key) (drop matchlen key) value) (\<lambda>(dirty, nn).
                 if \<not> dirty then eok (False, nd) else eok (True, shortNode nKey nn (newFlag t)))
             else
               ebind (trie_insert n t NilNode (pre @ take (matchlen + 1) nKey) (drop (matchlen + 1) nKey) nVal) (\<lambda>(_, child1).
                 if \<not> (unat (nKey ! matchlen) < 17 \<and> matchlen < length key) then Panic
                 else
                   ebind (trie_insert n t NilNode (pre @ take (matchlen + 1) key) (drop (matchlen + 1) key) value) (\<lambda>(_, child2).
                     if \<not> unat (key ! matchlen) < 17 then Panic
                     else
                       (let branch = fullNode ((replicate 17 NilNode)
                              [unat (nKey ! matchlen) := child1, unat (key ! matchlen) := child2]) (newFlag t)
                        in if matchlen = 0 then eok (True, branch)
                           else eok (True, shortNode (take matchlen key) branch (newFlag t))))))
        | fullNode cs fl \<Rightarrow>
            if \<not> unat (key ! 0) < length cs then Panic
            else
              ebind (trie_insert n t (cs ! unat (key ! 0)) (pre @ [key ! 0]) (drop 1 key) value) (\<lambda>(dirty, nn).
                if \<not> dirty then eok (False, nd) else eok (True, fullNode (cs[unat (key ! 0) := nn]) (newFlag t)))
        | NilNode \<Rightarrow> eok (True, shortNode key value (newFlag t))
        | hashNode h \<Rightarrow>
            ebind (resolveHash t h pre) (\<lambda>rn.
              ebind (trie_insert n t rn pre key value) (\<lambda>(dirty, nn).
                if \<not> dirty then eok (False, rn) else eok (True, nn)))
        | valueNode v \<Rightarrow> Panic))"

text \<open>The loop over the children of a full node after a deletion.\<close>

fun scan_children :: "nat \<Rightarrow> int \<Rightarrow> node list \<Rightarrow> int" where
  "scan_children i pos [] = pos"
| "scan_children i pos (cld # clds) =
    (if cld \<noteq> NilNode then (if pos = -1 then scan_children (i + 1) (int i) clds else -2)
     else scan_children (i + 1) pos clds)"

text \<open>What becomes of a full node with these children: a short node if only one is left.\<close>

definition reduce_full :: "Trie \<Rightarrow> bytes \<Rightarrow> node list \<Rightarrow> (trie_error, bool \<times> node) fallible" where
  "reduce_full t pre cs =
    (let pos = scan_children 0 (-1) cs in
     if pos \<ge> 0 then
       (let p = nat pos; short = eok (True, shortNode [word_of_nat p] (cs ! p) (newFlag t)) in
        if p \<noteq> 16 then
          ebind (resolve t (cs ! p) pre) (\<lambda>cnode.
            case cnode of
              shortNode cKey cVal _ \<Rightarrow> eok (True, shortNode (word_of_nat p # cKey) cVal (newFlag t))
            | _ \<Rightarrow> short)
        else short)
     else eok (True, fullNode cs (newFlag t)))"

primrec trie_delete :: "nat \<Rightarrow> Trie \<Rightarrow> node \<Rightarrow> bytes \<Rightarrow> bytes \<Rightarrow> (trie_error, bool \<times> node) fallible" where
  "trie_delete 0 t nd pre key = NoFuel"
| "trie_delete (Suc n) t nd pre key =
    (case nd of
       shortNode nKey nVal fl \<Rightarrow>
         (let matchlen = prefixLen key nKey in
          if matchlen < length nKey then eok (False, nd)
          else if matchlen = length key then eok (True, NilNode)
          else
            ebind (trie_delete n t nVal (pre @ take (length nKey) key) (drop (length nKey) key)) (\<lambda>(dirty, child).
              if \<not> dirty then eok (False, nd)
              else
                (case child of
                   shortNode cKey cVal _ \<Rightarrow> eok (True, shortNode (nKey @ cKey) cVal (newFlag t))
                 | _ \<Rightarrow> eok (True, shortNode nKey child (newFlag t)))))
     | fullNode cs fl \<Rightarrow>
         if \<not> (0 < length key \<and> unat (key ! 0) < length cs) then Panic
         else
           ebind (trie_delete n t (cs ! unat (key ! 0)) (pre @ [key ! 0]) (drop 1 key)) (\<lambda>(dirty, nn).
             if \<not> dirty then eok (False, nd)
             else
               reduce_full t pre (cs[unat (key ! 0) := nn]))
     | valueNode v \<Rightarrow> eok (True, NilNode)
     | NilNode \<Rightarrow> eok (False, NilNode)
     | hashNode h \<Rightarrow>
         ebind (resolveHash t h pre) (\<lambda>rn.
           ebind (trie_delete n t rn pre key) (\<lambda>(dirty, nn).
             if \<not> dirty then eok (False, rn) else eok (True, nn))))"

definition TryUpdate :: "nat \<Rightarrow> Trie \<Rightarrow> bytes \<Rightarrow> bytes \<Rightarrow> (trie_error, Trie) fallible" where
  "TryUpdate n t key value =
    (let k = keybytesToHex key in
     if length value \<noteq> 0 then
       ebind (trie_insert n t (tr_root t) [] k (valueNode value)) (\<lambda>(_, nd). eok (t\<lparr>tr_root := nd\<rparr>))
     else ebind (trie_delete n t (tr_root t) [] k) (\<lambda>(_, nd). eok (t\<lparr>tr_root := nd\<rparr>)))"

definition TryDelete :: "nat \<Rightarrow> Trie \<Rightarrow> bytes \<Rightarrow> (trie_error, Trie) fallible" where
  "TryDelete n t key = ebind (trie_delete n t (tr_root t) [] (keybytesToHex key)) (\<lambda>(_, nd). eok (t\<lparr>tr_root := nd\<rparr>))"

text \<open>The variants without an error only log it.\<close>

definition Trie_Get :: "nat \<Rightarrow> Trie \<Rightarrow> bytes \<Rightarrow> (bytes option \<times> Trie) res" where
  "Trie_Get n t key = rbind (TryGet n t key) (\<lambda>r. case r of Inl e \<Rightarrow> Done (None, t) | Inr x \<Rightarrow> Done x)"

definition Trie_Update :: "nat \<Rightarrow> Trie \<Rightarrow> bytes \<Rightarrow> bytes \<Rightarrow> Trie res" where
  "Trie_Update n t key value = rbind (TryUpdate n t key value) (\<lambda>r. case r of Inl e \<Rightarrow> Done t | Inr t \<Rightarrow> Done t)"

definition Trie_Delete :: "nat \<Rightarrow> Trie \<Rightarrow> bytes \<Rightarrow> Trie res" where
  "Trie_Delete n t key = rbind (TryDelete n t key) (\<lambda>r. case r of Inl e \<Rightarrow> Done t | Inr t \<Rightarrow> Done t)"

end
