(* ===== verification/Trie_Spec.thy ===== *)
theory Trie_Spec
  imports Trie_Keys
begin

text \<open>
  The reference for the Merkle Patricia trie: trees without hashes, flags and database, with lookup, insertion and deletion by
  recursion, and the minimal form the trie keeps.  Every map from complete keys to values has at most one tree in minimal form.
\<close>

section \<open>Trees\<close>

datatype ptrie = PNil | PVal bytes | PShort bytes ptrie | PFull "ptrie list"

fun lookup :: "ptrie \<Rightarrow> bytes \<Rightarrow> bytes option" where
  "lookup PNil k = None"
| "lookup (PVal v) k = (if k = [] then Some v else None)"
| "lookup (PShort sk t) k = (if prefix sk k then lookup t (drop (length sk) k) else None)"
| "lookup (PFull ts) [] = None"
| "lookup (PFull ts) (x # k) = (if unat x < length ts then lookup (ts ! unat x) k else None)"

text \<open>The places of a full node that are taken.\<close>

definition taken :: "ptrie list \<Rightarrow> nat list" where
  "taken ts = filter (\<lambda>i. ts ! i \<noteq> PNil) [0..<length ts]"

text \<open>
  Minimal form of a subtree that is not nil.  After the terminator of a key there is a value, everywhere else a short node or
  a full node; a short node leads to a value or to a full node, and a full node has at least two subtrees.
\<close>

definition is_PFull :: "ptrie \<Rightarrow> bool" where
  "is_PFull t \<longleftrightarrow> (\<exists>ts. t = PFull ts)"

lemma is_PFull_simps [simp]: "\<not> is_PFull PNil" "\<not> is_PFull (PVal v)" "\<not> is_PFull (PShort k t)" "is_PFull (PFull ts)"
  by (simp_all add: is_PFull_def)

function canon :: "bool \<Rightarrow> ptrie \<Rightarrow> bool" where
  "canon b PNil \<longleftrightarrow> False"
| "canon b (PVal v) \<longleftrightarrow> b \<and> v \<noteq> []"
| "canon b (PShort k t) \<longleftrightarrow> \<not> b \<and> k \<noteq> [] \<and> (if is_PFull t then nibbles k \<and> canon False t else full_key k \<and> canon True t)"
| "canon b (PFull ts) \<longleftrightarrow> \<not> b \<and> 2 \<le> length (taken ts) \<and> length ts = 17 \<and> list_all (\<lambda>(i, t). t = PNil \<or> canon (i = 16) t) (zip [0..<17] ts)"
  by pat_completeness auto
termination
  by (relation "measure (size \<circ> snd)") (auto dest!: set_zip_rightD simp: less_Suc_eq_le intro: size_list_estimation')

lemma canon_PFull:
  "canon b (PFull ts) \<longleftrightarrow> \<not> b \<and> 2 \<le> length (taken ts) \<and> length ts = 17 \<and> (\<forall>i < 17. ts ! i = PNil \<or> canon (i = 16) (ts ! i))"
  by (auto simp: list_all_length)

declare canon.simps(4) [simp del]

lemma canon_True: "canon True t \<longleftrightarrow> (\<exists>v. t = PVal v \<and> v \<noteq> [])"
  by (cases t) (auto simp: canon_PFull)

lemma canon_False_cases:
  assumes "canon False t"
  obtains (leaf) k v where "t = PShort k (PVal v)" "full_key k" "v \<noteq> []"
    | (ext) k ts where "t = PShort k (PFull ts)" "k \<noteq> []" "nibbles k" "canon False (PFull ts)"
    | (branch) ts where "t = PFull ts"
  using assms by (cases t) (auto simp: is_PFull_def canon_True split: if_splits)

lemma canon_not_nil: "canon b t \<Longrightarrow> t \<noteq> PNil"
  by auto

lemma unat_nibble: "(x :: u8) < 16 \<longleftrightarrow> unat x < 16"
  by (simp add: word_less_nat_alt)

lemma unat_eq_16: "unat (x :: u8) = 16 \<longleftrightarrow> x = 16"
  using word_unat_eq_iff [of x 16] by simp

lemma word_of_index: "i < 17 \<Longrightarrow> unat (word_of_nat i :: u8) = i"
  by (simp add: unat_of_nat take_bit_nat_eq_self)

lemma taken_iff: "i \<in> set (taken ts) \<longleftrightarrow> i < length ts \<and> ts ! i \<noteq> PNil"
  by (auto simp: taken_def)

lemma distinct_taken [simp]: "distinct (taken ts)"
  by (simp add: taken_def)

lemma index_zip: "i < 17 \<Longrightarrow> length ts = 17 \<Longrightarrow> (i, ts ! i) \<in> set (zip [0..<17] ts)"
  unfolding set_zip by (auto intro!: exI [of _ i])

lemma two_taken: "2 \<le> length (taken ts) \<Longrightarrow> \<exists>i j. i \<noteq> j \<and> i \<in> set (taken ts) \<and> j \<in> set (taken ts)"
proof (cases "taken ts")
  case (Cons i l)
  moreover assume "2 \<le> length (taken ts)"
  ultimately obtain j l' where "taken ts = i # j # l'" by (cases l) auto
  then show ?thesis using distinct_taken [of ts] by (intro exI [of _ i] exI [of _ j]) auto
qed simp

section \<open>Keys of a tree\<close>

lemma canon_lookup_ex: "canon b t \<Longrightarrow> \<exists>k v. lookup t k = Some v"
proof (induction b t rule: canon.induct)
  case (3 b k t)
  then obtain k' v where "lookup t k' = Some v" by (auto split: if_splits)
  then have "lookup (PShort k t) (k @ k') = Some v" by simp
  then show ?case by blast
next
  case (4 b ts)
  then obtain i where i: "i < 17" "ts ! i \<noteq> PNil" "canon (i = 16) (ts ! i)" "length ts = 17"
    using two_taken [of ts] by (auto simp: canon_PFull taken_iff)
  then have "(i, ts ! i) \<in> set (zip [0..<17] ts)" by (intro index_zip)
  then obtain k' v where "lookup (ts ! i) k' = Some v" using "4.IH" i by blast
  then have "lookup (PFull ts) (word_of_nat i # k') = Some v" using i by (simp add: word_of_index)
  then show ?case by blast
qed auto

lemma lookup_full_key: "canon b t \<Longrightarrow> lookup t k = Some v \<Longrightarrow> if b then k = [] else full_key k"
proof (induction b t arbitrary: k rule: canon.induct)
  case (3 b sk t)
  from "3.prems"(2) obtain k' where k: "k = sk @ k'" "lookup t k' = Some v" by (auto simp: prefix_def split: if_splits)
  show ?case
  proof (cases "is_PFull t")
    case True
    then have "full_key k'" using "3.IH"(1) [of k'] "3.prems"(1) k(2) by simp
    then show ?thesis using True "3.prems"(1) k(1) by (auto simp: full_key_append)
  next
    case False
    then show ?thesis using "3.IH"(2) [of k'] "3.prems"(1) k by simp
  qed
next
  case (4 b ts)
  from "4.prems"(2) obtain x k' where k: "k = x # k'" "unat x < length ts" "lookup (ts ! unat x) k' = Some v"
    by (cases k) (auto split: if_splits)
  have ts: "length ts = 17" "canon (unat x = 16) (ts ! unat x)" "\<not> b" using "4.prems"(1) k by (auto simp: canon_PFull)
  then have "(unat x, ts ! unat x) \<in> set (zip [0..<17] ts)" using k(2) by (intro index_zip) auto
  then have "if unat x = 16 then k' = [] else full_key k'" using "4.IH" ts k(3) by blast
  then show ?case using k ts unat_eq_16 [of x] by (cases "unat x = 16") (auto simp: unat_nibble)
qed (auto split: if_splits)

text \<open>The keys of a full node do not all start with the same nibble.\<close>

lemma branch_keys:
  assumes "canon b (PFull ts)"
  obtains x y k k' where "x \<noteq> y" "lookup (PFull ts) (x # k) \<noteq> None" "lookup (PFull ts) (y # k') \<noteq> None"
proof -
  obtain i j where ij: "i \<noteq> j" "i < 17" "j < 17" "canon (i = 16) (ts ! i)" "canon (j = 16) (ts ! j)" "length ts = 17"
    using assms two_taken [of ts] by (auto simp: canon_PFull taken_iff)
  then obtain k v k' v' where l: "lookup (ts ! i) k = Some v" "lookup (ts ! j) k' = Some v'" using canon_lookup_ex by metis
  have "word_of_nat i \<noteq> (word_of_nat j :: u8)" using ij by (metis word_of_index)
  then show thesis using that [of "word_of_nat i" "word_of_nat j" k k'] l ij by (simp add: word_of_index)
qed

lemma branch_no_prefix:
  assumes "canon b (PFull ts)" "\<And>k. lookup (PFull ts) k \<noteq> None \<Longrightarrow> prefix p k"
  shows "p = []"
  by (rule branch_keys [OF assms(1)]) (metis assms(2) prefix_Cons list.inject)

lemma short_prefix: "lookup (PShort sk t) k \<noteq> None \<Longrightarrow> prefix sk k"
  by (auto split: if_splits)

lemma leaf_lookup: "lookup (PShort sk (PVal v)) k = (if k = sk then Some v else None)"
  by (auto simp: prefix_def)

lemma lookup_short_append [simp]: "lookup (PShort sk t) (sk @ k) = lookup t k"
  by simp

section \<open>Uniqueness\<close>

lemma leaf_not_branch:
  assumes "canon b (PFull ts)"
  shows "lookup (PShort k (PVal v)) \<noteq> lookup (PFull ts)" "lookup (PShort k (PVal v)) \<noteq> lookup (PShort p (PFull ts))"
proof -
  obtain x y l l' where xy: "x \<noteq> y" "lookup (PFull ts) (x # l) \<noteq> None" "lookup (PFull ts) (y # l') \<noteq> None"
    using branch_keys [OF assms] .
  then show "lookup (PShort k (PVal v)) \<noteq> lookup (PFull ts)" by (metis leaf_lookup list.inject)
  have "lookup (PShort p (PFull ts)) (p @ x # l) \<noteq> None" "lookup (PShort p (PFull ts)) (p @ y # l') \<noteq> None"
    using xy(2,3) by (simp_all only: lookup_short_append not_False_eq_True)
  then show "lookup (PShort k (PVal v)) \<noteq> lookup (PShort p (PFull ts))" by (metis leaf_lookup xy(1) list.inject same_append_eq)
qed

lemma same_extension:
  assumes "canon b (PFull ts)" "canon b' (PFull ts')" "lookup (PShort p (PFull ts)) = lookup (PShort q (PFull ts'))"
  shows "p = q"
proof -
  have le: "prefix q p" if c: "canon b (PFull ts)" and e: "lookup (PShort p (PFull ts)) = lookup (PShort q (PFull ts'))" for b ts ts' p q
  proof -
    obtain x y l l' where xy: "x \<noteq> y" "lookup (PFull ts) (x # l) \<noteq> None" "lookup (PFull ts) (y # l') \<noteq> None"
      using branch_keys [OF c] .
    then have "prefix q (p @ x # l)" "prefix q (p @ y # l')"
      using short_prefix [of q "PFull ts'"] e by (metis lookup_short_append)+
    then show ?thesis using xy(1) by (auto simp: prefix_append prefix_Cons)
  qed
  show ?thesis using le [OF assms(1,3)] le [OF assms(2) assms(3) [symmetric]] by (rule prefix_order.antisym [rotated])
qed

lemma canon_unique:
  assumes "canon b t" "canon b t'" "lookup t = lookup t'"
  shows "t = t'"
  using assms
proof (induction t arbitrary: b t')
  case (PVal v)
  then show ?case by (cases t') (auto simp: canon_PFull dest: fun_cong [of _ _ "[]"])
next
  case (PShort k t)
  note e = PShort.prems(3)
  have c: "canon False (PShort k t)" "canon False t'" using PShort.prems by auto
  show ?case
  proof (cases "is_PFull t")
    case True
    then obtain ts where t: "t = PFull ts" "canon False (PFull ts)" "k \<noteq> []" using c(1) by (auto simp: is_PFull_def)
    show ?thesis using c(2)
    proof (cases rule: canon_False_cases)
      case (leaf k' v')
      then show ?thesis using leaf_not_branch(2) [OF t(2), of k' v' k] e t by (simp del: lookup.simps)
    next
      case (ext k' ts')
      then have k: "k = k'" using same_extension [OF t(2) ext(4)] e t(1) by (simp del: lookup.simps)
      have "lookup (PFull ts) l = lookup (PFull ts') l" for l
        using fun_cong [OF e, of "k @ l"] t(1) ext(1) k by (simp only: lookup_short_append)
      then have "lookup t = lookup (PFull ts')" using t(1) by (simp only: fun_eq_iff) blast
      then show ?thesis using PShort.IH [of False "PFull ts'"] t ext k by simp
    next
      case (branch ts')
      then show ?thesis using branch_no_prefix [of False ts' k] c(2) t(3) e short_prefix [of k t] by metis
    qed
  next
    case False
    then obtain v where t: "t = PVal v" "full_key k" using c(1) by (auto simp: canon_True)
    show ?thesis using c(2)
    proof (cases rule: canon_False_cases)
      case (leaf k' v')
      then show ?thesis using fun_cong [OF e, of k] t(1) by (auto simp: leaf_lookup simp del: lookup.simps split: if_splits)
    next
      case (ext k' ts')
      then show ?thesis using leaf_not_branch(2) [OF ext(4), of k v k'] e t ext(1,2) by (simp del: lookup.simps)
    next
      case (branch ts')
      then show ?thesis using leaf_not_branch(1) [of False ts' k v] c e t by (auto simp del: lookup.simps)
    qed
  qed
next
  case (PFull ts)
  note e = PFull.prems(3)
  have c: "\<not> b" "canon False (PFull ts)" "canon False t'" using PFull.prems by (auto simp: canon_PFull)
  show ?case using c(3)
  proof (cases rule: canon_False_cases)
    case (leaf k' v')
    then show ?thesis using leaf_not_branch(1) [OF c(2), of k' v'] e by (auto simp del: lookup.simps)
  next
    case (ext k' ts')
    then show ?thesis using branch_no_prefix [OF c(2), of k'] e short_prefix [of k' "PFull ts'"] by metis
  next
    case (branch ts')
    have len: "length ts = 17" "length ts' = 17" using c branch by (auto simp: canon_PFull)
    have "ts ! i = ts' ! i" if i: "i < 17" for i
    proof -
      have l: "lookup (ts ! i) = lookup (ts' ! i)"
        using fun_cong [OF e, of "word_of_nat i # k" for k] branch len i by (auto simp: word_of_index)
      have "ts ! i = PNil \<or> canon (i = 16) (ts ! i)" "ts' ! i = PNil \<or> canon (i = 16) (ts' ! i)"
        using c branch i by (auto simp: canon_PFull)
      then show ?thesis
        using PFull.IH [of "ts ! i" "i = 16" "ts' ! i"] l len i canon_lookup_ex [of "i = 16" "ts ! i"] canon_lookup_ex [of "i = 16" "ts' ! i"] by (auto simp: fun_eq_iff)
    qed
    then show ?thesis using branch len by (auto intro: nth_equalityI)
  qed
qed auto


section \<open>Insertion\<close>

definition leafed :: "bytes \<Rightarrow> ptrie \<Rightarrow> ptrie" where
  "leafed k t = (if k = [] then t else PShort k t)"

text \<open>A full node with one subtree on either side of the place where two keys part.\<close>

definition fork :: "bytes \<Rightarrow> ptrie \<Rightarrow> bytes \<Rightarrow> ptrie \<Rightarrow> ptrie" where
  "fork k t k' t' = PFull ((replicate 17 PNil)[unat (hd k) := leafed (tl k) t, unat (hd k') := leafed (tl k') t'])"

fun pinsert :: "ptrie \<Rightarrow> bytes \<Rightarrow> bytes \<Rightarrow> ptrie" where
  "pinsert t [] v = PVal v"
| "pinsert PNil k v = PShort k (PVal v)"
| "pinsert (PVal w) k v = PVal w"
| "pinsert (PShort sk t) k v =
    (let m = prefixLen k sk in
     if m = length sk then PShort sk (pinsert t (drop m k) v)
     else leafed (take m k) (fork (drop m sk) t (drop m k) (PVal v)))"
| "pinsert (PFull ts) (x # k) v = PFull (ts[unat x := pinsert (ts ! unat x) k v])"

lemma lookup_leafed: "lookup (leafed k t) k' = (if prefix k k' then lookup t (drop (length k) k') else None)"
  by (simp add: leafed_def)

lemma canon_leafed:
  "canon b t \<Longrightarrow> (if b then full_key k else nibbles k) \<Longrightarrow> is_PFull t \<longleftrightarrow> \<not> b \<Longrightarrow> canon False (leafed k t)"
  by (auto simp: leafed_def)

text \<open>The rest of a key after its first nibble leads to the right kind of subtree.\<close>

lemma canon_after:
  assumes "x # k = key" "if is_PFull t then nibbles key \<and> canon False t else full_key key \<and> canon True t"
  shows "canon (unat x = 16) (leafed k t) \<and> unat x < 17"
  using assms unat_eq_16 [of x] by (auto simp: leafed_def is_PFull_def canon_True unat_nibble split: if_splits)

lemma taken_two: "i \<noteq> j \<Longrightarrow> i \<in> set (taken ts) \<Longrightarrow> j \<in> set (taken ts) \<Longrightarrow> 2 \<le> length (taken ts)"
  using card_mono [of "set (taken ts)" "{i, j}"] distinct_card [OF distinct_taken, of ts] by auto

lemma canon_fork:
  assumes "k \<noteq> []" "k' \<noteq> []" "hd k \<noteq> hd k'"
    "if is_PFull t then nibbles k \<and> canon False t else full_key k \<and> canon True t" "full_key k'" "v \<noteq> []"
  shows "canon False (fork k t k' (PVal v))"
proof -
  have c: "canon (unat (hd k) = 16) (leafed (tl k) t) \<and> unat (hd k) < 17"
    "canon (unat (hd k') = 16) (leafed (tl k') (PVal v)) \<and> unat (hd k') < 17"
    using canon_after [of "hd k" "tl k" k t] canon_after [of "hd k'" "tl k'" k' "PVal v"] assms by (simp_all add: is_PFull_def)
  have "unat (hd k) \<noteq> unat (hd k')" using assms(3) by (simp add: word_unat_eq_iff)
  then show ?thesis
    using c taken_two [of "unat (hd k)" "unat (hd k')"] canon_not_nil [OF conjunct1 [OF c(1)]] canon_not_nil [OF conjunct1 [OF c(2)]]
    by (auto simp: fork_def canon_PFull taken_iff nth_list_update)
qed

lemma is_PFull_pinsert: "is_PFull t \<Longrightarrow> k \<noteq> [] \<Longrightarrow> is_PFull (pinsert t k v)"
  by (cases k) (auto simp: is_PFull_def)

lemma full_key_take: "full_key k \<Longrightarrow> m < length k \<Longrightarrow> nibbles (take m k) \<and> full_key (drop m k)"
  using full_key_append [of "take m k" "drop m k"] by simp

lemma nibbles_drop: "nibbles k \<Longrightarrow> nibbles (drop m k)"
  by (auto simp: nibbles_def dest: in_set_dropD)

lemma part_in_short:
  assumes "canon False (PShort sk t)" "full_key k" "prefixLen k sk \<noteq> length sk"
  shows "prefixLen k sk < length sk" "prefixLen k sk < length k" "sk ! prefixLen k sk \<noteq> k ! prefixLen k sk"
proof -
  show lt: "prefixLen k sk < length sk" using prefixLen_le(2) [of k sk] assms(3) by simp
  show "prefixLen k sk < length k"
  proof (rule ccontr)
    assume "\<not> prefixLen k sk < length k"
    then have "prefixLen k sk = length k" using prefixLen_le(1) [of k sk] by simp
    then have p: "k = take (length k) sk" using take_prefixLen [of k sk] by simp
    then obtain r where r: "sk = k @ r" "r \<noteq> []" using lt \<open>prefixLen k sk = length k\<close> by (metis append_take_drop_id drop_eq_Nil2 leD)
    then show False using assms(1,2) full_not_nibbles [of k] by (auto simp: full_key_append split: if_splits)
  qed
  then show "sk ! prefixLen k sk \<noteq> k ! prefixLen k sk" using prefixLen_differ [of k sk] lt by auto
qed

lemma canon_part:
  assumes "canon False (PShort sk t)" "full_key k" "v \<noteq> []" "prefixLen k sk \<noteq> length sk"
  shows "canon False (leafed (take (prefixLen k sk) k) (fork (drop (prefixLen k sk) sk) t (drop (prefixLen k sk) k) (PVal v)))"
proof (rule canon_leafed)
  note m = part_in_short [OF assms(1,2,4)]
  show "canon False (fork (drop (prefixLen k sk) sk) t (drop (prefixLen k sk) k) (PVal v))"
    using m assms full_key_take [OF _ m(1)] full_key_take [OF assms(2) m(2)]
    by (intro canon_fork) (auto simp: hd_drop_conv_nth nibbles_drop split: if_splits)
  show "if False then full_key (take (prefixLen k sk) k) else nibbles (take (prefixLen k sk) k)"
    using full_key_take [OF assms(2) m(2)] by simp
qed (simp add: fork_def)

lemma canon_pinsert:
  "t = PNil \<or> canon b t \<Longrightarrow> (if b then k = [] else full_key k) \<Longrightarrow> v \<noteq> [] \<Longrightarrow> canon b (pinsert t k v)"
proof (induction t k v arbitrary: b rule: pinsert.induct)
  case (4 sk t x ks v)
  let ?k = "x # ks" and ?m = "prefixLen (x # ks) sk"
  have c: "canon False (PShort sk t)" "\<not> b" "full_key ?k" using "4.prems" by (auto split: if_splits)
  show ?case
  proof (cases "?m = length sk")
    case True
    then obtain r where r: "?k = sk @ r" "drop ?m ?k = r" using prefixLen_prefix [of ?k sk] by (auto simp: prefix_def)
    show ?thesis
    proof (cases "is_PFull t")
      case full: True
      then have "full_key r" using c r(1) full_not_nibbles by (auto simp: full_key_append split: if_splits)
      moreover have "canon False (pinsert t (drop ?m ?k) v)" using "4.IH" [OF refl True, of False] full c(1) \<open>full_key r\<close> r(2) "4.prems"(3) by simp
      ultimately show ?thesis using True c full is_PFull_pinsert [OF full, of r v] r(2) by (cases r) (auto simp: Let_def)
    next
      case False
      then have "r = []" using c r(1) full_not_nibbles [of sk] by (auto simp: full_key_append split: if_splits)
      then show ?thesis using True c False r(2) "4.prems"(3) by (auto simp: Let_def)
    qed
  next
    case False
    then show ?thesis using canon_part [OF c(1,3) "4.prems"(3)] c(2) by (simp add: Let_def)
  qed
next
  case (5 ts x k v)
  then have c: "canon False (PFull ts)" "\<not> b" "full_key (x # k)" by (auto simp: canon_PFull split: if_splits)
  then have x: "unat x < 17" "if unat x = 16 then k = [] else full_key k" using unat_eq_16 [of x] by (auto simp: unat_nibble)
  have n: "canon (unat x = 16) (pinsert (ts ! unat x) k v)" using "5.IH" x "5.prems"(3) c(1) by (auto simp: canon_PFull)
  obtain i j where ij: "i \<noteq> j" "i \<in> set (taken ts)" "j \<in> set (taken ts)" using two_taken [of ts] c(1) by (auto simp: canon_PFull)
  have "2 \<le> length (taken (ts[unat x := pinsert (ts ! unat x) k v]))"
    using ij canon_not_nil [OF n] x(1) c(1) by (intro taken_two [of i j]) (auto simp: taken_iff nth_list_update canon_PFull)
  then show ?case using n c x by (auto simp: canon_PFull nth_list_update)
qed (auto split: if_splits)

lemma lookup_fork_Cons:
  "lookup (fork (a # b) t (a' # b') t') (x # l) =
    (if unat x < 17 then lookup (if a' = x then leafed b' t' else if a = x then leafed b t else PNil) l else None)"
  by (simp add: fork_def nth_list_update word_unat_eq_iff [symmetric])

lemma lookup_fork:
  assumes "k \<noteq> []" "k' \<noteq> []" "hd k \<noteq> hd k'" "unat (hd k) < 17" "unat (hd k') < 17"
  shows "lookup (fork k t k' t') l =
    (if prefix k l then lookup t (drop (length k) l) else if prefix k' l then lookup t' (drop (length k') l) else None)"
proof (cases l)
  case Nil
  then show ?thesis using assms by (simp add: fork_def)
next
  case (Cons x l')
  obtain a b a' b' where k: "k = a # b" "k' = a' # b'" using assms(1,2) by (cases k; cases k') auto
  show ?thesis using assms(3-) unfolding k Cons lookup_fork_Cons by (auto simp: lookup_leafed)
qed

lemma prefix_split: "m \<le> length p \<Longrightarrow> prefix p l \<longleftrightarrow> prefix (take m p) l \<and> prefix (drop m p) (drop m l)"
proof (induction m arbitrary: p l)
  case (Suc m)
  show ?case using Suc.prems Suc.IH [of "tl p" "tl l"] by (cases p; cases l) simp_all
qed simp

lemma hex_key_unat: "nibbles k \<or> full_key k \<Longrightarrow> x \<in> set k \<Longrightarrow> unat x < 17"
  by (fastforce simp: nibbles_def full_key_def word_less_nat_alt)

lemma lookup_part:
  assumes "canon False (PShort sk t)" "full_key k" "full_key l" "prefixLen k sk \<noteq> length sk"
  shows "lookup (leafed (take (prefixLen k sk) k) (fork (drop (prefixLen k sk) sk) t (drop (prefixLen k sk) k) (PVal v))) l =
    (if l = k then Some v else lookup (PShort sk t) l)"
proof -
  let ?m = "prefixLen k sk"
  note m = part_in_short [OF assms(1,2,4)]
  have "unat (hd (drop ?m sk)) < 17" "unat (hd (drop ?m k)) < 17"
    using m hex_key_unat [of sk "sk ! ?m"] hex_key_unat [of k "k ! ?m"] assms(1,2) by (auto simp: hd_drop_conv_nth split: if_splits)
  then have f: "lookup (fork (drop ?m sk) t (drop ?m k) (PVal v)) l' =
      (if prefix (drop ?m sk) l' then lookup t (drop (length (drop ?m sk)) l')
       else if prefix (drop ?m k) l' then lookup (PVal v) (drop (length (drop ?m k)) l') else None)" for l'
    using m by (intro lookup_fork) (auto simp: hd_drop_conv_nth)
  have p: "prefix sk l \<longleftrightarrow> prefix (take ?m k) l \<and> prefix (drop ?m sk) (drop ?m l)"
    "prefix k l \<longleftrightarrow> prefix (take ?m k) l \<and> prefix (drop ?m k) (drop ?m l)" "prefix k l \<longleftrightarrow> l = k" "\<not> prefix sk k"
    using prefix_split [of ?m sk l] prefix_split [of ?m k l] prefixLen_le [of k sk] take_prefixLen [of k sk]
      full_key_prefix_free [OF assms(2,3)] prefixLen_prefix [of k sk] assms(4) by auto
  show ?thesis
    using p m by (auto simp: lookup_leafed f)
qed

lemma lookup_pinsert:
  "t = PNil \<or> canon b t \<Longrightarrow> (if b then k = [] else full_key k) \<Longrightarrow> (if b then l = [] else full_key l) \<Longrightarrow>
    lookup (pinsert t k v) l = (if l = k then Some v else lookup t l)"
proof (induction t k v arbitrary: b l rule: pinsert.induct)
  case (1 t v)
  then show ?case by (auto split: if_splits)
next
  case (2 x ks v)
  then show ?case by (simp add: leaf_lookup del: lookup.simps(3)) 
next
  case (4 sk t x ks v)
  let ?k = "x # ks" and ?m = "prefixLen (x # ks) sk"
  have c: "canon False (PShort sk t)" "\<not> b" "full_key ?k" "full_key l" using "4.prems" by (auto split: if_splits)
  show ?case
  proof (cases "?m = length sk")
    case True
    then obtain r where r: "?k = sk @ r" "drop ?m ?k = r" using prefixLen_prefix [of ?k sk] by (auto simp: prefix_def)
    show ?thesis
    proof (cases "prefix sk l")
      case l: True
      then obtain s where s: "l = sk @ s" by (auto simp: prefix_def)
      have "lookup (pinsert t (drop ?m ?k) v) s = (if s = r then Some v else lookup t s)"
        using "4.IH" [OF refl True, of "\<not> is_PFull t" s] c r s full_not_nibbles [of sk] by (auto simp: full_key_append split: if_splits)
      then have "lookup (pinsert (PShort sk t) ?k v) l = (if s = r then Some v else lookup t s)" using True s by (simp add: Let_def)
      then show ?thesis using r s by simp
    next
      case False
      then have "lookup (pinsert (PShort sk t) ?k v) l = None" using True by (simp add: Let_def)
      then show ?thesis using False r by auto
    qed
  next
    case False
    then show ?thesis using lookup_part [OF c(1,3,4) False] by (simp add: Let_def del: lookup.simps)
  qed
next
  case (5 ts x k v)
  then have c: "canon False (PFull ts)" "\<not> b" "full_key (x # k)" "full_key l" by (auto simp: canon_PFull split: if_splits)
  then have x: "unat x < 17" "if unat x = 16 then k = [] else full_key k" using unat_eq_16 [of x] by (auto simp: unat_nibble)
  obtain y l' where l: "l = y # l'" using c(4) by (cases l) auto
  have y: "if unat y = 16 then l' = [] else full_key l'" using c(4) l unat_eq_16 [of y] by (auto simp: unat_nibble)
  show ?case
  proof (cases "x = y")
    case True
    then show ?thesis using "5.IH" [of "unat x = 16" l'] x y c l by (auto simp: canon_PFull)
  next
    case False
    then have "unat x \<noteq> unat y" by (simp add: word_unat_eq_iff)
    then show ?thesis using False l by simp
  qed
qed (auto split: if_splits)


section \<open>Deletion\<close>

definition joined :: "bytes \<Rightarrow> ptrie \<Rightarrow> ptrie" where
  "joined k t = (case t of PShort k' t' \<Rightarrow> PShort (k @ k') t' | _ \<Rightarrow> PShort k t)"

definition shrink :: "ptrie list \<Rightarrow> ptrie" where
  "shrink ts = (case taken ts of [i] \<Rightarrow> joined [word_of_nat i] (ts ! i) | _ \<Rightarrow> PFull ts)"

fun pdelete :: "ptrie \<Rightarrow> bytes \<Rightarrow> ptrie" where
  "pdelete PNil k = PNil"
| "pdelete (PVal w) k = PNil"
| "pdelete (PShort sk t) k =
    (let m = prefixLen k sk in
     if m < length sk then PShort sk t
     else if m = length k then PNil
     else joined sk (pdelete t (drop (length sk) k)))"
| "pdelete (PFull ts) [] = PFull ts"
| "pdelete (PFull ts) (x # k) = shrink (ts[unat x := pdelete (ts ! unat x) k])"

lemma lookup_joined: "lookup (joined k t) l = lookup (PShort k t) l"
  by (cases t) (auto simp: joined_def prefix_def)

lemma shrink_two: "2 \<le> length (taken ts) \<Longrightarrow> shrink ts = PFull ts"
  by (auto simp: shrink_def split: list.splits)

lemma lookup_shrink:
  assumes "length ts = 17"
  shows "lookup (shrink ts) l = lookup (PFull ts) l"
proof (cases "\<exists>i. taken ts = [i]")
  case True
  then obtain i where i: "taken ts = [i]" ..
  then have m: "j < 17 \<and> ts ! j \<noteq> PNil \<longleftrightarrow> j = i" for j using taken_iff [of j ts] assms by auto
  show ?thesis
  proof (cases l)
    case (Cons x l')
    have "unat x = i \<longleftrightarrow> x = word_of_nat i" using m [of i] word_of_index [of i] by (metis word_unat_eq_iff)
    then show ?thesis using Cons i m [of "unat x"] m [of i] assms by (cases "unat x = i") (auto simp: shrink_def lookup_joined)
  qed (simp add: shrink_def lookup_joined i)
next
  case False
  then show ?thesis by (auto simp: shrink_def split: list.splits)
qed

lemma canon_joined:
  assumes "canon False t" "nibbles k" "k \<noteq> []"
  shows "canon False (joined k t)"
  using assms by (cases t) (auto simp: joined_def full_key_append split: if_splits)

lemma canon_shrink:
  assumes "length ts = 17" "taken ts \<noteq> []" "\<And>i. i < 17 \<Longrightarrow> ts ! i = PNil \<or> canon (i = 16) (ts ! i)"
  shows "canon False (shrink ts)"
proof (cases "2 \<le> length (taken ts)")
  case True
  then show ?thesis using assms by (simp add: shrink_two canon_PFull)
next
  case False
  then obtain i where i: "taken ts = [i]" using assms(2) by (cases "taken ts" rule: list.exhaust; cases "tl (taken ts)") auto
  then have c: "i < 17" "canon (i = 16) (ts ! i)" using taken_iff [of i ts] assms by auto
  show ?thesis
  proof (cases "i = 16")
    case True
    then show ?thesis using i c by (auto simp: shrink_def joined_def canon_True)
  next
    case False
    then show ?thesis using i c by (auto simp: shrink_def unat_nibble word_of_index intro!: canon_joined)
  qed
qed

lemma canon_pdelete:
  "t = PNil \<or> canon b t \<Longrightarrow> (if b then k = [] else full_key k) \<Longrightarrow>
    (pdelete t k = PNil \<or> canon b (pdelete t k)) \<and> (is_PFull t \<longrightarrow> pdelete t k \<noteq> PNil)"
proof (induction t k arbitrary: b rule: pdelete.induct)
  case (3 sk t k)
  show ?case
  proof (cases "prefixLen k sk < length sk \<or> prefixLen k sk = length k")
    case True
    then show ?thesis using "3.prems" by (auto simp: Let_def)
  next
    case False
    have c: "canon False (PShort sk t)" "\<not> b" "full_key k" using "3.prems" by (auto split: if_splits)
    have m: "prefixLen k sk = length sk" "length sk < length k" using False prefixLen_le [of k sk] by linarith+
    then obtain r where r: "k = sk @ r" "r \<noteq> []" using prefixLen_prefix [of k sk] by (auto simp: prefix_def)
    then have t: "is_PFull t" "nibbles sk" "sk \<noteq> []" "canon False t" "full_key r"
      using c full_not_nibbles [of sk] by (auto simp: full_key_append split: if_splits)
    then have "canon False (pdelete t r)" using "3.IH" [of "prefixLen k sk" False] False r m by auto
    then show ?thesis using False r t c(2) canon_joined [of "pdelete t r" sk] m by (simp add: Let_def)
  qed
next
  case (5 ts x k)
  then have c: "canon False (PFull ts)" "\<not> b" "full_key (x # k)" by (auto simp: canon_PFull split: if_splits)
  then have x: "unat x < 17" "if unat x = 16 then k = [] else full_key k" using unat_eq_16 [of x] by (auto simp: unat_nibble)
  let ?ts = "ts[unat x := pdelete (ts ! unat x) k]"
  have n: "pdelete (ts ! unat x) k = PNil \<or> canon (unat x = 16) (pdelete (ts ! unat x) k)" using "5.IH" [of "unat x = 16"] x c(1) by (auto simp: canon_PFull)
  obtain i where i: "i \<noteq> unat x" "i \<in> set (taken ts)" using two_taken [of ts] c(1) by (metis canon_PFull)
  then have "i \<in> set (taken ?ts)" by (auto simp: taken_iff)
  then have "taken ?ts \<noteq> []" by auto
  then have "canon False (shrink ?ts)" using n c x by (intro canon_shrink) (auto simp: canon_PFull nth_list_update)
  then show ?case using c(2) by (auto dest: canon_not_nil)
qed (auto simp: canon_PFull split: if_splits)

lemma lookup_pdelete:
  "t = PNil \<or> canon b t \<Longrightarrow> (if b then k = [] else full_key k) \<Longrightarrow> (if b then l = [] else full_key l) \<Longrightarrow>
    lookup (pdelete t k) l = (if l = k then None else lookup t l)"
proof (induction t k arbitrary: b l rule: pdelete.induct)
  case (3 sk t k)
  have c: "canon False (PShort sk t)" "\<not> b" "full_key k" "full_key l" using "3.prems" by (auto split: if_splits)
  consider "prefixLen k sk < length sk" | "prefixLen k sk = length sk" "prefixLen k sk = length k"
    | r where "prefixLen k sk = length sk" "prefixLen k sk \<noteq> length k" "k = sk @ r" "r \<noteq> []"
    using prefixLen_le [of k sk] prefixLen_prefix [of k sk] by (force simp: prefix_def)
  then show ?case
  proof cases
    case 1
    then show ?thesis using prefixLen_prefix [of k sk] by (auto simp: Let_def)
  next
    case 2
    then have "k = sk" using prefixLen_prefix [of k sk] by (auto simp: prefix_def)
    moreover have "t = PVal v \<Longrightarrow> l \<noteq> k \<Longrightarrow> lookup (PShort k t) l = None" for v by (simp add: leaf_lookup del: lookup.simps)
    ultimately show ?thesis using 2 c full_not_nibbles [of k] by (auto simp: Let_def canon_True split: if_splits)
  next
    case 3
    then have t: "canon False t" "full_key r" using c full_not_nibbles [of sk] by (auto simp: full_key_append split: if_splits)
    have n: "pdelete (PShort sk t) k = joined sk (pdelete t r)" using 3 by (simp add: Let_def)
    show ?thesis
    proof (cases "prefix sk l")
      case True
      then obtain s where s: "l = sk @ s" by (auto simp: prefix_def)
      have "full_key s" using c s t 3 full_not_nibbles [of sk] by (auto simp: full_key_append split: if_splits)
      then have "lookup (pdelete t r) s = (if s = r then None else lookup t s)" using "3.IH" [of "prefixLen k sk" False s] 3 t by simp
      then show ?thesis using n s 3 by (simp add: lookup_joined)
    next
      case False
      then show ?thesis unfolding n using 3(3) by (auto simp: lookup_joined)
    qed
  qed
next
  case (5 ts x k)
  then have c: "canon False (PFull ts)" "\<not> b" "full_key (x # k)" "full_key l" by (auto simp: canon_PFull split: if_splits)
  then have x: "unat x < 17" "if unat x = 16 then k = [] else full_key k" using unat_eq_16 [of x] by (auto simp: unat_nibble)
  obtain y l' where l: "l = y # l'" using c(4) by (cases l) auto
  have y: "if unat y = 16 then l' = [] else full_key l'" using c(4) l unat_eq_16 [of y] by (auto simp: unat_nibble)
  have "lookup (pdelete (PFull ts) (x # k)) l = lookup (PFull (ts[unat x := pdelete (ts ! unat x) k])) l"
    using c(1) by (simp add: lookup_shrink canon_PFull)
  also have "\<dots> = (if l = x # k then None else lookup (PFull ts) l)"
  proof (cases "x = y")
    case True
    then show ?thesis using "5.IH" [of "unat x = 16" l'] x y c l by (auto simp: canon_PFull)
  next
    case False
    then have "unat x \<noteq> unat y" by (simp add: word_unat_eq_iff)
    then show ?thesis using False l by simp
  qed
  finally show ?case .
qed (auto split: if_splits)

end
