(* ===== verification/Trie_Store.thy ===== *)
theory Trie_Store
  imports Trie_Ops Trie_Spec Sha3
begin

text \<open>
  The stored form of a tree.  A node is encoded with its children replaced by references: an embedded node if its encoding is
  shorter than a hash, else the hash.  Decoding the encoding of a node in minimal form gives back its key and references.
\<close>

section \<open>Encoding\<close>

definition compact :: "bytes \<Rightarrow> bytes" where
  "compact k = (case hexToCompact k of Some c \<Rightarrow> c | None \<Rightarrow> [])"

definition inner :: "ptrie \<Rightarrow> bool" where
  "inner t \<longleftrightarrow> (case t of PShort _ _ \<Rightarrow> True | PFull _ \<Rightarrow> True | _ \<Rightarrow> False)"

definition ref_of :: "ptrie \<Rightarrow> val \<Rightarrow> val" where
  "ref_of t v = (if inner t \<and> 32 \<le> length (rlp v) then VBytes (Keccak256 (rlp v)) else v)"

fun pval :: "ptrie \<Rightarrow> val" where
  "pval PNil = VBytes []"
| "pval (PVal v) = VBytes v"
| "pval (PShort k t) = VList [VBytes (compact k), ref_of t (pval t)]"
| "pval (PFull ts) = VList (map (\<lambda>t. ref_of t (pval t)) ts)"

definition penc :: "ptrie \<Rightarrow> bytes" where
  "penc t = rlp (pval t)"

definition phash :: "ptrie \<Rightarrow> bytes" where
  "phash t = Keccak256 (penc t)"

definition pref :: "ptrie \<Rightarrow> val" where
  "pref t = ref_of t (pval t)"

text \<open>Keys and values that are far from filling the address space.\<close>

fun fits :: "ptrie \<Rightarrow> bool" where
  "fits PNil \<longleftrightarrow> True"
| "fits (PVal v) \<longleftrightarrow> length v < 2 ^ 56"
| "fits (PShort k t) \<longleftrightarrow> length k < 2 ^ 55 \<and> fits t"
| "fits (PFull ts) \<longleftrightarrow> list_all fits ts"

text \<open>What the decoder makes of a stored tree.\<close>

definition closed :: "ptrie \<Rightarrow> node \<Rightarrow> node" where
  "closed t n = (if inner t \<and> 32 \<le> length (penc t) then hashNode (phash t) else n)"

fun opened :: "u16 \<Rightarrow> bytes option \<Rightarrow> ptrie \<Rightarrow> node" where
  "opened g h PNil = NilNode"
| "opened g h (PVal v) = valueNode v"
| "opened g h (PShort k t) = shortNode k (closed t (opened g None t)) \<lparr>nf_hash = h, nf_gen = g, nf_dirty = False\<rparr>"
| "opened g h (PFull ts) = fullNode (map (\<lambda>t. closed t (opened g None t)) ts) \<lparr>nf_hash = h, nf_gen = g, nf_dirty = False\<rparr>"

lemma inner_simps [simp]: "\<not> inner PNil" "\<not> inner (PVal v)" "inner (PShort k t)" "inner (PFull ts)"
  by (simp_all add: inner_def)

lemma canon_inner: "canon False t \<Longrightarrow> inner t"
  by (cases t) auto

lemma compact_inverse: "hex_key k \<Longrightarrow> compact k \<noteq> [] \<and> compactToHex (compact k) = Some k"
  using compact_hex_inverse [of k] by (auto simp: compact_def)

lemma length_compact: "hex_key k \<Longrightarrow> length (compact k) \<le> length k + 1"
proof -
  assume k: "hex_key k"
  then obtain b bs where c: "compact k = b # bs" using compact_inverse [of k] by (cases "compact k") auto
  have "compactToHex (b # bs) = Some k" using compact_inverse [OF k] c by simp
  then have "2 * length bs \<le> length k" by (auto simp: compactToHex_Cons)
  then show ?thesis using c by simp
qed

lemma pref_PVal [simp]: "pref PNil = VBytes []" "pref (PVal v) = VBytes v"
  by (simp_all add: pref_def ref_of_def)

lemma pval_pref: "pval (PShort k t) = VList [VBytes (compact k), pref t]" "pval (PFull ts) = VList (map pref ts)"
  by (simp_all add: pref_def)

lemma pref_cases:
  "pref t = (if inner t then if 32 \<le> length (penc t) then VBytes (phash t) else pval t else pval t)"
  by (simp add: pref_def ref_of_def penc_def phash_def)

section \<open>Sizes\<close>

lemma length_rlp_string: "length b < 2 ^ 64 \<Longrightarrow> length (rlp_string b) \<le> length b + 9"
  using length_rlp_len_le [of "length b" "0x80"] by (simp add: rlp_string_def)

lemma length_rlp_hash: "length b = 32 \<Longrightarrow> rlp_string b = 0xA0 # b"
  by (simp add: rlp_string_def rlp_len_def)

lemma length_pref: "fits t \<Longrightarrow> length (rlp (pref t)) \<le> 2 ^ 56 + 9"
proof (cases "inner t")
  case True
  then show ?thesis by (auto simp: pref_cases penc_def [symmetric] length_rlp_hash phash_def)
next
  case False
  moreover assume "fits t"
  ultimately show ?thesis
  proof (cases t)
    case (PVal v)
    then show ?thesis using length_rlp_string [of v] \<open>fits t\<close> by simp
  qed (simp_all add: rlp_string_def rlp_len_def)
qed

lemma length_concat_le: "(\<And>x. x \<in> set xs \<Longrightarrow> length (f x) \<le> c) \<Longrightarrow> length (concat (map f xs)) \<le> length xs * c"
  by (induction xs) (simp_all add: add_le_mono)

lemma canon_hex_key: "canon False (PShort k t) \<Longrightarrow> hex_key k"
  by (auto simp: hex_key_def split: if_splits)

lemma length_penc: "canon False t \<Longrightarrow> fits t \<Longrightarrow> length (penc t) < 2 ^ 62"
proof -
  assume c: "canon False t" "fits t"
  have l: "length (rlp (VList vs)) < 2 ^ 62" if "length (concat (map rlp vs)) \<le> 17 * (2 ^ 56 + 9)" for vs
    using that length_rlp_len_le [of "length (concat (map rlp vs))" "0xC0"] by (simp add: Let_def)
  show ?thesis
  proof (cases t)
    case (PShort k t')
    have "length (rlp_string (compact k)) \<le> length k + 10"
      using length_compact [OF canon_hex_key] length_rlp_string [of "compact k"] c PShort by fastforce
    moreover have "length (rlp (pref t')) \<le> 2 ^ 56 + 9" using c PShort length_pref by simp
    ultimately show ?thesis using c PShort by (simp only: penc_def pval_pref) (intro l, simp)
  next
    case (PFull ts)
    have "length (concat (map (\<lambda>t. rlp (pref t)) ts)) \<le> length ts * (2 ^ 56 + 9)"
      using c PFull length_pref by (intro length_concat_le) (auto simp: list_all_iff)
    then show ?thesis using c PFull by (simp only: penc_def pval_pref) (intro l, simp add: canon_PFull comp_def)
  qed (use c in auto)
qed

section \<open>Decoding\<close>

definition is_item :: "val \<Rightarrow> bool" where
  "is_item v \<longleftrightarrow> (case v of VBytes _ \<Rightarrow> True | VList _ \<Rightarrow> True | _ \<Rightarrow> False)"

lemma is_item_pval [simp]: "is_item (pval t)" "is_item (pref t)" "is_item (VBytes b)"
proof -
  show "is_item (pval t)" by (cases t) (simp_all add: is_item_def)
  then show "is_item (pref t)" "is_item (VBytes b)" by (auto simp: pref_cases is_item_def)
qed

lemma is_item_rlp: "is_item v \<Longrightarrow> \<exists>k c. rlp_item k (rlp v) c"
  using rlp_string_item rlp_list_item by (cases v) (auto simp: is_item_def simp del: rlp.simps(9))

lemma CountValues_vals:
  assumes "list_all is_item vs" "length (concat (map rlp vs)) < 2 ^ 63"
  shows "CountValues (concat (map rlp vs)) = Done (Inr (length vs))"
  using CountValues_items [of "map rlp vs"] assms is_item_rlp by (simp add: list_all_iff)

lemma decodeNode_list:
  assumes "list_all is_item vs" "length (rlp (VList vs) @ rest) < 2 ^ 63"
  shows "decodeNode (Suc n) h (rlp (VList vs) @ rest) g =
    (if length vs = 2 then on_error (wrapError AtShort) (decodeShort (decodeNode n) h (concat (map rlp vs)) g)
     else if length vs = 17 then on_error (wrapError AtFull) (decodeFull (decodeNode n) h (concat (map rlp vs)) g)
     else efail (PlainError (WrongCount (length vs))))"
proof -
  have "rlp (VList vs) \<noteq> []" by (simp add: Let_def rlp_len_def)
  moreover have "CountValues (concat (map rlp vs)) = Done (Inr (length vs))"
    using assms by (intro CountValues_vals) (simp_all add: Let_def)
  ultimately show ?thesis using SplitList_rlp [OF assms(2)] by (simp add: Let_def del: rlp.simps)
qed


lemma decodeRef_pref:
  assumes "t = PNil \<or> inner t" "length (rlp (pref t) @ rest) < 2 ^ 63"
    and dec: "inner t \<Longrightarrow> length (penc t) < 32 \<Longrightarrow> dec None (penc t @ rest) g = eok (opened g None t)"
  shows "decodeRef dec (rlp (pref t) @ rest) g = eok (closed t (opened g None t), rest)"
proof (cases "inner t \<and> length (penc t) < 32")
  case True
  then obtain vs where vs: "pval t = VList vs" by (cases t) (auto simp: inner_def)
  then have p: "rlp (pref t) = penc t" "rlp_item List_kind (penc t) (concat (map rlp vs))"
    using True rlp_list_item [of vs] by (simp_all add: pref_cases penc_def del: rlp.simps)
  have "rlp_Split (penc t @ rest) = Some (Inr (List_kind, concat (map rlp vs), rest))"
    using rlp_Split_item [OF p(2)] assms(2) p(1) by simp
  then show ?thesis using True dec p(1) by (simp add: decodeRef_def Let_def hashLen_def closed_def)
next
  case False
  define b where "b = (if inner t then phash t else [])"
  have b: "rlp (pref t) = rlp_string b" "length b = 0 \<and> t = PNil \<or> length b = 32 \<and> inner t \<and> 32 \<le> length (penc t)"
    using False assms(1) by (auto simp: b_def pref_cases phash_def)
  then have "rlp_item String_kind (rlp (pref t)) b" using rlp_string_item [of b] by auto
  then have "rlp_Split (rlp (pref t) @ rest) = Some (Inr (String_kind, b, rest))" using rlp_Split_item assms(2) by simp
  then show ?thesis using b(2) by (auto simp: decodeRef_def closed_def b_def)
qed

text \<open>References are shorter than the node they are part of.\<close>

lemma pref_in_list: "t \<in> set ts \<Longrightarrow> length (rlp (pref t)) < length (rlp (VList (vs @ map pref ts)))"
proof -
  assume "t \<in> set ts"
  then have "length (rlp (pref t)) \<le> length (concat (map rlp (vs @ map pref ts)))"
    by (auto simp: length_concat intro!: member_le_sum_list trans_le_add2)
  moreover have "0 < length (rlp_len 0xC0 n)" for n by (simp add: rlp_len_def)
  then have "length (concat (map rlp (vs @ map pref ts))) < length (rlp (VList (vs @ map pref ts)))" by (simp add: Let_def)
  ultimately show ?thesis by linarith
qed

lemma decode_children_prefs:
  assumes "\<And>t. t \<in> set ts \<Longrightarrow> t = PNil \<or> inner t" "length (concat (map (\<lambda>t. rlp (pref t)) ts) @ rest) < 2 ^ 63"
    and "\<And>t rest. t \<in> set ts \<Longrightarrow> inner t \<Longrightarrow> length (penc t) < 32 \<Longrightarrow> length (penc t @ rest) < 2 ^ 63 \<Longrightarrow>
      dec None (penc t @ rest) g = eok (opened g None t)"
  shows "decode_children dec (length ts) i (concat (map (\<lambda>t. rlp (pref t)) ts) @ rest) g =
    eok (map (\<lambda>t. closed t (opened g None t)) ts, rest)"
  using assms
proof (induction ts arbitrary: i)
  case (Cons t ts)
  let ?rest = "concat (map (\<lambda>t. rlp (pref t)) ts) @ rest"
  have "decodeRef dec (rlp (pref t) @ ?rest) g = eok (closed t (opened g None t), ?rest)"
  proof (rule decodeRef_pref)
    assume "inner t" "length (penc t) < 32"
    moreover have "rlp (pref t) = penc t" using calculation by (simp add: pref_cases penc_def)
    ultimately show "dec None (penc t @ ?rest) g = eok (opened g None t)" using Cons.prems(2,3) by simp
  qed (use Cons.prems in auto)
  moreover have "decode_children dec (length ts) (i + 1) ?rest g = eok (map (\<lambda>t. closed t (opened g None t)) ts, rest)"
    using Cons.prems by (intro Cons.IH) auto
  ultimately show ?case by simp
qed simp

lemma decodeNode_penc:
  "canon False t \<Longrightarrow> fits t \<Longrightarrow> length (penc t @ rest) < 2 ^ 63 \<Longrightarrow> length (penc t) \<le> n \<Longrightarrow>
    decodeNode n h (penc t @ rest) g = eok (opened g h t)"
proof (induction t arbitrary: n h rest)
  case (PShort k t)
  note pv = pval_pref(1) [of k t]
  let ?vs = "[VBytes (compact k), pref t]"
  have "penc (PShort k t) \<noteq> []" by (simp add: penc_def rlp_len_def Let_def)
  then obtain m where n: "n = Suc m" using PShort.prems(4) by (cases n) auto
  have d: "decodeNode n h (penc (PShort k t) @ rest) g = on_error (wrapError AtShort) (decodeShort (decodeNode m) h (concat (map rlp ?vs)) g)"
    using decodeNode_list [of ?vs rest m h g] PShort.prems(3) n by (simp add: penc_def pv del: rlp.simps pval.simps)
  have len: "length (rlp_string (compact k) @ rlp (pref t)) < 2 ^ 63" using PShort.prems(3) by (simp add: penc_def pv Let_def del: pval.simps)
  then have s: "SplitString (rlp_string (compact k) @ rlp (pref t)) = Some (Inr (compact k, rlp (pref t)))" by (rule SplitString_rlp)
  have k: "compactToHex (compact k) = Some k" using compact_inverse canon_hex_key PShort.prems(1) by blast
  show ?case
  proof (cases "is_PFull t")
    case True
    then have t: "canon False t" "nibbles k" using PShort.prems(1) by auto
    have "decodeRef (decodeNode m) (rlp (pref t) @ []) g = eok (closed t (opened g None t), [])"
    proof (rule decodeRef_pref)
      assume "inner t" "length (penc t) < 32"
      then have "length (penc t) < length (penc (PShort k t))" using pref_in_list [of t "[t]" "[VBytes (compact k)]"] by (simp add: penc_def pv pref_cases del: pval.simps)
      then show "decodeNode m None (penc t @ []) g = eok (opened g None t)" using PShort.IH [of "[]" m None] t PShort.prems n len by simp
    qed (use t len canon_inner in auto)
    then show ?thesis using d s k t hasTerm_nibbles [of k] by (simp add: decodeShort_def Let_def)
  next
    case False
    then obtain v where v: "t = PVal v" "full_key k" using PShort.prems(1) by (auto simp: canon_True)
    then have "SplitString (rlp (pref t) @ []) = Some (Inr (v, []))" using SplitString_rlp [of v "[]"] len by simp
    then show ?thesis using d s k v hasTerm_full [of k] by (simp add: decodeShort_def Let_def closed_def)
  qed
next
  case (PFull ts)
  note pv = pval_pref(2) [of ts]
  have "penc (PFull ts) \<noteq> []" by (simp add: penc_def rlp_len_def Let_def)
  then obtain m where n: "n = Suc m" using PFull.prems(4) by (cases n) auto
  have ts: "length ts = 17" "\<And>i. i < 17 \<Longrightarrow> ts ! i = PNil \<or> canon (i = 16) (ts ! i)" using PFull.prems(1) by (simp_all add: canon_PFull)
  let ?us = "take 16 ts" and ?w = "ts ! 16"
  have split: "ts = ?us @ [?w]" using ts(1) take_Suc_conv_app_nth [of 16 ts] by simp
  have us: "t \<in> set ts" "t = PNil \<or> canon False t" if t: "t \<in> set ?us" for t
  proof -
    show "t \<in> set ts" using t by (rule in_set_takeD)
    obtain i where "i < 16" "t = ts ! i" using t ts(1) by (auto simp: in_set_conv_nth)
    then show "t = PNil \<or> canon False t" using ts(2) [of i] by auto
  qed
  have d: "decodeNode n h (penc (PFull ts) @ rest) g = on_error (wrapError AtFull) (decodeFull (decodeNode m) h (concat (map rlp (map pref ts))) g)"
    using decodeNode_list [of "map pref ts" rest m h g] PFull.prems(3) n ts(1) by (simp add: penc_def pv list_all_iff del: rlp.simps pval.simps)
  have e: "concat (map rlp (map pref ts)) = concat (map (\<lambda>t. rlp (pref t)) ?us) @ rlp (pref ?w)"
    using arg_cong [OF split, of "\<lambda>ts. concat (map rlp (map pref ts))"] by (simp add: comp_def)
  then have len: "length (concat (map (\<lambda>t. rlp (pref t)) ?us) @ rlp (pref ?w)) < 2 ^ 63" using PFull.prems(3) by (simp add: penc_def pv Let_def del: pval.simps)
  have "decode_children (decodeNode m) (length ?us) 0 (concat (map (\<lambda>t. rlp (pref t)) ?us) @ rlp (pref ?w)) g =
    eok (map (\<lambda>t. closed t (opened g None t)) ?us, rlp (pref ?w))"
  proof (rule decode_children_prefs)
    fix t rest'
    assume t: "t \<in> set ?us" "inner t" "length (penc t) < 32" "length (penc t @ rest') < 2 ^ 63"
    have "length (penc t) < length (penc (PFull ts))"
      using pref_in_list [OF us(1) [OF t(1)], of "[]"] t by (simp add: penc_def pv pref_cases del: pval.simps)
    then show "decodeNode m None (penc t @ rest') g = eok (opened g None t)"
      using PFull.IH [OF us(1) [OF t(1)], of rest' m None] us [OF t(1)] t PFull.prems n by (auto simp: list_all_iff)
  qed (use us canon_inner len in auto)
  moreover obtain v where w: "?w = (if v = [] then PNil else PVal v)" using ts(2) [of 16] by (cases "?w = PNil") (force simp: canon_True)+
  have v: "rlp (pref ?w) = rlp_string v" "closed ?w (opened g None ?w) = (if v = [] then NilNode else valueNode v)"
    by (simp_all add: w closed_def)
  have "SplitString (rlp_string v @ []) = Some (Inr (v, []))" using v(1) len by (intro SplitString_rlp) simp
  moreover have "map f ts = map f ?us @ [f ?w]" for f :: "ptrie \<Rightarrow> node" using arg_cong [OF split, of "map f"] by simp
  ultimately show ?case unfolding d e using v ts(1) by (simp add: decodeFull_def)
qed auto

end
