(* ===== verification/Trie_Refine.thy ===== *)
theory Trie_Refine
  imports Trie_Store
begin

text \<open>
  The trie implements the reference.  A node in memory stands for a tree: hash nodes stand for what the database holds under the
  hash, and cached hashes are the hashes of the trees.  Lookup, insertion and deletion agree with the reference whatever part of
  the tree is in memory.
\<close>

section \<open>Nodes and trees\<close>

type_synonym store = "Hash \<Rightarrow> bytes option"

definition node_of :: "Trie \<Rightarrow> store" where
  "node_of tr = (case tr_db tr of None \<Rightarrow> (\<lambda>_. None) | Some db \<Rightarrow> Node db)"

text \<open>All nodes below the root that are referred to by their hash are in the store.\<close>

definition held :: "store \<Rightarrow> ptrie \<Rightarrow> bool" where
  "held N t \<longleftrightarrow> N (phash t) = Some (penc t)"

fun stored :: "store \<Rightarrow> ptrie \<Rightarrow> bool" where
  "stored N (PShort k t) \<longleftrightarrow> stored N t \<and> (inner t \<and> 32 \<le> length (penc t) \<longrightarrow> held N t)"
| "stored N (PFull ts) \<longleftrightarrow> list_all (\<lambda>t. stored N t \<and> (inner t \<and> 32 \<le> length (penc t) \<longrightarrow> held N t)) ts"
| "stored N t \<longleftrightarrow> True"

text \<open>The root has a hash whatever its size (\<open>f\<close>), other nodes only if they are not embedded.\<close>

definition flag_ok :: "store \<Rightarrow> bool \<Rightarrow> nodeFlag \<Rightarrow> ptrie \<Rightarrow> bool" where
  "flag_ok N f fl t \<longleftrightarrow>
    (\<forall>h. nf_hash fl = Some h \<longrightarrow>
      h = phash t \<and> (f \<or> 32 \<le> length (penc t)) \<and> (\<not> nf_dirty fl \<longrightarrow> held N t \<and> stored N t))"

fun stands :: "store \<Rightarrow> bool \<Rightarrow> node \<Rightarrow> ptrie \<Rightarrow> bool" where
  "stands N f NilNode t \<longleftrightarrow> t = PNil"
| "stands N f (valueNode v) t \<longleftrightarrow> t = PVal v"
| "stands N f (shortNode k n fl) t \<longleftrightarrow> (\<exists>t'. t = PShort k t' \<and> stands N False n t') \<and> flag_ok N f fl t"
| "stands N f (fullNode ns fl) t \<longleftrightarrow> (\<exists>ts. t = PFull ts \<and> list_all2 (stands N False) ns ts) \<and> flag_ok N f fl t"
| "stands N f (hashNode h) t \<longleftrightarrow> inner t \<and> h = phash t \<and> held N t \<and> stored N t \<and> (f \<or> 32 \<le> length (penc t))"

definition is_hash :: "node \<Rightarrow> bool" where
  "is_hash n \<longleftrightarrow> (\<exists>h. n = hashNode h)"

lemma is_hash_simps [simp]:
  "is_hash (hashNode h)" "\<not> is_hash NilNode" "\<not> is_hash (valueNode v)" "\<not> is_hash (shortNode k n fl)" "\<not> is_hash (fullNode ns fl)"
  by (simp_all add: is_hash_def)

lemma newFlag_ok [simp]: "flag_ok N f (newFlag tr) t"
  by (simp add: flag_ok_def newFlag_def)

lemma flag_ok_gen [simp]: "flag_ok N f (fl\<lparr>nf_gen := g\<rparr>) t = flag_ok N f fl t"
  by (simp add: flag_ok_def)

lemma stands_closed:
  assumes "stands N False n t" "inner t \<and> 32 \<le> length (penc t) \<longrightarrow> held N t" "stored N t"
  shows "stands N False (closed t n) t"
  using assms by (simp add: closed_def)

lemma stands_opened:
  assumes "stored N t" "flag_ok N f \<lparr>nf_hash = h, nf_gen = g, nf_dirty = False\<rparr> t"
  shows "stands N f (opened g h t) t"
  using assms
proof (induction t arbitrary: f h)
  case (PShort k t)
  then show ?case by (auto intro!: stands_closed simp: flag_ok_def)
next
  case (PFull ts)
  then show ?case by (auto intro!: stands_closed simp: list_all_iff list.rel_map flag_ok_def list_all2_same)
qed auto

lemma length_phash [simp]: "length (phash t) = 32"
  by (simp add: phash_def)

lemma opened_not_hash [simp]: "\<not> is_hash (opened g h t)"
  by (cases t) auto

text \<open>What a hash node stands for is loaded from the database.\<close>

lemma resolveHash_ok:
  assumes "stands (node_of tr) f (hashNode h) t" "canon False t" "fits t"
  shows "\<exists>n. resolveHash tr h pre = eok n \<and> stands (node_of tr) f n t \<and> \<not> is_hash n"
proof -
  have h: "h = phash t" "node_of tr h = Some (penc t)" "stored (node_of tr) t" "f \<or> 32 \<le> length (penc t)"
    using assms(1) by (auto simp: held_def)
  then obtain db where db: "tr_db tr = Some db" "Node db h = Some (penc t)" by (auto simp: node_of_def split: option.splits)
  have "decodeNode (Suc (length (penc t))) (Some h) (penc t @ []) (tr_cachegen tr) = eok (opened (tr_cachegen tr) (Some h) t)"
    using length_penc [OF assms(2,3)] by (intro decodeNode_penc [OF assms(2,3)]) simp_all
  then have "resolveHash tr h pre = eok (opened (tr_cachegen tr) (Some h) t)"
    using db h(1) hash.of_bytes_id [of h] by (simp add: resolveHash_def mustDecodeNode_def HashLength_def del: decodeNode.simps)
  moreover have "stands (node_of tr) f (opened (tr_cachegen tr) (Some h) t) t"
    using h by (intro stands_opened) (auto simp: flag_ok_def held_def)
  ultimately show ?thesis by simp
qed

lemma stands_nil: "stands N f n t \<Longrightarrow> n = NilNode \<longleftrightarrow> t = PNil"
  by (cases n) auto

section \<open>Lookup\<close>

definition key_ok :: "bool \<Rightarrow> bytes \<Rightarrow> bool" where
  "key_ok b k \<longleftrightarrow> (if b then k = [] else full_key k)"

text \<open>Every node but a hash node takes a part of the key.\<close>

definition enough :: "node \<Rightarrow> bytes \<Rightarrow> nat \<Rightarrow> bool" where
  "enough n key fuel \<longleftrightarrow> 2 * length key + (if is_hash n then 2 else 1) \<le> fuel"

lemma key_ok_step:
  assumes "canon b (PFull ts)" "key_ok b key"
  obtains x k where "key = x # k" "unat x < 17" "length ts = 17" "key_ok (unat x = 16) k" "ts ! unat x = PNil \<or> canon (unat x = 16) (ts ! unat x)" "\<not> b"
proof -
  have c: "\<not> b" "length ts = 17" "\<And>i. i < 17 \<Longrightarrow> ts ! i = PNil \<or> canon (i = 16) (ts ! i)" using assms(1) by (auto simp: canon_PFull)
  obtain x k where key: "key = x # k" using assms(2) c(1) by (cases key) (auto simp: key_ok_def)
  then have "unat x < 17" "key_ok (unat x = 16) k" using assms(2) c(1) unat_eq_16 [of x] by (auto simp: key_ok_def unat_nibble)
  then show thesis using that key c by blast
qed

lemma key_ok_short:
  assumes "canon b (PShort sk t)" "key_ok b (sk @ r)"
  shows "key_ok (\<not> is_PFull t) r" "canon (\<not> is_PFull t) t" "sk \<noteq> []"
  using assms full_not_nibbles [of sk] by (auto simp: key_ok_def full_key_append split: if_splits)

lemma fits_nth: "fits (PFull ts) \<Longrightarrow> i < length ts \<Longrightarrow> fits (ts ! i)"
  by (simp add: list_all_length)

lemma canon_of_inner: "inner t \<Longrightarrow> t = PNil \<or> canon b t \<Longrightarrow> \<not> b \<and> canon False t"
  by (cases t) (auto simp: canon_PFull)

lemma prefix_drop_eq: "prefix p l \<Longrightarrow> l = p @ drop (length p) l"
  by (auto simp: prefix_def)

lemma enough_step: "enough n (k @ r) (Suc fuel) \<Longrightarrow> k \<noteq> [] \<Longrightarrow> enough m r fuel"
  by (cases k) (auto simp: enough_def split: if_splits)

lemma enough_hash: "enough (hashNode h) key (Suc fuel) \<Longrightarrow> \<not> is_hash m \<Longrightarrow> enough m key fuel"
  by (simp add: enough_def)

lemma enough_Suc: "enough n key fuel \<Longrightarrow> \<exists>m. fuel = Suc m"
  by (cases fuel) (auto simp: enough_def split: if_splits)

lemma stands_shortE:
  assumes "stands N f (shortNode k n fl) t" "t = PNil \<or> canon b t"
  obtains t' where "t = PShort k t'" "stands N False n t'" "flag_ok N f fl t" "canon b (PShort k t')"
  using assms by auto

lemma stands_fullE:
  assumes "stands N f (fullNode cs fl) t" "t = PNil \<or> canon b t"
  obtains ts where "t = PFull ts" "list_all2 (stands N False) cs ts" "flag_ok N f fl t" "canon b (PFull ts)"
    "length cs = 17" "\<forall>i < 17. stands N False (cs ! i) (ts ! i)"
proof -
  obtain ts where ts: "t = PFull ts" "list_all2 (stands N False) cs ts" "flag_ok N f fl t" using assms(1) by auto
  then have c: "canon b (PFull ts)" using assms(2) by auto
  then have "length cs = 17" "length ts = 17" using list_all2_lengthD [OF ts(2)] by (simp_all add: canon_PFull)
  then show thesis using that [OF ts c] list_all2_nthD [OF ts(2)] by simp
qed

lemma tryGet_ok:
  assumes "stands (node_of tr) f n t" "t = PNil \<or> canon b t" "fits t" "key_ok b (drop pos key)" "enough n (drop pos key) fuel"
  shows "\<exists>n' r. tryGet fuel tr n key pos = eok (lookup t (drop pos key), n', r) \<and> stands (node_of tr) f n' t"
  using assms
proof (induction fuel arbitrary: f n t b pos)
  case 0
  then show ?case using enough_Suc by blast
next
  case (Suc fuel)
  let ?N = "node_of tr"
  show ?case
  proof (cases n)
    case (valueNode v)
    then show ?thesis using Suc.prems by (auto simp: key_ok_def)
  next
    case (hashNode h)
    then have c: "canon False t" using canon_of_inner [of t b] Suc.prems(1,2) by simp
    obtain m where m: "resolveHash tr h (take pos key) = eok m" "stands ?N f m t" "\<not> is_hash m"
      using resolveHash_ok [of tr f h t] Suc.prems(1,3) c hashNode by blast
    obtain n' r where "tryGet fuel tr m key pos = eok (lookup t (drop pos key), n', r)" "stands ?N f n' t"
      using Suc.IH [OF m(2) Suc.prems(2-4)] enough_hash [OF Suc.prems(5) [unfolded hashNode] m(3)] by blast
    then show ?thesis using hashNode m by auto
  next
    case (shortNode k v fl)
    obtain t' where t: "t = PShort k t'" "stands ?N False v t'" "flag_ok ?N f fl t" "canon b (PShort k t')"
      using stands_shortE [OF Suc.prems(1) [unfolded shortNode] Suc.prems(2)] .
    show ?thesis
    proof (cases "prefix k (drop pos key)")
      case True
      define r where "r = drop (pos + length k) key"
      have r: "drop pos key = k @ r" using prefix_drop_eq [OF True] by (simp add: r_def add.commute)
      note s = key_ok_short [OF t(4), of r]
      obtain n' q where q: "tryGet fuel tr v key (pos + length k) = eok (lookup t' r, n', q)" "stands ?N False n' t'"
        using Suc.IH [OF t(2), of "\<not> is_PFull t'" "pos + length k"] s Suc.prems(3-) enough_step [of n k r fuel v] r t(1)
        unfolding r_def [symmetric] by auto
      have "length key - pos = length k + length r" "0 < length k" using arg_cong [OF r, of length] t(4) by simp_all
      then have "\<not> int (length key) - int pos < int (length k)" by arith
      then have "\<not> (int (length key) - int pos < int (length k) \<or> k \<noteq> take (length k) (drop pos key))" using r by simp
      then show ?thesis using shortNode t(1,3) r q Suc.prems(1) by simp
    next
      case False
      then have "k \<noteq> take (length k) (drop pos key)" using take_is_prefix [of "length k" "drop pos key"] by auto
      then show ?thesis using shortNode t(1) False Suc.prems(1) by auto
    qed
  next
    case (fullNode cs fl)
    obtain ts where t: "t = PFull ts" "list_all2 (stands ?N False) cs ts" "flag_ok ?N f fl t" "canon b (PFull ts)"
      "length cs = 17" "\<forall>i < 17. stands ?N False (cs ! i) (ts ! i)"
      by (rule stands_fullE [OF Suc.prems(1) [unfolded fullNode] Suc.prems(2)])
    obtain x k where x: "drop pos key = x # k" "unat x < 17" "length ts = 17" "key_ok (unat x = 16) k"
      "ts ! unat x = PNil \<or> canon (unat x = 16) (ts ! unat x)" by (rule key_ok_step [OF t(4) Suc.prems(4)])
    have k: "pos < length key" "key ! pos = x" "drop (pos + 1) key = k"
      using x(1) by (metis drop_eq_Nil2 list.distinct(1) not_less, metis nth_via_drop, metis drop_drop drop_Suc_Cons drop_0 plus_1_eq_Suc One_nat_def)
    obtain n' q where q: "tryGet fuel tr (cs ! unat x) key (pos + 1) = eok (lookup (ts ! unat x) k, n', q)" "stands ?N False n' (ts ! unat x)"
      using Suc.IH [OF t(6) [rule_format, OF x(2)] x(5), of "pos + 1"] x(1,3,4) k(3) Suc.prems(3,5) fits_nth [of ts "unat x"] t(1) x(2)
        enough_step [of n "[x]" k fuel "cs ! unat x"] by auto
    have "list_all2 (stands ?N False) (cs[unat x := n']) ts"
      using t(2) list_all2_update_cong [of "stands ?N False" cs ts n' "ts ! unat x" "unat x"] q(2) by simp
    then show ?thesis using fullNode t(1,3,5) x(1,2,3) k q(1) Suc.prems(1) by simp
  next
    case NilNode
    then show ?thesis using Suc.prems(1) by (intro exI [of _ NilNode] exI [of _ False]) simp
  qed
qed


section \<open>Insertion\<close>

definition inserts :: "store \<Rightarrow> bool \<Rightarrow> ptrie \<Rightarrow> ptrie \<Rightarrow> (trie_error, bool \<times> node) fallible \<Rightarrow> bool" where
  "inserts N f t t' m \<longleftrightarrow> (\<exists>d n'. m = eok (d, n') \<and> stands N f n' t' \<and> (d \<or> t' = t))"

lemma insert_nil:
  "trie_insert (Suc m) tr NilNode pre k v = eok (True, if k = [] then v else shortNode k v (newFlag tr))"
  by simp

lemma stands_leafed:
  "stands N False n t \<Longrightarrow> stands N False (if k = [] then n else shortNode k n (newFlag tr)) (leafed k t)"
  by (simp add: leafed_def)

lemma stands_fork:
  assumes "stands N False c (leafed (tl k) t)" "stands N False c' (leafed (tl k') t')"
  shows "stands N f (fullNode ((replicate 17 NilNode)[unat (hd k) := c, unat (hd k') := c']) (newFlag tr)) (fork k t k' t')"
  using assms unfolding fork_def
  by (auto intro!: list_all2_update_cong simp: list_all2_conv_all_nth [of _ "replicate 17 NilNode"])

lemma stands_lead:
  "(\<And>g. stands N g b t) \<Longrightarrow> stands N f (if k = [] then b else shortNode k b (newFlag tr)) (leafed k t)"
  by (simp add: leafed_def)

lemma insert_part:
  assumes "stands (node_of tr) False nVal t" "canon False (PShort sk t)" "full_key key" "prefixLen key sk \<noteq> length sk" "fuel = Suc m"
  shows "inserts (node_of tr) f (PShort sk t) (pinsert (PShort sk t) key v) (trie_insert (Suc fuel) tr (shortNode sk nVal fl) pre key (valueNode v))"
proof -
  define p where "p = prefixLen key sk"
  let ?N = "node_of tr"
  note part = part_in_short [OF assms(2-4), folded p_def]
  have b: "unat (sk ! p) < 17" "unat (key ! p) < 17"
    using part hex_key_unat [of sk "sk ! p"] hex_key_unat [of key "key ! p"] assms(2,3) by (auto split: if_splits)
  define c where "c = (if drop (p + 1) sk = [] then nVal else shortNode (drop (p + 1) sk) nVal (newFlag tr))"
  define c' where "c' = (if drop (p + 1) key = [] then valueNode v else shortNode (drop (p + 1) key) (valueNode v) (newFlag tr))"
  define br where "br = fullNode ((replicate 17 NilNode)[unat (sk ! p) := c, unat (key ! p) := c']) (newFlag tr)"
  have "stands ?N False c (leafed (drop (p + 1) sk) t)" "stands ?N False c' (leafed (drop (p + 1) key) (PVal v))"
    unfolding c_def c'_def by (rule stands_leafed [OF assms(1)], rule stands_leafed, simp)
  then have "stands ?N g br (fork (drop p sk) t (drop p key) (PVal v))" for g
    using stands_fork [of ?N c "drop p sk" t c' "drop p key" "PVal v" g tr] part(1,2)
    by (simp add: hd_drop_conv_nth br_def tl_drop flip: drop_Suc)
  then have "stands ?N f (if take p key = [] then br else shortNode (take p key) br (newFlag tr))
      (leafed (take p key) (fork (drop p sk) t (drop p key) (PVal v)))"
    by (rule stands_lead)
  moreover have "take p key = [] \<longleftrightarrow> p = 0" using part(2) by auto
  moreover have "pinsert (PShort sk t) key v = leafed (take p key) (fork (drop p sk) t (drop p key) (PVal v))"
    using assms(4) part(2) by (cases key) (simp_all add: Let_def p_def)
  ultimately have st: "stands ?N f (if p = 0 then br else shortNode (take p key) br (newFlag tr)) (pinsert (PShort sk t) key v)"
    by (simp only:)
  have i: "trie_insert fuel tr NilNode q (drop (p + 1) sk) nVal = eok (True, c)"
    "trie_insert fuel tr NilNode q (drop (p + 1) key) (valueNode v) = eok (True, c')" for q
    unfolding assms(5) insert_nil c_def c'_def by (rule refl)+
  have "length key \<noteq> 0" using part(2) by auto
  then have "trie_insert (Suc fuel) tr (shortNode sk nVal fl) pre key (valueNode v) =
      eok (True, if p = 0 then br else shortNode (take p key) br (newFlag tr))"
    using assms(4) b part(2)
    by (simp only: trie_insert.simps(2) node.case Let_def p_def [symmetric] i ebind_simps split if_False if_True simp_thms br_def [symmetric])
      (cases "p = 0"; simp)
  then show ?thesis using st unfolding inserts_def by blast
qed

lemma trie_insert_Suc:
  "trie_insert (Suc n) tr NilNode pre (x # k) value = eok (True, shortNode (x # k) value (newFlag tr))"
  "trie_insert (Suc n) tr nd pre [] (valueNode w) = eok (case nd of valueNode v \<Rightarrow> v \<noteq> w | _ \<Rightarrow> True, valueNode w)"
  "key \<noteq> [] \<Longrightarrow> trie_insert (Suc n) tr (hashNode h) pre key value =
    ebind (resolveHash tr h pre) (\<lambda>rn. ebind (trie_insert n tr rn pre key value) (\<lambda>(dirty, nn).
      if \<not> dirty then eok (False, rn) else eok (True, nn)))"
  "key \<noteq> [] \<Longrightarrow> prefixLen key sk = length sk \<Longrightarrow> trie_insert (Suc n) tr (shortNode sk nd fl) pre key value =
    ebind (trie_insert n tr nd (pre @ take (length sk) key) (drop (length sk) key) value) (\<lambda>(dirty, nn).
      if \<not> dirty then eok (False, shortNode sk nd fl) else eok (True, shortNode sk nn (newFlag tr)))"
  "unat x < length cs \<Longrightarrow> trie_insert (Suc n) tr (fullNode cs fl) pre (x # k) value =
    ebind (trie_insert n tr (cs ! unat x) (pre @ [x]) k value) (\<lambda>(dirty, nn).
      if \<not> dirty then eok (False, fullNode cs fl) else eok (True, fullNode (cs[unat x := nn]) (newFlag tr)))"
proof -
  show "trie_insert (Suc n) tr nd pre [] (valueNode w) = eok (case nd of valueNode v \<Rightarrow> v \<noteq> w | _ \<Rightarrow> True, valueNode w)"
    by (cases nd) simp_all
qed (simp_all add: Let_def cong: if_cong)

declare trie_insert.simps(2) [simp del]

lemma pinsert_short:
  "key \<noteq> [] \<Longrightarrow> prefixLen key sk = length sk \<Longrightarrow> pinsert (PShort sk t) key v = PShort sk (pinsert t (drop (length sk) key) v)"
  by (cases key) (simp_all add: Let_def)

lemma trie_insert_ok:
  assumes "stands (node_of tr) f n t" "t = PNil \<or> canon b t" "fits t" "key_ok b key" "enough n key fuel"
  shows "inserts (node_of tr) f t (pinsert t key v) (trie_insert fuel tr n pre key (valueNode v))"
  using assms
proof (induction fuel arbitrary: f n t b pre key)
  case 0
  then show ?case using enough_Suc by blast
next
  case (Suc fuel)
  let ?N = "node_of tr"
  show ?case
  proof (cases "key = []")
    case True
    then have "t = PNil \<or> (\<exists>w. t = PVal w)" using Suc.prems(2,4) canon_True [of t] by (cases b) (auto simp: key_ok_def)
    then show ?thesis using Suc.prems(1) True by (cases n) (auto simp: inserts_def trie_insert_Suc)
  next
    case ne: False
    then have b: "b = False" "full_key key" using Suc.prems(4) by (cases b; simp add: key_ok_def)+
    show ?thesis
    proof (cases n)
      case NilNode
      then show ?thesis using Suc.prems(1) ne by (cases key) (auto simp: inserts_def trie_insert_Suc)
    next
      case (valueNode v)
      then show ?thesis using Suc.prems(1,2) b by auto
    next
      case (hashNode h)
      then have c: "canon False t" using canon_of_inner [of t b] Suc.prems(1,2) by simp
      obtain m where m: "resolveHash tr h pre = eok m" "stands ?N f m t" "\<not> is_hash m"
        using resolveHash_ok [of tr f h t] Suc.prems(1,3) c hashNode by blast
      then have "inserts ?N f t (pinsert t key v) (trie_insert fuel tr m pre key (valueNode v))"
        using Suc.IH [OF m(2) Suc.prems(2-4)] enough_hash [OF Suc.prems(5) [unfolded hashNode] m(3)] by blast
      then show ?thesis using hashNode m ne by (auto simp: inserts_def trie_insert_Suc split_def)
    next
      case (shortNode sk nVal fl)
      obtain t' where t: "t = PShort sk t'" "stands ?N False nVal t'" "flag_ok ?N f fl t" "canon b (PShort sk t')"
        using stands_shortE [OF Suc.prems(1) [unfolded shortNode] Suc.prems(2)] .
      show ?thesis
      proof (cases "prefixLen key sk = length sk")
        case True
        then obtain r where r: "key = sk @ r" using prefixLen_prefix [of key sk] by (auto simp: prefix_def)
        note s = key_ok_short [OF t(4), of r]
        have i: "inserts ?N False t' (pinsert t' r v) (trie_insert fuel tr nVal (pre @ sk) r (valueNode v))"
          using Suc.IH [OF t(2), of "\<not> is_PFull t'" r "pre @ sk"] s Suc.prems(3-) enough_step [of n sk r fuel nVal] r t(1) by auto
        then obtain d n' where d: "trie_insert fuel tr nVal (pre @ sk) r (valueNode v) = eok (d, n')"
          "stands ?N False n' (pinsert t' r v)" "d \<or> pinsert t' r v = t'" by (auto simp: inserts_def)
        have p: "pinsert t key v = PShort sk (pinsert t' r v)" using pinsert_short [OF ne True] t(1) r by simp
        have "trie_insert (Suc fuel) tr n pre key (valueNode v) =
            eok (if d then (True, shortNode sk n' (newFlag tr)) else (False, n))"
          using trie_insert_Suc(4) [OF ne True] r d(1) shortNode by simp
        then show ?thesis using p d(2,3) t(1) Suc.prems(1) by (cases d) (auto simp: inserts_def)
      next
        case False
        obtain m where "fuel = Suc m" using Suc.prems(5) ne by (cases fuel) (auto simp: enough_def split: if_splits)
        then show ?thesis using insert_part [OF t(2) _ b(2) False] t(1,4) b(1) shortNode by simp
      qed
    next
      case (fullNode cs fl)
      obtain ts where t: "t = PFull ts" "list_all2 (stands ?N False) cs ts" "flag_ok ?N f fl t" "canon b (PFull ts)"
        "length cs = 17" "\<forall>i < 17. stands ?N False (cs ! i) (ts ! i)"
        by (rule stands_fullE [OF Suc.prems(1) [unfolded fullNode] Suc.prems(2)])
      obtain x k where x: "key = x # k" "unat x < 17" "length ts = 17" "key_ok (unat x = 16) k"
        "ts ! unat x = PNil \<or> canon (unat x = 16) (ts ! unat x)" by (rule key_ok_step [OF t(4) Suc.prems(4)])
      have "inserts ?N False (ts ! unat x) (pinsert (ts ! unat x) k v) (trie_insert fuel tr (cs ! unat x) (pre @ [x]) k (valueNode v))"
        using Suc.IH [OF t(6) [rule_format, OF x(2)] x(5), of k "pre @ [x]"] x Suc.prems(3,5) fits_nth [of ts "unat x"] t(1)
          enough_step [of n "[x]" k fuel "cs ! unat x"] by auto
      then obtain d n' where d: "trie_insert fuel tr (cs ! unat x) (pre @ [x]) k (valueNode v) = eok (d, n')"
        "stands ?N False n' (pinsert (ts ! unat x) k v)" "d \<or> pinsert (ts ! unat x) k v = ts ! unat x" by (auto simp: inserts_def)
      have "list_all2 (stands ?N False) (cs[unat x := n']) (ts[unat x := pinsert (ts ! unat x) k v])"
        using t(2) d(2) by (rule list_all2_update_cong)
      then show ?thesis using fullNode t(1,3,5) x(1,2) d(1,3) Suc.prems(1) by (cases d) (auto simp: inserts_def trie_insert_Suc)
    qed
  qed
qed


section \<open>Deletion\<close>

definition deletes :: "store \<Rightarrow> bool \<Rightarrow> ptrie \<Rightarrow> ptrie \<Rightarrow> (trie_error, bool \<times> node) fallible \<Rightarrow> bool" where
  "deletes N f t t' m \<longleftrightarrow> (\<exists>d n'. m = eok (d, n') \<and> stands N f n' t' \<and> (d \<or> t' = t) \<and> (d \<longrightarrow> \<not> is_hash n'))"

lemma deletes_unchanged: "m = eok (False, n') \<Longrightarrow> stands N f n' t \<Longrightarrow> t' = t \<Longrightarrow> deletes N f t t' m"
  unfolding deletes_def by blast

lemma scan_after: "0 \<le> pos \<Longrightarrow> scan_children i pos cs = (if \<forall>c \<in> set cs. c = NilNode then pos else -2)"
  by (induction cs arbitrary: i) auto

definition places :: "nat \<Rightarrow> node list \<Rightarrow> nat list" where
  "places i cs = filter (\<lambda>j. cs ! (j - i) \<noteq> NilNode) [i..<i + length cs]"

lemma places_Cons: "places i (c # cs) = (if c = NilNode then [] else [i]) @ places (Suc i) cs"
proof -
  have "[i..<i + length (c # cs)] = i # [Suc i..<Suc i + length cs]" using upt_conv_Cons [of i "i + length (c # cs)"] by simp
  moreover have "filter (\<lambda>j. (c # cs) ! (j - i) \<noteq> NilNode) [Suc i..<Suc i + length cs] = places (Suc i) cs"
    unfolding places_def by (intro filter_cong refl) (auto simp: nth_Cons split: nat.splits, metis Suc_diff_Suc Suc_inject Suc_le_eq, metis Suc_diff_Suc Suc_inject Suc_le_eq)
  ultimately have "places i (c # cs) = (if c \<noteq> NilNode then i # places (Suc i) cs else places (Suc i) cs)"
    unfolding places_def [of i] by (simp only: filter.simps diff_self_eq_0 nth_Cons_0)
  then show ?thesis by simp
qed

lemma places_none: "places i cs = [] \<longleftrightarrow> (\<forall>c \<in> set cs. c = NilNode)"
proof (induction cs arbitrary: i)
  case Nil
  then show ?case by (simp add: places_def)
qed (simp add: places_Cons)

lemma scan_places: "scan_children i (-1) cs = (case places i cs of [] \<Rightarrow> -1 | [p] \<Rightarrow> int p | _ \<Rightarrow> -2)"
proof (induction cs arbitrary: i)
  case Nil
  then show ?case by (simp add: places_def)
next
  case (Cons c cs)
  show ?case
  proof (cases "c = NilNode")
    case True
    then show ?thesis using Cons.IH [of "Suc i"] by (simp add: places_Cons)
  next
    case False
    then show ?thesis using places_none [of "Suc i" cs] by (cases "places (Suc i) cs") (auto simp: places_Cons scan_after)
  qed
qed

lemma places_taken: "list_all2 (stands N f) cs ts \<Longrightarrow> places 0 cs = taken ts"
  unfolding places_def taken_def using stands_nil
  by (intro filter_cong) (auto simp: list_all2_conv_all_nth)

lemma reduce_full_ok:
  assumes cs: "list_all2 (stands (node_of tr) False) cs ts" "length ts = 17" "taken ts \<noteq> []"
    and c: "\<And>i. i < 17 \<Longrightarrow> ts ! i = PNil \<or> canon (i = 16) (ts ! i)" "\<And>i. i < 17 \<Longrightarrow> is_hash (cs ! i) \<Longrightarrow> fits (ts ! i)"
  shows "\<exists>n'. reduce_full tr pre cs = eok (True, n') \<and> stands (node_of tr) f n' (shrink ts) \<and> \<not> is_hash n'"
proof (cases "\<exists>p. taken ts = [p]")
  case True
  then obtain p where p: "taken ts = [p]" ..
  then have i: "p < 17" "canon (p = 16) (ts ! p)" "stands (node_of tr) False (cs ! p) (ts ! p)"
    using taken_iff [of p ts] cs c(1) by (auto simp: list_all2_conv_all_nth)
  have s: "scan_children 0 (-1) cs = int p" "shrink ts = joined [word_of_nat p] (ts ! p)"
    using p by (simp_all add: scan_places places_taken [OF cs(1)] shrink_def)
  show ?thesis
  proof (cases "p = 16")
    case True
    then show ?thesis using i s by (auto simp: reduce_full_def canon_True joined_def)
  next
    case False
    obtain m where m: "resolve tr (cs ! p) pre = eok m" "stands (node_of tr) False m (ts ! p)" "\<not> is_hash m"
      using resolveHash_ok [of tr False _ "ts ! p" pre] i False c(2) [OF i(1)] by (cases "cs ! p") (auto simp: resolve_def)
    show ?thesis
    proof (cases m)
      case (shortNode ck cv fl)
      then show ?thesis using m s False by (auto simp: reduce_full_def joined_def)
    next
      case (fullNode cs' fl)
      then show ?thesis using m s False i by (auto simp: reduce_full_def joined_def)
    qed (use m i False in auto)
  qed
next
  case False
  then have "scan_children 0 (-1) cs = -2" "shrink ts = PFull ts"
    using cs(3) by (auto simp: scan_places places_taken [OF cs(1)] shrink_def split: list.splits)
  then show ?thesis using cs(1) by (auto simp: reduce_full_def)
qed


lemma trie_delete_Suc:
  "trie_delete (Suc n) tr NilNode pre key = eok (False, NilNode)"
  "trie_delete (Suc n) tr (valueNode v) pre key = eok (True, NilNode)"
  "trie_delete (Suc n) tr (hashNode h) pre key =
    ebind (resolveHash tr h pre) (\<lambda>rn. ebind (trie_delete n tr rn pre key) (\<lambda>(dirty, nn).
      if \<not> dirty then eok (False, rn) else eok (True, nn)))"
  "prefixLen key sk < length sk \<Longrightarrow> trie_delete (Suc n) tr (shortNode sk nd fl) pre key = eok (False, shortNode sk nd fl)"
  "trie_delete (Suc n) tr (shortNode sk nd fl) pre sk = eok (True, NilNode)"
  "r \<noteq> [] \<Longrightarrow> trie_delete (Suc n) tr (shortNode sk nd fl) pre (sk @ r) =
    ebind (trie_delete n tr nd (pre @ sk) r) (\<lambda>(dirty, child).
      if \<not> dirty then eok (False, shortNode sk nd fl)
      else (case child of
              shortNode cKey cVal _ \<Rightarrow> eok (True, shortNode (sk @ cKey) cVal (newFlag tr))
            | _ \<Rightarrow> eok (True, shortNode sk child (newFlag tr))))"
  "unat x < length cs \<Longrightarrow> trie_delete (Suc n) tr (fullNode cs fl) pre (x # k) =
    ebind (trie_delete n tr (cs ! unat x) (pre @ [x]) k) (\<lambda>(dirty, nn).
      if \<not> dirty then eok (False, fullNode cs fl) else reduce_full tr pre (cs[unat x := nn]))"
  using prefixLen_prefix [of sk sk] prefixLen_prefix [of "sk @ r" sk]
  by (simp_all add: Let_def cong: if_cong)

declare trie_delete.simps(2) [simp del]

lemma pdelete_short: "r \<noteq> [] \<Longrightarrow> pdelete (PShort sk t) (sk @ r) = joined sk (pdelete t r)"
  using prefixLen_prefix [of "sk @ r" sk] by (simp add: Let_def)

lemma taken_update: "canon b (PFull ts) \<Longrightarrow> taken (ts[i := t]) \<noteq> []"
proof -
  assume "canon b (PFull ts)"
  then obtain j where "j \<noteq> i" "j \<in> set (taken ts)" using two_taken [of ts] by (metis canon_PFull)
  then have "j \<in> set (taken (ts[i := t]))" by (auto simp: taken_iff)
  then show ?thesis by auto
qed

lemma trie_delete_ok:
  assumes "stands (node_of tr) f n t" "t = PNil \<or> canon b t" "fits t" "key_ok b key" "enough n key fuel"
  shows "deletes (node_of tr) f t (pdelete t key) (trie_delete fuel tr n pre key)"
  using assms
proof (induction fuel arbitrary: f n t b pre key)
  case 0
  then show ?case using enough_Suc by blast
next
  case (Suc fuel)
  let ?N = "node_of tr"
  show ?case
  proof (cases n)
    case (hashNode h)
    then have c: "canon False t" using canon_of_inner [of t b] Suc.prems(1,2) by simp
    obtain m where m: "resolveHash tr h pre = eok m" "stands ?N f m t" "\<not> is_hash m"
      using resolveHash_ok [of tr f h t] Suc.prems(1,3) c hashNode by blast
    then have "deletes ?N f t (pdelete t key) (trie_delete fuel tr m pre key)"
      using Suc.IH [OF m(2) Suc.prems(2-4)] enough_hash [OF Suc.prems(5) [unfolded hashNode] m(3)] by blast
    then show ?thesis using hashNode m by (auto simp: deletes_def trie_delete_Suc)
  next
    case (shortNode sk nVal fl)
    obtain t' where t: "t = PShort sk t'" "stands ?N False nVal t'" "flag_ok ?N f fl t" "canon b (PShort sk t')"
      using stands_shortE [OF Suc.prems(1) [unfolded shortNode] Suc.prems(2)] .
    consider "prefixLen key sk < length sk" | "key = sk" | r where "key = sk @ r" "r \<noteq> []"
      using prefixLen_le(2) [of key sk] prefixLen_prefix [of key sk] by (force simp: prefix_def)
    then show ?thesis
    proof cases
      case 1
      then show ?thesis
        using Suc.prems(1) shortNode t(1) by (intro deletes_unchanged [of _ n]) (simp_all add: trie_delete_Suc)
    next
      case 2
      then show ?thesis using shortNode t(1) prefixLen_prefix [of sk sk] by (auto simp: deletes_def trie_delete_Suc Let_def)
    next
      case 3
      note s = key_ok_short [OF t(4), of r]
      have full: "is_PFull t'" "key_ok False r" using s(1) Suc.prems(4) 3 by (auto simp: key_ok_def split: if_splits)
      have "deletes ?N False t' (pdelete t' r) (trie_delete fuel tr nVal (pre @ sk) r)"
        using Suc.IH [OF t(2), of "\<not> is_PFull t'" r "pre @ sk"] s Suc.prems(3-) enough_step [of n sk r fuel nVal] 3(1) t(1) by auto
      then obtain d n' where d: "trie_delete fuel tr nVal (pre @ sk) r = eok (d, n')"
        "stands ?N False n' (pdelete t' r)" "d \<or> pdelete t' r = t'" "d \<longrightarrow> \<not> is_hash n'" by (auto simp: deletes_def)
      have p: "pdelete t key = joined sk (pdelete t' r)" using pdelete_short [OF 3(2)] t(1) 3(1) by simp
      show ?thesis
      proof (cases d)
        case True
        then show ?thesis using d p shortNode trie_delete_Suc(6) [OF 3(2)] 3(1)
          by (cases n') (auto simp: deletes_def joined_def)
      next
        case False
        then have "pdelete t key = t" using d(3) p full(1) t(1) by (auto simp: joined_def is_PFull_def)
        then show ?thesis using False d(1) shortNode trie_delete_Suc(6) [OF 3(2)] 3(1) Suc.prems(1)
          by (intro deletes_unchanged [of _ n]) simp_all
      qed
    qed
  next
    case (fullNode cs fl)
    obtain ts where t: "t = PFull ts" "list_all2 (stands ?N False) cs ts" "flag_ok ?N f fl t" "canon b (PFull ts)"
      "length cs = 17" "\<forall>i < 17. stands ?N False (cs ! i) (ts ! i)"
      by (rule stands_fullE [OF Suc.prems(1) [unfolded fullNode] Suc.prems(2)])
    obtain x k where x: "key = x # k" "unat x < 17" "length ts = 17" "key_ok (unat x = 16) k"
      "ts ! unat x = PNil \<or> canon (unat x = 16) (ts ! unat x)" by (rule key_ok_step [OF t(4) Suc.prems(4)])
    have "deletes ?N False (ts ! unat x) (pdelete (ts ! unat x) k) (trie_delete fuel tr (cs ! unat x) (pre @ [x]) k)"
      using Suc.IH [OF t(6) [rule_format, OF x(2)] x(5), of k "pre @ [x]"] x Suc.prems(3,5) fits_nth [of ts "unat x"] t(1)
        enough_step [of n "[x]" k fuel "cs ! unat x"] by auto
    then obtain d n' where d: "trie_delete fuel tr (cs ! unat x) (pre @ [x]) k = eok (d, n')"
      "stands ?N False n' (pdelete (ts ! unat x) k)" "d \<or> pdelete (ts ! unat x) k = ts ! unat x" "d \<longrightarrow> \<not> is_hash n'"
      by (auto simp: deletes_def)
    let ?ts = "ts[unat x := pdelete (ts ! unat x) k]" and ?cs = "cs[unat x := n']"
    show ?thesis
    proof (cases d)
      case True
      have "list_all2 (stands ?N False) ?cs ?ts" using t(2) d(2) by (rule list_all2_update_cong)
      moreover have "?ts ! i = PNil \<or> canon (i = 16) (?ts ! i)" if "i < 17" for i
        using that t(4) x canon_pdelete [OF x(5), of k] by (cases "i = unat x") (auto simp: canon_PFull key_ok_def)
      moreover have "fits (?ts ! i)" if "i < 17" "is_hash (?cs ! i)" for i
        using that True d(4) t(1,5) x(3) fits_nth [of ts i] Suc.prems(3) by (cases "i = unat x") auto
      ultimately obtain m where "reduce_full tr pre ?cs = eok (True, m)" "stands ?N f m (shrink ?ts)" "\<not> is_hash m"
        using reduce_full_ok [of tr ?cs ?ts pre f] x(3) taken_update [OF t(4)] by auto
      then show ?thesis using fullNode x(1,2) t(1,5) d(1) True by (auto simp: deletes_def trie_delete_Suc)
    next
      case False
      then have "pdelete t key = t" using d(3) t(1,4) x(1) shrink_two [of ts] by (simp add: canon_PFull)
      then show ?thesis using False fullNode x(1,2) t(5) d(1) Suc.prems(1)
        by (intro deletes_unchanged [of _ n]) (simp_all add: trie_delete_Suc)
    qed
  next
    case NilNode
    then show ?thesis using Suc.prems(1) by (intro deletes_unchanged [of _ n]) (simp_all add: trie_delete_Suc)
  qed (use Suc.prems in \<open>auto simp: deletes_def trie_delete_Suc\<close>)
qed


section \<open>The trie as a map\<close>

definition holds :: "ptrie \<Rightarrow> (bytes \<rightharpoonup> bytes) \<Rightarrow> bool" where
  "holds t m \<longleftrightarrow> (t = PNil \<or> canon False t) \<and> (\<forall>k. lookup t k \<noteq> None \<longrightarrow> k \<in> range keybytesToHex) \<and> (\<forall>s. lookup t (keybytesToHex s) = m s)"

definition represents :: "Trie \<Rightarrow> (bytes \<rightharpoonup> bytes) \<Rightarrow> bool" where
  "represents tr m \<longleftrightarrow> (\<exists>t. stands (node_of tr) True (tr_root tr) t \<and> holds t m)"

definition small_map :: "(bytes \<rightharpoonup> bytes) \<Rightarrow> bool" where
  "small_map m \<longleftrightarrow> (\<forall>s v. m s = Some v \<longrightarrow> length s < 2 ^ 53 \<and> length v < 2 ^ 56)"

lemma fits_content:
  "canon b t \<Longrightarrow> (\<forall>k v. lookup t k = Some v \<longrightarrow> length k < 2 ^ 55 \<and> length v < 2 ^ 56) \<Longrightarrow> fits t"
proof (induction t arbitrary: b)
  case (PVal v)
  from PVal.prems(2) [rule_format, of "[]" v] show ?case by simp
next
  case (PShort k t)
  then have c: "canon (\<not> is_PFull t) t" by (auto split: if_splits)
  then obtain k' v where l: "lookup t k' = Some v" using canon_lookup_ex by blast
  have s: "lookup t k' = Some v \<Longrightarrow> length (k @ k') < 2 ^ 55 \<and> length v < 2 ^ 56" for k' v
    using PShort.prems(2) [rule_format, of "k @ k'" v] by simp
  have "length k < 2 ^ 55" using s [OF l] by simp
  moreover have "fits t" using s by (intro PShort.IH [OF c]) fastforce
  ultimately show ?case by simp
next
  case (PFull ts)
  have c: "length ts = 17" "\<And>i. i < 17 \<Longrightarrow> ts ! i = PNil \<or> canon (i = 16) (ts ! i)" using PFull.prems(1) by (auto simp: canon_PFull)
  have "fits (ts ! i)" if i: "i < 17" for i
  proof (cases "ts ! i = PNil")
    case False
    have "length k < 2 ^ 55 \<and> length v < 2 ^ 56" if "lookup (ts ! i) k = Some v" for k v
      using PFull.prems(2) [rule_format, of "word_of_nat i # k" v] that i c(1) by (simp add: word_of_index)
    then show ?thesis using PFull.IH [of "ts ! i" "i = 16"] c i False by auto
  qed simp
  then show ?case using c(1) by (simp add: list_all_length)
qed simp

lemma holds_fits: "holds t m \<Longrightarrow> small_map m \<Longrightarrow> fits t"
proof (cases "t = PNil")
  case False
  assume h: "holds t m" "small_map m"
  have "length k < 2 ^ 55 \<and> length v < 2 ^ 56" if l: "lookup t k = Some v" for k v
  proof -
    obtain s where s: "k = keybytesToHex s" using h(1) l by (auto simp: holds_def)
    then have "m s = Some v" using h(1) l by (simp add: holds_def)
    then have "length s < 2 ^ 53 \<and> length v < 2 ^ 56" using h(2) unfolding small_map_def by blast
    then show ?thesis using s by simp
  qed
  then show ?thesis using fits_content [of False t] h(1) False by (auto simp: holds_def)
qed simp

lemma holds_pinsert: "holds t m \<Longrightarrow> v \<noteq> [] \<Longrightarrow> holds (pinsert t (keybytesToHex s) v) (m(s \<mapsto> v))"
proof -
  assume h: "holds t m" and v: "v \<noteq> []"
  let ?t = "pinsert t (keybytesToHex s) v"
  have c: "canon False ?t" using h v by (intro canon_pinsert) (auto simp: holds_def)
  have l: "lookup ?t k = (if k = keybytesToHex s then Some v else lookup t k)" if "full_key k" for k
    using lookup_pinsert [of t False "keybytesToHex s" k v] h that by (simp add: holds_def)
  have "k \<in> range keybytesToHex" if k: "lookup ?t k \<noteq> None" for k
  proof -
    have "full_key k" using lookup_full_key [OF c] k by fastforce
    then show ?thesis using l [of k] k h by (auto simp: holds_def split: if_splits)
  qed
  then show ?thesis using c l h by (auto simp: holds_def)
qed

lemma holds_pdelete: "holds t m \<Longrightarrow> holds (pdelete t (keybytesToHex s)) (m(s := None))"
proof -
  assume h: "holds t m"
  let ?t = "pdelete t (keybytesToHex s)"
  have c: "?t = PNil \<or> canon False ?t" using canon_pdelete [of t False "keybytesToHex s"] h by (simp add: holds_def)
  have l: "lookup ?t k = (if k = keybytesToHex s then None else lookup t k)" if "full_key k" for k
    using lookup_pdelete [of t False "keybytesToHex s" k] h that by (simp add: holds_def)
  have "k \<in> range keybytesToHex" if k: "lookup ?t k \<noteq> None" for k
  proof -
    have "full_key k" using lookup_full_key [of False ?t k] c k by fastforce
    then show ?thesis using l [of k] k h by (auto simp: holds_def split: if_splits)
  qed
  then show ?thesis using c l h by (auto simp: holds_def)
qed

lemma enough_key: "4 * length key + 4 \<le> n \<Longrightarrow> enough nd (keybytesToHex key) n"
  by (simp add: enough_def)

lemma represents_root: "represents (tr\<lparr>tr_root := n\<rparr>) m \<longleftrightarrow> (\<exists>t. stands (node_of tr) True n t \<and> holds t m)"
  by (simp add: represents_def node_of_def)

lemma TryGet_ok:
  assumes "represents tr m" "small_map m" "4 * length key + 4 \<le> n"
  shows "\<exists>tr'. TryGet n tr key = eok (m key, tr') \<and> represents tr' m"
proof -
  obtain t where t: "stands (node_of tr) True (tr_root tr) t" "holds t m" using assms(1) by (auto simp: represents_def)
  obtain n' r where g: "tryGet n tr (tr_root tr) (keybytesToHex key) 0 = eok (lookup t (keybytesToHex key), n', r)" "stands (node_of tr) True n' t"
    using tryGet_ok [OF t(1), of False 0 "keybytesToHex key" n] t(2) holds_fits [OF t(2) assms(2)] enough_key [OF assms(3)]
    by (auto simp: holds_def key_ok_def)
  then have "represents (tr\<lparr>tr_root := n'\<rparr>) m" using t(2) by (auto simp: represents_root)
  then show ?thesis using g t(2) assms(1) by (auto simp: TryGet_def holds_def)
qed

lemma TryDelete_ok:
  assumes "represents tr m" "small_map m" "4 * length key + 4 \<le> n"
  shows "\<exists>tr'. TryDelete n tr key = eok tr' \<and> represents tr' (m(key := None))"
proof -
  obtain t where t: "stands (node_of tr) True (tr_root tr) t" "holds t m" using assms(1) by (auto simp: represents_def)
  have "deletes (node_of tr) True t (pdelete t (keybytesToHex key)) (trie_delete n tr (tr_root tr) [] (keybytesToHex key))"
    using trie_delete_ok [OF t(1), of False "keybytesToHex key" n "[]"] t(2) holds_fits [OF t(2) assms(2)] enough_key [OF assms(3)]
    by (auto simp: holds_def key_ok_def)
  then show ?thesis using holds_pdelete [OF t(2), of key] by (auto simp: deletes_def TryDelete_def represents_root)
qed

lemma TryUpdate_ok:
  assumes "represents tr m" "small_map m" "4 * length key + 4 \<le> n"
  shows "\<exists>tr'. TryUpdate n tr key v = eok tr' \<and> represents tr' (m(key := if v = [] then None else Some v))"
proof (cases "v = []")
  case True
  then show ?thesis using TryDelete_ok [OF assms] by (simp add: TryUpdate_def TryDelete_def Let_def)
next
  case False
  obtain t where t: "stands (node_of tr) True (tr_root tr) t" "holds t m" using assms(1) by (auto simp: represents_def)
  have "inserts (node_of tr) True t (pinsert t (keybytesToHex key) v) (trie_insert n tr (tr_root tr) [] (keybytesToHex key) (valueNode v))"
    using trie_insert_ok [OF t(1), of False "keybytesToHex key" n v "[]"] t(2) holds_fits [OF t(2) assms(2)] enough_key [OF assms(3)]
    by (auto simp: holds_def key_ok_def)
  then show ?thesis using holds_pinsert [OF t(2) False, of key] False by (auto simp: inserts_def TryUpdate_def represents_root)
qed


section \<open>Sequences of updates\<close>

text \<open>A store that takes entries one at a time, and may refuse one that is not acceptable.\<close>

fun put_all :: "('s \<Rightarrow> 'k \<Rightarrow> 'v \<Rightarrow> ('e, 's) fallible) \<Rightarrow> 's \<Rightarrow> ('k \<times> 'v) list \<Rightarrow> ('e, 's) fallible" where
  "put_all put s [] = eok s"
| "put_all put s ((k, v) # kvs) = ebind (put s k v) (\<lambda>s. put_all put s kvs)"

locale map_store =
  fixes rep :: "'s \<Rightarrow> ('k \<rightharpoonup> 'v) \<Rightarrow> bool"
    and put :: "'s \<Rightarrow> 'k \<Rightarrow> 'v \<Rightarrow> ('e, 's) fallible"
    and entry :: "'v \<Rightarrow> 'v option"
    and ok :: "'k \<Rightarrow> 'v \<Rightarrow> bool"
  assumes put_ok: "rep s m \<Longrightarrow> ok k v \<Longrightarrow> \<exists>s'. put s k v = eok s' \<and> rep s' (m(k := entry v))"
begin

lemma put_all_ok:
  "rep s m \<Longrightarrow> list_all (\<lambda>(k, v). ok k v) kvs \<Longrightarrow>
    \<exists>s'. put_all put s kvs = eok s' \<and> rep s' (fold (\<lambda>(k, v) m. m(k := entry v)) kvs m)"
proof (induction kvs arbitrary: s m)
  case (Cons kv kvs)
  obtain k v where kv: "kv = (k, v)" by (cases kv)
  obtain s' where "put s k v = eok s'" "rep s' (m(k := entry v))" using put_ok [OF Cons.prems(1), of k v] Cons.prems(2) kv by auto
  then show ?case using Cons.IH [of s' "m(k := entry v)"] Cons.prems(2) kv by (simp del: fun_upd_apply)
qed simp

end

definition entry :: "bytes \<Rightarrow> bytes option" where
  "entry v = (if v = [] then None else Some v)"

definition entry_ok :: "nat \<Rightarrow> bytes \<Rightarrow> bytes \<Rightarrow> bool" where
  "entry_ok n k v \<longleftrightarrow> length k < 2 ^ 53 \<and> length v < 2 ^ 56 \<and> 4 * length k + 4 \<le> n"

interpretation trie: map_store "\<lambda>tr m. represents tr m \<and> small_map m" "TryUpdate n" entry "entry_ok n" for n
proof
  fix tr m k v
  assume a: "represents tr m \<and> small_map m" "entry_ok n k v"
  then obtain tr' where "TryUpdate n tr k v = eok tr'" "represents tr' (m(k := entry v))"
    using TryUpdate_ok [of tr m k n v] by (auto simp: entry_ok_def entry_def)
  moreover have "small_map (m(k := entry v))" using a by (auto simp: small_map_def entry_ok_def entry_def)
  ultimately show "\<exists>tr'. TryUpdate n tr k v = eok tr' \<and> represents tr' (m(k := entry v)) \<and> small_map (m(k := entry v))" by blast
qed

definition after_updates :: "(bytes \<times> bytes) list \<Rightarrow> (bytes \<rightharpoonup> bytes) \<Rightarrow> (bytes \<rightharpoonup> bytes)" where
  "after_updates kvs m = fold (\<lambda>(k, v) m. m(k := entry v)) kvs m"

lemma represents_empty: "Trie_New zeroHash (Some db) = eok tr \<Longrightarrow> represents tr Map.empty"
  by (auto simp: Trie_New_def represents_def holds_def Let_def)

section \<open>Properties\<close>

text \<open>
  C13. The trie is a map.  Take any trie that represents a map, with any part of its nodes still in the database.  After any
  sequence of updates, where an empty value deletes the key, it represents the updated map, and a lookup of any key
  returns the value last written.  No operation panics or misses a node, and fuel linear in the length of the keys is enough.
\<close>

theorem trie_implements_map:
  assumes "represents tr m" "small_map m" "list_all (\<lambda>(k, v). entry_ok n k v) kvs" "4 * length key + 4 \<le> n"
  shows "\<exists>tr' tr''. put_all (TryUpdate n) tr kvs = eok tr' \<and> represents tr' (after_updates kvs m) \<and>
    TryGet n tr' key = eok (after_updates kvs m key, tr'') \<and> represents tr'' (after_updates kvs m)"
proof -
  obtain tr' where "put_all (TryUpdate n) tr kvs = eok tr'" "represents tr' (after_updates kvs m)" "small_map (after_updates kvs m)"
    using trie.put_all_ok [of tr m n kvs] assms(1-3) by (auto simp: after_updates_def)
  then show ?thesis using TryGet_ok [of tr' "after_updates kvs m" key n] assms(4) by blast
qed

theorem trie_implements_map_witness:
  "\<exists>tr tr' tr''. Trie_New zeroHash (Some (NewDatabase Map.empty)) = eok tr \<and>
    put_all (TryUpdate 12) tr [([0x12], [1]), ([0x13], [2]), ([0x12, 0x34], [3]), ([0x13], [])] = eok tr' \<and>
    TryGet 12 tr' [0x12] = eok (Some [1], tr'')"
proof -
  let ?kvs = "[([0x12], [1]), ([0x13], [2]), ([0x12, 0x34], [3]), ([0x13], [])] :: (bytes \<times> bytes) list"
  obtain tr where tr: "Trie_New zeroHash (Some (NewDatabase Map.empty)) = eok tr" by (simp add: Trie_New_def)
  have "after_updates ?kvs Map.empty [0x12] = Some [1]" by (simp add: after_updates_def entry_def)
  then show ?thesis
    using trie_implements_map [OF represents_empty [OF tr], of 12 ?kvs "[0x12]"] tr by (auto simp: small_map_def entry_ok_def)
qed

end
