(* ===== verification/RLP_Decoding.thy ===== *)
theory RLP_Decoding
  imports RLP_Encoding
begin

text \<open>
  Decoding (\<^verbatim>\<open>src/rlp/decode.go\<close>): the stream with its stack of open lists, the decoders that \<^verbatim>\<open>makeDecoder\<close> chooses for a
  type, and the proof that they read back every encoded value.  The type-directed construction by reflection becomes a recursion
  on a datatype of types; recursive Go types, types with their own \<^verbatim>\<open>DecodeRLP\<close> and the reuse of values already present in
  the target are left out.
\<close>

unbundle bit_operations_syntax

section \<open>Types and errors\<close>

record tags =
  tag_nilOK :: bool
  tag_tail :: bool
  tag_ignored :: bool

definition no_tags :: tags where
  "no_tags = \<lparr>tag_nilOK = False, tag_tail = False, tag_ignored = False\<rparr>"

text \<open>
  The Go types that can be decoded into.  A struct lists its exported fields; \<open>RNamed8\<close> is a declared type whose underlying type is
  \<^verbatim>\<open>uint8\<close>, which reflection distinguishes from \<^verbatim>\<open>uint8\<close> in a type assertion only.
\<close>

datatype RType =
    RRaw
  | RUint nat
  | RBool
  | RBigInt
  | RString
  | RSlice RType
  | RArray nat RType
  | RStruct "(string \<times> tags \<times> RType) list"
  | RPtr RType
  | RInterface
  | RNamed8

abbreviation is_byte :: "RType \<Rightarrow> bool" where
  "is_byte t \<equiv> t = RUint 8 \<or> t = RNamed8"

datatype decode_ctx = CtxIndex nat | CtxField string | CtxTarget RType

datatype decode_error =
    StreamError rlp_error
  | BoolError u64
  | DecodeError string RType "decode_ctx list"

definition wrapStreamError :: "RType \<Rightarrow> decode_error \<Rightarrow> decode_error" where
  "wrapStreamError typ err =
    (case err of
       StreamError ErrCanonInt \<Rightarrow> DecodeError ''non-canonical integer (leading zero bytes)'' typ []
     | StreamError ErrCanonSize \<Rightarrow> DecodeError ''non-canonical size information'' typ []
     | StreamError ErrExpectedList \<Rightarrow> DecodeError ''expected input list'' typ []
     | StreamError ErrExpectedString \<Rightarrow> DecodeError ''expected input string or byte'' typ []
     | StreamError errUintOverflow \<Rightarrow> DecodeError ''input string too long'' typ []
     | StreamError errNotAtEOL \<Rightarrow> DecodeError ''input list has too many elements'' typ []
     | _ \<Rightarrow> err)"

definition addErrorContext :: "decode_ctx \<Rightarrow> decode_error \<Rightarrow> decode_error" where
  "addErrorContext c err = (case err of DecodeError msg typ ctx \<Rightarrow> DecodeError msg typ (ctx @ [c]) | _ \<Rightarrow> err)"

section \<open>The stream\<close>

text \<open>
  The input is what a \<^verbatim>\<open>bytes.Reader\<close> has left; the innermost list is the head of the stack; no kind ahead (\<open>-1\<close>) is
  \<open>None\<close>.  The auxiliary buffer for integers holds nothing between two calls.
\<close>

record Stream =
  st_r :: bytes
  st_remaining :: u64
  st_limited :: bool
  st_kind :: "Kind option"
  st_size :: u64
  st_byteval :: u8
  st_kinderr :: "decode_error option"
  st_stack :: "(u64 \<times> u64) list"

type_synonym 'a dec = "Stream \<Rightarrow> ((decode_error + 'a) \<times> Stream) res"

definition sret :: "'a \<Rightarrow> 'a dec" where
  "sret x s = Done (Inr x, s)"

definition sfail :: "decode_error \<Rightarrow> 'a dec" where
  "sfail e s = Done (Inl e, s)"

definition sbind :: "'a dec \<Rightarrow> ('a \<Rightarrow> 'b dec) \<Rightarrow> 'b dec" where
  "sbind m f s = rbind (m s) (\<lambda>(r, s'). case r of Inl e \<Rightarrow> Done (Inl e, s') | Inr x \<Rightarrow> f x s')"

definition swrap :: "(decode_error \<Rightarrow> decode_error) \<Rightarrow> 'a dec \<Rightarrow> 'a dec" where
  "swrap w m s = rbind (m s) (\<lambda>(r, s'). Done (map_sum w id r, s'))"

abbreviation (input) serr :: "rlp_error \<Rightarrow> 'a dec" where
  "serr e \<equiv> sfail (StreamError e)"

definition rearm :: "Stream \<Rightarrow> Stream" where
  "rearm s = s\<lparr>st_kind := None\<rparr>"

definition Reset :: "bytes \<Rightarrow> u64 \<Rightarrow> Stream" where
  "Reset r inputLimit =
    \<lparr>st_r = r, st_remaining = (if inputLimit > 0 then inputLimit else of_nat (length r)), st_limited = True,
     st_kind = None, st_size = 0, st_byteval = 0, st_kinderr = None, st_stack = []\<rparr>"

definition NewStream :: "bytes \<Rightarrow> u64 \<Rightarrow> Stream" where
  "NewStream r inputLimit = Reset r inputLimit"

definition NewListStream :: "bytes \<Rightarrow> u64 \<Rightarrow> Stream" where
  "NewListStream r len = (Reset r len)\<lparr>st_kind := Some List_kind, st_size := len\<rparr>"

definition willRead :: "u64 \<Rightarrow> unit dec" where
  "willRead n s =
    (let s = rearm s in
     case st_stack s of
       (pos, sz) # rest \<Rightarrow>
         if n > sz - pos then serr ErrElemTooLarge s
         else
           (let s = s\<lparr>st_stack := (pos + n, sz) # rest\<rparr> in
            if st_limited s then
              (if n > st_remaining s then serr ErrValueTooLarge s else sret () (s\<lparr>st_remaining := st_remaining s - n\<rparr>))
            else sret () s)
     | [] \<Rightarrow>
         if st_limited s then
           (if n > st_remaining s then serr ErrValueTooLarge s else sret () (s\<lparr>st_remaining := st_remaining s - n\<rparr>))
         else sret () s)"

definition readFull :: "nat \<Rightarrow> bytes dec" where
  "readFull n =
    sbind (willRead (of_nat n)) (\<lambda>_ s.
      if n \<le> length (st_r s) then sret (take n (st_r s)) (s\<lparr>st_r := drop n (st_r s)\<rparr>)
      else serr ErrUnexpectedEOF (s\<lparr>st_r := []\<rparr>))"

definition readByte :: "u8 dec" where
  "readByte =
    sbind (willRead 1) (\<lambda>_ s.
      case st_r s of [] \<Rightarrow> serr ErrUnexpectedEOF s | b # r \<Rightarrow> sret b (s\<lparr>st_r := r\<rparr>))"

text \<open>A size above eight would index the auxiliary buffer out of range.\<close>

definition readUint :: "u8 \<Rightarrow> u64 dec" where
  "readUint sz =
    (if sz = 0 then (\<lambda>s. sret 0 (rearm s))
     else if sz = 1 then sbind readByte (\<lambda>b. sret (ucast b))
     else if sz > 8 then (\<lambda>s. Panic)
     else sbind (readFull (unat sz)) (\<lambda>b. if b ! 0 = 0 then serr ErrCanonSize else sret (of_int (SetBytes b))))"

text \<open>The kind, the size and the error, which are all three assigned by the caller.\<close>

definition long_size :: "Kind \<Rightarrow> u8 \<Rightarrow> Stream \<Rightarrow> ((Kind \<times> u64 \<times> decode_error option) \<times> Stream) res" where
  "long_size k slen s =
    rbind (readUint slen s) (\<lambda>(r, s).
      Done (case r of
              Inl e \<Rightarrow> (k, 0, Some e)
            | Inr sz \<Rightarrow> (k, sz, if sz < 56 then Some (StreamError ErrCanonSize) else None), s))"

definition Stream_readKind :: "Stream \<Rightarrow> ((Kind \<times> u64 \<times> decode_error option) \<times> Stream) res" where
  "Stream_readKind s =
    rbind (readByte s) (\<lambda>(r, s).
      case r of
        Inl e \<Rightarrow>
          Done ((Byte_kind, 0, Some (if st_stack s = [] \<and> (e = StreamError ErrUnexpectedEOF \<or> e = StreamError ErrValueTooLarge)
                                then StreamError EOF else e)), s)
      | Inr b \<Rightarrow>
          (let s = s\<lparr>st_byteval := 0\<rparr> in
           if b < 0x80 then Done ((Byte_kind, 0, None), s\<lparr>st_byteval := b\<rparr>)
           else if b < 0xB8 then Done ((String_kind, ucast (b - 0x80), None), s)
           else if b < 0xC0 then long_size String_kind (b - 0xB7) s
           else if b < 0xF8 then Done ((List_kind, ucast (b - 0xC0), None), s)
           else long_size List_kind (b - 0xF7) s))"

definition kind_result :: "Kind \<Rightarrow> (Kind \<times> u64) dec" where
  "kind_result k s = (case st_kinderr s of None \<Rightarrow> sret (k, st_size s) s | Some e \<Rightarrow> sfail e s)"

definition Stream_Kind :: "(Kind \<times> u64) dec" where
  "Stream_Kind s =
    (case st_kind s of
       Some k \<Rightarrow> kind_result k s
     | None \<Rightarrow>
         (let s = s\<lparr>st_kinderr := None\<rparr> in
          if (case st_stack s of [] \<Rightarrow> False | (pos, sz) # _ \<Rightarrow> pos = sz) then serr EOL s
          else
            rbind (Stream_readKind s) (\<lambda>((k, sz, err), s).
              let fits = (case st_stack s of
                     [] \<Rightarrow> if st_limited s \<and> sz > st_remaining s then Some (StreamError ErrValueTooLarge) else None
                   | (pos, lsz) # _ \<Rightarrow> if sz > lsz - pos then Some (StreamError ErrElemTooLarge) else None)
              in kind_result k (s\<lparr>st_kind := Some k, st_size := sz, st_kinderr := (if err = None then fits else err)\<rparr>))))"

text \<open>\<^verbatim>\<open>make\<close> panics for a size that is no \<^verbatim>\<open>int\<close>.\<close>

definition Stream_Bytes :: "bytes dec" where
  "Stream_Bytes =
    sbind Stream_Kind (\<lambda>(kind, sz).
      case kind of
        Byte_kind \<Rightarrow> (\<lambda>s. sret [st_byteval s] (rearm s))
      | String_kind \<Rightarrow>
          (if sz \<ge> 2 ^ 63 then (\<lambda>s. Panic)
           else sbind (readFull (unat sz)) (\<lambda>b. if sz = 1 \<and> b ! 0 < 128 then serr ErrCanonSize else sret b))
      | List_kind \<Rightarrow> serr ErrExpectedString)"

definition Stream_Raw :: "bytes dec" where
  "Stream_Raw =
    sbind Stream_Kind (\<lambda>(kind, sz).
      case kind of
        Byte_kind \<Rightarrow> (\<lambda>s. sret [st_byteval s] (rearm s))
      | _ \<Rightarrow>
          (let start = headsize sz; total = of_nat start + sz in
           if total \<ge> 2 ^ 63 \<or> unat total < start then (\<lambda>s. Panic)
           else sbind (readFull (unat total - start)) (\<lambda>b.
             sret ((if kind = String_kind then puthead 0x80 0xB7 sz else puthead 0xC0 0xF7 sz) @ b))))"

definition Stream_uint :: "nat \<Rightarrow> u64 dec" where
  "Stream_uint maxbits =
    sbind Stream_Kind (\<lambda>(kind, sz).
      case kind of
        Byte_kind \<Rightarrow> (\<lambda>s. if st_byteval s = 0 then serr ErrCanonInt s else sret (ucast (st_byteval s)) (rearm s))
      | String_kind \<Rightarrow>
          (if sz > of_nat (maxbits div 8) then serr errUintOverflow
           else (\<lambda>s. rbind (readUint (ucast sz) s) (\<lambda>(r, s).
             case r of
               Inl e \<Rightarrow> if e = StreamError ErrCanonSize then serr ErrCanonInt s else sfail e s
             | Inr v \<Rightarrow> if sz > 0 \<and> v < 128 then serr ErrCanonSize s else sret v s)))
      | List_kind \<Rightarrow> serr ErrExpectedString)"

definition Stream_Uint :: "u64 dec" where
  "Stream_Uint = Stream_uint 64"

definition Stream_Bool :: "bool dec" where
  "Stream_Bool =
    sbind (Stream_uint 8) (\<lambda>num. if num = 0 then sret False else if num = 1 then sret True else sfail (BoolError num))"

definition Stream_List :: "u64 dec" where
  "Stream_List =
    sbind Stream_Kind (\<lambda>(kind, sz) s.
      if kind \<noteq> List_kind then serr ErrExpectedList s
      else sret sz (s\<lparr>st_stack := (0, sz) # st_stack s, st_kind := None, st_size := 0\<rparr>))"

definition Stream_ListEnd :: "unit dec" where
  "Stream_ListEnd s =
    (case st_stack s of
       [] \<Rightarrow> serr errNotInList s
     | (pos, sz) # rest \<Rightarrow>
         if pos \<noteq> sz then serr errNotAtEOL s
         else sret () (s\<lparr>st_stack := (case rest of [] \<Rightarrow> [] | (ppos, psz) # outer \<Rightarrow> (ppos + sz, psz) # outer),
                         st_kind := None, st_size := 0\<rparr>))"

section \<open>Decoders\<close>

definition decodeRawValue :: "val dec" where
  "decodeRawValue = sbind Stream_Raw (\<lambda>r. sret (VRaw r))"

definition decodeUint :: "RType \<Rightarrow> nat \<Rightarrow> val dec" where
  "decodeUint typ bits = sbind (swrap (wrapStreamError typ) (Stream_uint bits)) (\<lambda>num. sret (VUint num))"

definition decodeBool :: "val dec" where
  "decodeBool = sbind (swrap (wrapStreamError RBool) Stream_Bool) (\<lambda>b. sret (VBool b))"

definition decodeString :: "val dec" where
  "decodeString = sbind (swrap (wrapStreamError RString) Stream_Bytes) (\<lambda>b. sret (VString b))"

definition decodeBigInt :: "val dec" where
  "decodeBigInt =
    sbind (swrap (wrapStreamError RBigInt) Stream_Bytes) (\<lambda>b.
      if length b > 0 \<and> b ! 0 = 0 then sfail (wrapStreamError RBigInt (StreamError ErrCanonInt))
      else sret (VBigInt (SetBytes b)))"

definition decodeByteSlice :: "RType \<Rightarrow> val dec" where
  "decodeByteSlice typ = sbind (swrap (wrapStreamError typ) Stream_Bytes) (\<lambda>b. sret (VBytes b))"

text \<open>
  The error of \<^verbatim>\<open>Uint\<close> is ignored in the case of a single byte; the number is then zero.  For a string the slice of the array is
  asserted to be a \<^verbatim>\<open>[]byte\<close>, which panics for elements of a declared byte type.
\<close>

definition decodeByteArray :: "nat \<Rightarrow> RType \<Rightarrow> val dec" where
  "decodeByteArray vlen typ =
    sbind Stream_Kind (\<lambda>(kind, sz).
      case kind of
        Byte_kind \<Rightarrow>
          (if vlen = 0 then sfail (DecodeError ''input string too long'' typ [])
           else if vlen > 1 then sfail (DecodeError ''input string too short'' typ [])
           else (\<lambda>s. rbind (Stream_Uint s) (\<lambda>(r, s).
             sret (VBytes [case r of Inl e \<Rightarrow> 0 | Inr bv \<Rightarrow> ucast bv]) s)))
      | String_kind \<Rightarrow>
          (if of_nat vlen < sz then sfail (DecodeError ''input string too long'' typ [])
           else if of_nat vlen > sz then sfail (DecodeError ''input string too short'' typ [])
           else if typ = RArray vlen RNamed8 then (\<lambda>s. Panic)
           else sbind (readFull vlen) (\<lambda>b.
             if sz = 1 \<and> b ! 0 < 128 then sfail (wrapStreamError typ (StreamError ErrCanonSize)) else sret (VBytes b)))
      | List_kind \<Rightarrow> sfail (wrapStreamError typ (StreamError ErrExpectedString)))"

text \<open>
  The loops over list elements end with the error \<^verbatim>\<open>EOL\<close> of an element.  \<^verbatim>\<open>decodeSliceElems\<close> has no bound of its own; its
  first argument is the fuel.
\<close>

primrec decodeSliceElems :: "nat \<Rightarrow> val dec \<Rightarrow> nat \<Rightarrow> val list dec" where
  "decodeSliceElems 0 elemdec i s = NoFuel"
| "decodeSliceElems (Suc n) elemdec i s =
    rbind (elemdec s) (\<lambda>(r, s).
      case r of
        Inl e \<Rightarrow> if e = StreamError EOL then sret [] s else sfail (addErrorContext (CtxIndex i) e) s
      | Inr v \<Rightarrow> sbind (decodeSliceElems n elemdec (i + 1)) (\<lambda>vs. sret (v # vs)) s)"

definition decodeListSlice :: "nat \<Rightarrow> RType \<Rightarrow> val dec \<Rightarrow> val dec" where
  "decodeListSlice n typ elemdec =
    sbind (swrap (wrapStreamError typ) Stream_List) (\<lambda>sz.
      if sz = 0 then sbind Stream_ListEnd (\<lambda>_. sret (VList []))
      else sbind (decodeSliceElems n elemdec 0) (\<lambda>vs. sbind Stream_ListEnd (\<lambda>_. sret (VList vs))))"

primrec decodeArrayElems :: "nat \<Rightarrow> val dec \<Rightarrow> nat \<Rightarrow> val list dec" where
  "decodeArrayElems 0 elemdec i s = sret [] s"
| "decodeArrayElems (Suc k) elemdec i s =
    rbind (elemdec s) (\<lambda>(r, s).
      case r of
        Inl e \<Rightarrow> if e = StreamError EOL then sret [] s else sfail (addErrorContext (CtxIndex i) e) s
      | Inr v \<Rightarrow> sbind (decodeArrayElems k elemdec (i + 1)) (\<lambda>vs. sret (v # vs)) s)"

definition decodeListArray :: "nat \<Rightarrow> RType \<Rightarrow> val dec \<Rightarrow> val dec" where
  "decodeListArray vlen typ elemdec =
    sbind (swrap (wrapStreamError typ) Stream_List) (\<lambda>_.
      sbind (decodeArrayElems vlen elemdec 0) (\<lambda>vs.
        if length vs < vlen then sfail (DecodeError ''input list has too few elements'' typ [])
        else sbind (swrap (wrapStreamError typ) Stream_ListEnd) (\<lambda>_. sret (VList vs))))"

primrec decodeInterface :: "nat \<Rightarrow> val dec" where
  "decodeInterface 0 s = NoFuel"
| "decodeInterface (Suc n) s =
    sbind Stream_Kind (\<lambda>(kind, sz).
      if kind = List_kind then decodeListSlice (Suc n) (RSlice RInterface) (decodeInterface n)
      else sbind Stream_Bytes (\<lambda>b. sret (VBytes b))) s"

text \<open>
  The value that the nil handler of \<^verbatim>\<open>makePtrWriter\<close> writes for a nil pointer to a type: an empty string for byte arrays, an
  empty list for structs and other arrays, and the zero value of all other types.
\<close>

fun nil_value :: "RType \<Rightarrow> val" where
  "nil_value RRaw = VRaw []"
| "nil_value (RUint bits) = VUint 0"
| "nil_value RBool = VBool False"
| "nil_value RBigInt = VBigInt 0"
| "nil_value RString = VString []"
| "nil_value (RSlice t) = (if is_byte t then VBytes [] else VList [])"
| "nil_value (RArray n t) = (if is_byte t then VBytes [] else VList [])"
| "nil_value (RStruct fs) = VList []"
| "nil_value (RPtr t) = nil_value t"
| "nil_value RInterface = VNilInterface"
| "nil_value RNamed8 = VUint 0"

definition decodePtr :: "tags \<Rightarrow> RType \<Rightarrow> val dec \<Rightarrow> val dec" where
  "decodePtr ts etype elemdec =
    (if tag_nilOK ts then
       (\<lambda>s. rbind (Stream_Kind s) (\<lambda>(r, s).
          case r of
            Inl e \<Rightarrow> sfail e (rearm s)
          | Inr (kind, sz) \<Rightarrow>
              if sz = 0 \<and> kind \<noteq> Byte_kind then sret (VNilPtr (nil_value etype)) (rearm s) else elemdec s))
     else elemdec)"

text \<open>\<^verbatim>\<open>makeDecoder\<close>: the decoder of a type, and of the fields of a struct; ignored fields take no part.\<close>

fun decoder :: "nat \<Rightarrow> tags \<Rightarrow> RType \<Rightarrow> val dec"
  and decode_fields :: "nat \<Rightarrow> RType \<Rightarrow> (string \<times> tags \<times> RType) list \<Rightarrow> val list dec" where
  "decoder n ts RRaw = decodeRawValue"
| "decoder n ts (RUint bits) = decodeUint (RUint bits) bits"
| "decoder n ts RBool = decodeBool"
| "decoder n ts RBigInt = decodeBigInt"
| "decoder n ts RString = decodeString"
| "decoder n ts (RSlice t) =
    (if is_byte t then decodeByteSlice (RSlice t)
     else if tag_tail ts then sbind (decodeSliceElems n (decoder n no_tags t) 0) (\<lambda>vs. sret (VTail vs))
     else decodeListSlice n (RSlice t) (decoder n no_tags t))"
| "decoder n ts (RArray k t) =
    (if is_byte t then decodeByteArray k (RArray k t) else decodeListArray k (RArray k t) (decoder n no_tags t))"
| "decoder n ts (RStruct fs) =
    sbind (swrap (wrapStreamError (RStruct fs)) Stream_List) (\<lambda>_.
      sbind (decode_fields n (RStruct fs) fs) (\<lambda>vs.
        sbind (swrap (wrapStreamError (RStruct fs)) Stream_ListEnd) (\<lambda>_. sret (VList vs))))"
| "decoder n ts (RPtr t) = decodePtr ts t (decoder n no_tags t)"
| "decoder n ts RInterface = decodeInterface n"
| "decoder n ts RNamed8 = decodeUint RNamed8 8"
| "decode_fields n typ [] = sret []"
| "decode_fields n typ ((name, ts, t) # fs) =
    (if tag_ignored ts then decode_fields n typ fs
     else (\<lambda>s. rbind (decoder n ts t s) (\<lambda>(r, s).
       case r of
         Inl e \<Rightarrow> if e = StreamError EOL then sfail (DecodeError ''too few elements'' typ []) s
                  else sfail (addErrorContext (CtxField name) e) s
       | Inr v \<Rightarrow> sbind (decode_fields n typ fs) (\<lambda>vs. sret (v # vs)) s)))"

definition Stream_Decode :: "nat \<Rightarrow> RType \<Rightarrow> val dec" where
  "Stream_Decode n typ =
    swrap (\<lambda>err. case err of DecodeError msg t (c # ctx) \<Rightarrow> DecodeError msg t ((c # ctx) @ [CtxTarget typ]) | _ \<Rightarrow> err)
      (decoder n no_tags typ)"

definition DecodeBytes :: "nat \<Rightarrow> RType \<Rightarrow> bytes \<Rightarrow> (decode_error + val) res" where
  "DecodeBytes n typ b =
    rbind (Stream_Decode n typ (NewStream b (of_nat (length b)))) (\<lambda>(r, s).
      case r of
        Inl e \<Rightarrow> Done (Inl e)
      | Inr v \<Rightarrow> Done (if length (st_r s) > 0 then Inl (StreamError ErrMoreThanOneValue) else Inr v))"

section \<open>Reading well-formed input\<close>

definition stream_at :: "bytes \<Rightarrow> (u64 \<times> u64) list \<Rightarrow> Stream \<Rightarrow> bool" where
  "stream_at r stk s \<longleftrightarrow> st_limited s \<and> st_r s = r \<and> st_remaining s = of_nat (length r) \<and> length r < 2 ^ 63 \<and> st_stack s = stk"

definition goto :: "bytes \<Rightarrow> (u64 \<times> u64) list \<Rightarrow> Stream \<Rightarrow> Stream" where
  "goto r stk s = s\<lparr>st_r := r, st_remaining := of_nat (length r), st_kind := None, st_stack := stk\<rparr>"

definition ready :: "bytes \<Rightarrow> (u64 \<times> u64) list \<Rightarrow> Stream \<Rightarrow> bool" where
  "ready r stk s \<longleftrightarrow> stream_at r stk s \<and> st_kind s = None"

fun room :: "nat \<Rightarrow> (u64 \<times> u64) list \<Rightarrow> bool" where
  "room n [] \<longleftrightarrow> True"
| "room n ((pos, sz) # stk) \<longleftrightarrow> n \<le> unat (sz - pos)"

fun adv :: "nat \<Rightarrow> (u64 \<times> u64) list \<Rightarrow> (u64 \<times> u64) list" where
  "adv n [] = []"
| "adv n ((pos, sz) # stk) = (pos + of_nat n, sz) # stk"

lemma adv_adv [simp]: "adv n (adv m stk) = adv (m + n) stk"
  by (cases "(n, stk)" rule: adv.cases) (auto simp: add.assoc)

lemma adv_0 [simp]: "adv 0 stk = stk"
  by (cases "(0 :: nat, stk)" rule: adv.cases) auto

lemma unat_room: "n \<le> unat (sz - pos :: u64) \<Longrightarrow> unat (sz - (pos + of_nat n)) = unat (sz - pos) - n"
proof -
  assume n: "n \<le> unat (sz - pos)"
  then have "n < 2 ^ 64" using unat_less_2p64 [of "sz - pos"] by linarith
  then have "unat (of_nat n :: u64) = n" by (rule unat_of_nat_small)
  moreover have "sz - (pos + of_nat n) = (sz - pos) - of_nat n" by simp
  ultimately show ?thesis using n by (metis unat_sub word_le_nat_alt)
qed

lemma room_adv: "room (n + m) stk \<Longrightarrow> room m (adv n stk)"
  by (cases "(n, stk)" rule: adv.cases) (auto simp: unat_room)

lemma room_le: "room n stk \<Longrightarrow> m \<le> n \<Longrightarrow> room m stk"
  by (cases "(n, stk)" rule: adv.cases) auto

lemma stream_at_goto: "stream_at r' stk' s \<Longrightarrow> length r < 2 ^ 63 \<Longrightarrow> ready r stk (goto r stk s)"
  by (simp add: ready_def stream_at_def goto_def)

lemma willRead_at:
  assumes "stream_at (b @ r) stk s" "room (length b) stk"
  shows "willRead (of_nat (length b)) s = Done (Inr (), (goto r (adv (length b) stk) s)\<lparr>st_r := b @ r\<rparr>)"
proof -
  have l: "length b + length r < 2 ^ 63" using assms(1) by (simp add: stream_at_def)
  then have u: "unat (of_nat (length b) :: u64) = length b" "unat (of_nat (length (b @ r)) :: u64) = length (b @ r)"
    by (simp_all add: unat_of_nat_small del: of_nat_add)
  then have "\<not> of_nat (length (b @ r)) < (of_nat (length b) :: u64)" by (simp add: word_less_nat_alt del: of_nat_add)
  moreover have "\<not> sz - pos < of_nat (length b)" if "stk = (pos, sz) # rest" for pos sz rest
    using assms(2) u(1) that by (simp add: word_less_nat_alt)
  ultimately show ?thesis
    using assms(1) by (cases "(length b, stk)" rule: adv.cases) (auto simp: willRead_def Let_def rearm_def sret_def stream_at_def goto_def)
qed

lemma readFull_at:
  assumes "stream_at (b @ r) stk s" "room (length b) stk"
  shows "readFull (length b) s = Done (Inr b, goto r (adv (length b) stk) s)"
  by (simp add: readFull_def sbind_def willRead_at [OF assms] sret_def) (simp add: goto_def)

lemma readByte_at:
  assumes "stream_at (x # r) stk s" "room 1 stk"
  shows "readByte s = Done (Inr x, goto r (adv 1 stk) s)"
  using willRead_at [of "[x]" r stk s] assms by (simp add: readByte_def sbind_def sret_def goto_def)

lemma readUint_Bytes:
  assumes "stream_at (Bytes (int n) @ r) stk s" "room (length (Bytes (int n))) stk" "0 < n" "n < 2 ^ 64"
  shows "readUint (of_nat (length (Bytes (int n)))) s = Done (Inr (of_nat n), goto r (adv (length (Bytes (int n))) stk) s)"
proof -
  let ?B = "Bytes (int n)"
  have B: "?B \<noteq> []" "hd ?B \<noteq> 0" "length ?B \<le> 8" using Bytes_hd [of "int n"] length_Bytes_u64 [of "int n"] assms(3,4) by simp_all
  have v: "SetBytes ?B = int n" by (simp add: SetBytes_Bytes)
  have k: "1 \<le> length ?B" using B(1) by (simp add: Suc_le_eq)
  show ?thesis
  proof (cases "length ?B = 1")
    case True
    then obtain x where x: "?B = [x]" by (auto simp: length_Suc_conv)
    then have "uint x = int n" using v by (simp add: SetBytes_def)
    then have "ucast x = (of_nat n :: u64)" by (metis of_int_uint of_int_of_nat_eq)
    then show ?thesis using readByte_at [of x r stk s] assms(1,2) x by (simp add: readUint_def sbind_def sret_def)
  next
    case False
    have "\<not> (of_nat (length ?B) :: u8) > 8" "(of_nat (length ?B) :: u8) \<noteq> 0" "(of_nat (length ?B) :: u8) \<noteq> 1" "unat (of_nat (length ?B) :: u8) = length ?B"
      using tag_cases [OF k B(3)] False by auto
    then show ?thesis
      using readFull_at [OF assms(1,2)] B v by (simp add: readUint_def sbind_def sret_def hd_conv_nth)
  qed
qed

definition ahead :: "Kind \<Rightarrow> nat \<Rightarrow> bytes \<Rightarrow> (u64 \<times> u64) list \<Rightarrow> Stream \<Rightarrow> bool" where
  "ahead k n r stk s \<longleftrightarrow> stream_at r stk s \<and> st_kind s = Some k \<and> st_size s = of_nat n \<and> st_kinderr s = None"

lemma Kind_ahead: "ahead k n r stk s \<Longrightarrow> Stream_Kind s = Done (Inr (k, of_nat n), s)"
  by (simp add: ahead_def Stream_Kind_def kind_result_def sret_def)

lemma not_at_end: "room n stk \<Longrightarrow> 0 < n \<Longrightarrow> \<not> (case stk of [] \<Rightarrow> False | (pos, sz) # _ \<Rightarrow> pos = sz)"
  by (cases "(n, stk)" rule: adv.cases) auto

text \<open>What \<^verbatim>\<open>Kind\<close> does once the head has been read.\<close>

lemma Kind_read:
  assumes "st_kind s = None" "room h stk" "0 < h" "st_stack s = stk"
    and "Stream_readKind (s\<lparr>st_kinderr := None\<rparr>) = Done ((k, of_nat n, None), s')" "stream_at r (adv h stk) s'"
    and "n \<le> length r" "room n (adv h stk)"
  shows "\<exists>s2. Stream_Kind s = Done (Inr (k, of_nat n), s2) \<and> ahead k n r (adv h stk) s2 \<and> st_byteval s2 = st_byteval s'"
proof -
  have l: "length r < 2 ^ 63" "n < 2 ^ 64" using assms(6,7) by (simp_all add: stream_at_def)
  then have u: "unat (of_nat n :: u64) = n" "unat (of_nat (length r) :: u64) = length r" by (simp_all add: unat_of_nat_small)
  then have "\<not> st_remaining s' < of_nat n" using assms(6,7) by (simp add: stream_at_def word_less_nat_alt)
  moreover have "\<not> lsz - pos < of_nat n" if "st_stack s' = (pos, lsz) # rest" for pos lsz rest
  proof -
    have "adv h stk = (pos, lsz) # rest" using assms(6) that by (simp add: stream_at_def)
    then show ?thesis using assms(8) u(1) by (simp add: word_less_nat_alt)
  qed
  ultimately have fits: "(case st_stack s' of
        [] \<Rightarrow> if st_limited s' \<and> of_nat n > st_remaining s' then Some (StreamError ErrValueTooLarge) else None
      | (pos, lsz) # _ \<Rightarrow> if of_nat n > lsz - pos then Some (StreamError ErrElemTooLarge) else None) = None"
    by (cases "st_stack s'") auto
  have "Stream_Kind s = kind_result k (s'\<lparr>st_kind := Some k, st_size := of_nat n, st_kinderr := None\<rparr>)"
    using assms(1,4,5) not_at_end [OF assms(2,3)] fits by (simp add: Stream_Kind_def Let_def)
  then show ?thesis
    using assms(6) by (simp add: kind_result_def sret_def ahead_def stream_at_def)
qed

lemma Kind_byte:
  assumes "ready (x # r) stk s" "room 1 stk" "x < 0x80"
  shows "\<exists>s'. Stream_Kind s = Done (Inr (Byte_kind, 0), s') \<and> ahead Byte_kind 0 r (adv 1 stk) s' \<and> st_byteval s' = x"
proof -
  have at: "stream_at (x # r) stk (s\<lparr>st_kinderr := None\<rparr>)" and k: "st_kind s = None" "st_stack s = stk"
    using assms(1) by (simp_all add: ready_def stream_at_def)
  have rk: "Stream_readKind (s\<lparr>st_kinderr := None\<rparr>) = Done ((Byte_kind, of_nat 0, None), (goto r (adv 1 stk) (s\<lparr>st_kinderr := None\<rparr>))\<lparr>st_byteval := x\<rparr>)"
    using assms(3) by (simp add: Stream_readKind_def readByte_at [OF at assms(2)] Let_def)
  have at2: "stream_at r (adv 1 stk) ((goto r (adv 1 stk) (s\<lparr>st_kinderr := None\<rparr>))\<lparr>st_byteval := x\<rparr>)"
    using at by (simp add: stream_at_def goto_def)
  have "room 0 (adv 1 stk)" using room_adv [of 1 0 stk] assms(2) by simp
  from Kind_read [OF k(1) assms(2) _ k(2) rk at2 _ this] show ?thesis by simp
qed

lemma long_size_at:
  assumes "stream_at (Bytes (int n) @ r) stk s" "room (length (Bytes (int n))) stk" "56 \<le> n" "n < 2 ^ 64"
  shows "long_size k (of_nat (length (Bytes (int n)))) s = Done ((k, of_nat n, None), goto r (adv (length (Bytes (int n))) stk) s)"
  using readUint_Bytes [OF assms(1,2)] assms(3,4) of_nat_less_56 [of n] by (simp add: long_size_def)

lemma readKind_short:
  assumes "stream_at ((tag + of_nat n) # r) stk s" "room 1 stk" "n < 56"
    and "tag = 0x80 \<and> k = String_kind \<or> tag = 0xC0 \<and> k = List_kind"
  shows "Stream_readKind s = Done ((k, of_nat n, None), (goto r (adv 1 stk) s)\<lparr>st_byteval := 0\<rparr>)"
proof -
  have un: "unat (of_nat n :: u8) = n" using assms(3) by (simp add: unsigned_of_nat take_bit_nat_eq_self)
  then have u: "ucast (of_nat n :: u8) = (of_nat n :: u64)" by (metis of_nat_unat)
  show ?thesis
    using assms(4) small_tag [OF assms(3)] u
    by (elim disjE conjE) (simp_all add: Stream_readKind_def readByte_at [OF assms(1,2)] Let_def)
qed

lemma readKind_long:
  assumes "stream_at ((tag + 55 + of_nat (length (Bytes (int n)))) # Bytes (int n) @ r) stk s" "room (Suc (length (Bytes (int n)))) stk"
    and "56 \<le> n" "n < 2 ^ 64" "tag = 0x80 \<and> k = String_kind \<or> tag = 0xC0 \<and> k = List_kind"
  shows "\<exists>s'. Stream_readKind s = Done ((k, of_nat n, None), s') \<and> stream_at r (adv (Suc (length (Bytes (int n)))) stk) s'"
proof -
  let ?B = "Bytes (int n)"
  have B: "1 \<le> length ?B" "length ?B \<le> 8" using Bytes_hd [of "int n"] length_Bytes_u64 [of "int n"] assms(3,4) by (simp_all add: Suc_le_eq)
  have r1: "room 1 stk" using room_le [OF assms(2)] by simp
  have at: "stream_at (?B @ r) (adv 1 stk) ((goto (?B @ r) (adv 1 stk) s)\<lparr>st_byteval := 0\<rparr>)"
    using assms(1) by (simp add: stream_at_def goto_def)
  have ls: "long_size k (of_nat (length ?B)) ((goto (?B @ r) (adv 1 stk) s)\<lparr>st_byteval := 0\<rparr>) =
      Done ((k, of_nat n, None), goto r (adv (length ?B) (adv 1 stk)) ((goto (?B @ r) (adv 1 stk) s)\<lparr>st_byteval := 0\<rparr>))"
    using long_size_at [OF at _ assms(3,4)] room_adv [of 1 "length ?B" stk] assms(2) by simp
  have tg: "0x80 + 55 + (of_nat (length ?B) :: u8) - 0xB7 = of_nat (length ?B)" "0xC0 + 55 + (of_nat (length ?B) :: u8) - 0xF7 = of_nat (length ?B)"
    by simp_all
  have nlt: "\<not> 0x80 + 55 + (of_nat (length ?B) :: u8) < 0x80" "\<not> 0xC0 + 55 + (of_nat (length ?B) :: u8) < 0x80"
    "\<not> 0xC0 + 55 + (of_nat (length ?B) :: u8) < 0xB8" "\<not> 0xC0 + 55 + (of_nat (length ?B) :: u8) < 0xC0"
    using tag_cases [OF B] by auto
  have "Stream_readKind s = long_size k (of_nat (length ?B)) ((goto (?B @ r) (adv 1 stk) s)\<lparr>st_byteval := 0\<rparr>)"
    using assms(5) nlt large_tag [OF B] tg
    by (elim disjE conjE) (simp_all add: Stream_readKind_def readByte_at [OF assms(1) r1] Let_def)
  with ls assms(1) show ?thesis by (simp add: stream_at_def goto_def)
qed

lemma Kind_head:
  assumes "ready (rlp_len tag (length c) @ c @ r) stk s" "room (length (rlp_len tag (length c) @ c)) stk"
    and "tag = 0x80 \<and> k = String_kind \<or> tag = 0xC0 \<and> k = List_kind"
  shows "\<exists>s'. Stream_Kind s = Done (Inr (k, of_nat (length c)), s') \<and>
    ahead k (length c) (c @ r) (adv (length (rlp_len tag (length c))) stk) s'"
proof -
  let ?h = "length (rlp_len tag (length c))" and ?s = "s\<lparr>st_kinderr := None\<rparr>"
  have at: "stream_at (rlp_len tag (length c) @ c @ r) stk ?s" and k: "st_kind s = None" "st_stack s = stk"
    using assms(1) by (simp_all add: ready_def stream_at_def)
  have rm: "room ?h stk" "room (length c) (adv ?h stk)" using room_le [OF assms(2)] room_adv [of ?h "length c" stk] assms(2) by simp_all
  have len: "length c < 2 ^ 64" using at by (simp add: stream_at_def)
  have "\<exists>s'. Stream_readKind ?s = Done ((k, of_nat (length c), None), s') \<and> stream_at (c @ r) (adv ?h stk) s'"
  proof (cases "length c < 56")
    case True
    then show ?thesis
      using readKind_short [of tag "length c" "c @ r" stk ?s k] at rm(1) assms(3) by (simp add: rlp_len_def stream_at_def goto_def)
  next
    case False
    then show ?thesis
      using readKind_long [of tag "length c" "c @ r" stk ?s k] at rm(1) assms(3) len by (simp add: rlp_len_def)
  qed
  then obtain s' where s': "Stream_readKind ?s = Done ((k, of_nat (length c), None), s')" "stream_at (c @ r) (adv ?h stk) s'" by blast
  have "0 < ?h" using length_rlp_len_le [OF len, of tag] by linarith
  from Kind_read [OF k(1) rm(1) this k(2) s' _ rm(2)] show ?thesis by auto
qed

section \<open>Strings and integers\<close>

lemma readFull_ahead:
  assumes "ahead k (length c) (c @ r) stk s" "room (length c) stk"
  shows "\<exists>s'. readFull (length c) s = Done (Inr c, s') \<and> ready r (adv (length c) stk) s'"
  using assms readFull_at [of c r stk s] stream_at_goto [of "c @ r" stk s r] by (auto simp: ahead_def stream_at_def)

text \<open>The two ways a string begins.\<close>

lemma Kind_string:
  assumes "ready (rlp_string b @ r) stk s" "room (length (rlp_string b)) stk"
  obtains (byte) s' where "length b = 1" "b ! 0 < 0x80" "Stream_Kind s = Done (Inr (Byte_kind, 0), s')"
      "ahead Byte_kind 0 r (adv (length (rlp_string b)) stk) s'" "st_byteval s' = b ! 0"
  | (string) h s' where "\<not> (length b = 1 \<and> b ! 0 < 0x80)" "Stream_Kind s = Done (Inr (String_kind, of_nat (length b)), s')"
      "ahead String_kind (length b) (b @ r) (adv h stk) s'" "h + length b = length (rlp_string b)" "room (length b) (adv h stk)"
proof (cases "length b = 1 \<and> b ! 0 < 0x80")
  case True
  then obtain x where x: "b = [x]" by (auto simp: length_Suc_conv)
  then show ?thesis using Kind_byte [of x r stk s] byte assms True by (auto simp: rlp_string_def)
next
  case False
  let ?h = "length (rlp_len 0x80 (length b))"
  have "rlp_string b = rlp_len 0x80 (length b) @ b" using False by (auto simp: rlp_string_def)
  then show ?thesis
    using Kind_head [of "0x80" b r stk s String_kind] string [of _ ?h] assms False room_adv [of ?h "length b" stk] by auto
qed

lemma length_ready: "ready (b @ r) stk s \<Longrightarrow> length b < 2 ^ 63 \<and> length r < 2 ^ 63"
  by (simp add: ready_def stream_at_def)

lemma of_nat_ge_2p63: "n < 2 ^ 63 \<Longrightarrow> \<not> 2 ^ 63 \<le> (of_nat n :: u64)"
  by (simp add: word_le_nat_alt unat_of_nat_small)

lemma of_nat_eq_1: "n < 2 ^ 64 \<Longrightarrow> (of_nat n :: u64) = 1 \<longleftrightarrow> n = 1"
  by (metis unat_of_nat_small unat_1 of_nat_1)

lemma Bytes_ready:
  assumes "ready (rlp_string b @ r) stk s" "room (length (rlp_string b)) stk"
  shows "\<exists>s'. Stream_Bytes s = Done (Inr b, s') \<and> ready r (adv (length (rlp_string b)) stk) s'"
  using assms
proof (cases rule: Kind_string)
  case (byte s')
  then have "b = [b ! 0]" by (cases b) auto
  with byte show ?thesis by (simp add: Stream_Bytes_def sbind_def sret_def rearm_def ahead_def ready_def stream_at_def)
next
  case (string h s')
  have "length b < 2 ^ 63" using string(3) by (simp add: ahead_def stream_at_def)
  then have "unat (of_nat (length b) :: u64) = length b" "\<not> 2 ^ 63 \<le> (of_nat (length b) :: u64)" "(of_nat (length b) :: u64) = 1 \<longleftrightarrow> length b = 1"
    using of_nat_ge_2p63 [of "length b"] by (simp_all add: unat_of_nat_small of_nat_eq_1)
  with string readFull_ahead [OF string(3,5)] show ?thesis by (auto simp: Stream_Bytes_def sbind_def sret_def)
qed

lemma uint_ready:
  assumes "ready (rlp_string (Bytes (uint i)) @ r) stk s" "room (length (rlp_string (Bytes (uint i)))) stk"
    and "unat i < 2 ^ bits" "bits \<in> {8, 16, 32, 64}"
  shows "\<exists>s'. Stream_uint bits s = Done (Inr i, s') \<and> ready r (adv (length (rlp_string (Bytes (uint i)))) stk) s'"
  using assms(1,2)
proof (cases rule: Kind_string)
  case (byte s')
  then obtain x where B: "Bytes (uint i) = [x]" by (auto simp: length_Suc_conv)
  then have "uint i = uint x" using SetBytes_Bytes [of "uint i"] by (simp add: SetBytes_def)
  then have "ucast x = i" by (metis of_int_uint ucast_id word_of_int_uint)
  moreover have "x \<noteq> 0"
    using Bytes_hd [of "uint i"] B Bytes_0 uint_ge_0 [of i] by (metis list.distinct(1) list.sel(1) order_le_less)
  ultimately show ?thesis
    using byte B by (simp add: Stream_uint_def sbind_def sret_def rearm_def ahead_def ready_def stream_at_def)
next
  case (string h s')
  let ?B = "Bytes (uint i)"
  have "\<bar>uint i\<bar> < 256 ^ (bits div 8)"
  proof -
    have "int (unat i) < 2 ^ bits" using assms(3) by (metis of_nat_less_iff of_nat_numeral of_nat_power)
    then show ?thesis using assms(4) by auto
  qed
  then have len: "length ?B \<le> bits div 8" "length ?B \<le> 8" using assms(4) by (auto simp: length_Bytes_le)
  then have u: "\<not> of_nat (bits div 8) < (of_nat (length ?B) :: u64)" "ucast (of_nat (length ?B) :: u64) = (of_nat (length ?B) :: u8)"
    using assms(4) unat_of_nat_small [of "length ?B"] unat_of_nat_small [of "bits div 8"]
    by (auto simp: word_less_nat_alt) (metis of_nat_unat)+
  show ?thesis
  proof (cases "i = 0")
    case True
    then show ?thesis
      using string by (simp add: Stream_uint_def sbind_def Bytes_0 readUint_def sret_def rearm_def ahead_def ready_def stream_at_def)
  next
    case False
    then have p: "0 < unat i" by (simp add: unat_gt_0)
    have p': "0 < uint i" using False uint_0_iff [of i] uint_ge_0 [of i] by linarith
    have at: "stream_at (?B @ r) (adv h stk) s'" using string(3) by (simp add: ahead_def)
    have rd: "readUint (of_nat (length ?B)) s' = Done (Inr i, goto r (adv (length ?B) (adv h stk)) s')"
      using readUint_Bytes [of "unat i" r "adv h stk" s'] at string(5) p unat_less_2p64 [of i] by simp
    have "\<not> i < 128"
    proof
      assume "i < 128"
      then have "uint i < 128" by (simp add: word_less_def)
      then have "?B = [of_int (uint i)]" using Bytes_small [of "uint i"] p' by simp
      then show False using string(1) \<open>uint i < 128\<close> by (simp add: word_less_def unsigned_ucast_eq take_bit_eq_mod)
    qed
    moreover have "ready r (adv (length (rlp_string ?B)) stk) (goto r (adv (length ?B) (adv h stk)) s')"
      using stream_at_goto [OF at] string(4) length_ready [OF assms(1)] by simp
    ultimately show ?thesis using string u rd by (auto simp: Stream_uint_def sbind_def sret_def)
  qed
qed

section \<open>Lists\<close>

lemma List_ready:
  assumes "ready (rlp_len 0xC0 (length c) @ c @ r) stk s" "room (length (rlp_len 0xC0 (length c) @ c)) stk"
  shows "\<exists>s'. Stream_List s = Done (Inr (of_nat (length c)), s') \<and>
    ready (c @ r) ((0, of_nat (length c)) # adv (length (rlp_len 0xC0 (length c))) stk) s'"
proof -
  obtain s' where "Stream_Kind s = Done (Inr (List_kind, of_nat (length c)), s')"
    "ahead List_kind (length c) (c @ r) (adv (length (rlp_len 0xC0 (length c))) stk) s'"
    using Kind_head [OF assms] by blast
  then show ?thesis by (simp add: Stream_List_def sbind_def sret_def ahead_def ready_def stream_at_def)
qed

lemma ListEnd_ready:
  "ready r ((of_nat n, of_nat n) # stk) s \<Longrightarrow> \<exists>s'. Stream_ListEnd s = Done (Inr (), s') \<and> ready r (adv n stk) s'"
  by (cases "(n, stk)" rule: adv.cases) (simp_all add: Stream_ListEnd_def sret_def ready_def stream_at_def)

lemma Kind_eol: "ready r ((p, p) # stk) s \<Longrightarrow> Stream_Kind s = Done (Inl (StreamError EOL), s\<lparr>st_kinderr := None\<rparr>)"
  by (simp add: Stream_Kind_def ready_def stream_at_def sfail_def)

lemma swrap_Inr: "m s = Done (Inr x, s') \<Longrightarrow> swrap w m s = Done (Inr x, s')"
  by (simp add: swrap_def)

lemma swrap_EOL: "m s = Done (Inl (StreamError EOL), s') \<Longrightarrow> swrap (wrapStreamError t) m s = Done (Inl (StreamError EOL), s')"
  by (simp add: swrap_def wrapStreamError_def)

text \<open>A list is opened, its contents are read, and it is closed.\<close>

lemma in_list:
  assumes "ready (rlp (VList vs) @ r) stk s" "room (length (rlp (VList vs))) stk"
  obtains stk1 s1 where "Stream_List s = Done (Inr (of_nat (length (concat (map rlp vs)))), s1)"
    "ready (concat (map rlp vs) @ r) ((0, of_nat (length (concat (map rlp vs)))) # stk1) s1"
    "unat (of_nat (length (concat (map rlp vs))) - 0 :: u64) = length (concat (map rlp vs))"
    "\<And>s2. ready r ((of_nat (length (concat (map rlp vs))), of_nat (length (concat (map rlp vs)))) # stk1) s2 \<Longrightarrow>
      \<exists>s'. Stream_ListEnd s2 = Done (Inr (), s') \<and> ready r (adv (length (rlp (VList vs))) stk) s'"
proof -
  let ?c = "concat (map rlp vs)" and ?h = "length (rlp_len 0xC0 (length (concat (map rlp vs))))"
  have e: "rlp (VList vs) = rlp_len 0xC0 (length ?c) @ ?c" by (simp add: Let_def)
  have "length ?c < 2 ^ 64" using length_ready [OF assms(1)] e by simp
  then have u: "unat (of_nat (length ?c) :: u64) = length ?c" by (rule unat_of_nat_small)
  obtain s1 where "Stream_List s = Done (Inr (of_nat (length ?c)), s1)" "ready (?c @ r) ((0, of_nat (length ?c)) # adv ?h stk) s1"
    using List_ready [of ?c r stk s] assms e by auto
  moreover have "\<exists>s'. Stream_ListEnd s2 = Done (Inr (), s') \<and> ready r (adv (length (rlp (VList vs))) stk) s'"
    if "ready r ((of_nat (length ?c), of_nat (length ?c)) # adv ?h stk) s2" for s2
    using ListEnd_ready [OF that] e by simp
  ultimately show thesis using u that by simp
qed

text \<open>
  What the loops over list elements rely on: the decoder of an element reads every value of its type where its encoding stands,
  and reports the end of the list at its end.
\<close>

locale elem_decoder =
  fixes d :: "val dec" and vals :: "val set"
  assumes eol: "ready r ((p, p) # stk) s \<Longrightarrow> \<exists>s'. d s = Done (Inl (StreamError EOL), s') \<and> ready r ((p, p) # stk) s'"
    and reads: "v \<in> vals \<Longrightarrow> ready (rlp v @ r) stk s \<Longrightarrow> room (length (rlp v)) stk \<Longrightarrow>
      \<exists>s'. d s = Done (Inr v, s') \<and> ready r (adv (length (rlp v)) stk) s'"
    and nonempty: "v \<in> vals \<Longrightarrow> rlp v \<noteq> []"
begin

lemma slice_elems:
  assumes "set vs \<subseteq> vals" "ready (concat (map rlp vs) @ r) ((p, sz) # stk) s"
    and "unat (sz - p) = length (concat (map rlp vs))" "length vs < n"
  shows "\<exists>s'. decodeSliceElems n d i s = Done (Inr vs, s') \<and> ready r ((sz, sz) # stk) s'"
  using assms
proof (induction vs arbitrary: n i p s)
  case Nil
  then have "p = sz" by (metis concat.simps(1) eq_iff_diff_eq_0 list.map(1) list.size(3) unat_eq_0)
  moreover obtain m where "n = Suc m" using Nil(4) by (cases n) auto
  ultimately show ?case using eol [of r sz stk s] Nil(2) by (auto simp: sret_def)
next
  case (Cons v vs)
  obtain m where m: "n = Suc m" using Cons(5) by (cases n) auto
  have "room (length (rlp v)) ((p, sz) # stk)" using Cons(4) by simp
  then obtain s1 where s1: "d s = Done (Inr v, s1)" "ready (concat (map rlp vs) @ r) ((p + of_nat (length (rlp v)), sz) # stk) s1"
    using reads [of v "concat (map rlp vs) @ r" "(p, sz) # stk" s] Cons(2,3) by auto
  have "unat (sz - (p + of_nat (length (rlp v)))) = length (concat (map rlp vs))"
    using unat_room [of "length (rlp v)" sz p] Cons(4) by simp
  from Cons(1) [OF _ s1(2) this, of m "i + 1"] Cons(2,5) m s1(1) show ?case by (auto simp: sbind_def sret_def)
qed

lemma array_elems:
  assumes "set vs \<subseteq> vals" "ready (concat (map rlp vs) @ r) ((p, sz) # stk) s" "unat (sz - p) = length (concat (map rlp vs))"
  shows "\<exists>s'. decodeArrayElems (length vs) d i s = Done (Inr vs, s') \<and> ready r ((sz, sz) # stk) s'"
  using assms
proof (induction vs arbitrary: i p s)
  case Nil
  then have "p = sz" by (metis concat.simps(1) eq_iff_diff_eq_0 list.map(1) list.size(3) unat_eq_0)
  then show ?case using Nil(2) by (auto simp: sret_def)
next
  case (Cons v vs)
  have "room (length (rlp v)) ((p, sz) # stk)" using Cons(4) by simp
  then obtain s1 where s1: "d s = Done (Inr v, s1)" "ready (concat (map rlp vs) @ r) ((p + of_nat (length (rlp v)), sz) # stk) s1"
    using reads [of v "concat (map rlp vs) @ r" "(p, sz) # stk" s] Cons(2,3) by auto
  have "unat (sz - (p + of_nat (length (rlp v)))) = length (concat (map rlp vs))"
    using unat_room [of "length (rlp v)" sz p] Cons(4) by simp
  from Cons(1) [OF _ s1(2) this, of "i + 1"] Cons(2) s1(1) show ?case by (auto simp: sbind_def sret_def)
qed

lemma list_slice:
  assumes "set vs \<subseteq> vals" "ready (rlp (VList vs) @ r) stk s" "room (length (rlp (VList vs))) stk" "length vs < n"
  shows "\<exists>s'. decodeListSlice n t d s = Done (Inr (VList vs), s') \<and> ready r (adv (length (rlp (VList vs))) stk) s'"
  using assms(2,3)
proof (cases rule: in_list)
  case (1 stk1 s1)
  let ?c = "concat (map rlp vs)"
  show ?thesis
  proof (cases "(of_nat (length ?c) :: u64) = 0")
    case True
    then have "?c = []" using 1(3) by (metis diff_zero length_0_conv unat_0)
    then have "vs = []" using assms(1) nonempty by (cases vs) auto
    then have "ready r ((of_nat (length ?c), of_nat (length ?c)) # stk1) s1" using 1(2) by simp
    from 1(4) [OF this] obtain s' where "Stream_ListEnd s1 = Done (Inr (), s')" "ready r (adv (length (rlp (VList vs))) stk) s'" by blast
    with True swrap_Inr [where m = Stream_List, OF 1(1)] \<open>vs = []\<close> show ?thesis by (simp add: decodeListSlice_def sbind_def sret_def)
  next
    case False
    obtain s2 where s2: "decodeSliceElems n d 0 s1 = Done (Inr vs, s2)" "ready r ((of_nat (length ?c), of_nat (length ?c)) # stk1) s2"
      using slice_elems [OF assms(1) 1(2,3) assms(4)] by blast
    obtain s' where "Stream_ListEnd s2 = Done (Inr (), s')" "ready r (adv (length (rlp (VList vs))) stk) s'" using 1(4) [OF s2(2)] by blast
    with False s2(1) swrap_Inr [where m = Stream_List, OF 1(1)] show ?thesis by (simp add: decodeListSlice_def sbind_def sret_def)
  qed
qed

lemma list_array:
  assumes "set vs \<subseteq> vals" "ready (rlp (VList vs) @ r) stk s" "room (length (rlp (VList vs))) stk"
  shows "\<exists>s'. decodeListArray (length vs) t d s = Done (Inr (VList vs), s') \<and> ready r (adv (length (rlp (VList vs))) stk) s'"
  using assms(2,3)
proof (cases rule: in_list)
  case (1 stk1 s1)
  let ?c = "concat (map rlp vs)"
  obtain s2 where s2: "decodeArrayElems (length vs) d 0 s1 = Done (Inr vs, s2)" "ready r ((of_nat (length ?c), of_nat (length ?c)) # stk1) s2"
    using array_elems [OF assms(1) 1(2,3)] by blast
  obtain s' where "Stream_ListEnd s2 = Done (Inr (), s')" "ready r (adv (length (rlp (VList vs))) stk) s'" using 1(4) [OF s2(2)] by blast
  with s2 swrap_Inr [where m = Stream_List, OF 1(1)] swrap_Inr [of Stream_ListEnd s2 "()" s'] show ?thesis by (auto simp: decodeListArray_def sbind_def sret_def)
qed

end

section \<open>Typed values\<close>

text \<open>The values an interface can take: byte strings and lists of such values.\<close>

fun iface :: "val \<Rightarrow> bool" where
  "iface (VBytes b) \<longleftrightarrow> True"
| "iface (VList vs) \<longleftrightarrow> list_all iface vs"
| "iface v \<longleftrightarrow> False"

definition empty_value :: "bytes \<Rightarrow> bool" where
  "empty_value b \<longleftrightarrow> b = [0x80] \<or> b = [0xC0]"

text \<open>
  The values of a type that survive encoding and decoding.  A nil pointer does only where the tag says so, and then no other
  empty value does; the one-byte array that holds zero does not, and an array of a declared byte type only if it is a single
  byte below 128.
\<close>

fun typed :: "tags \<Rightarrow> RType \<Rightarrow> val \<Rightarrow> bool" and typed_fields :: "(string \<times> tags \<times> RType) list \<Rightarrow> val list \<Rightarrow> bool" where
  "typed ts RRaw v \<longleftrightarrow> (\<exists>b k c. v = VRaw b \<and> rlp_item k b c)"
| "typed ts (RUint bits) v \<longleftrightarrow> (\<exists>i. v = VUint i \<and> bits \<in> {8, 16, 32, 64} \<and> unat i < 2 ^ bits)"
| "typed ts RBool v \<longleftrightarrow> (\<exists>b. v = VBool b)"
| "typed ts RBigInt v \<longleftrightarrow> (\<exists>i. v = VBigInt i \<and> 0 \<le> i)"
| "typed ts RString v \<longleftrightarrow> (\<exists>b. v = VString b)"
| "typed ts (RSlice t) v \<longleftrightarrow>
    (if is_byte t then \<exists>b. v = VBytes b
     else \<exists>vs. v = (if tag_tail ts then VTail vs else VList vs) \<and> (\<forall>v\<in>set vs. typed no_tags t v))"
| "typed ts (RArray k t) v \<longleftrightarrow>
    (if is_byte t then \<exists>b. v = VBytes b \<and> length b = k \<and> b \<noteq> [0] \<and> (t = RNamed8 \<longrightarrow> (\<exists>x<0x80. b = [x]))
     else \<exists>vs. v = VList vs \<and> length vs = k \<and> (\<forall>v\<in>set vs. typed no_tags t v))"
| "typed ts (RStruct fs) v \<longleftrightarrow> (\<exists>vs. v = VList vs \<and> typed_fields fs vs)"
| "typed ts (RPtr t) v \<longleftrightarrow>
    (if tag_nilOK ts then
       v = VNilPtr (nil_value t) \<and> empty_value (rlp (nil_value t)) \<or> typed no_tags t v \<and> \<not> empty_value (rlp v)
     else typed no_tags t v)"
| "typed ts RInterface v \<longleftrightarrow> iface v"
| "typed ts RNamed8 v \<longleftrightarrow> (\<exists>i. v = VUint i \<and> unat i < 2 ^ 8)"
| "typed_fields [] vs \<longleftrightarrow> vs = []"
| "typed_fields ((name, ts, t) # fs) vs \<longleftrightarrow>
    (if tag_ignored ts then typed_fields fs vs
     else \<exists>v vs'. vs = v # vs' \<and> typed ts t v \<and> typed_fields fs vs' \<and>
       ((\<exists>e. t = RSlice e) \<and> tag_tail ts \<longrightarrow> fs = []))"

lemma rlp_string_nonempty: "rlp_string b \<noteq> []"
  by (auto simp: rlp_string_def rlp_len_def)

lemma iface_nonempty: "iface v \<Longrightarrow> rlp v \<noteq> []"
  by (cases v rule: iface.cases) (auto simp: rlp_string_nonempty Let_def rlp_len_def)

lemma typed_nonempty: "typed ts t v \<Longrightarrow> \<not> tag_tail ts \<Longrightarrow> rlp v \<noteq> []"
proof (induction t arbitrary: ts v)
  case RRaw
  then show ?case by (auto simp: rlp_item_def rlp_len_def)
next
  case (RPtr t)
  then show ?case by (auto simp: empty_value_def no_tags_def split: if_splits)
qed (auto simp: rlp_string_nonempty Let_def rlp_len_def iface_nonempty split: if_splits)

lemma eol_decoder:
  assumes "ready r ((p, p) # stk) s" "0 < n"
  shows "\<exists>s'. decoder n no_tags t s = Done (Inl (StreamError EOL), s') \<and> ready r ((p, p) # stk) s'"
proof -
  let ?s = "s\<lparr>st_kinderr := None\<rparr>" and ?e = "Inl (StreamError EOL)"
  have k: "Stream_Kind s = Done (?e, ?s)" by (rule Kind_eol [OF assms(1)])
  have ops: "Stream_Bytes s = Done (?e, ?s)" "Stream_Raw s = Done (?e, ?s)" "Stream_uint b s = Done (?e, ?s)" "Stream_Bool s = Done (?e, ?s)"
    "Stream_List s = Done (?e, ?s)" for b
    using k by (simp_all add: Stream_Bytes_def Stream_Raw_def Stream_uint_def Stream_Bool_def Stream_List_def sbind_def)
  obtain m where m: "n = Suc m" using assms(2) by (cases n) auto
  have "decoder n no_tags t s = Done (?e, ?s)"
  proof (induction t)
    case (RPtr t)
    then show ?case by (simp add: decodePtr_def no_tags_def)
  next
    case RInterface
    show ?case using k by (simp add: m sbind_def)
  qed (use k ops in \<open>simp_all add: decodeRawValue_def decodeUint_def decodeBool_def decodeBigInt_def decodeString_def decodeByteSlice_def
      decodeByteArray_def decodeListSlice_def decodeListArray_def no_tags_def sbind_def swrap_def wrapStreamError_def\<close>)
  then show ?thesis using assms(1) by (simp add: ready_def stream_at_def)
qed

lemma length_le_concat: "(\<And>x. x \<in> set xs \<Longrightarrow> f x \<noteq> []) \<Longrightarrow> length xs \<le> length (concat (map f xs))"
proof (induction xs)
  case (Cons x xs)
  then have "f x \<noteq> []" "length xs \<le> length (concat (map f xs))" by auto
  then show ?case by (cases "f x") simp_all
qed simp

lemma Kind_again: "Stream_Kind s = Done (Inr x, s') \<Longrightarrow> Stream_Kind s' = Done (Inr x, s')"
  by (auto simp: Stream_Kind_def kind_result_def sret_def sfail_def Let_def split: option.splits if_splits)

lemma after_Kind:
  assumes "Stream_Kind s = Done (Inr x, s')"
  shows "Stream_Bytes s' = Stream_Bytes s" "Stream_List s' = Stream_List s" "Stream_uint bits s' = Stream_uint bits s" "Stream_Raw s' = Stream_Raw s"
  using assms Kind_again [OF assms]
  by (simp_all add: Stream_Bytes_def Stream_List_def Stream_uint_def Stream_Raw_def sbind_def)

lemma decodeListSlice_again: "Stream_Kind s = Done (Inr x, s') \<Longrightarrow> decodeListSlice n t d s' = decodeListSlice n t d s"
  by (simp add: decodeListSlice_def sbind_def swrap_def after_Kind(2))

lemma interface_elem: "elem_decoder (decodeInterface (Suc n)) {v. iface v \<and> length (rlp v) \<le> n}"
proof (induction n)
  case 0
  show ?case
  proof unfold_locales
    show "\<exists>s'. decodeInterface (Suc 0) s = Done (Inl (StreamError EOL), s') \<and> ready r ((p, p) # stk) s'"
      if "ready r ((p, p) # stk) s" for r p stk s using eol_decoder [OF that, of "Suc 0" RInterface] by simp
  qed (auto simp: iface_nonempty)
next
  case (Suc n)
  show ?case
  proof unfold_locales
    show "\<exists>s'. decodeInterface (Suc (Suc n)) s = Done (Inl (StreamError EOL), s') \<and> ready r ((p, p) # stk) s'"
      if "ready r ((p, p) # stk) s" for r p stk s using eol_decoder [OF that, of "Suc (Suc n)" RInterface] by simp
  next
    fix v r stk s
    assume v: "v \<in> {v. iface v \<and> length (rlp v) \<le> Suc n}" and at: "ready (rlp v @ r) stk s" "room (length (rlp v)) stk"
    show "\<exists>s'. decodeInterface (Suc (Suc n)) s = Done (Inr v, s') \<and> ready r (adv (length (rlp v)) stk) s'"
    proof (cases v rule: iface.cases)
      case (1 b)
      obtain k sz s1 where "Stream_Kind s = Done (Inr (k, sz), s1)" "k \<noteq> List_kind"
        using at 1 by (auto elim!: Kind_string [of b r stk s])
      then show ?thesis
        using Bytes_ready [of b r stk s] at 1 after_Kind(1) [of s "(k, sz)" s1] by (auto simp: sbind_def sret_def)
    next
      case (2 vs)
      have "length (rlp x) \<le> n" if "x \<in> set vs" for x
        using v 2 length_concat_member [OF that, of rlp] by (simp add: Let_def rlp_len_def split: if_splits)
      then have sub: "set vs \<subseteq> {v. iface v \<and> length (rlp v) \<le> n}" using v 2 by (auto simp: list_all_iff)
      have "length vs \<le> length (concat (map rlp vs))" using v 2 by (intro length_le_concat) (auto simp: list_all_iff iface_nonempty)
      then have "length vs < Suc (Suc n)" using v 2 by (simp add: Let_def)
      then obtain s' where s': "decodeListSlice (Suc (Suc n)) (RSlice RInterface) (decodeInterface (Suc n)) s = Done (Inr v, s')"
        "ready r (adv (length (rlp v)) stk) s'"
        using elem_decoder.list_slice [OF Suc sub, of r stk s] at 2 by blast
      obtain s1 where "Stream_Kind s = Done (Inr (List_kind, of_nat (length (concat (map rlp vs)))), s1)"
        using Kind_head [of "0xC0" "concat (map rlp vs)" r stk s List_kind] at 2 by (auto simp: Let_def)
      with s' decodeListSlice_again [OF this] show ?thesis by (simp add: sbind_def)
    qed (use v in auto)
  qed (auto simp: iface_nonempty)
qed

fun exact :: "nat \<Rightarrow> (u64 \<times> u64) list \<Rightarrow> bool" where
  "exact n [] \<longleftrightarrow> False"
| "exact n ((pos, sz) # stk) \<longleftrightarrow> unat (sz - pos) = n"

lemma exact_end: "unat (sz - p :: u64) = n \<Longrightarrow> p + of_nat n = sz"
  by (metis add.commute diff_add_cancel of_nat_unat ucast_id)

lemma typed_elem:
  assumes "0 < n" "\<And>v r stk s. typed no_tags t v \<Longrightarrow> ready (rlp v @ r) stk s \<Longrightarrow> room (length (rlp v)) stk \<Longrightarrow> length (rlp v) < n \<Longrightarrow>
      \<exists>s'. decoder n no_tags t s = Done (Inr v, s') \<and> ready r (adv (length (rlp v)) stk) s'"
  shows "elem_decoder (decoder n no_tags t) {v. typed no_tags t v \<and> length (rlp v) < n}"
proof unfold_locales
  show "rlp v \<noteq> []" if "v \<in> {v. typed no_tags t v \<and> length (rlp v) < n}" for v
    using that typed_nonempty [of no_tags t v] by (simp add: no_tags_def)
qed (use assms(2) eol_decoder [OF _ assms(1)] in auto)

lemma ucast_byte: "ucast (ucast (x :: u8) :: u64) = x"
  by (rule bit_word_eqI) (auto simp: bit_ucast_iff)

lemma byte_array_reads:
  assumes "ready (rlp_string b @ r) stk s" "room (length (rlp_string b)) stk" "b \<noteq> [0]"
    and "t = RArray (length b) RNamed8 \<longrightarrow> (\<exists>x<0x80. b = [x])"
  shows "\<exists>s'. decodeByteArray (length b) t s = Done (Inr (VBytes b), s') \<and> ready r (adv (length (rlp_string b)) stk) s'"
  using assms(1,2)
proof (cases rule: Kind_string)
  case (byte s')
  then obtain x where x: "b = [x]" "x \<noteq> 0" using assms(3) by (auto simp: length_Suc_conv)
  have "Stream_Kind s' = Done (Inr (Byte_kind, 0), s')" using Kind_again [OF byte(3)] .
  then have "Stream_Uint s' = Done (Inr (ucast x), rearm s')" using byte x by (simp add: Stream_Uint_def Stream_uint_def sbind_def sret_def)
  then show ?thesis using byte x by (auto simp: decodeByteArray_def sbind_def sret_def rearm_def ahead_def ready_def stream_at_def ucast_byte)
next
  case (string h s')
  have "length b < 2 ^ 63" using string(3) by (simp add: ahead_def stream_at_def)
  then have "(of_nat (length b) :: u64) = 1 \<longleftrightarrow> length b = 1" by (simp add: of_nat_eq_1)
  with string readFull_ahead [OF string(3,5)] assms(4) show ?thesis by (auto simp: decodeByteArray_def sbind_def sret_def)
qed

lemma raw_reads:
  assumes "rlp_item k b c" "ready (b @ r) stk s" "room (length b) stk"
  shows "\<exists>s'. Stream_Raw s = Done (Inr b, s') \<and> ready r (adv (length b) stk) s'"
proof (cases "k = Byte_kind")
  case True
  then obtain x where x: "b = [x]" "x < 0x80" using assms(1) by (auto simp: rlp_item_def length_Suc_conv)
  then show ?thesis
    using Kind_byte [of x r stk s] assms(2,3) by (auto simp: Stream_Raw_def sbind_def sret_def rearm_def ahead_def ready_def stream_at_def)
next
  case False
  then obtain tag where t: "b = rlp_len tag (length c) @ c" "tag = 0x80 \<and> k = String_kind \<or> tag = 0xC0 \<and> k = List_kind"
    using assms(1) by (auto simp: rlp_item_def)
  let ?h = "length (rlp_len tag (length c))"
  obtain s' where s': "Stream_Kind s = Done (Inr (k, of_nat (length c)), s')" "ahead k (length c) (c @ r) (adv ?h stk) s'"
    using Kind_head [of tag c r stk s k] assms(2,3) t by auto
  have len: "length b < 2 ^ 63" using length_ready [OF assms(2)] by simp
  then have hs: "headsize (of_nat (length c)) = ?h"
    using t(1) length_rlp_len [of "length c" tag] of_nat_less_56 [of "length c"] by (simp add: headsize_def)
  have tot: "of_nat ?h + of_nat (length c) = (of_nat (length b) :: u64)" "\<not> length b < ?h" "length b - ?h = length c"
    using t(1) by simp_all
  have ul: "unat (of_nat (length b) :: u64) = length b" "\<not> 2 ^ 63 \<le> (of_nat (length b) :: u64)"
    using len of_nat_ge_2p63 [OF len] by (simp_all add: unat_of_nat_small)
  have ph: "(if k = String_kind then puthead 0x80 0xB7 (of_nat (length c)) else puthead 0xC0 0xF7 (of_nat (length c))) = rlp_len tag (length c)"
    using t puthead_len [of "length c" tag] len by auto
  obtain s2 where "readFull (length c) s' = Done (Inr c, s2)" "ready r (adv (length c) (adv ?h stk)) s2"
    using readFull_ahead [OF s'(2)] room_adv [of ?h "length c" stk] assms(3) t(1) by auto
  moreover have "Stream_Raw s = sbind (readFull (length c)) (\<lambda>d. sret (rlp_len tag (length c) @ d)) s'"
    using s'(1) hs tot ul ph False by (cases k) (simp_all add: Stream_Raw_def sbind_def Let_def)
  ultimately show ?thesis using t(1) by (simp add: sbind_def sret_def)
qed

section \<open>Pointers\<close>

lemma decoder_again:
  assumes "Stream_Kind s = Done (Inr x, s')" "0 < n"
  shows "decoder n no_tags t s' = decoder n no_tags t s"
proof (induction t)
  case (RPtr t)
  then show ?case by (simp add: decodePtr_def no_tags_def)
next
  case RInterface
  obtain m where "n = Suc m" using assms(2) by (cases n) auto
  then show ?case using assms(1) Kind_again [OF assms(1)] by (simp add: sbind_def)
qed (use assms(1) Kind_again [OF assms(1)] after_Kind [OF assms(1)] decodeListSlice_again [OF assms(1)] in
    \<open>simp_all add: decodeRawValue_def decodeUint_def decodeBool_def decodeBigInt_def decodeString_def decodeByteSlice_def
      decodeByteArray_def decodeListArray_def Stream_Bool_def no_tags_def sbind_def swrap_def\<close>)

lemma item_exists: "\<exists>k c. rlp_item k (rlp_string b) c" "\<exists>k c. rlp_item k (rlp (VList vs)) c"
  using rlp_string_item rlp_list_item by blast+

lemma iface_item: "iface v \<Longrightarrow> \<exists>k c. rlp_item k (rlp v) c"
  by (cases v rule: iface.cases) (simp_all add: item_exists del: rlp.simps(9))

lemma typed_item: "typed no_tags t v \<Longrightarrow> \<exists>k c. rlp_item k (rlp v) c"
proof (induction t arbitrary: v)
  case RRaw
  then obtain b k c where "v = VRaw b" "rlp_item k b c" by auto
  then show ?case by (intro exI [of _ k] exI [of _ c]) simp
next
  case (RPtr t)
  then show ?case by (simp add: no_tags_def)
qed (auto simp: item_exists iface_item no_tags_def simp del: rlp.simps(9) split: if_splits)

lemma Kind_item:
  assumes "rlp_item k b c" "ready (b @ r) stk s" "room (length b) stk"
  shows "\<exists>s'. Stream_Kind s = Done (Inr (k, if k = Byte_kind then 0 else of_nat (length c)), s') \<and>
    (length c = 0 \<longrightarrow> ready r (adv (length b) stk) (rearm s'))"
proof (cases "k = Byte_kind")
  case True
  then obtain x where x: "b = [x]" "c = [x]" "x < 0x80" using assms(1) by (auto simp: rlp_item_def length_Suc_conv)
  then show ?thesis using Kind_byte [of x r stk s] assms(2,3) True by auto
next
  case False
  then obtain tag where t: "b = rlp_len tag (length c) @ c" "tag = 0x80 \<and> k = String_kind \<or> tag = 0xC0 \<and> k = List_kind"
    using assms(1) by (auto simp: rlp_item_def)
  then show ?thesis
    using Kind_head [of tag c r stk s k] assms(2,3) False by (auto simp: ahead_def ready_def stream_at_def rearm_def)
qed

lemma empty_item:
  assumes "rlp_item k b c"
  shows "empty_value b \<longleftrightarrow> k \<noteq> Byte_kind \<and> c = []"
proof (cases "c = []")
  case True
  then show ?thesis using assms by (auto simp: rlp_item_def empty_value_def rlp_len_def)
next
  case False
  show ?thesis
  proof (cases "k = Byte_kind")
    case True
    then obtain x where "b = [x]" "x < 0x80" using assms by (auto simp: rlp_item_def length_Suc_conv)
    with True show ?thesis by (auto simp: empty_value_def)
  next
    case nb: False
    then obtain tag where "b = rlp_len tag (length c) @ c" using assms by (auto simp: rlp_item_def)
    moreover have "rlp_len tag (length c) \<noteq> []" by (simp add: rlp_len_def)
    ultimately have "length b \<noteq> 1" using False by (cases "rlp_len tag (length c)") auto
    then show ?thesis using False by (auto simp: empty_value_def)
  qed
qed

lemma ptr_reads:
  assumes "typed ts (RPtr t) v" "ready (rlp v @ r) stk s" "room (length (rlp v)) stk" "0 < n"
    and "typed no_tags t v \<Longrightarrow> \<exists>s'. decoder n no_tags t s = Done (Inr v, s') \<and> ready r (adv (length (rlp v)) stk) s'"
  shows "\<exists>s'. decoder n ts (RPtr t) s = Done (Inr v, s') \<and> ready r (adv (length (rlp v)) stk) s'"
proof (cases "tag_nilOK ts")
  case True
  show ?thesis
  proof (cases "typed no_tags t v \<and> \<not> empty_value (rlp v)")
    case ne: True
    then obtain k c where kc: "rlp_item k (rlp v) c" using typed_item by blast
    have "length c \<le> length (rlp v)" using kc by (auto simp: rlp_item_def)
    then have "length c < 2 ^ 64" using length_ready [OF assms(2)] by simp
    then have nz: "k = Byte_kind \<or> (of_nat (length c) :: u64) \<noteq> 0"
      using empty_item [OF kc] ne by (metis length_0_conv unat_0 unat_of_nat_small)
    obtain s1 where s1: "Stream_Kind s = Done (Inr (k, if k = Byte_kind then 0 else of_nat (length c)), s1)"
      using Kind_item [OF kc assms(2,3)] by blast
    then show ?thesis using assms(5) ne nz True decoder_again [OF s1 assms(4)] by (auto simp: decodePtr_def)
  next
    case False
    then have v: "v = VNilPtr (nil_value t)" "empty_value (rlp v)" using assms(1) True by auto
    then have "\<exists>k. rlp_item k (rlp v) [] \<and> k \<noteq> Byte_kind" by (auto simp: empty_value_def rlp_item_def rlp_len_def)
    then obtain k where k: "rlp_item k (rlp v) []" "k \<noteq> Byte_kind" by blast
    then show ?thesis using Kind_item [OF k(1) assms(2,3)] v(1) True by (auto simp: decodePtr_def sret_def)
  qed
next
  case False
  then show ?thesis using assms(1,5) by (simp add: decodePtr_def)
qed

section \<open>The round trip\<close>

lemma elements_short: "x \<in> set vs \<Longrightarrow> length (concat (map rlp vs)) < n \<Longrightarrow> length (rlp x) < n"
  by (rule le_less_trans [OF length_concat_member])

lemma no_tail: "\<not> tag_tail no_tags"
  by (simp add: no_tags_def)

lemma decoder_reads:
  "typed ts t v \<Longrightarrow> ready (rlp v @ r) stk s \<Longrightarrow> room (length (rlp v)) stk \<Longrightarrow>
     (tag_tail ts \<and> (\<exists>e. t = RSlice e) \<longrightarrow> exact (length (rlp v)) stk) \<Longrightarrow> length (rlp v) < n \<Longrightarrow>
     \<exists>s'. decoder n ts t s = Done (Inr v, s') \<and> ready r (adv (length (rlp v)) stk) s'"
  "typed_fields fs vs \<Longrightarrow> ready (concat (map rlp vs) @ r) ((p, sz) # stk) s \<Longrightarrow> unat (sz - p) = length (concat (map rlp vs)) \<Longrightarrow>
     length (concat (map rlp vs)) < n \<Longrightarrow>
     \<exists>s'. decode_fields n tp fs s = Done (Inr vs, s') \<and> ready r ((sz, sz) # stk) s'"
proof (induction n ts t and n tp fs arbitrary: v r stk s and vs r p sz stk s rule: decoder_decode_fields.induct)
  case (1 n ts)
  then obtain b k c where b: "v = VRaw b" "rlp_item k b c" by auto
  then obtain s' where "Stream_Raw s = Done (Inr b, s')" "ready r (adv (length (rlp v)) stk) s'" using raw_reads [OF b(2), of r stk s] 1 by auto
  then show ?case using b(1) by (simp add: decodeRawValue_def sbind_def sret_def)
next
  case (2 n ts bits)
  then obtain i where i: "v = VUint i" "bits \<in> {8, 16, 32, 64}" "unat i < 2 ^ bits" by auto
  then obtain s' where "Stream_uint bits s = Done (Inr i, s')" "ready r (adv (length (rlp v)) stk) s'"
    using uint_ready [of i r stk s bits] 2 by auto
  then show ?case using i(1) swrap_Inr [of "Stream_uint bits" s i s'] by (simp add: decodeUint_def sbind_def sret_def)
next
  case (3 n ts)
  then obtain b where b: "v = VBool b" by auto
  have "rlp_string (if b then [1] else []) = rlp_string (Bytes (uint (if b then 1 else 0 :: u64)))" by (simp add: Bytes_0 Bytes_small)
  moreover have "unat (if b then 1 else 0 :: u64) < 2 ^ 8" by simp
  ultimately obtain s' where "Stream_uint 8 s = Done (Inr (if b then 1 else 0), s')" "ready r (adv (length (rlp v)) stk) s'"
    using uint_ready [of "if b then 1 else 0" r stk s 8] 3 b by auto
  moreover from this have "Stream_Bool s = Done (Inr b, s')" by (simp add: Stream_Bool_def sbind_def sret_def)
  ultimately show ?case using b swrap_Inr [of Stream_Bool s b s'] by (simp add: decodeBool_def sbind_def sret_def)
next
  case (4 n ts)
  then obtain i where i: "v = VBigInt i" "0 \<le> i" by auto
  then obtain s' where s': "Stream_Bytes s = Done (Inr (Bytes i), s')" "ready r (adv (length (rlp v)) stk) s'"
    using Bytes_ready [of "Bytes i" r stk s] 4 by auto
  have "\<not> (length (Bytes i) > 0 \<and> Bytes i ! 0 = 0)" using Bytes_hd [of i] Bytes_0 i(2) by (metis hd_conv_nth length_greater_0_conv order_le_less)
  then show ?case
    using s' i swrap_Inr [of Stream_Bytes s "Bytes i" s'] by (auto simp: decodeBigInt_def sbind_def sret_def SetBytes_Bytes)
next
  case (5 n ts)
  then obtain b where b: "v = VString b" by auto
  then obtain s' where s': "Stream_Bytes s = Done (Inr b, s')" "ready r (adv (length (rlp v)) stk) s'"
    using Bytes_ready [of b r stk s] 5 by auto
  then show ?case using b swrap_Inr [of Stream_Bytes s b s'] by (simp add: decodeString_def sbind_def sret_def)
next
  case (6 n ts t)
  show ?case
  proof (cases "is_byte t")
    case True
    then obtain b where b: "v = VBytes b" using 6(3) by auto
    then obtain s' where "Stream_Bytes s = Done (Inr b, s')" "ready r (adv (length (rlp v)) stk) s'"
      using Bytes_ready [of b r stk s] 6(4,5) by auto
    then show ?thesis using b True swrap_Inr [of Stream_Bytes s b s'] by (simp add: decodeByteSlice_def sbind_def sret_def)
  next
    case False
    then obtain vs where vs: "v = (if tag_tail ts then VTail vs else VList vs)" "\<forall>v\<in>set vs. typed no_tags t v" using 6(3) by auto
    have c: "length (concat (map rlp vs)) < n" using 6(7) vs(1) by (auto simp: Let_def split: if_splits)
    have ed: "elem_decoder (decoder n no_tags t) {v. typed no_tags t v \<and> length (rlp v) < n}"
    proof (rule typed_elem)
      show "\<exists>s'. decoder n no_tags t s = Done (Inr v, s') \<and> ready r (adv (length (rlp v)) stk) s'"
        if "typed no_tags t v" "ready (rlp v @ r) stk s" "room (length (rlp v)) stk" "length (rlp v) < n" for v r stk s
        using 6(1) [OF False _ that(1,2,3) _ that(4)] 6(2) [OF False _ that(1,2,3) _ that(4)] no_tail by blast
    qed (use 6(7) in simp)
    have sub: "set vs \<subseteq> {v. typed no_tags t v \<and> length (rlp v) < n}" using vs(2) elements_short [OF _ c] by auto
    have "length vs \<le> length (concat (map rlp vs))" using vs(2) typed_nonempty by (intro length_le_concat) (auto simp: no_tags_def)
    then have len: "length vs < n" using c by simp
    show ?thesis
    proof (cases "tag_tail ts")
      case True
      then obtain p sz stk' where stk: "stk = (p, sz) # stk'" "unat (sz - p) = length (rlp v)"
        using 6(6) by (cases "(0 :: nat, stk)" rule: exact.cases) auto
      have e: "rlp v = concat (map rlp vs)" using vs(1) True by simp
      obtain s' where "decodeSliceElems n (decoder n no_tags t) 0 s = Done (Inr vs, s')" "ready r ((sz, sz) # stk') s'"
        using elem_decoder.slice_elems [OF ed sub, of r p sz stk' s n 0] 6(4) stk e len by auto
      then show ?thesis using True False vs(1) stk exact_end [OF stk(2)] by (simp add: sbind_def sret_def)
    next
      case nt: False
      then show ?thesis
        using elem_decoder.list_slice [OF ed sub, of r stk s n "RSlice t"] 6(4,5) vs(1) len False by simp
    qed
  qed
next
  case (7 n ts k t)
  show ?case
  proof (cases "is_byte t")
    case True
    then obtain b where b: "v = VBytes b" "length b = k" "b \<noteq> [0]" "t = RNamed8 \<longrightarrow> (\<exists>x<0x80. b = [x])" using 7(2) by auto
    then show ?thesis using 7(3,4) True byte_array_reads [of b r stk s "RArray k t"] by simp
  next
    case False
    then obtain vs where vs: "v = VList vs" "length vs = k" "\<forall>v\<in>set vs. typed no_tags t v" using 7(2) by auto
    have c: "length (concat (map rlp vs)) < n" using 7(6) vs(1) by (auto simp: Let_def split: if_splits)
    have ed: "elem_decoder (decoder n no_tags t) {v. typed no_tags t v \<and> length (rlp v) < n}"
    proof (rule typed_elem)
      show "\<exists>s'. decoder n no_tags t s = Done (Inr v, s') \<and> ready r (adv (length (rlp v)) stk) s'"
        if "typed no_tags t v" "ready (rlp v @ r) stk s" "room (length (rlp v)) stk" "length (rlp v) < n" for v r stk s
        using 7(1) [OF False that(1,2,3) _ that(4)] no_tail by blast
    qed (use 7(6) in simp)
    have sub: "set vs \<subseteq> {v. typed no_tags t v \<and> length (rlp v) < n}" using vs(3) elements_short [OF _ c] by auto
    show ?thesis using elem_decoder.list_array [OF ed sub, of r stk s "RArray k t"] 7(3,4) vs False by simp
  qed
next
  case (8 n ts fs)
  then obtain vs where vs: "v = VList vs" "typed_fields fs vs" by auto
  have c: "length (concat (map rlp vs)) < n" using 8(6) vs(1) by (simp add: Let_def)
  have rv: "ready (rlp (VList vs) @ r) stk s" "room (length (rlp (VList vs))) stk" using 8(3,4) vs(1) by simp_all
  then show ?case
  proof (cases rule: in_list)
    case (1 stk1 s1)
    obtain s2 where s2: "decode_fields n (RStruct fs) fs s1 = Done (Inr vs, s2)"
      "ready r ((of_nat (length (concat (map rlp vs))), of_nat (length (concat (map rlp vs)))) # stk1) s2"
      using 8(1) [OF vs(2) 1(2,3) c] by blast
    obtain s' where "Stream_ListEnd s2 = Done (Inr (), s')" "ready r (adv (length (rlp (VList vs))) stk) s'" using 1(4) [OF s2(2)] by blast
    with s2 vs(1) swrap_Inr [where m = Stream_List, OF 1(1)] swrap_Inr [of Stream_ListEnd s2 "()" s'] show ?thesis by (simp add: sbind_def sret_def)
  qed
next
  case (9 n ts t)
  have "\<exists>s'. decoder n no_tags t s = Done (Inr v, s') \<and> ready r (adv (length (rlp v)) stk) s'" if "typed no_tags t v"
    using 9(1) [OF that 9(3,4) _ 9(6)] no_tail by blast
  then show ?case using ptr_reads [OF 9(2,3,4)] 9(6) by simp
next
  case (10 n ts)
  then obtain m where m: "n = Suc m" by (cases n) auto
  then show ?case using elem_decoder.reads [OF interface_elem, of v m r stk s] 10 by auto
next
  case (13 n tp name ts t fs)
  show ?case
  proof (cases "tag_ignored ts")
    case True
    then show ?thesis using 13 by auto
  next
    case False
    then obtain v vs' where v: "vs = v # vs'" "typed ts t v" "typed_fields fs vs'" "(\<exists>e. t = RSlice e) \<and> tag_tail ts \<longrightarrow> fs = []"
      using 13(4) by auto
    have "vs' = []" if "(\<exists>e. t = RSlice e) \<and> tag_tail ts" using that v(3,4) by auto
    then have ex: "tag_tail ts \<and> (\<exists>e. t = RSlice e) \<longrightarrow> exact (length (rlp v)) ((p, sz) # stk)" using 13(6) v(1) by auto
    have rm: "room (length (rlp v)) ((p, sz) # stk)" "length (rlp v) < n" "length (concat (map rlp vs')) < n" using 13(6,7) v(1) by simp_all
    obtain s1 where s1: "decoder n ts t s = Done (Inr v, s1)" "ready (concat (map rlp vs') @ r) ((p + of_nat (length (rlp v)), sz) # stk) s1"
      using 13(2) [OF False v(2) _ rm(1) ex rm(2), of "concat (map rlp vs') @ r" s] 13(5) v(1) by auto
    have "unat (sz - (p + of_nat (length (rlp v)))) = length (concat (map rlp vs'))"
      using unat_room [of "length (rlp v)" sz p] 13(6) v(1) by simp
    from 13(3) [OF False refl v(3) s1(2) this rm(3)] s1(1) v(1) False show ?thesis by (auto simp: sbind_def sret_def)
  qed
next
  case (11 n ts)
  then obtain i where i: "v = VUint i" "unat i < 2 ^ 8" by auto
  then obtain s' where "Stream_uint 8 s = Done (Inr i, s')" "ready r (adv (length (rlp v)) stk) s'"
    using uint_ready [of i r stk s 8] 11 by auto
  then show ?case using i(1) swrap_Inr [of "Stream_uint 8" s i s'] by (simp add: decodeUint_def sbind_def sret_def)
next
  case (12 n tp)
  then show ?case using exact_end [of sz p 0] by (auto simp: sret_def)
qed

text \<open>The element decoders of the loops meet their contract.\<close>

interpretation typed: elem_decoder "decoder (Suc n) no_tags t" "{v. typed no_tags t v \<and> length (rlp v) < Suc n}" for n t
  by (intro typed_elem decoder_reads(1)) (simp_all add: no_tail)

lemma nil_value_encodable: "encodable (nil_value t)"
  by (induction t) auto

lemma iface_encodable: "iface v \<Longrightarrow> encodable v"
  by (induction v rule: iface.induct) (auto simp: list_all_iff)

lemma typed_encodable: "typed ts t v \<Longrightarrow> encodable v" "typed_fields fs vs \<Longrightarrow> list_all encodable vs"
proof (induction ts t v and fs vs rule: typed_typed_fields.induct)
  case (9 ts t v)
  then show ?case by (auto simp: nil_value_encodable split: if_splits)
qed (auto simp: list_all_iff iface_encodable split: if_splits)

lemma NewStream_ready: "length b < 2 ^ 63 \<Longrightarrow> ready b [] (NewStream b (of_nat (length b)))"
  by (simp add: ready_def stream_at_def NewStream_def Reset_def)

lemma DecodeBytes_rlp:
  assumes "typed no_tags t v" "length (rlp v) < 2 ^ 63" "length (rlp v) < n"
  shows "DecodeBytes n t (rlp v) = Done (Inr v)"
proof -
  let ?s = "NewStream (rlp v) (of_nat (length (rlp v)))"
  have "ready (rlp v @ []) [] ?s" using NewStream_ready [OF assms(2)] by simp
  then obtain s' where "decoder n no_tags t ?s = Done (Inr v, s')" "ready [] (adv (length (rlp v)) []) s'"
    using decoder_reads(1) [OF assms(1) _ _ _ assms(3), of "[]" "[]" ?s] no_tail by auto
  then show ?thesis by (simp add: DecodeBytes_def Stream_Decode_def swrap_def ready_def stream_at_def)
qed

text \<open>
  An array of a declared byte type cannot be decoded from a string of its length: the assertion that its slice is a
  \<^verbatim>\<open>[]byte\<close> panics.
\<close>

lemma named_byte_array_panics:
  assumes "\<not> (length b = 1 \<and> b ! 0 < 0x80)" "length (rlp_string b) < 2 ^ 63"
  shows "DecodeBytes n (RArray (length b) RNamed8) (rlp_string b) = Panic"
proof -
  let ?s = "NewStream (rlp_string b) (of_nat (length (rlp_string b)))"
  have "ready (rlp_string b @ []) [] ?s" "room (length (rlp_string b)) []" using NewStream_ready [OF assms(2)] by simp_all
  then have "decodeByteArray (length b) (RArray (length b) RNamed8) ?s = Panic"
    by (cases rule: Kind_string) (use assms(1) in \<open>auto simp: decodeByteArray_def sbind_def\<close>)
  then show ?thesis by (simp add: DecodeBytes_def Stream_Decode_def swrap_def)
qed

section \<open>Properties\<close>

text \<open>
  C10. What is encoded is decoded to the same value: for every type built from raw values, unsigned integers (declared byte
  types included), booleans, big integers, strings, slices, arrays, structs with their tags, pointers and interfaces, and every
  value of the type that \<^const>\<open>typed\<close> admits, \<^verbatim>\<open>EncodeToBytes\<close> succeeds and \<^verbatim>\<open>DecodeBytes\<close> of the result returns the value and
  leaves no input over, as long as the encoding is shorter than \<open>2 ^ 63\<close> bytes.  The number of bytes is enough fuel.  Not
  admitted are the values that do not survive: negative big integers, a raw value that is not one item, the one-byte array that
  holds zero, an array of a declared byte type (unless it is a single byte below 128), a nil pointer whose field has no
  \<^verbatim>\<open>nil\<close> tag, a pointer to another value of empty encoding under that tag, and a value in an interface other than nested lists
  of byte strings.
\<close>

theorem rlp_roundtrip:
  assumes "typed no_tags t v" "length (rlp v) < 2 ^ 63" "length (rlp v) < n"
  shows "\<exists>b. EncodeToBytes v = Some b \<and> DecodeBytes n t b = Done (Inr v)"
  using DecodeBytes_rlp [OF assms] EncodeToBytes_eq [of v] typed_encodable(1) [OF assms(1)] assms(2) by simp

definition sample_struct :: RType where
  "sample_struct = RStruct
    [(''Nonce'', no_tags, RUint 64), (''To'', no_tags\<lparr>tag_nilOK := True\<rparr>, RPtr (RArray 20 (RUint 8))),
     (''Data'', no_tags, RSlice (RUint 8)), (''Rest'', no_tags\<lparr>tag_tail := True\<rparr>, RSlice RBigInt)]"

theorem rlp_roundtrip_witness:
  "\<exists>b. EncodeToBytes (VList [VUint 1024, VNilPtr (VBytes []), VBytes [1, 2, 3], VTail [VBigInt 300, VBigInt 0]]) = Some b \<and>
    DecodeBytes 20 sample_struct b = Done (Inr (VList [VUint 1024, VNilPtr (VBytes []), VBytes [1, 2, 3], VTail [VBigInt 300, VBigInt 0]]))"
proof (rule rlp_roundtrip)
  let ?v = "VList [VUint 1024, VNilPtr (VBytes []), VBytes [1, 2, 3], VTail [VBigInt 300, VBigInt 0]]"
  show "typed no_tags sample_struct ?v"
    by (simp add: sample_struct_def no_tags_def empty_value_def rlp_string_def rlp_len_def)
  have "length (rlp ?v) = 13" by code_simp
  then show "length (rlp ?v) < 2 ^ 63" "length (rlp ?v) < 20" by (simp_all del: rlp.simps)
qed

end
