(* ===== verification/RLP_Robust.thy ===== *)
theory RLP_Robust
  imports RLP_Decoding
begin

text \<open>
  Decoding on arbitrary input (\<^verbatim>\<open>src/rlp/decode.go\<close>): an invariant of the stream that bounds every declared size by the input
  that is left, the proof that every decoder returns and takes something from the input, and the kinds of array for which it does not.
\<close>

section \<open>The invariant\<close>

text \<open>The open lists fit into the rest of the input and into each other.\<close>

fun chain :: "nat \<Rightarrow> (u64 \<times> u64) list \<Rightarrow> bool" where
  "chain left [] \<longleftrightarrow> True"
| "chain left ((pos, sz) # stk) \<longleftrightarrow> unat pos \<le> unat sz \<and> unat sz - unat pos \<le> left \<and>
    (case stk of [] \<Rightarrow> True | (ppos, psz) # _ \<Rightarrow> unat sz \<le> unat psz - unat ppos) \<and> chain (left + unat pos) stk"

definition avail :: "Stream \<Rightarrow> nat" where
  "avail s = (case st_stack s of [] \<Rightarrow> length (st_r s) | (pos, sz) # _ \<Rightarrow> unat sz - unat pos)"

definition stream_ok :: "Stream \<Rightarrow> bool" where
  "stream_ok s \<longleftrightarrow> st_limited s \<and> st_remaining s = of_nat (length (st_r s)) \<and> length (st_r s) < 2 ^ 62 \<and>
    chain (length (st_r s)) (st_stack s) \<and> (st_kind s \<noteq> None \<and> st_kinderr s = None \<longrightarrow> unat (st_size s) \<le> avail s)"

definition st_left :: "Stream \<Rightarrow> nat" where
  "st_left s = length (st_r s) + (if st_kind s = None then 0 else 1)"

lemma avail_le: "stream_ok s \<Longrightarrow> avail s \<le> length (st_r s)"
  by (auto simp: stream_ok_def avail_def split: list.splits)

lemma unat_sub_le: "unat b \<le> unat (a :: u64) \<Longrightarrow> unat (a - b) = unat a - unat b"
  by (simp add: unat_sub word_le_nat_alt)

lemma chain_adv: "chain left stk \<Longrightarrow> room n stk \<Longrightarrow> n \<le> left \<Longrightarrow> chain (left - n) (adv n stk)"
proof (induction left stk rule: chain.induct)
  case (2 left pos sz stk)
  then have le: "unat pos + n \<le> unat sz" by (auto simp: unat_sub_le)
  then have "unat pos + n < 2 ^ 64" using unat_less_2p64 [of sz] by linarith
  then have u: "unat (pos + of_nat n) = unat pos + n" using unat_of_nat_small [of n] by (simp add: unat_word_ariths)
  have "left - n + (unat pos + n) = left + unat pos" using 2(4) by simp
  then show ?case using 2(2,4) le u by auto
qed simp

lemma room_avail: "stream_ok s \<Longrightarrow> n \<le> avail s \<Longrightarrow> room n (st_stack s)"
  by (cases "(st_left s, st_stack s)" rule: chain.cases) (auto simp: stream_ok_def avail_def unat_sub_le)

lemma stream_ok_at: "stream_ok s \<Longrightarrow> stream_at (st_r s) (st_stack s) s"
  by (simp add: stream_ok_def stream_at_def)

lemma stream_ok_goto:
  assumes "stream_ok s" "n \<le> length (st_r s)" "room n (st_stack s)"
  shows "stream_ok (goto (drop n (st_r s)) (adv n (st_stack s)) s)"
  using assms chain_adv [of "length (st_r s)" "st_stack s" n] by (auto simp: stream_ok_def goto_def)

lemma willRead_refused:
  assumes "stream_ok s" "n < 2 ^ 63" "\<not> (n \<le> length (st_r s) \<and> n \<le> avail s)"
  obtains e s' where "willRead (of_nat n) s = Done (Inl e, s')" "e \<noteq> StreamError EOL"
proof -
  have u: "unat (of_nat n :: u64) = n" "unat (of_nat (length (st_r s)) :: u64) = length (st_r s)"
    using assms by (simp_all add: unat_of_nat_small stream_ok_def)
  have big: "n > avail s" using assms(3) avail_le [OF assms(1)] by linarith
  show thesis
  proof (cases "(st_left s, st_stack s)" rule: chain.cases)
    case (1 l)
    then show ?thesis
      using assms(1) big u that by (simp add: willRead_def rearm_def sfail_def stream_ok_def word_less_nat_alt avail_def)
  next
    case (2 l pos sz stk)
    then have "unat (sz - pos) < n" using assms(1) big by (simp add: stream_ok_def avail_def unat_sub_le)
    then have "sz - pos < of_nat n" using u by (simp add: word_less_nat_alt)
    then show ?thesis using 2 that by (simp add: willRead_def rearm_def sfail_def)
  qed
qed

lemma readFull_cases:
  assumes "stream_ok s" "n < 2 ^ 63"
  obtains (error) e s' where "readFull n s = Done (Inl e, s')" "e \<noteq> StreamError EOL"
  | (data) s' where "readFull n s = Done (Inr (take n (st_r s)), s')" "stream_ok s'" "st_kind s' = None"
      "length (st_r s') + n = length (st_r s)" "n \<le> length (st_r s)"
proof (cases "n \<le> length (st_r s) \<and> n \<le> avail s")
  case True
  then have "room n (st_stack s)" using room_avail [OF assms(1)] by simp
  moreover have "stream_at (take n (st_r s) @ drop n (st_r s)) (st_stack s) s" using stream_ok_at [OF assms(1)] by simp
  ultimately have "readFull n s = Done (Inr (take n (st_r s)), goto (drop n (st_r s)) (adv n (st_stack s)) s)"
    using readFull_at [of "take n (st_r s)" "drop n (st_r s)" "st_stack s" s] True by simp
  then show ?thesis using data stream_ok_goto [OF assms(1)] True \<open>room n (st_stack s)\<close> by (simp add: goto_def)
next
  case False
  then obtain e s' where "willRead (of_nat n) s = Done (Inl e, s')" "e \<noteq> StreamError EOL" using willRead_refused [OF assms] by blast
  then show ?thesis using error by (simp add: readFull_def sbind_def)
qed

lemma readByte_cases:
  assumes "stream_ok s"
  obtains (error) e s' where "readByte s = Done (Inl e, s')" "e \<noteq> StreamError EOL"
  | (data) b s' where "readByte s = Done (Inr b, s')" "stream_ok s'" "st_kind s' = None" "Suc (length (st_r s')) = length (st_r s)"
proof (cases "1 \<le> length (st_r s) \<and> 1 \<le> avail s")
  case True
  then obtain x r where x: "st_r s = x # r" by (cases "st_r s") auto
  have "room 1 (st_stack s)" using room_avail [OF assms(1)] True by simp
  moreover from this have "readByte s = Done (Inr x, goto r (adv 1 (st_stack s)) s)"
    using readByte_at [of x r "st_stack s" s] stream_ok_at [OF assms] x by simp
  ultimately show ?thesis using data stream_ok_goto [OF assms, of 1] x by (simp add: goto_def)
next
  case False
  then obtain e s' where "willRead (of_nat 1) s = Done (Inl e, s')" "e \<noteq> StreamError EOL"
    using willRead_refused [OF assms, of 1] by auto
  then show ?thesis using error by (simp add: readByte_def sbind_def)
qed

section \<open>Outcomes\<close>

text \<open>
  An operation returns; a success keeps the invariant and takes something from the input (or, if not required, nothing), and
  so does reaching the end of a list.
\<close>

definition keeps :: "bool \<Rightarrow> Stream \<Rightarrow> (decode_error + 'a) \<times> Stream \<Rightarrow> bool" where
  "keeps strict s p \<longleftrightarrow>
    (case fst p of
       Inr x \<Rightarrow> stream_ok (snd p) \<and> (if strict then st_left (snd p) < st_left s else st_left (snd p) \<le> st_left s)
     | Inl e \<Rightarrow> e = StreamError EOL \<longrightarrow> stream_ok (snd p) \<and> st_left (snd p) \<le> st_left s)"

definition safe :: "bool \<Rightarrow> 'a dec \<Rightarrow> Stream \<Rightarrow> bool" where
  "safe strict m s \<longleftrightarrow> (\<exists>p. m s = Done p \<and> keeps strict s p)"

lemma safe_fail: "e \<noteq> StreamError EOL \<Longrightarrow> safe b (sfail e) s"
  by (simp add: safe_def sfail_def keeps_def)

lemma safe_ret: "stream_ok s \<Longrightarrow> safe False (sret x) s"
  by (simp add: safe_def sret_def keeps_def)

lemma safe_weaken: "safe True m s \<Longrightarrow> safe b m s"
proof -
  assume "safe True m s"
  then obtain p where "m s = Done p" "keeps True s p" by (auto simp: safe_def)
  moreover from this(2) have "keeps b s p" by (auto simp: keeps_def split: sum.splits)
  ultimately show ?thesis by (auto simp: safe_def)
qed

lemma safe_bind:
  assumes "safe b1 m s" "\<And>x s'. m s = Done (Inr x, s') \<Longrightarrow> stream_ok s' \<Longrightarrow> st_left s' \<le> st_left s \<Longrightarrow> safe b2 (f x) s'"
  shows "safe (b1 \<or> b2) (sbind m f) s"
proof -
  obtain r s' where p: "m s = Done (r, s')" "keeps b1 s (r, s')" using assms(1) by (auto simp: safe_def)
  show ?thesis
  proof (cases r)
    case (Inl e)
    then show ?thesis using p by (simp add: safe_def sbind_def keeps_def)
  next
    case (Inr x)
    then have ok: "stream_ok s'" "st_left s' \<le> st_left s" "b1 \<Longrightarrow> st_left s' < st_left s"
      using p(2) by (auto simp: keeps_def split: if_splits)
    obtain q where q: "f x s' = Done q" "keeps b2 s' q" using assms(2) [OF p(1) [unfolded Inr] ok(1,2)] by (auto simp: safe_def)
    then have "keeps (b1 \<or> b2) s q" using ok(2,3) by (auto simp: keeps_def split: sum.splits if_splits)
    then show ?thesis using p(1) q(1) Inr by (simp add: safe_def sbind_def)
  qed
qed

lemma safe_wrap:
  assumes "safe b m s" "\<And>e. w e = StreamError EOL \<Longrightarrow> e = StreamError EOL"
  shows "safe b (swrap w m) s"
proof -
  obtain r s' where p: "m s = Done (r, s')" "keeps b s (r, s')" using assms(1) by (auto simp: safe_def)
  then have "keeps b s (map_sum w id r, s')" using assms(2) by (cases r) (auto simp: keeps_def)
  then show ?thesis using p(1) by (simp add: safe_def swrap_def)
qed

lemma wrap_EOL: "wrapStreamError t e = StreamError EOL \<Longrightarrow> e = StreamError EOL"
  by (auto simp: wrapStreamError_def split: decode_error.splits rlp_error.splits)

lemma readFull_safe: "stream_ok s \<Longrightarrow> n < 2 ^ 63 \<Longrightarrow> safe (st_kind s \<noteq> None) (readFull n) s"
  by (erule (1) readFull_cases) (auto simp: safe_def keeps_def st_left_def)

lemma readByte_safe: "stream_ok s \<Longrightarrow> safe True readByte s"
  by (erule readByte_cases) (auto simp: safe_def keeps_def st_left_def)

lemma readUint_cases:
  assumes "stream_ok s" "unat sz \<le> 8"
  obtains (error) e s' where "readUint sz s = Done (Inl e, s')" "e \<noteq> StreamError EOL"
  | (data) v s' where "readUint sz s = Done (Inr v, s')" "stream_ok s'" "st_kind s' = None" "length (st_r s') \<le> length (st_r s)"
proof -
  have le: "\<not> sz > 8" using assms(2) by (simp add: word_less_nat_alt)
  consider "sz = 0" | "sz = 1" | "sz \<noteq> 0" "sz \<noteq> 1" by blast
  then show thesis
  proof cases
    case 1
    then show ?thesis using data [of 0 "rearm s"] assms(1) by (simp add: readUint_def sret_def rearm_def stream_ok_def avail_def)
  next
    case 2
    from assms(1) show ?thesis
    proof (cases rule: readByte_cases)
      case (error e s')
      then show ?thesis using 2 that(1) by (simp add: readUint_def sbind_def)
    next
      case (data b s')
      then show ?thesis using 2 that(2) by (simp add: readUint_def sbind_def sret_def)
    qed
  next
    case 3
    have "unat sz < 2 ^ 63" using assms(2) by simp
    from assms(1) this show ?thesis
    proof (cases rule: readFull_cases)
      case (error e s')
      then show ?thesis using 3 le that(1) by (simp add: readUint_def sbind_def)
    next
      case (data s')
      then show ?thesis
        using 3 le that by (cases "take (unat sz) (st_r s) ! 0 = 0") (simp_all add: readUint_def sbind_def sret_def sfail_def)
    qed
  qed
qed

definition kind_ok :: "nat \<Rightarrow> (Kind \<times> u64 \<times> decode_error option) \<times> Stream \<Rightarrow> bool" where
  "kind_ok n p \<longleftrightarrow>
    (case snd (snd (fst p)) of
       Some e \<Rightarrow> e \<noteq> StreamError EOL
     | None \<Rightarrow> stream_ok (snd p) \<and> st_kind (snd p) = None \<and> length (st_r (snd p)) < n)"

lemma avail_update [simp]:
  "avail (s\<lparr>st_byteval := b\<rparr>) = avail s" "avail (s\<lparr>st_kinderr := e\<rparr>) = avail s" "avail (s\<lparr>st_kind := k\<rparr>) = avail s" "avail (s\<lparr>st_size := z\<rparr>) = avail s"
  by (auto simp: avail_def split: list.splits)

lemma stream_ok_byteval [simp]: "stream_ok (s\<lparr>st_byteval := b\<rparr>) \<longleftrightarrow> stream_ok s"
  by (simp add: stream_ok_def)

lemma stream_ok_rearm: "stream_ok s \<Longrightarrow> stream_ok (rearm s)"
  by (simp add: stream_ok_def rearm_def)

lemma long_size_ok:
  assumes "stream_ok s" "unat slen \<le> 8" "length (st_r s) < n"
  shows "\<exists>p. long_size k slen s = Done p \<and> kind_ok n p"
  using assms(1,2)
proof (cases rule: readUint_cases)
  case (error e s')
  then show ?thesis by (simp add: long_size_def kind_ok_def)
next
  case (data v s')
  then show ?thesis using assms(3) by (simp add: long_size_def kind_ok_def)
qed

lemma byte_tags: "\<not> (b :: u8) < 0xB8 \<Longrightarrow> b < 0xC0 \<Longrightarrow> unat (b - 0xB7) \<le> 8" "\<not> (b :: u8) < 0xF8 \<Longrightarrow> unat (b - 0xF7) \<le> 8"
proof -
  have u: "unat b < 256" using unsigned_less [of b] by simp
  show "\<not> b < 0xB8 \<Longrightarrow> b < 0xC0 \<Longrightarrow> unat (b - 0xB7) \<le> 8" "\<not> b < 0xF8 \<Longrightarrow> unat (b - 0xF7) \<le> 8"
    using u by (simp_all add: word_less_nat_alt unat_sub word_le_nat_alt)
qed

lemma Stream_readKind_ok:
  assumes "stream_ok s"
  shows "\<exists>p. Stream_readKind s = Done p \<and> kind_ok (length (st_r s)) p"
  using assms
proof (cases rule: readByte_cases)
  case (error e s')
  then show ?thesis by (auto simp: Stream_readKind_def kind_ok_def)
next
  case (data b s')
  have l: "length (st_r (s'\<lparr>st_byteval := 0\<rparr>)) < length (st_r s)" using data(4) by simp
  show ?thesis
    using data long_size_ok [OF _ _ l] byte_tags [of b]
    by (auto simp: Stream_readKind_def Let_def kind_ok_def)
qed

lemma kind_result_cases:
  assumes "st_kind s = Some k"
  obtains (error) e where "kind_result k s = Done (Inl e, s)" "st_kinderr s = Some e"
  | (kind) "kind_result k s = Done (Inr (k, st_size s), s)" "st_kinderr s = None"
  by (cases "st_kinderr s") (auto simp: kind_result_def sret_def sfail_def that)

lemma Kind_fresh:
  assumes "stream_ok s" "st_kind s = None"
  obtains (error) e s' where "Stream_Kind s = Done (Inl e, s')" "e \<noteq> StreamError EOL"
  | (eol) s' where "Stream_Kind s = Done (Inl (StreamError EOL), s')" "stream_ok s'" "st_left s' \<le> st_left s"
  | (kind) k sz s' where "Stream_Kind s = Done (Inr (k, sz), s')" "stream_ok s'" "st_left s' \<le> st_left s"
      "st_kind s' = Some k" "st_size s' = sz" "st_kinderr s' = None"
proof (cases "case st_stack s of [] \<Rightarrow> False | (pos, sz) # _ \<Rightarrow> pos = sz")
  case True
  then show ?thesis
    using assms eol [of "s\<lparr>st_kinderr := None\<rparr>"] by (simp add: Stream_Kind_def sfail_def stream_ok_def st_left_def)
next
  case False
  let ?s = "s\<lparr>st_kinderr := None\<rparr>"
  have "stream_ok ?s" using assms by (simp add: stream_ok_def)
  then obtain k sz err s1 where s1: "Stream_readKind ?s = Done ((k, sz, err), s1)" "kind_ok (length (st_r s)) ((k, sz, err), s1)"
    using Stream_readKind_ok [of ?s] by fastforce
  define fits where "fits = (case st_stack s1 of
        [] \<Rightarrow> if st_limited s1 \<and> sz > st_remaining s1 then Some (StreamError ErrValueTooLarge) else None
      | (pos, lsz) # _ \<Rightarrow> if sz > lsz - pos then Some (StreamError ErrElemTooLarge) else None)"
  let ?s2 = "s1\<lparr>st_kind := Some k, st_size := sz, st_kinderr := (if err = None then fits else err)\<rparr>"
  have K: "Stream_Kind s = kind_result k ?s2"
    using False assms(2) s1(1) by (simp add: Stream_Kind_def Let_def fits_def)
  have f: "fits \<noteq> Some (StreamError EOL)" by (auto simp: fits_def split: list.splits)
  show ?thesis
  proof (cases "st_kinderr ?s2")
    case None
    then have n: "err = None" "fits = None" by (auto split: if_splits)
    then have ok: "stream_ok s1" "st_kind s1 = None" "length (st_r s1) < length (st_r s)" using s1(2) by (simp_all add: kind_ok_def)
    have "unat sz \<le> avail s1"
    proof (cases "(0 :: nat, st_stack s1)" rule: chain.cases)
      case (1 l)
      then show ?thesis using n(2) ok(1) by (auto simp: fits_def stream_ok_def avail_def word_less_nat_alt unat_of_nat_small not_less split: if_splits)
    next
      case (2 l pos lsz stk)
      then show ?thesis using n(2) ok(1) by (auto simp: fits_def stream_ok_def avail_def word_less_nat_alt unat_sub_le not_less split: if_splits)
    qed
    then have "stream_ok ?s2" "st_left ?s2 \<le> st_left s" using ok n assms(2) by (simp_all add: stream_ok_def st_left_def)
    then show ?thesis using K kind [of k sz ?s2] n by (simp add: kind_result_def sret_def)
  next
    case (Some e)
    then have "e \<noteq> StreamError EOL" using f s1(2) by (auto simp: kind_ok_def split: if_splits)
    then show ?thesis using K Some error by (simp add: kind_result_def sfail_def)
  qed
qed

lemma Kind_cases:
  assumes "stream_ok s"
  obtains (error) e s' where "Stream_Kind s = Done (Inl e, s')" "e \<noteq> StreamError EOL"
  | (eol) s' where "Stream_Kind s = Done (Inl (StreamError EOL), s')" "stream_ok s'" "st_left s' \<le> st_left s"
  | (kind) k sz s' where "Stream_Kind s = Done (Inr (k, sz), s')" "stream_ok s'" "st_left s' \<le> st_left s"
      "st_kind s' = Some k" "st_size s' = sz" "st_kinderr s' = None"
proof (cases "st_kind s")
  case None
  with assms show ?thesis by (cases rule: Kind_fresh) (use that in blast)+
next
  case (Some k)
  then have K: "Stream_Kind s = kind_result k s" by (simp add: Stream_Kind_def)
  from Some show ?thesis
  proof (cases rule: kind_result_cases)
    case (error e)
    then show ?thesis using K that(1,2) assms by (cases "e = StreamError EOL") auto
  next
    case kind
    then show ?thesis using K that(3) assms Some by auto
  qed
qed

text \<open>An operation that begins with \<^verbatim>\<open>Kind\<close>.\<close>

lemma after_Kind_safe:
  assumes "stream_ok s"
    and "\<And>k sz s'. stream_ok s' \<Longrightarrow> st_kind s' = Some k \<Longrightarrow> st_size s' = sz \<Longrightarrow> st_kinderr s' = None \<Longrightarrow> unat sz \<le> length (st_r s') \<Longrightarrow>
      st_left s' \<le> st_left s \<Longrightarrow> safe b (f (k, sz)) s'"
  shows "safe b (sbind Stream_Kind f) s"
  using assms(1)
proof (cases rule: Kind_cases)
  case (kind k sz s')
  have "unat sz \<le> length (st_r s')" using kind(2,4,5,6) avail_le [OF kind(2)] by (auto simp: stream_ok_def)
  then have "safe b (f (k, sz)) s'" using assms(2) kind by blast
  then obtain q where q: "f (k, sz) s' = Done q" "keeps b s' q" by (auto simp: safe_def)
  then have "keeps b s q" using kind(3) by (auto simp: keeps_def split: sum.splits if_splits)
  then show ?thesis using kind(1) q(1) by (simp add: safe_def sbind_def)
qed (simp_all add: safe_def sbind_def keeps_def)

section \<open>The operations of the stream\<close>

lemma safe_rearm: "stream_ok s \<Longrightarrow> st_kind s \<noteq> None \<Longrightarrow> safe True (\<lambda>s. sret (g s) (rearm s)) s"
  using stream_ok_rearm [of s] by (auto simp: safe_def sret_def keeps_def st_left_def rearm_def)

lemma safe_if: "(c \<Longrightarrow> safe b f s) \<Longrightarrow> (\<not> c \<Longrightarrow> safe b g s) \<Longrightarrow> safe b (if c then f else g) s"
  by simp

lemma safe_read:
  assumes "stream_ok s" "st_kind s \<noteq> None" "n < 2 ^ 63" "\<And>b s'. stream_ok s' \<Longrightarrow> safe False (f b) s'"
  shows "safe True (sbind (readFull n) f) s"
  using safe_bind [of "st_kind s \<noteq> None" "readFull n" s False f] readFull_safe [OF assms(1,3)] assms by simp

lemma size_small: "stream_ok s \<Longrightarrow> unat sz \<le> length (st_r s) \<Longrightarrow> unat (sz :: u64) < 2 ^ 62"
  by (simp add: stream_ok_def)

lemma Bytes_safe: "stream_ok s \<Longrightarrow> safe True Stream_Bytes s"
  unfolding Stream_Bytes_def
proof (erule after_Kind_safe)
  fix k and sz :: u64 and s'
  assume s': "stream_ok s'" "st_kind s' = Some k" "unat sz \<le> length (st_r s')"
  then have z: "\<not> sz \<ge> 2 ^ 63" "unat sz < 2 ^ 63" using size_small [OF s'(1,3)] by (simp_all add: word_le_nat_alt)
  show "safe True (case (k, sz) of (kind, sz) \<Rightarrow> case kind of Byte_kind \<Rightarrow> \<lambda>s. sret [st_byteval s] (rearm s)
      | String_kind \<Rightarrow> if sz \<ge> 2 ^ 63 then \<lambda>s. Panic
          else sbind (readFull (unat sz)) (\<lambda>b. if sz = 1 \<and> b ! 0 < 128 then sfail (StreamError ErrCanonSize) else sret b)
      | List_kind \<Rightarrow> sfail (StreamError ErrExpectedString)) s'"
    using s' z by (cases k) (auto intro!: safe_rearm safe_read safe_fail safe_ret safe_if simp: not_le)
qed

lemma headsize_le: "headsize sz \<le> 9"
proof (cases "sz = 0")
  case False
  then show ?thesis using intsize_putint [OF False] by (simp add: headsize_def putint_def)
qed (simp add: headsize_def)

lemma Raw_safe: "stream_ok s \<Longrightarrow> safe True Stream_Raw s"
  unfolding Stream_Raw_def
proof (erule after_Kind_safe)
  fix k and sz :: u64 and s'
  assume s': "stream_ok s'" "st_kind s' = Some k" "unat sz \<le> length (st_r s')"
  let ?total = "of_nat (headsize sz) + sz"
  have "headsize sz + unat sz < 2 ^ 63" using size_small [OF s'(1,3)] headsize_le [of sz] by simp
  then have t: "unat ?total = headsize sz + unat sz" using unat_of_nat_small [of "headsize sz"] by (simp add: unat_word_ariths)
  then have "\<not> (?total \<ge> 2 ^ 63 \<or> unat ?total < headsize sz)" "unat ?total - headsize sz < 2 ^ 63"
    using size_small [OF s'(1,3)] headsize_le [of sz] by (simp_all add: word_le_nat_alt)
  then show "safe True (case (k, sz) of (kind, sz) \<Rightarrow> case kind of Byte_kind \<Rightarrow> \<lambda>s. sret [st_byteval s] (rearm s)
      | _ \<Rightarrow> let start = headsize sz; total = of_nat start + sz in
          if total \<ge> 2 ^ 63 \<or> unat total < start then \<lambda>s. Panic
          else sbind (readFull (unat total - start)) (\<lambda>b.
            sret ((if kind = String_kind then puthead 0x80 0xB7 sz else puthead 0xC0 0xF7 sz) @ b))) s'"
    using s' unfolding Let_def by (cases k) (auto intro!: safe_rearm safe_read safe_ret)
qed

lemma uint_safe:
  assumes "stream_ok s" "bits \<le> 64"
  shows "safe True (Stream_uint bits) s"
  unfolding Stream_uint_def
proof (rule after_Kind_safe [OF assms(1)])
  fix k and sz :: u64 and s'
  assume s': "stream_ok s'" "st_kind s' = Some k" "unat sz \<le> length (st_r s')"
  let ?string = "\<lambda>s. rbind (readUint (ucast sz) s) (\<lambda>(r, s).
             case r of
               Inl e \<Rightarrow> if e = StreamError ErrCanonSize then sfail (StreamError ErrCanonInt) s else sfail e s
             | Inr v \<Rightarrow> if sz > 0 \<and> v < 128 then sfail (StreamError ErrCanonSize) s else sret v s)"
  have st: "safe True ?string s'" if "\<not> sz > of_nat (bits div 8)"
  proof -
    have "unat (of_nat (bits div 8) :: u64) = bits div 8" using assms(2) by (simp add: unat_of_nat_small)
    then have "unat sz \<le> 8" using that assms(2) by (simp add: word_less_nat_alt)
    then have "unat (ucast sz :: u8) \<le> 8" by (simp add: unsigned_ucast_eq take_bit_nat_eq_self)
    from s'(1) this show ?thesis
    proof (cases rule: readUint_cases)
      case (error e s2)
      then show ?thesis by (simp add: safe_def keeps_def sfail_def)
    next
      case (data v s2)
      then show ?thesis using s'(2) by (simp add: safe_def keeps_def sfail_def sret_def st_left_def)
    qed
  qed
  have "safe True (\<lambda>s. if st_byteval s = 0 then sfail (StreamError ErrCanonInt) s else sret (ucast (st_byteval s)) (rearm s)) s'"
    using safe_rearm [of s' "\<lambda>s. ucast (st_byteval s)"] s' by (auto simp: safe_def sfail_def sret_def keeps_def)
  then show "safe True (case (k, sz) of (kind, sz) \<Rightarrow> case kind of
        Byte_kind \<Rightarrow> (\<lambda>s. if st_byteval s = 0 then sfail (StreamError ErrCanonInt) s else sret (ucast (st_byteval s)) (rearm s))
      | String_kind \<Rightarrow> (if sz > of_nat (bits div 8) then sfail (StreamError errUintOverflow)
           else (\<lambda>s. rbind (readUint (ucast sz) s) (\<lambda>(r, s).
             case r of
               Inl e \<Rightarrow> if e = StreamError ErrCanonSize then sfail (StreamError ErrCanonInt) s else sfail e s
             | Inr v \<Rightarrow> if sz > 0 \<and> v < 128 then sfail (StreamError ErrCanonSize) s else sret v s)))
      | List_kind \<Rightarrow> sfail (StreamError ErrExpectedString)) s'"
    using st by (cases k) (auto intro: safe_fail)
qed

lemma List_safe: "stream_ok s \<Longrightarrow> safe True Stream_List s"
  unfolding Stream_List_def
proof (erule after_Kind_safe)
  fix k and sz :: u64 and s'
  assume s': "stream_ok s'" "st_kind s' = Some k" "st_size s' = sz" "st_kinderr s' = None" "unat sz \<le> length (st_r s')"
  have a: "unat sz \<le> avail s'" using s' by (simp add: stream_ok_def)
  let ?s = "s'\<lparr>st_stack := (0, sz) # st_stack s', st_kind := None, st_size := 0\<rparr>"
  have "stream_ok ?s" "st_left ?s < st_left s'"
    using s' a by (auto simp: stream_ok_def avail_def st_left_def split: list.splits)
  then show "safe True (case (k, sz) of (kind, sz) \<Rightarrow> \<lambda>s. if kind \<noteq> List_kind then sfail (StreamError ErrExpectedList) s
      else sret sz (s\<lparr>st_stack := (0, sz) # st_stack s, st_kind := None, st_size := 0\<rparr>)) s'"
    by (simp add: safe_def sfail_def sret_def keeps_def)
qed

lemma ListEnd_safe: "stream_ok s \<Longrightarrow> safe False Stream_ListEnd s"
proof (cases "(0 :: nat, st_stack s)" rule: chain.cases)
  case (2 l pos sz rest)
  assume ok: "stream_ok s"
  show ?thesis
  proof (cases "pos = sz")
    case True
    let ?stk = "case rest of [] \<Rightarrow> [] | (ppos, psz) # outer \<Rightarrow> (ppos + sz, psz) # outer"
    have c: "chain (length (st_r s) + unat sz) rest" "case rest of [] \<Rightarrow> True | (ppos, psz) # _ \<Rightarrow> unat sz \<le> unat psz - unat ppos"
      using ok 2 True by (simp_all add: stream_ok_def)
    have "room (unat sz) rest" using c by (cases "(0 :: nat, rest)" rule: chain.cases) (auto simp: unat_sub_le)
    then have "chain (length (st_r s)) (adv (unat sz) rest)" using chain_adv [OF c(1), of "unat sz"] by simp
    moreover have "adv (unat sz) rest = ?stk" by (cases "(0 :: nat, rest)" rule: chain.cases) auto
    ultimately show ?thesis
      using ok 2 True by (simp add: safe_def Stream_ListEnd_def sret_def keeps_def stream_ok_def st_left_def)
  next
    case False
    then show ?thesis using 2 by (simp add: safe_def Stream_ListEnd_def sfail_def keeps_def)
  qed
qed (simp add: safe_def Stream_ListEnd_def sfail_def keeps_def)

section \<open>The decoders\<close>

text \<open>Types with machine integers, arrays of machine lengths, no one-byte arrays of bytes and no arrays of a declared byte type.\<close>

fun decodable :: "RType \<Rightarrow> bool" where
  "decodable (RUint bits) \<longleftrightarrow> bits \<in> {8, 16, 32, 64}"
| "decodable (RSlice t) \<longleftrightarrow> decodable t"
| "decodable (RArray k t) \<longleftrightarrow> decodable t \<and> k < 2 ^ 63 \<and> (t = RUint 8 \<longrightarrow> k \<noteq> 1) \<and> t \<noteq> RNamed8"
| "decodable (RStruct fs) \<longleftrightarrow> (\<forall>(name, ts, t)\<in>set fs. decodable t)"
| "decodable (RPtr t) \<longleftrightarrow> decodable t"
| "decodable t \<longleftrightarrow> True"

lemma safe_then_ret:
  assumes "safe b m s"
  shows "safe b (sbind m (\<lambda>x. sret (g x))) s"
proof -
  have "safe (b \<or> False) (sbind m (\<lambda>x. sret (g x))) s" by (rule safe_bind [OF assms safe_ret])
  then show ?thesis by simp
qed

lemma scalar_safe:
  assumes "stream_ok s"
  shows "safe True decodeRawValue s" "safe True decodeString s" "safe True (decodeByteSlice t) s" "safe True decodeBool s" "safe True decodeBigInt s"
    "bits \<in> {8, 16, 32, 64} \<Longrightarrow> safe True (decodeUint typ bits) s"
proof -
  have w: "safe True (swrap (wrapStreamError t) Stream_Bytes) s" for t using safe_wrap [OF Bytes_safe [OF assms] wrap_EOL] .
  show "safe True decodeRawValue s" unfolding decodeRawValue_def by (intro safe_then_ret Raw_safe assms)
  show "safe True decodeString s" "safe True (decodeByteSlice t) s" unfolding decodeString_def decodeByteSlice_def by (intro safe_then_ret w)+
  show "safe True (decodeUint typ bits) s" if "bits \<in> {8, 16, 32, 64}"
    unfolding decodeUint_def using that by (intro safe_then_ret safe_wrap [OF _ wrap_EOL] uint_safe assms) auto
  have "safe (True \<or> False) Stream_Bool s"
    unfolding Stream_Bool_def by (rule safe_bind [OF uint_safe [OF assms]]) (auto intro!: safe_fail safe_ret safe_if)
  then show "safe True decodeBool s" unfolding decodeBool_def by (intro safe_then_ret safe_wrap [OF _ wrap_EOL]) simp_all
  have "safe (True \<or> False) decodeBigInt s"
    unfolding decodeBigInt_def by (rule safe_bind [OF w]) (auto intro!: safe_fail safe_ret safe_if simp: wrapStreamError_def)
  then show "safe True decodeBigInt s" by simp
qed

lemma byte_array_safe:
  assumes "stream_ok s" "k < 2 ^ 63" "k \<noteq> 1" "t \<noteq> RArray k RNamed8"
  shows "safe True (decodeByteArray k t) s"
  unfolding decodeByteArray_def
proof (rule after_Kind_safe [OF assms(1)])
  fix kd and sz :: u64 and s'
  assume s': "stream_ok s'" "st_kind s' = Some kd" "unat sz \<le> length (st_r s')"
  show "safe True (case (kd, sz) of (kind, sz) \<Rightarrow> case kind of
        Byte_kind \<Rightarrow>
          (if k = 0 then sfail (DecodeError ''input string too long'' t [])
           else if k > 1 then sfail (DecodeError ''input string too short'' t [])
           else (\<lambda>s. rbind (Stream_Uint s) (\<lambda>(r, s). sret (VBytes [case r of Inl e \<Rightarrow> 0 | Inr bv \<Rightarrow> ucast bv]) s)))
      | String_kind \<Rightarrow>
          (if of_nat k < sz then sfail (DecodeError ''input string too long'' t [])
           else if of_nat k > sz then sfail (DecodeError ''input string too short'' t [])
           else if t = RArray k RNamed8 then (\<lambda>s. Panic)
           else sbind (readFull k) (\<lambda>b.
             if sz = 1 \<and> b ! 0 < 128 then sfail (wrapStreamError t (StreamError ErrCanonSize)) else sret (VBytes b)))
      | List_kind \<Rightarrow> sfail (wrapStreamError t (StreamError ErrExpectedString))) s'"
    using s' assms(2,3,4) by (cases kd) (auto intro!: safe_fail safe_read safe_ret safe_if simp: wrapStreamError_def)
qed

lemma context_EOL: "e \<noteq> StreamError EOL \<Longrightarrow> addErrorContext c e \<noteq> StreamError EOL"
  by (auto simp: addErrorContext_def split: decode_error.splits)

text \<open>One round of a loop over elements.\<close>

lemma elem_round:
  assumes "safe True d s" "\<And>v s'. stream_ok s' \<Longrightarrow> st_left s' < st_left s \<Longrightarrow> safe False (next_elems v) s'"
  shows "safe False (\<lambda>s. rbind (d s) (\<lambda>(r, s).
      case r of
        Inl e \<Rightarrow> if e = StreamError EOL then sret [] s else sfail (addErrorContext c e) s
      | Inr v \<Rightarrow> next_elems v s)) s"
proof -
  obtain r s' where p: "d s = Done (r, s')" "keeps True s (r, s')" using assms(1) by (auto simp: safe_def)
  show ?thesis
  proof (cases r)
    case (Inl e)
    then show ?thesis using p context_EOL [of e c] by (auto simp: safe_def keeps_def sret_def sfail_def)
  next
    case (Inr v)
    then have "stream_ok s'" "st_left s' < st_left s" using p(2) by (simp_all add: keeps_def)
    moreover from this obtain q where "next_elems v s' = Done q" "keeps False s' q" using assms(2) unfolding safe_def by blast
    moreover from calculation have "keeps False s q" by (auto simp: keeps_def split: sum.splits)
    ultimately show ?thesis using p(1) Inr by (simp add: safe_def)
  qed
qed

lemma slice_elems_safe:
  assumes "\<And>s. stream_ok s \<Longrightarrow> st_left s < n \<Longrightarrow> safe True d s"
  shows "stream_ok s \<Longrightarrow> st_left s < n \<Longrightarrow> st_left s < k \<Longrightarrow> safe False (decodeSliceElems k d i) s"
proof (induction k arbitrary: i s)
  case (Suc k)
  have "safe False (\<lambda>s. rbind (d s) (\<lambda>(r, s).
      case r of
        Inl e \<Rightarrow> if e = StreamError EOL then sret [] s else sfail (addErrorContext (CtxIndex i) e) s
      | Inr v \<Rightarrow> sbind (decodeSliceElems k d (i + 1)) (\<lambda>vs. sret (v # vs)) s)) s"
  proof (rule elem_round [OF assms [OF Suc.prems(1,2)]])
    show "safe False (sbind (decodeSliceElems k d (i + 1)) (\<lambda>vs. sret (v # vs))) s'" if "stream_ok s'" "st_left s' < st_left s" for v s'
      using that Suc.prems by (intro safe_then_ret Suc.IH) auto
  qed
  then show ?case by (simp add: safe_def)
qed simp

lemma array_elems_safe:
  assumes "\<And>s. stream_ok s \<Longrightarrow> st_left s < n \<Longrightarrow> safe True d s"
  shows "stream_ok s \<Longrightarrow> st_left s < n \<Longrightarrow> safe False (decodeArrayElems k d i) s"
proof (induction k arbitrary: i s)
  case 0
  then show ?case using safe_ret [of s "[]"] by (simp add: safe_def sret_def)
next
  case (Suc k)
  have "safe False (\<lambda>s. rbind (d s) (\<lambda>(r, s).
      case r of
        Inl e \<Rightarrow> if e = StreamError EOL then sret [] s else sfail (addErrorContext (CtxIndex i) e) s
      | Inr v \<Rightarrow> sbind (decodeArrayElems k d (i + 1)) (\<lambda>vs. sret (v # vs)) s)) s"
  proof (rule elem_round [OF assms [OF Suc.prems(1,2)]])
    show "safe False (sbind (decodeArrayElems k d (i + 1)) (\<lambda>vs. sret (v # vs))) s'" if "stream_ok s'" "st_left s' < st_left s" for v s'
      using that Suc.prems by (intro safe_then_ret Suc.IH) auto
  qed
  then show ?case by (simp add: safe_def)
qed

text \<open>A list: opening it takes its head from the input.\<close>

lemma in_list_safe:
  assumes "stream_ok s" "\<And>sz s'. stream_ok s' \<Longrightarrow> st_left s' < st_left s \<Longrightarrow> safe False (body sz) s'"
  shows "safe True (sbind (swrap (wrapStreamError t) Stream_List) body) s"
proof -
  have L: "safe True (swrap (wrapStreamError t) Stream_List) s" by (rule safe_wrap [OF List_safe [OF assms(1)] wrap_EOL])
  have "safe (True \<or> False) (sbind (swrap (wrapStreamError t) Stream_List) body) s"
  proof (rule safe_bind [OF L])
    fix sz s'
    assume "swrap (wrapStreamError t) Stream_List s = Done (Inr sz, s')" "stream_ok s'"
    moreover from this L have "st_left s' < st_left s" by (auto simp: safe_def keeps_def)
    ultimately show "safe False (body sz) s'" using assms(2) by blast
  qed
  then show ?thesis by simp
qed

lemma bind_False:
  assumes "safe False m s" "\<And>x s'. stream_ok s' \<Longrightarrow> st_left s' \<le> st_left s \<Longrightarrow> safe False (f x) s'"
  shows "safe False (sbind m f) s"
  using safe_bind [OF assms(1), of False f] assms(2) by simp

lemma list_slice_safe:
  assumes "\<And>s. stream_ok s \<Longrightarrow> st_left s < n \<Longrightarrow> safe True d s" "stream_ok s" "st_left s \<le> n" "st_left s \<le> k"
  shows "safe True (decodeListSlice k t d) s"
  unfolding decodeListSlice_def
proof (rule in_list_safe [OF assms(2)], rule safe_if)
  fix s' assume s': "stream_ok s'" "st_left s' < st_left s"
  show "safe False (sbind Stream_ListEnd (\<lambda>_. sret (VList []))) s'" by (intro safe_then_ret ListEnd_safe s')
  have "safe False (decodeSliceElems k d 0) s'" using s' assms(3,4) by (intro slice_elems_safe [OF assms(1)]) auto
  then show "safe False (sbind (decodeSliceElems k d 0) (\<lambda>vs. sbind Stream_ListEnd (\<lambda>_. sret (VList vs)))) s'"
    by (rule bind_False) (intro safe_then_ret ListEnd_safe)
qed

lemma list_array_safe:
  assumes "\<And>s. stream_ok s \<Longrightarrow> st_left s < n \<Longrightarrow> safe True d s" "stream_ok s" "st_left s \<le> n"
  shows "safe True (decodeListArray k t d) s"
  unfolding decodeListArray_def
proof (rule in_list_safe [OF assms(2)])
  fix s' assume s': "stream_ok s'" "st_left s' < st_left s"
  have "safe False (decodeArrayElems k d 0) s'" using s' assms(3) by (intro array_elems_safe [OF assms(1)]) auto
  then show "safe False (sbind (decodeArrayElems k d 0) (\<lambda>vs.
        if length vs < k then sfail (DecodeError ''input list has too few elements'' t [])
        else sbind (swrap (wrapStreamError t) Stream_ListEnd) (\<lambda>_. sret (VList vs)))) s'"
    by (rule bind_False) (intro safe_if safe_fail safe_then_ret safe_wrap [OF ListEnd_safe wrap_EOL]; simp)
qed

lemma interface_safe: "stream_ok s \<Longrightarrow> st_left s < n \<Longrightarrow> safe True (decodeInterface n) s"
proof (induction n arbitrary: s)
  case (Suc n)
  have "safe True (sbind Stream_Kind (\<lambda>(kind, sz).
      if kind = List_kind then decodeListSlice (Suc n) (RSlice RInterface) (decodeInterface n)
      else sbind Stream_Bytes (\<lambda>b. sret (VBytes b)))) s"
    by (rule after_Kind_safe [OF Suc.prems(1)])
      (use Suc in \<open>auto intro!: list_slice_safe [of n] safe_then_ret Bytes_safe\<close>)
  then show ?case by (simp add: safe_def)
qed simp

lemma ptr_safe:
  assumes "stream_ok s" "\<And>s'. stream_ok s' \<Longrightarrow> st_left s' \<le> st_left s \<Longrightarrow> safe True d s'"
  shows "safe True (decodePtr ts t d) s"
proof (cases "tag_nilOK ts")
  case True
  from assms(1) show ?thesis
  proof (cases rule: Kind_cases)
    case (eol s')
    then show ?thesis using True stream_ok_rearm [of s']
      by (simp add: decodePtr_def safe_def sfail_def keeps_def) (auto simp: st_left_def rearm_def)
  next
    case (kind k sz s')
    then have "safe True d s'" "safe True (\<lambda>s. sret (VNilPtr (nil_value t)) (rearm s)) s'" using assms(2) safe_rearm [of s'] by auto
    then obtain p q where "d s' = Done p" "keeps True s' p" "sret (VNilPtr (nil_value t)) (rearm s') = Done q" "keeps True s' q"
      unfolding safe_def by blast
    moreover from this have "keeps True s p" "keeps True s q" using kind(3) by (auto simp: keeps_def split: sum.splits)
    ultimately show ?thesis using kind(1) True by (cases p; cases q) (simp add: decodePtr_def safe_def)
  qed (use True in \<open>simp add: decodePtr_def safe_def sfail_def keeps_def\<close>)
qed (use assms in \<open>simp add: decodePtr_def\<close>)

lemma decoder_safe:
  "decodable t \<Longrightarrow> stream_ok s \<Longrightarrow> st_left s < n \<Longrightarrow> safe (\<not> (tag_tail ts \<and> (\<exists>e. t = RSlice e))) (decoder n ts t) s"
  "\<forall>(name, ts, t)\<in>set fs. decodable t \<Longrightarrow> stream_ok s \<Longrightarrow> st_left s < n \<Longrightarrow> safe False (decode_fields n tp fs) s"
proof (induction n ts t and n tp fs arbitrary: s and s rule: decoder_decode_fields.induct)
  case (6 n ts t)
  have d: "safe True (decoder n no_tags t) s" if "\<not> is_byte t" "stream_ok s" "st_left s < n" for s
    using 6(1) [of s] 6(2) [of s] 6(3) that no_tail by (cases "tag_tail ts") auto
  show ?case
  proof (cases "is_byte t")
    case True
    then show ?thesis using safe_weaken [OF scalar_safe(3) [OF 6(4)]] by simp
  next
    case False
    then have "safe False (sbind (decodeSliceElems n (decoder n no_tags t) 0) (\<lambda>vs. sret (VTail vs))) s"
      "safe True (decodeListSlice n (RSlice t) (decoder n no_tags t)) s"
      using d 6(4,5) by (auto intro!: safe_then_ret slice_elems_safe [of n] list_slice_safe [of n])
    with False show ?thesis by simp
  qed
next
  case (7 n ts k t)
  have d: "safe True (decoder n no_tags t) s" if "\<not> is_byte t" "stream_ok s" "st_left s < n" for s
    using 7(1) [of s] 7(2) that no_tail by auto
  then show ?case using 7(2-4) byte_array_safe [OF 7(3)] list_array_safe [of n "decoder n no_tags t" s] by auto
next
  case (8 n ts fs)
  have "safe True (decoder n ts (RStruct fs)) s"
    unfolding decoder.simps
  proof (rule in_list_safe [OF 8(3)])
    fix s' assume "stream_ok s'" "st_left s' < st_left s"
    then have "safe False (decode_fields n (RStruct fs) fs) s'" using 8(1) [of s'] 8(2,4) by auto
    then show "safe False (sbind (decode_fields n (RStruct fs) fs) (\<lambda>vs.
        sbind (swrap (wrapStreamError (RStruct fs)) Stream_ListEnd) (\<lambda>_. sret (VList vs)))) s'"
      by (rule bind_False) (intro safe_then_ret safe_wrap [OF ListEnd_safe wrap_EOL])
  qed
  then show ?case by simp
next
  case (9 n ts t)
  then show ?case using ptr_safe [OF 9(3), of "decoder n no_tags t" ts t] no_tail by auto
next
  case (13 n tp name ts t fs)
  show ?case
  proof (cases "tag_ignored ts")
    case True
    then show ?thesis using 13(1) [of s] 13(4-6) by auto
  next
    case False
    obtain r s' where p: "decoder n ts t s = Done (r, s')" "keeps False s (r, s')"
      using 13(2) [OF False, of s] 13(4-6) by (auto simp: safe_def keeps_def split: if_splits sum.splits)
    show ?thesis
    proof (cases r)
      case (Inl e)
      then show ?thesis using p False context_EOL [of e "CtxField name"] by (auto simp: safe_def keeps_def sfail_def)
    next
      case (Inr v)
      then have s': "stream_ok s'" "st_left s' \<le> st_left s" using p(2) by (simp_all add: keeps_def)
      then have "safe False (sbind (decode_fields n tp fs) (\<lambda>vs. sret (v # vs))) s'"
        using 13(3) [OF False refl, of s'] 13(4,6) by (intro safe_then_ret) auto
      then obtain q where "sbind (decode_fields n tp fs) (\<lambda>vs. sret (v # vs)) s' = Done q" "keeps False s' q" unfolding safe_def by blast
      moreover from this have "keeps False s q" using s'(2) by (auto simp: keeps_def split: sum.splits)
      ultimately show ?thesis using p(1) Inr False by (simp add: safe_def)
    qed
  qed
qed (auto simp: scalar_safe interface_safe safe_ret)

lemma NewStream_ok: "length b < 2 ^ 62 \<Longrightarrow> stream_ok (NewStream b (of_nat (length b)))"
  by (simp add: stream_ok_def NewStream_def Reset_def)

section \<open>One-byte arrays\<close>

text \<open>A zero byte ahead of a one-byte array is decoded and stays ahead.\<close>

lemma one_byte_stuck:
  assumes "ahead Byte_kind 0 r stk s" "st_byteval s = 0"
  shows "decodeByteArray 1 t s = Done (Inr (VBytes [0]), s)"
  using Kind_ahead [OF assms(1)] assms(2)
  by (simp add: decodeByteArray_def sbind_def Stream_Uint_def Stream_uint_def sret_def sfail_def)

lemma one_byte_loops:
  assumes "ahead Byte_kind 0 r stk s" "st_byteval s = 0"
  shows "decodeSliceElems n (decodeByteArray 1 t) i s = NoFuel"
  by (induction n arbitrary: i) (simp_all add: one_byte_stuck [OF assms] sbind_def del: One_nat_def)

section \<open>Properties\<close>

text \<open>
  C12. Decoding ends on every input: for every type with machine integers, arrays shorter than \<open>2 ^ 63\<close>, no one-byte arrays of
  bytes and no arrays of a declared byte type, \<^verbatim>\<open>DecodeBytes\<close> of every input below \<open>2 ^ 62\<close> bytes returns a value or an error,
  however malformed the sizes in the input are.  It never panics, and the loops over list elements take fewer rounds than there
  are bytes.
\<close>

theorem DecodeBytes_returns:
  assumes "decodable t" "length b < 2 ^ 62" "length b < n"
  shows "\<exists>r. DecodeBytes n t b = Done r"
proof -
  have "safe True (decoder n no_tags t) (NewStream b (of_nat (length b)))"
    using decoder_safe(1) [OF assms(1) NewStream_ok [OF assms(2)], of n no_tags] assms(3) no_tail
    by (auto simp: st_left_def NewStream_def Reset_def)
  then obtain r s where "decoder n no_tags t (NewStream b (of_nat (length b))) = Done (r, s)" by (auto simp: safe_def)
  then show ?thesis by (cases r) (auto simp: DecodeBytes_def Stream_Decode_def swrap_def)
qed

theorem DecodeBytes_returns_witness:
  "\<exists>r. DecodeBytes 12 sample_struct [0xFB, 0x7F, 0xFF, 0xFF, 0xFF, 0xB9, 0x00, 0xC0, 0x80, 0x00] = Done r"
  by (rule DecodeBytes_returns) (simp_all add: sample_struct_def)

text \<open>
  C37. Decoding a slice of one-byte arrays can run forever: the array that holds zero is encoded as the byte zero, whose decoding
  forgets to move on, so it is decoded again and again.  No amount of fuel is enough for the two bytes that encode the slice with
  this one element.
\<close>

theorem one_byte_array_hangs:
  "EncodeToBytes (VList [VBytes [0]]) = Some [0xC1, 0] \<and> DecodeBytes n (RSlice (RArray 1 (RUint 8))) [0xC1, 0] = NoFuel"
proof
  let ?v = "VList [VBytes [0]]" and ?s = "NewStream [0xC1, 0] (of_nat 2)"
  have e: "rlp ?v = [0xC1, 0]" by code_simp
  then show "EncodeToBytes ?v = Some [0xC1, 0]" using EncodeToBytes_eq [of ?v] by (simp del: rlp.simps)
  have c: "concat (map rlp [VBytes [0]]) = [0]" by code_simp
  have "ready (rlp ?v @ []) [] ?s" "room (length (rlp ?v)) []" using NewStream_ready [of "[0xC1, 0]"] e by simp_all
  then show "DecodeBytes n (RSlice (RArray 1 (RUint 8))) [0xC1, 0] = NoFuel"
  proof (cases rule: in_list)
    case (1 stk1 s1)
    then obtain s2 where s2: "Stream_Kind s1 = Done (Inr (Byte_kind, 0), s2)" "ahead Byte_kind 0 [] (adv 1 ((0, 1) # stk1)) s2" "st_byteval s2 = 0"
      using Kind_byte [of 0 "[]" "(0, 1) # stk1" s1] unfolding c by auto
    have d: "decodeByteArray 1 t s1 = Done (Inr (VBytes [0]), s2)" for t
      using one_byte_stuck [OF s2(2,3), of t] s2(1) Kind_again [OF s2(1)] by (simp add: decodeByteArray_def sbind_def)
    have "decodeSliceElems n (decodeByteArray 1 t) 0 s1 = NoFuel" for t
      using d [of t] one_byte_loops [OF s2(2,3)] by (cases n) (simp_all add: sbind_def)
    moreover have "Stream_List ?s = Done (Inr 1, s1)" using 1(1) unfolding c by simp
    ultimately show ?thesis
      using swrap_Inr [of Stream_List ?s 1 s1]
      by (simp add: DecodeBytes_def Stream_Decode_def decodeListSlice_def sbind_def swrap_def no_tail)
  qed
qed

end
