(* ===== verification/Params.thy ===== *)
theory Params
  imports Sha3
begin

text \<open>
  \<^verbatim>\<open>src/params\<close>: the fork schedule of a chain (\<^verbatim>\<open>config.go\<close>), the gas price tables it selects
  (\<^verbatim>\<open>gas_table.go\<close>) and the protocol constants (\<^verbatim>\<open>protocol_params.go\<close>) the interpreter uses.
\<close>

section \<open>Protocol constants\<close>

definition CallValueTransferGas :: u64 where "CallValueTransferGas = 9000"
definition CallNewAccountGas :: u64 where "CallNewAccountGas = 25000"
definition QuadCoeffDiv :: u64 where "QuadCoeffDiv = 512"
definition SstoreSetGas :: u64 where "SstoreSetGas = 20000"
definition LogDataGas :: u64 where "LogDataGas = 8"
definition CallStipend :: u64 where "CallStipend = 2300"
definition Sha3Gas :: u64 where "Sha3Gas = 30"
definition Sha3WordGas :: u64 where "Sha3WordGas = 6"
definition SstoreResetGas :: u64 where "SstoreResetGas = 5000"
definition SstoreClearGas :: u64 where "SstoreClearGas = 5000"
definition SstoreRefundGas :: u64 where "SstoreRefundGas = 15000"
definition JumpdestGas :: u64 where "JumpdestGas = 1"
definition CreateDataGas :: u64 where "CreateDataGas = 200"
definition CallCreateDepth :: nat where "CallCreateDepth = 1024"
definition LogGas :: u64 where "LogGas = 375"
definition CopyGas :: u64 where "CopyGas = 3"
definition StackLimit :: nat where "StackLimit = 1024"
definition LogTopicGas :: u64 where "LogTopicGas = 375"
definition CreateGas :: u64 where "CreateGas = 32000"
definition SuicideRefundGas :: u64 where "SuicideRefundGas = 24000"
definition MemoryGas :: u64 where "MemoryGas = 3"
definition MaxCodeSize :: nat where "MaxCodeSize = 24576"
definition EcrecoverGas :: u64 where "EcrecoverGas = 3000"
definition Sha256BaseGas :: u64 where "Sha256BaseGas = 60"
definition Sha256PerWordGas :: u64 where "Sha256PerWordGas = 12"
definition Ripemd160BaseGas :: u64 where "Ripemd160BaseGas = 600"
definition Ripemd160PerWordGas :: u64 where "Ripemd160PerWordGas = 120"
definition IdentityBaseGas :: u64 where "IdentityBaseGas = 15"
definition IdentityPerWordGas :: u64 where "IdentityPerWordGas = 3"
definition ModExpQuadCoeffDiv :: u64 where "ModExpQuadCoeffDiv = 20"
definition Bn256AddGas :: u64 where "Bn256AddGas = 500"
definition Bn256ScalarMulGas :: u64 where "Bn256ScalarMulGas = 40000"
definition Bn256PairingBaseGas :: u64 where "Bn256PairingBaseGas = 100000"
definition Bn256PairingPerPointGas :: u64 where "Bn256PairingPerPointGas = 80000"

lemmas param_defs = CallValueTransferGas_def CallNewAccountGas_def QuadCoeffDiv_def SstoreSetGas_def
  LogDataGas_def CallStipend_def Sha3Gas_def Sha3WordGas_def SstoreResetGas_def SstoreClearGas_def
  SstoreRefundGas_def JumpdestGas_def CreateDataGas_def CallCreateDepth_def LogGas_def CopyGas_def
  StackLimit_def LogTopicGas_def CreateGas_def SuicideRefundGas_def MemoryGas_def MaxCodeSize_def
  EcrecoverGas_def Sha256BaseGas_def Sha256PerWordGas_def Ripemd160BaseGas_def
  Ripemd160PerWordGas_def IdentityBaseGas_def IdentityPerWordGas_def ModExpQuadCoeffDiv_def
  Bn256AddGas_def Bn256ScalarMulGas_def Bn256PairingBaseGas_def Bn256PairingPerPointGas_def

section \<open>Gas tables\<close>

record GasTable =
  ExtcodeSize :: u64
  ExtcodeCopy :: u64
  BalanceGas :: u64
  SLoadGas :: u64
  CallsGas :: u64
  SuicideGas :: u64
  ExpByte :: u64
  CreateBySuicide :: u64

definition GasTableHomestead :: GasTable where
  "GasTableHomestead = \<lparr>ExtcodeSize = 20, ExtcodeCopy = 20, BalanceGas = 20, SLoadGas = 50,
     CallsGas = 40, SuicideGas = 0, ExpByte = 10, CreateBySuicide = 0\<rparr>"

definition GasTableEIP150 :: GasTable where
  "GasTableEIP150 = \<lparr>ExtcodeSize = 700, ExtcodeCopy = 700, BalanceGas = 400, SLoadGas = 200,
     CallsGas = 700, SuicideGas = 5000, ExpByte = 10, CreateBySuicide = 25000\<rparr>"

definition GasTableEIP158 :: GasTable where
  "GasTableEIP158 = \<lparr>ExtcodeSize = 700, ExtcodeCopy = 700, BalanceGas = 400, SLoadGas = 200,
     CallsGas = 700, SuicideGas = 5000, ExpByte = 50, CreateBySuicide = 25000\<rparr>"

section \<open>Chain configuration\<close>

text \<open>A \<^verbatim>\<open>nil\<close> block number is \<open>None\<close>; the consensus engine fields play no role in execution.\<close>

record ChainConfig =
  ChainId :: "int option"
  HomesteadBlock :: "int option"
  DAOForkBlock :: "int option"
  DAOForkSupport :: bool
  EIP150Block :: "int option"
  EIP155Block :: "int option"
  EIP158Block :: "int option"
  ByzantiumBlock :: "int option"

definition MainnetChainConfig :: ChainConfig where
  "MainnetChainConfig = \<lparr>ChainId = Some 1, HomesteadBlock = Some 1150000,
     DAOForkBlock = Some 1920000, DAOForkSupport = True, EIP150Block = Some 2463000,
     EIP155Block = Some 2675000, EIP158Block = Some 2675000, ByzantiumBlock = Some 4370000\<rparr>"

definition isForked :: "int option \<Rightarrow> int option \<Rightarrow> bool" where
  "isForked s head = (case (s, head) of (Some s', Some h) \<Rightarrow> s' \<le> h | _ \<Rightarrow> False)"

definition IsHomestead :: "ChainConfig \<Rightarrow> int option \<Rightarrow> bool" where
  "IsHomestead c num = isForked (HomesteadBlock c) num"

definition IsDAOFork :: "ChainConfig \<Rightarrow> int option \<Rightarrow> bool" where
  "IsDAOFork c num = isForked (DAOForkBlock c) num"

definition IsEIP150 :: "ChainConfig \<Rightarrow> int option \<Rightarrow> bool" where
  "IsEIP150 c num = isForked (EIP150Block c) num"

definition IsEIP155 :: "ChainConfig \<Rightarrow> int option \<Rightarrow> bool" where
  "IsEIP155 c num = isForked (EIP155Block c) num"

definition IsEIP158 :: "ChainConfig \<Rightarrow> int option \<Rightarrow> bool" where
  "IsEIP158 c num = isForked (EIP158Block c) num"

definition IsByzantium :: "ChainConfig \<Rightarrow> int option \<Rightarrow> bool" where
  "IsByzantium c num = isForked (ByzantiumBlock c) num"

definition GasTable_of :: "ChainConfig \<Rightarrow> int option \<Rightarrow> GasTable" where
  "GasTable_of c num =
    (if num = None then GasTableHomestead
     else if IsEIP158 c num then GasTableEIP158
     else if IsEIP150 c num then GasTableEIP150
     else GasTableHomestead)"

record Rules =
  RulesChainId :: int
  RulesHomestead :: bool
  RulesEIP150 :: bool
  RulesEIP155 :: bool
  RulesEIP158 :: bool
  RulesByzantium :: bool

definition Rules_of :: "ChainConfig \<Rightarrow> int option \<Rightarrow> Rules" where
  "Rules_of c num = \<lparr>RulesChainId = (case ChainId c of None \<Rightarrow> 0 | Some i \<Rightarrow> i),
     RulesHomestead = IsHomestead c num, RulesEIP150 = IsEIP150 c num,
     RulesEIP155 = IsEIP155 c num, RulesEIP158 = IsEIP158 c num,
     RulesByzantium = IsByzantium c num\<rparr>"

lemma GasTable_of_cases:
  "GasTable_of c num = GasTableHomestead \<or> GasTable_of c num = GasTableEIP150 \<or>
   GasTable_of c num = GasTableEIP158"
  by (simp add: GasTable_of_def)

lemmas gas_table_defs = GasTableHomestead_def GasTableEIP150_def GasTableEIP158_def

lemma CreateBySuicide_pos_iff:
  "GasTable_of c num = gt \<Longrightarrow> 0 < CreateBySuicide gt \<longleftrightarrow> gt \<noteq> GasTableHomestead"
  using GasTable_of_cases [of c num] by (auto simp: gas_table_defs)

end
