(* ===== verification/VM_Data.thy ===== *)
theory VM_Data
  imports Params
begin

text \<open>
  The data structures of a call frame: the operand stack (\<^verbatim>\<open>src/core/vm/stack.go\<close>), the integer pool
  (\<^verbatim>\<open>intpool.go\<close>) and the byte-addressed memory (\<^verbatim>\<open>memory.go\<close>).  As in Go the top of the stack is the
  last element of the slice.  \<open>None\<close> is a Go panic (index or slice bounds out of range).
\<close>

section \<open>Stack\<close>

record Stack =
  stk_data :: "int list"

definition newstack :: Stack where
  "newstack = \<lparr>stk_data = []\<rparr>"

definition stack_len :: "Stack \<Rightarrow> nat" where
  "stack_len st = length (stk_data st)"

definition push :: "Stack \<Rightarrow> int \<Rightarrow> Stack" where
  "push st d = st\<lparr>stk_data := stk_data st @ [d]\<rparr>"

definition pushN :: "Stack \<Rightarrow> int list \<Rightarrow> Stack" where
  "pushN st ds = st\<lparr>stk_data := stk_data st @ ds\<rparr>"

definition pop :: "Stack \<Rightarrow> (int \<times> Stack) option" where
  "pop st =
    (if stk_data st = [] then None
     else Some (stk_data st ! (stack_len st - 1),
                st\<lparr>stk_data := take (stack_len st - 1) (stk_data st)\<rparr>))"

definition swap :: "Stack \<Rightarrow> nat \<Rightarrow> Stack option" where
  "swap st n =
    (let l = stack_len st in
     if 0 < n \<and> n \<le> l then
       Some (st\<lparr>stk_data := (stk_data st)[l - n := stk_data st ! (l - 1), l - 1 := stk_data st ! (l - n)]\<rparr>)
     else None)"

definition dup :: "Stack \<Rightarrow> nat \<Rightarrow> Stack option" where
  "dup st n =
    (let l = stack_len st in
     if 0 < n \<and> n \<le> l then Some (push st (stk_data st ! (l - n))) else None)"

definition peek :: "Stack \<Rightarrow> int option" where
  "peek st = (if stk_data st = [] then None else Some (stk_data st ! (stack_len st - 1)))"

definition Back :: "Stack \<Rightarrow> nat \<Rightarrow> int option" where
  "Back st n = (if n < stack_len st then Some (stk_data st ! (stack_len st - n - 1)) else None)"

text \<open>\<^verbatim>\<open>require\<close>: an underflow reports the actual and the wanted number of items.\<close>

definition require :: "Stack \<Rightarrow> nat \<Rightarrow> (nat \<times> nat) option" where
  "require st n = (if stack_len st < n then Some (stack_len st, n) else None)"

section \<open>Integer pool\<close>

definition poolLimit :: nat where "poolLimit = 256"
definition verifyPool :: bool where "verifyPool = False"
definition checkVal :: int where "checkVal = - 42"

text \<open>
  The pool recycles big integers.  \<^verbatim>\<open>get\<close> may hand out a stale value; every caller overwrites it before
  it is read.
\<close>

definition pool_get :: "Stack \<Rightarrow> int \<times> Stack" where
  "pool_get p = (case pop p of Some (x, p') \<Rightarrow> (x, p') | None \<Rightarrow> (0, p))"

definition pool_put :: "Stack \<Rightarrow> int list \<Rightarrow> Stack" where
  "pool_put p is =
    (if poolLimit < length (stk_data p) then p
     else fold (\<lambda>i p. push p (if verifyPool then checkVal else i)) is p)"

section \<open>Memory\<close>

record Memory =
  mem_store :: bytes
  mem_lastGasCost :: u64

definition NewMemory :: Memory where
  "NewMemory = \<lparr>mem_store = [], mem_lastGasCost = 0\<rparr>"

definition mem_Len :: "Memory \<Rightarrow> nat" where
  "mem_Len m = length (mem_store m)"

text \<open>
  \<^verbatim>\<open>m.store[offset:offset+size]\<close> is checked against the length; the end is a wrapping sum of 64-bit
  words.
\<close>

definition mem_Set :: "Memory \<Rightarrow> u64 \<Rightarrow> u64 \<Rightarrow> bytes \<Rightarrow> Memory option" where
  "mem_Set m offset sz value =
    (if mem_Len m < unat sz then None
     else if 0 < sz then
       (if offset \<le> offset + sz \<and> unat (offset + sz) \<le> mem_Len m then
          Some (m\<lparr>mem_store := copy_at (unat offset) (unat sz) value (mem_store m)\<rparr>)
        else None)
     else Some m)"

definition mem_Resize :: "Memory \<Rightarrow> u64 \<Rightarrow> Memory" where
  "mem_Resize m sz =
    (if mem_Len m < unat sz
     then m\<lparr>mem_store := mem_store m @ replicate (unat sz - mem_Len m) 0\<rparr> else m)"

text \<open>Offset and size are \<^verbatim>\<open>int64\<close> values.\<close>

definition mem_Get :: "Memory \<Rightarrow> int \<Rightarrow> int \<Rightarrow> bytes option" where
  "mem_Get m offset sz =
    (if sz = 0 then Some []
     else if offset < int (mem_Len m) then
       (if 0 \<le> offset \<and> 0 \<le> sz then slice (mem_store m) (nat offset) (nat (offset + sz)) else None)
     else Some [])"

definition mem_GetPtr :: "Memory \<Rightarrow> int \<Rightarrow> int \<Rightarrow> bytes option" where
  "mem_GetPtr m offset sz =
    (if sz = 0 then Some []
     else if offset < int (mem_Len m) then
       (if 0 \<le> offset \<and> 0 \<le> sz then slice (mem_store m) (nat offset) (nat (offset + sz)) else None)
     else Some [])"

definition mem_setbyte :: "Memory \<Rightarrow> int \<Rightarrow> u8 \<Rightarrow> Memory option" where
  "mem_setbyte m off b =
    (if 0 \<le> off \<and> off < int (mem_Len m) then Some (m\<lparr>mem_store := (mem_store m)[nat off := b]\<rparr>)
     else None)"

section \<open>The stack contract\<close>

text \<open>What the instructions rely on: a last-in first-out sequence, seen from the top.\<close>

locale lifo =
  fixes tops :: "'s \<Rightarrow> 'e list"
    and of_tops :: "'e list \<Rightarrow> 's"
    and psh :: "'s \<Rightarrow> 'e \<Rightarrow> 's"
    and pp :: "'s \<Rightarrow> ('e \<times> 's) option"
  assumes of_tops_tops: "of_tops (tops s) = s"
    and tops_of_tops: "tops (of_tops xs) = xs"
    and psh_of_tops: "psh (of_tops xs) x = of_tops (x # xs)"
    and pp_of_tops_Nil: "pp (of_tops []) = None"
    and pp_of_tops_Cons: "pp (of_tops (x # xs)) = Some (x, of_tops xs)"
begin

lemma psh_tops: "psh s x = of_tops (x # tops s)"
  using psh_of_tops [of "tops s" x] by (simp add: of_tops_tops)

lemma pp_tops: "pp s = (case tops s of [] \<Rightarrow> None | x # xs \<Rightarrow> Some (x, of_tops xs))"
proof (cases "tops s")
  case Nil
  then have "s = of_tops []" using of_tops_tops [of s] by simp
  then show ?thesis by (simp add: pp_of_tops_Nil tops_of_tops)
next
  case (Cons x xs)
  then have "s = of_tops (x # xs)" using of_tops_tops [of s] by simp
  then show ?thesis by (simp add: pp_of_tops_Cons tops_of_tops)
qed

lemma pp_psh: "pp (psh s x) = Some (x, s)"
  by (simp add: psh_tops pp_of_tops_Cons of_tops_tops)

lemma pp_SomeD: "pp s = Some (x, s') \<Longrightarrow> tops s = x # tops s'"
  by (auto simp: pp_tops tops_of_tops split: list.splits)

lemma pp_Some_iff: "(\<exists>x s'. pp s = Some (x, s')) \<longleftrightarrow> tops s \<noteq> []"
  by (auto simp: pp_tops split: list.splits)

lemma tops_fold_psh: "tops (fold (\<lambda>x s. psh s x) xs s) = rev xs @ tops s"
  by (induction xs arbitrary: s) (simp_all add: psh_tops tops_of_tops)

end

definition stack_tops :: "Stack \<Rightarrow> int list" where
  "stack_tops st = rev (stk_data st)"

definition of_tops :: "int list \<Rightarrow> Stack" where
  "of_tops xs = \<lparr>stk_data = rev xs\<rparr>"

interpretation vmstack: lifo stack_tops of_tops push pop
  by unfold_locales
    (simp_all add: stack_tops_def of_tops_def push_def pop_def stack_len_def nth_append)

lemmas stack_simps [simp] = vmstack.tops_of_tops vmstack.psh_of_tops vmstack.pp_of_tops_Nil
  vmstack.pp_of_tops_Cons vmstack.pp_psh

lemma stack_of_tops_cases: obtains xs where "st = of_tops xs"
  by (rule that [OF vmstack.of_tops_tops [symmetric]])

lemma stack_len_of_tops [simp]: "stack_len (of_tops xs) = length xs"
  by (simp add: stack_len_def of_tops_def)

lemma length_tops [simp]: "length (stack_tops st) = stack_len st"
  by (simp add: stack_tops_def stack_len_def)

lemma newstack_of_tops: "newstack = of_tops []"
  by (simp add: newstack_def of_tops_def)

lemma rev_nth_from_end: "0 < n \<Longrightarrow> n \<le> length xs \<Longrightarrow> rev xs ! (length xs - n) = xs ! (n - 1)"
  by (simp add: rev_nth)

lemma Back_of_tops [simp]: "Back (of_tops xs) n = (if n < length xs then Some (xs ! n) else None)"
  by (simp add: Back_def of_tops_def stack_len_def rev_nth)

lemma peek_of_tops [simp]: "peek (of_tops xs) = (case xs of [] \<Rightarrow> None | x # _ \<Rightarrow> Some x)"
  by (cases xs) (simp_all add: peek_def of_tops_def stack_len_def nth_append)

lemma dup_of_tops [simp]:
  "dup (of_tops xs) n = (if 0 < n \<and> n \<le> length xs then Some (of_tops (xs ! (n - 1) # xs)) else None)"
  by (simp add: dup_def of_tops_def stack_len_def push_def Let_def rev_nth_from_end)

lemma swap_of_tops [simp]:
  "swap (of_tops xs) n =
    (if 0 < n \<and> n \<le> length xs then Some (of_tops (xs[n - 1 := xs ! 0, 0 := xs ! (n - 1)])) else None)"
proof (cases "0 < n \<and> n \<le> length xs")
  case True
  moreover from this have "rev (xs[n - 1 := xs ! 0]) = (rev xs)[length xs - n := xs ! 0]"
    "0 < length xs"
    using rev_update [of "n - 1" xs "xs ! 0"] by auto
  ultimately show ?thesis
    using rev_nth_from_end [of 1 xs]
    by (simp add: swap_def of_tops_def stack_len_def rev_update rev_nth_from_end Let_def)
qed (auto simp: swap_def stack_len_def of_tops_def)

lemma require_of_tops [simp]:
  "require (of_tops xs) n = (if length xs < n then Some (length xs, n) else None)"
  by (simp add: require_def)

lemma pool_put_bound:
  "length (stk_data p) \<le> poolLimit + k \<Longrightarrow> length is \<le> k \<Longrightarrow>
   length (stk_data (pool_put p is)) \<le> poolLimit + k"
proof -
  have "length (stk_data (fold (\<lambda>i p. push p (if verifyPool then checkVal else i)) is p)) =
      length (stk_data p) + length is" for p
    by (induction "is" arbitrary: p) (simp_all add: push_def)
  then show "length (stk_data p) \<le> poolLimit + k \<Longrightarrow> length is \<le> k \<Longrightarrow>
      length (stk_data (pool_put p is)) \<le> poolLimit + k"
    by (auto simp: pool_put_def)
qed

section \<open>Memory lemmas\<close>

lemma mem_Len_Resize [simp]: "mem_Len (mem_Resize m sz) = max (mem_Len m) (unat sz)"
  by (simp add: mem_Resize_def mem_Len_def)

lemma mem_Resize_prefix: "take (mem_Len m) (mem_store (mem_Resize m sz)) = mem_store m"
  by (simp add: mem_Resize_def mem_Len_def)

lemma mem_Resize_lastGasCost [simp]: "mem_lastGasCost (mem_Resize m sz) = mem_lastGasCost m"
  by (simp add: mem_Resize_def)

lemma mem_Set_ok:
  assumes "sz = 0 \<or> unat offset + unat sz \<le> mem_Len m" and "mem_Len m < 2 ^ 64"
  shows "\<exists>m'. mem_Set m offset sz value = Some m' \<and> mem_Len m' = mem_Len m \<and>
    mem_lastGasCost m' = mem_lastGasCost m"
proof (cases "sz = 0")
  case False
  then have le: "unat offset + unat sz \<le> mem_Len m"
    using assms(1) by simp
  with assms(2) have "unat (offset + sz) = unat offset + unat sz"
    by (intro unat_plus_nowrap) simp
  with le False show ?thesis
    by (simp add: mem_Set_def word_le_nat_alt word_gt_0 mem_Len_def)
qed (simp add: mem_Set_def)

lemma mem_Get_ok:
  assumes "sz = 0 \<or> 0 \<le> offset \<and> 0 \<le> sz \<and> offset + sz \<le> int (mem_Len m)"
  shows "\<exists>bs. mem_Get m offset sz = Some bs \<and> length bs = nat sz"
  using assms by (auto simp: mem_Get_def slice_def mem_Len_def nat_add_distrib)

lemma mem_GetPtr_eq: "mem_GetPtr m offset sz = mem_Get m offset sz"
  by (simp add: mem_GetPtr_def mem_Get_def)

end
