(* ===== verification/StateDB.thy ===== *)
theory StateDB
  imports Params
begin

text \<open>
  The in-memory account database of \<^verbatim>\<open>src/core/state/statedb.go\<close> and the two balance helpers of
  \<^verbatim>\<open>src/core/evm.go\<close>.  A Go map is a partial function; every operation returns the new database.
  Reads that touch the map (\<^verbatim>\<open>GetState\<close>, \<^verbatim>\<open>HasSuicided\<close> and \<^verbatim>\<open>GetBalance\<close> create the account they are
  asked about) return it too.
\<close>

section \<open>Accounts and the database\<close>

record Log =
  log_Address :: Address
  log_Topics :: "Hash list"
  log_Data :: bytes
  log_BlockNumber :: u64

record State =
  st_address :: Address
  st_balance :: int
  st_nonce :: u64
  st_codeHash :: Hash
  st_code :: bytes
  st_isSuicide :: bool
  st_storage :: "Hash \<rightharpoonup> Hash"

record StateDB =
  StateMap :: "Address \<rightharpoonup> State"
  Logs :: "Log list"

definition NewStateDB :: StateDB where
  "NewStateDB = \<lparr>StateMap = Map.empty, Logs = []\<rparr>"

definition newState :: "Address \<Rightarrow> State" where
  "newState addr = \<lparr>st_address = addr, st_balance = 0, st_nonce = 0, st_codeHash = zeroHash,
     st_code = [], st_isSuicide = False, st_storage = Map.empty\<rparr>"

text \<open>The guard \<^verbatim>\<open>if _, ok := st.StateMap[addr]; !ok\<close> shared by the operations that create an account.\<close>

definition ensure :: "StateDB \<Rightarrow> Address \<Rightarrow> State" where
  "ensure st addr = (case StateMap st addr of None \<Rightarrow> newState addr | Some s \<Rightarrow> s)"

definition put_state :: "StateDB \<Rightarrow> Address \<Rightarrow> State \<Rightarrow> StateDB" where
  "put_state st addr s = st\<lparr>StateMap := (StateMap st)(addr \<mapsto> s)\<rparr>"

section \<open>Operations\<close>

definition CreateAccount :: "StateDB \<Rightarrow> Address \<Rightarrow> StateDB" where
  "CreateAccount st addr = put_state st addr (newState addr)"

definition SubBalance :: "StateDB \<Rightarrow> Address \<Rightarrow> int \<Rightarrow> StateDB" where
  "SubBalance st addr value =
    (case StateMap st addr of
       None \<Rightarrow> st
     | Some s \<Rightarrow> put_state st addr (s\<lparr>st_balance := st_balance s - value\<rparr>))"

definition AddBalance :: "StateDB \<Rightarrow> Address \<Rightarrow> int \<Rightarrow> StateDB" where
  "AddBalance st addr value =
    (let s = ensure st addr in put_state st addr (s\<lparr>st_balance := st_balance s + value\<rparr>))"

definition GetBalance :: "StateDB \<Rightarrow> Address \<Rightarrow> int option \<times> StateDB" where
  "GetBalance st addr =
    (let st' = AddBalance st addr 100 in
     case StateMap st' addr of
       None \<Rightarrow> (None, st')
     | Some s \<Rightarrow> (Some (st_balance s), st'))"

definition GetNonce :: "StateDB \<Rightarrow> Address \<Rightarrow> u64" where
  "GetNonce st addr = (case StateMap st addr of None \<Rightarrow> 0 | Some s \<Rightarrow> st_nonce s)"

definition SetNonce :: "StateDB \<Rightarrow> Address \<Rightarrow> u64 \<Rightarrow> StateDB" where
  "SetNonce st addr value = put_state st addr ((ensure st addr)\<lparr>st_nonce := value\<rparr>)"

definition GetCodeHash :: "StateDB \<Rightarrow> Address \<Rightarrow> Hash" where
  "GetCodeHash st addr = (case StateMap st addr of None \<Rightarrow> zeroHash | Some s \<Rightarrow> st_codeHash s)"

definition GetCode :: "StateDB \<Rightarrow> Address \<Rightarrow> bytes" where
  "GetCode st addr = (case StateMap st addr of None \<Rightarrow> [] | Some s \<Rightarrow> st_code s)"

definition SetCode :: "StateDB \<Rightarrow> Address \<Rightarrow> bytes \<Rightarrow> StateDB" where
  "SetCode st addr code = put_state st addr ((ensure st addr)\<lparr>st_code := code\<rparr>)"

definition GetCodeSize :: "StateDB \<Rightarrow> Address \<Rightarrow> nat" where
  "GetCodeSize st addr = (case StateMap st addr of None \<Rightarrow> 0 | Some s \<Rightarrow> length (st_code s))"

definition AddRefund :: "StateDB \<Rightarrow> u64 \<Rightarrow> StateDB" where
  "AddRefund st gas = st"

definition GetRefund :: "StateDB \<Rightarrow> u64" where
  "GetRefund st = 0"

definition GetState :: "StateDB \<Rightarrow> Address \<Rightarrow> Hash \<Rightarrow> Hash \<times> StateDB" where
  "GetState st addr key =
    (let s = ensure st addr; st' = put_state st addr s in
     case st_storage s key of None \<Rightarrow> (zeroHash, st') | Some v \<Rightarrow> (v, st'))"

definition SetState :: "StateDB \<Rightarrow> Address \<Rightarrow> Hash \<Rightarrow> Hash \<Rightarrow> StateDB" where
  "SetState st addr key value =
    (let s = ensure st addr in
     put_state st addr (s\<lparr>st_storage := (st_storage s)(key \<mapsto> value)\<rparr>))"

definition Suicide :: "StateDB \<Rightarrow> Address \<Rightarrow> bool \<times> StateDB" where
  "Suicide st addr = (True, put_state st addr ((ensure st addr)\<lparr>st_isSuicide := True\<rparr>))"

definition HasSuicided :: "StateDB \<Rightarrow> Address \<Rightarrow> bool \<times> StateDB" where
  "HasSuicided st addr =
    (let s = ensure st addr in (st_isSuicide s, put_state st addr s))"

definition Exist :: "StateDB \<Rightarrow> Address \<Rightarrow> bool" where
  "Exist st addr = True"

definition Empty :: "StateDB \<Rightarrow> Address \<Rightarrow> bool" where
  "Empty st addr = True"

definition RevertToSnapshot :: "StateDB \<Rightarrow> int \<Rightarrow> StateDB" where
  "RevertToSnapshot st revid = st"

definition Snapshot :: "StateDB \<Rightarrow> int" where
  "Snapshot st = 0"

definition AddLog :: "StateDB \<Rightarrow> Log \<Rightarrow> StateDB" where
  "AddLog st eventLog = st\<lparr>Logs := Logs st @ [eventLog]\<rparr>"

definition AddPreimage :: "StateDB \<Rightarrow> Hash \<Rightarrow> bytes \<Rightarrow> StateDB" where
  "AddPreimage st h preimage = st"

text \<open>\<^verbatim>\<open>CanTransfer\<close> compares through the pointer \<^verbatim>\<open>GetBalance\<close> returns: a nil pointer would panic.\<close>

definition CanTransfer :: "StateDB \<Rightarrow> Address \<Rightarrow> int \<Rightarrow> (bool \<times> StateDB) option" where
  "CanTransfer db addr amount =
    (case GetBalance db addr of
       (None, db') \<Rightarrow> None
     | (Some b, db') \<Rightarrow> Some (amount \<le> b, db'))"

definition Transfer :: "StateDB \<Rightarrow> Address \<Rightarrow> Address \<Rightarrow> int \<Rightarrow> StateDB" where
  "Transfer db sender recipient amount = AddBalance (SubBalance db sender amount) recipient amount"

section \<open>Observations and the storage contract\<close>

definition balance_of :: "StateDB \<Rightarrow> Address \<Rightarrow> int" where
  "balance_of st addr = st_balance (ensure st addr)"

definition storage_at :: "StateDB \<Rightarrow> Address \<times> Hash \<Rightarrow> Hash" where
  "storage_at st ak = fst (GetState st (fst ak) (snd ak))"

text \<open>A field of the database, addressed by a key: the last write to a key is what a read returns.\<close>

locale kv_store =
  fixes gt :: "'s \<Rightarrow> 'k \<Rightarrow> 'v"
    and st :: "'s \<Rightarrow> 'k \<Rightarrow> 'v \<Rightarrow> 's"
  assumes gt_st_same: "gt (st s k v) k = v"
    and gt_st_other: "k' \<noteq> k \<Longrightarrow> gt (st s k v) k' = gt s k'"
begin

lemma gt_st: "gt (st s k v) k' = (if k' = k then v else gt s k')"
  by (simp add: gt_st_same gt_st_other)

lemma gt_fold:
  "gt (fold (\<lambda>(k, v) s. st s k v) kvs s) k = (case map_of (rev kvs) k of None \<Rightarrow> gt s k | Some v \<Rightarrow> v)"
proof (induction kvs rule: rev_induct)
  case (snoc kv kvs)
  then show ?case by (cases kv) (simp add: gt_st)
qed simp

lemma st_commute: "k \<noteq> k' \<Longrightarrow> gt (st (st s k v) k' v') = gt (st (st s k' v') k v)"
  by (auto simp: gt_st)

lemma st_twice: "gt (st (st s k v) k v') = gt (st s k v')"
  by (auto simp: gt_st)

end

lemma StateMap_put_state [simp]: "StateMap (put_state st a s) = (StateMap st)(a \<mapsto> s)"
  by (simp add: put_state_def)

lemma Logs_put_state [simp]: "Logs (put_state st a s) = Logs st"
  by (simp add: put_state_def)

lemma ensure_put_state [simp]: "ensure (put_state st a s) b = (if b = a then s else ensure st b)"
  by (simp add: ensure_def)

lemma storage_at_ensure:
  "storage_at st ak = (case st_storage (ensure st (fst ak)) (snd ak) of None \<Rightarrow> zeroHash | Some v \<Rightarrow> v)"
  by (simp add: storage_at_def GetState_def Let_def split: option.split)

interpretation storage: kv_store storage_at "\<lambda>s k. SetState s (fst k) (snd k)"
  by unfold_locales (auto simp: storage_at_ensure SetState_def Let_def prod_eq_iff split: option.split)

lemma GetCode_ensure: "GetCode st a = st_code (ensure st a)"
  by (simp add: GetCode_def ensure_def newState_def split: option.split)

lemma GetNonce_ensure: "GetNonce st a = st_nonce (ensure st a)"
  by (simp add: GetNonce_def ensure_def newState_def split: option.split)

lemma GetCodeHash_ensure: "GetCodeHash st a = st_codeHash (ensure st a)"
  by (simp add: GetCodeHash_def ensure_def newState_def split: option.split)

interpretation code: kv_store GetCode SetCode
  by unfold_locales (auto simp: GetCode_ensure SetCode_def)

interpretation nonce: kv_store GetNonce SetNonce
  by unfold_locales (auto simp: GetNonce_ensure SetNonce_def)

lemma balance_of_AddBalance [simp]:
  "balance_of (AddBalance st a v) b = balance_of st b + (if b = a then v else 0)"
  by (simp add: balance_of_def AddBalance_def Let_def)

lemma balance_of_SubBalance [simp]:
  "balance_of (SubBalance st a v) b = balance_of st b - (if b = a \<and> a \<in> dom (StateMap st) then v else 0)"
  by (auto simp: balance_of_def SubBalance_def ensure_def split: option.split)

lemma GetBalance_eq: "GetBalance st a = (Some (balance_of st a + 100), AddBalance st a 100)"
  by (simp add: GetBalance_def AddBalance_def Let_def balance_of_def)

lemma CanTransfer_eq:
  "CanTransfer st a v = Some (v \<le> balance_of st a + 100, AddBalance st a 100)"
  by (simp add: CanTransfer_def GetBalance_eq)

lemma dom_Transfer: "dom (StateMap (Transfer db s r v)) = insert r (dom (StateMap db))"
  by (auto simp: Transfer_def AddBalance_def SubBalance_def Let_def split: option.split)

text \<open>What the account operations leave alone.\<close>

lemma st_keep_storage [simp]:
  "storage_at (AddBalance st a v) = storage_at st"
  "storage_at (SubBalance st a v) = storage_at st"
  "storage_at (SetNonce st a n) = storage_at st"
  "storage_at (SetCode st a c) = storage_at st"
  "storage_at (AddLog st l) = storage_at st"
  "storage_at (snd (GetState st a k)) = storage_at st"
  "storage_at (snd (HasSuicided st a)) = storage_at st"
  "storage_at (snd (Suicide st a)) = storage_at st"
  by (auto simp: storage_at_ensure AddBalance_def SubBalance_def SetNonce_def SetCode_def
      AddLog_def GetState_def HasSuicided_def Suicide_def Let_def ensure_def fun_eq_iff newState_def split: option.split)

lemma st_keep_logs [simp]:
  "Logs (AddBalance st a v) = Logs st"
  "Logs (SubBalance st a v) = Logs st"
  "Logs (SetNonce st a n) = Logs st"
  "Logs (SetCode st a c) = Logs st"
  "Logs (SetState st a k h) = Logs st"
  "Logs (CreateAccount st a) = Logs st"
  "Logs (snd (GetState st a k)) = Logs st"
  "Logs (snd (HasSuicided st a)) = Logs st"
  "Logs (snd (Suicide st a)) = Logs st"
  by (auto simp: AddBalance_def SubBalance_def SetNonce_def SetCode_def SetState_def CreateAccount_def
      GetState_def HasSuicided_def Suicide_def Let_def split: option.split)

lemma st_keep_code [simp]:
  "GetCode (AddBalance st a v) = GetCode st" "GetCode (SubBalance st a v) = GetCode st"
  "GetCode (SetState st a k h) = GetCode st" "GetCode (SetNonce st a n) = GetCode st"
  "GetCode (snd (GetState st a k)) = GetCode st" "GetCode (snd (HasSuicided st a)) = GetCode st"
  "GetCodeHash (AddBalance st a v) = GetCodeHash st" "GetCodeHash (SubBalance st a v) = GetCodeHash st"
  "GetCodeHash (SetState st a k h) = GetCodeHash st" "GetCodeHash (SetNonce st a n) = GetCodeHash st"
  "GetCodeHash (snd (GetState st a k)) = GetCodeHash st" "GetCodeHash (snd (HasSuicided st a)) = GetCodeHash st"
  "GetNonce (AddBalance st a v) = GetNonce st" "GetNonce (SubBalance st a v) = GetNonce st"
  "GetNonce (SetState st a k h) = GetNonce st" "GetNonce (SetCode st a c) = GetNonce st"
  "GetNonce (snd (GetState st a k)) = GetNonce st" "GetNonce (snd (HasSuicided st a)) = GetNonce st"
  by (auto simp: GetCode_ensure GetCodeHash_ensure GetNonce_ensure AddBalance_def SubBalance_def SetNonce_def
      SetCode_def SetState_def GetState_def HasSuicided_def Let_def ensure_def fun_eq_iff newState_def split: option.split)

text \<open>A quiet change of the database: storage, logs, code and nonces stay, no balance decreases.  Balances that
  are read grow, and accounts that are asked about come into existence.\<close>

definition db_quiet :: "StateDB \<Rightarrow> StateDB \<Rightarrow> bool" where
  "db_quiet db db' \<longleftrightarrow> storage_at db' = storage_at db \<and> Logs db' = Logs db \<and> GetCode db' = GetCode db \<and>
    GetCodeHash db' = GetCodeHash db \<and> GetNonce db' = GetNonce db \<and> (\<forall>a. balance_of db a \<le> balance_of db' a)"

lemma db_quiet_refl: "db_quiet db db"
  by (simp add: db_quiet_def)

lemma db_quiet_trans: "db_quiet a b \<Longrightarrow> db_quiet b c \<Longrightarrow> db_quiet a c"
  by (auto simp: db_quiet_def intro: order_trans)

lemma balance_of_keep [simp]:
  "balance_of (snd (HasSuicided db a)) b = balance_of db b" "balance_of (snd (GetState db a k)) b = balance_of db b"
  "balance_of (SetState db a k v) b = balance_of db b"
  by (auto simp: balance_of_def HasSuicided_def GetState_def SetState_def Let_def split: option.split)

lemma db_quiet_ops:
  "0 \<le> v \<Longrightarrow> db_quiet db (AddBalance db a v)" "db_quiet db (snd (HasSuicided db a))" "db_quiet db (snd (GetState db a k))"
  "db_quiet db (Transfer db a b 0)"
  by (simp_all add: db_quiet_def Transfer_def)

section \<open>Properties\<close>

text \<open>
  Storage behaves as a map: after any sequence of \<^verbatim>\<open>SetState\<close> calls, \<^verbatim>\<open>GetState\<close> returns the last value
  written to that account and key, and otherwise what was there before (zero for a fresh slot).
\<close>

lemma storage_last_write:
  "storage_at (fold (\<lambda>(k, v) db. SetState db (fst k) (snd k) v) kvs db) ak =
    (case map_of (rev kvs) ak of None \<Rightarrow> storage_at db ak | Some v \<Rightarrow> v)"
  by (rule storage.gt_fold)

text \<open>
  C29. A transfer changes balances only: for every account the state after the transfer is the state before it
  with another balance, address, nonce, code, code hash, storage and self-destruct flag included, and the logs
  stay. An existing sender loses the amount and the recipient, created if it is missing, gains it; nobody else is
  affected, and a transfer of an existing account to itself changes nothing. A missing sender loses nothing: the
  recipient is then paid from nowhere.
\<close>

theorem Transfer_moves:
  "StateMap (Transfer db sender recipient v) a =
    (if StateMap db a = None \<and> a \<noteq> recipient then None
     else Some ((ensure db a)\<lparr>st_balance := balance_of db a - (if a = sender \<and> StateMap db sender \<noteq> None then v else 0) +
       (if a = recipient then v else 0)\<rparr>)) \<and>
   Logs (Transfer db sender recipient v) = Logs db"
  by (auto simp: Transfer_def AddBalance_def SubBalance_def Let_def put_state_def ensure_def balance_of_def newState_def split: option.splits)

text \<open>
  Reading a balance is not a read: every \<^verbatim>\<open>GetBalance\<close> first adds 100, so after n reads the next one
  reports 100 (n + 1) more than the account had.
\<close>

lemma GetBalance_creeps:
  "fst (GetBalance (((\<lambda>db. snd (GetBalance db a)) ^^ n) db) a) = Some (balance_of db a + 100 * (int n + 1))"
proof -
  have "balance_of (((\<lambda>db. snd (GetBalance db a)) ^^ n) db) a = balance_of db a + 100 * int n"
    by (induction n) (simp_all add: GetBalance_eq)
  then show ?thesis by (simp add: GetBalance_eq)
qed

end
