(* ===== verification/Opcodes.thy ===== *)
theory Opcodes
  imports Params
begin

text \<open>
  The instruction set of \<^verbatim>\<open>src/core/vm/opcodes.go\<close>: the byte values of the opcodes, the push and
  jump predicates, and the two tables between opcodes and their mnemonics.  The mnemonics AND, OR,
  XOR and NOT carry a suffix.
\<close>

section \<open>Byte values\<close>

type_synonym OpCode = u8

abbreviation (input) STOP :: OpCode where "STOP \<equiv> 0x00"
abbreviation (input) ADD :: OpCode where "ADD \<equiv> 0x01"
abbreviation (input) MUL :: OpCode where "MUL \<equiv> 0x02"
abbreviation (input) SUB :: OpCode where "SUB \<equiv> 0x03"
abbreviation (input) DIV :: OpCode where "DIV \<equiv> 0x04"
abbreviation (input) SDIV :: OpCode where "SDIV \<equiv> 0x05"
abbreviation (input) MOD :: OpCode where "MOD \<equiv> 0x06"
abbreviation (input) SMOD :: OpCode where "SMOD \<equiv> 0x07"
abbreviation (input) ADDMOD :: OpCode where "ADDMOD \<equiv> 0x08"
abbreviation (input) MULMOD :: OpCode where "MULMOD \<equiv> 0x09"
abbreviation (input) EXP :: OpCode where "EXP \<equiv> 0x0a"
abbreviation (input) SIGNEXTEND :: OpCode where "SIGNEXTEND \<equiv> 0x0b"
abbreviation (input) LT :: OpCode where "LT \<equiv> 0x10"
abbreviation (input) GT :: OpCode where "GT \<equiv> 0x11"
abbreviation (input) SLT :: OpCode where "SLT \<equiv> 0x12"
abbreviation (input) SGT :: OpCode where "SGT \<equiv> 0x13"
abbreviation (input) EQ :: OpCode where "EQ \<equiv> 0x14"
abbreviation (input) ISZERO :: OpCode where "ISZERO \<equiv> 0x15"
abbreviation (input) AND_op :: OpCode where "AND_op \<equiv> 0x16"
abbreviation (input) OR_op :: OpCode where "OR_op \<equiv> 0x17"
abbreviation (input) XOR_op :: OpCode where "XOR_op \<equiv> 0x18"
abbreviation (input) NOT_op :: OpCode where "NOT_op \<equiv> 0x19"
abbreviation (input) BYTE :: OpCode where "BYTE \<equiv> 0x1a"
abbreviation (input) SHA3 :: OpCode where "SHA3 \<equiv> 0x20"
abbreviation (input) ADDRESS :: OpCode where "ADDRESS \<equiv> 0x30"
abbreviation (input) BALANCE :: OpCode where "BALANCE \<equiv> 0x31"
abbreviation (input) ORIGIN :: OpCode where "ORIGIN \<equiv> 0x32"
abbreviation (input) CALLER :: OpCode where "CALLER \<equiv> 0x33"
abbreviation (input) CALLVALUE :: OpCode where "CALLVALUE \<equiv> 0x34"
abbreviation (input) CALLDATALOAD :: OpCode where "CALLDATALOAD \<equiv> 0x35"
abbreviation (input) CALLDATASIZE :: OpCode where "CALLDATASIZE \<equiv> 0x36"
abbreviation (input) CALLDATACOPY :: OpCode where "CALLDATACOPY \<equiv> 0x37"
abbreviation (input) CODESIZE :: OpCode where "CODESIZE \<equiv> 0x38"
abbreviation (input) CODECOPY :: OpCode where "CODECOPY \<equiv> 0x39"
abbreviation (input) GASPRICE :: OpCode where "GASPRICE \<equiv> 0x3a"
abbreviation (input) EXTCODESIZE :: OpCode where "EXTCODESIZE \<equiv> 0x3b"
abbreviation (input) EXTCODECOPY :: OpCode where "EXTCODECOPY \<equiv> 0x3c"
abbreviation (input) RETURNDATASIZE :: OpCode where "RETURNDATASIZE \<equiv> 0x3d"
abbreviation (input) RETURNDATACOPY :: OpCode where "RETURNDATACOPY \<equiv> 0x3e"
abbreviation (input) BLOCKHASH :: OpCode where "BLOCKHASH \<equiv> 0x40"
abbreviation (input) COINBASE :: OpCode where "COINBASE \<equiv> 0x41"
abbreviation (input) TIMESTAMP :: OpCode where "TIMESTAMP \<equiv> 0x42"
abbreviation (input) NUMBER :: OpCode where "NUMBER \<equiv> 0x43"
abbreviation (input) DIFFICULTY :: OpCode where "DIFFICULTY \<equiv> 0x44"
abbreviation (input) GASLIMIT :: OpCode where "GASLIMIT \<equiv> 0x45"
abbreviation (input) POP :: OpCode where "POP \<equiv> 0x50"
abbreviation (input) MLOAD :: OpCode where "MLOAD \<equiv> 0x51"
abbreviation (input) MSTORE :: OpCode where "MSTORE \<equiv> 0x52"
abbreviation (input) MSTORE8 :: OpCode where "MSTORE8 \<equiv> 0x53"
abbreviation (input) SLOAD :: OpCode where "SLOAD \<equiv> 0x54"
abbreviation (input) SSTORE :: OpCode where "SSTORE \<equiv> 0x55"
abbreviation (input) JUMP :: OpCode where "JUMP \<equiv> 0x56"
abbreviation (input) JUMPI :: OpCode where "JUMPI \<equiv> 0x57"
abbreviation (input) PC :: OpCode where "PC \<equiv> 0x58"
abbreviation (input) MSIZE :: OpCode where "MSIZE \<equiv> 0x59"
abbreviation (input) GAS :: OpCode where "GAS \<equiv> 0x5a"
abbreviation (input) JUMPDEST :: OpCode where "JUMPDEST \<equiv> 0x5b"
abbreviation (input) PUSH1 :: OpCode where "PUSH1 \<equiv> 0x60"
abbreviation (input) PUSH2 :: OpCode where "PUSH2 \<equiv> 0x61"
abbreviation (input) PUSH3 :: OpCode where "PUSH3 \<equiv> 0x62"
abbreviation (input) PUSH4 :: OpCode where "PUSH4 \<equiv> 0x63"
abbreviation (input) PUSH5 :: OpCode where "PUSH5 \<equiv> 0x64"
abbreviation (input) PUSH6 :: OpCode where "PUSH6 \<equiv> 0x65"
abbreviation (input) PUSH7 :: OpCode where "PUSH7 \<equiv> 0x66"
abbreviation (input) PUSH8 :: OpCode where "PUSH8 \<equiv> 0x67"
abbreviation (input) PUSH9 :: OpCode where "PUSH9 \<equiv> 0x68"
abbreviation (input) PUSH10 :: OpCode where "PUSH10 \<equiv> 0x69"
abbreviation (input) PUSH11 :: OpCode where "PUSH11 \<equiv> 0x6a"
abbreviation (input) PUSH12 :: OpCode where "PUSH12 \<equiv> 0x6b"
abbreviation (input) PUSH13 :: OpCode where "PUSH13 \<equiv> 0x6c"
abbreviation (input) PUSH14 :: OpCode where "PUSH14 \<equiv> 0x6d"
abbreviation (input) PUSH15 :: OpCode where "PUSH15 \<equiv> 0x6e"
abbreviation (input) PUSH16 :: OpCode where "PUSH16 \<equiv> 0x6f"
abbreviation (input) PUSH17 :: OpCode where "PUSH17 \<equiv> 0x70"
abbreviation (input) PUSH18 :: OpCode where "PUSH18 \<equiv> 0x71"
abbreviation (input) PUSH19 :: OpCode where "PUSH19 \<equiv> 0x72"
abbreviation (input) PUSH20 :: OpCode where "PUSH20 \<equiv> 0x73"
abbreviation (input) PUSH21 :: OpCode where "PUSH21 \<equiv> 0x74"
abbreviation (input) PUSH22 :: OpCode where "PUSH22 \<equiv> 0x75"
abbreviation (input) PUSH23 :: OpCode where "PUSH23 \<equiv> 0x76"
abbreviation (input) PUSH24 :: OpCode where "PUSH24 \<equiv> 0x77"
abbreviation (input) PUSH25 :: OpCode where "PUSH25 \<equiv> 0x78"
abbreviation (input) PUSH26 :: OpCode where "PUSH26 \<equiv> 0x79"
abbreviation (input) PUSH27 :: OpCode where "PUSH27 \<equiv> 0x7a"
abbreviation (input) PUSH28 :: OpCode where "PUSH28 \<equiv> 0x7b"
abbreviation (input) PUSH29 :: OpCode where "PUSH29 \<equiv> 0x7c"
abbreviation (input) PUSH30 :: OpCode where "PUSH30 \<equiv> 0x7d"
abbreviation (input) PUSH31 :: OpCode where "PUSH31 \<equiv> 0x7e"
abbreviation (input) PUSH32 :: OpCode where "PUSH32 \<equiv> 0x7f"
abbreviation (input) DUP1 :: OpCode where "DUP1 \<equiv> 0x80"
abbreviation (input) DUP2 :: OpCode where "DUP2 \<equiv> 0x81"
abbreviation (input) DUP3 :: OpCode where "DUP3 \<equiv> 0x82"
abbreviation (input) DUP4 :: OpCode where "DUP4 \<equiv> 0x83"
abbreviation (input) DUP5 :: OpCode where "DUP5 \<equiv> 0x84"
abbreviation (input) DUP6 :: OpCode where "DUP6 \<equiv> 0x85"
abbreviation (input) DUP7 :: OpCode where "DUP7 \<equiv> 0x86"
abbreviation (input) DUP8 :: OpCode where "DUP8 \<equiv> 0x87"
abbreviation (input) DUP9 :: OpCode where "DUP9 \<equiv> 0x88"
abbreviation (input) DUP10 :: OpCode where "DUP10 \<equiv> 0x89"
abbreviation (input) DUP11 :: OpCode where "DUP11 \<equiv> 0x8a"
abbreviation (input) DUP12 :: OpCode where "DUP12 \<equiv> 0x8b"
abbreviation (input) DUP13 :: OpCode where "DUP13 \<equiv> 0x8c"
abbreviation (input) DUP14 :: OpCode where "DUP14 \<equiv> 0x8d"
abbreviation (input) DUP15 :: OpCode where "DUP15 \<equiv> 0x8e"
abbreviation (input) DUP16 :: OpCode where "DUP16 \<equiv> 0x8f"
abbreviation (input) SWAP1 :: OpCode where "SWAP1 \<equiv> 0x90"
abbreviation (input) SWAP2 :: OpCode where "SWAP2 \<equiv> 0x91"
abbreviation (input) SWAP3 :: OpCode where "SWAP3 \<equiv> 0x92"
abbreviation (input) SWAP4 :: OpCode where "SWAP4 \<equiv> 0x93"
abbreviation (input) SWAP5 :: OpCode where "SWAP5 \<equiv> 0x94"
abbreviation (input) SWAP6 :: OpCode where "SWAP6 \<equiv> 0x95"
abbreviation (input) SWAP7 :: OpCode where "SWAP7 \<equiv> 0x96"
abbreviation (input) SWAP8 :: OpCode where "SWAP8 \<equiv> 0x97"
abbreviation (input) SWAP9 :: OpCode where "SWAP9 \<equiv> 0x98"
abbreviation (input) SWAP10 :: OpCode where "SWAP10 \<equiv> 0x99"
abbreviation (input) SWAP11 :: OpCode where "SWAP11 \<equiv> 0x9a"
abbreviation (input) SWAP12 :: OpCode where "SWAP12 \<equiv> 0x9b"
abbreviation (input) SWAP13 :: OpCode where "SWAP13 \<equiv> 0x9c"
abbreviation (input) SWAP14 :: OpCode where "SWAP14 \<equiv> 0x9d"
abbreviation (input) SWAP15 :: OpCode where "SWAP15 \<equiv> 0x9e"
abbreviation (input) SWAP16 :: OpCode where "SWAP16 \<equiv> 0x9f"
abbreviation (input) LOG0 :: OpCode where "LOG0 \<equiv> 0xa0"
abbreviation (input) LOG1 :: OpCode where "LOG1 \<equiv> 0xa1"
abbreviation (input) LOG2 :: OpCode where "LOG2 \<equiv> 0xa2"
abbreviation (input) LOG3 :: OpCode where "LOG3 \<equiv> 0xa3"
abbreviation (input) LOG4 :: OpCode where "LOG4 \<equiv> 0xa4"
abbreviation (input) PUSH :: OpCode where "PUSH \<equiv> 0xb0"
abbreviation (input) DUP :: OpCode where "DUP \<equiv> 0xb1"
abbreviation (input) SWAP :: OpCode where "SWAP \<equiv> 0xb2"
abbreviation (input) CREATE :: OpCode where "CREATE \<equiv> 0xf0"
abbreviation (input) CALL :: OpCode where "CALL \<equiv> 0xf1"
abbreviation (input) CALLCODE :: OpCode where "CALLCODE \<equiv> 0xf2"
abbreviation (input) RETURN :: OpCode where "RETURN \<equiv> 0xf3"
abbreviation (input) DELEGATECALL :: OpCode where "DELEGATECALL \<equiv> 0xf4"
abbreviation (input) STATICCALL :: OpCode where "STATICCALL \<equiv> 0xfa"
abbreviation (input) REVERT :: OpCode where "REVERT \<equiv> 0xfd"
abbreviation (input) SELFDESTRUCT :: OpCode where "SELFDESTRUCT \<equiv> 0xff"

section \<open>Predicates and names\<close>

definition IsPush :: "OpCode \<Rightarrow> bool" where
  "IsPush op = (op \<in> {PUSH1, PUSH2, PUSH3, PUSH4, PUSH5, PUSH6, PUSH7, PUSH8, PUSH9, PUSH10, PUSH11,
     PUSH12, PUSH13, PUSH14, PUSH15, PUSH16, PUSH17, PUSH18, PUSH19, PUSH20, PUSH21, PUSH22, PUSH23,
     PUSH24, PUSH25, PUSH26, PUSH27, PUSH28, PUSH29, PUSH30, PUSH31, PUSH32})"

definition IsStaticJump :: "OpCode \<Rightarrow> bool" where
  "IsStaticJump op = (op = JUMP)"

definition opCodeToString :: "(OpCode \<times> string) list" where
  "opCodeToString =
    [(STOP, ''STOP''), (ADD, ''ADD''), (MUL, ''MUL''), (SUB, ''SUB''), (DIV, ''DIV''),
     (SDIV, ''SDIV''), (MOD, ''MOD''), (SMOD, ''SMOD''), (EXP, ''EXP''), (NOT_op, ''NOT''),
     (LT, ''LT''), (GT, ''GT''), (SLT, ''SLT''), (SGT, ''SGT''), (EQ, ''EQ''),
     (ISZERO, ''ISZERO''), (SIGNEXTEND, ''SIGNEXTEND''), (AND_op, ''AND''), (OR_op, ''OR''),
     (XOR_op, ''XOR''), (BYTE, ''BYTE''), (ADDMOD, ''ADDMOD''), (MULMOD, ''MULMOD''),
     (SHA3, ''SHA3''), (ADDRESS, ''ADDRESS''), (BALANCE, ''BALANCE''), (ORIGIN, ''ORIGIN''),
     (CALLER, ''CALLER''), (CALLVALUE, ''CALLVALUE''), (CALLDATALOAD, ''CALLDATALOAD''),
     (CALLDATASIZE, ''CALLDATASIZE''), (CALLDATACOPY, ''CALLDATACOPY''), (CODESIZE, ''CODESIZE''),
     (CODECOPY, ''CODECOPY''), (GASPRICE, ''GASPRICE''), (EXTCODESIZE, ''EXTCODESIZE''),
     (EXTCODECOPY, ''EXTCODECOPY''), (RETURNDATASIZE, ''RETURNDATASIZE''),
     (RETURNDATACOPY, ''RETURNDATACOPY''), (BLOCKHASH, ''BLOCKHASH''), (COINBASE, ''COINBASE''),
     (TIMESTAMP, ''TIMESTAMP''), (NUMBER, ''NUMBER''), (DIFFICULTY, ''DIFFICULTY''),
     (GASLIMIT, ''GASLIMIT''), (POP, ''POP''), (MLOAD, ''MLOAD''), (MSTORE, ''MSTORE''),
     (MSTORE8, ''MSTORE8''), (SLOAD, ''SLOAD''), (SSTORE, ''SSTORE''), (JUMP, ''JUMP''),
     (JUMPI, ''JUMPI''), (PC, ''PC''), (MSIZE, ''MSIZE''), (GAS, ''GAS''),
     (JUMPDEST, ''JUMPDEST''), (PUSH1, ''PUSH1''), (PUSH2, ''PUSH2''), (PUSH3, ''PUSH3''),
     (PUSH4, ''PUSH4''), (PUSH5, ''PUSH5''), (PUSH6, ''PUSH6''), (PUSH7, ''PUSH7''),
     (PUSH8, ''PUSH8''), (PUSH9, ''PUSH9''), (PUSH10, ''PUSH10''), (PUSH11, ''PUSH11''),
     (PUSH12, ''PUSH12''), (PUSH13, ''PUSH13''), (PUSH14, ''PUSH14''), (PUSH15, ''PUSH15''),
     (PUSH16, ''PUSH16''), (PUSH17, ''PUSH17''), (PUSH18, ''PUSH18''), (PUSH19, ''PUSH19''),
     (PUSH20, ''PUSH20''), (PUSH21, ''PUSH21''), (PUSH22, ''PUSH22''), (PUSH23, ''PUSH23''),
     (PUSH24, ''PUSH24''), (PUSH25, ''PUSH25''), (PUSH26, ''PUSH26''), (PUSH27, ''PUSH27''),
     (PUSH28, ''PUSH28''), (PUSH29, ''PUSH29''), (PUSH30, ''PUSH30''), (PUSH31, ''PUSH31''),
     (PUSH32, ''PUSH32''), (DUP1, ''DUP1''), (DUP2, ''DUP2''), (DUP3, ''DUP3''), (DUP4, ''DUP4''),
     (DUP5, ''DUP5''), (DUP6, ''DUP6''), (DUP7, ''DUP7''), (DUP8, ''DUP8''), (DUP9, ''DUP9''),
     (DUP10, ''DUP10''), (DUP11, ''DUP11''), (DUP12, ''DUP12''), (DUP13, ''DUP13''),
     (DUP14, ''DUP14''), (DUP15, ''DUP15''), (DUP16, ''DUP16''), (SWAP1, ''SWAP1''),
     (SWAP2, ''SWAP2''), (SWAP3, ''SWAP3''), (SWAP4, ''SWAP4''), (SWAP5, ''SWAP5''),
     (SWAP6, ''SWAP6''), (SWAP7, ''SWAP7''), (SWAP8, ''SWAP8''), (SWAP9, ''SWAP9''),
     (SWAP10, ''SWAP10''), (SWAP11, ''SWAP11''), (SWAP12, ''SWAP12''), (SWAP13, ''SWAP13''),
     (SWAP14, ''SWAP14''), (SWAP15, ''SWAP15''), (SWAP16, ''SWAP16''), (LOG0, ''LOG0''),
     (LOG1, ''LOG1''), (LOG2, ''LOG2''), (LOG3, ''LOG3''), (LOG4, ''LOG4''), (CREATE, ''CREATE''),
     (CALL, ''CALL''), (RETURN, ''RETURN''), (CALLCODE, ''CALLCODE''),
     (DELEGATECALL, ''DELEGATECALL''), (STATICCALL, ''STATICCALL''), (REVERT, ''REVERT''),
     (SELFDESTRUCT, ''SELFDESTRUCT''), (PUSH, ''PUSH''), (DUP, ''DUP''), (SWAP, ''SWAP'')]"

text \<open>\<^verbatim>\<open>%x\<close> of a byte.\<close>

definition hexdigit :: "nat \<Rightarrow> char" where
  "hexdigit n = ''0123456789abcdef'' ! n"

definition byte_hex :: "nat \<Rightarrow> string" where
  "byte_hex n = (if n < 16 then [hexdigit n] else [hexdigit (n div 16), hexdigit (n mod 16)])"

definition OpCode_String :: "OpCode \<Rightarrow> string" where
  "OpCode_String op =
    (case map_of opCodeToString op of
       Some str \<Rightarrow> (if length str = 0 then ''Missing opcode 0x'' @ byte_hex (unat op) else str)
     | None \<Rightarrow> ''Missing opcode 0x'' @ byte_hex (unat op))"

definition stringToOp :: "(string \<times> OpCode) list" where
  "stringToOp =
    [(''STOP'', STOP), (''ADD'', ADD), (''MUL'', MUL), (''SUB'', SUB), (''DIV'', DIV),
     (''SDIV'', SDIV), (''MOD'', MOD), (''SMOD'', SMOD), (''EXP'', EXP), (''NOT'', NOT_op),
     (''LT'', LT), (''GT'', GT), (''SLT'', SLT), (''SGT'', SGT), (''EQ'', EQ),
     (''ISZERO'', ISZERO), (''SIGNEXTEND'', SIGNEXTEND), (''AND'', AND_op), (''OR'', OR_op),
     (''XOR'', XOR_op), (''BYTE'', BYTE), (''ADDMOD'', ADDMOD), (''MULMOD'', MULMOD),
     (''SHA3'', SHA3), (''ADDRESS'', ADDRESS), (''BALANCE'', BALANCE), (''ORIGIN'', ORIGIN),
     (''CALLER'', CALLER), (''CALLVALUE'', CALLVALUE), (''CALLDATALOAD'', CALLDATALOAD),
     (''CALLDATASIZE'', CALLDATASIZE), (''CALLDATACOPY'', CALLDATACOPY),
     (''DELEGATECALL'', DELEGATECALL), (''STATICCALL'', STATICCALL), (''CODESIZE'', CODESIZE),
     (''CODECOPY'', CODECOPY), (''GASPRICE'', GASPRICE), (''EXTCODESIZE'', EXTCODESIZE),
     (''EXTCODECOPY'', EXTCODECOPY), (''RETURNDATASIZE'', RETURNDATASIZE),
     (''RETURNDATACOPY'', RETURNDATACOPY), (''BLOCKHASH'', BLOCKHASH), (''COINBASE'', COINBASE),
     (''TIMESTAMP'', TIMESTAMP), (''NUMBER'', NUMBER), (''DIFFICULTY'', DIFFICULTY),
     (''GASLIMIT'', GASLIMIT), (''POP'', POP), (''MLOAD'', MLOAD), (''MSTORE'', MSTORE),
     (''MSTORE8'', MSTORE8), (''SLOAD'', SLOAD), (''SSTORE'', SSTORE), (''JUMP'', JUMP),
     (''JUMPI'', JUMPI), (''PC'', PC), (''MSIZE'', MSIZE), (''GAS'', GAS),
     (''JUMPDEST'', JUMPDEST), (''PUSH1'', PUSH1), (''PUSH2'', PUSH2), (''PUSH3'', PUSH3),
     (''PUSH4'', PUSH4), (''PUSH5'', PUSH5), (''PUSH6'', PUSH6), (''PUSH7'', PUSH7),
     (''PUSH8'', PUSH8), (''PUSH9'', PUSH9), (''PUSH10'', PUSH10), (''PUSH11'', PUSH11),
     (''PUSH12'', PUSH12), (''PUSH13'', PUSH13), (''PUSH14'', PUSH14), (''PUSH15'', PUSH15),
     (''PUSH16'', PUSH16), (''PUSH17'', PUSH17), (''PUSH18'', PUSH18), (''PUSH19'', PUSH19),
     (''PUSH20'', PUSH20), (''PUSH21'', PUSH21), (''PUSH22'', PUSH22), (''PUSH23'', PUSH23),
     (''PUSH24'', PUSH24), (''PUSH25'', PUSH25), (''PUSH26'', PUSH26), (''PUSH27'', PUSH27),
     (''PUSH28'', PUSH28), (''PUSH29'', PUSH29), (''PUSH30'', PUSH30), (''PUSH31'', PUSH31),
     (''PUSH32'', PUSH32), (''DUP1'', DUP1), (''DUP2'', DUP2), (''DUP3'', DUP3), (''DUP4'', DUP4),
     (''DUP5'', DUP5), (''DUP6'', DUP6), (''DUP7'', DUP7), (''DUP8'', DUP8), (''DUP9'', DUP9),
     (''DUP10'', DUP10), (''DUP11'', DUP11), (''DUP12'', DUP12), (''DUP13'', DUP13),
     (''DUP14'', DUP14), (''DUP15'', DUP15), (''DUP16'', DUP16), (''SWAP1'', SWAP1),
     (''SWAP2'', SWAP2), (''SWAP3'', SWAP3), (''SWAP4'', SWAP4), (''SWAP5'', SWAP5),
     (''SWAP6'', SWAP6), (''SWAP7'', SWAP7), (''SWAP8'', SWAP8), (''SWAP9'', SWAP9),
     (''SWAP10'', SWAP10), (''SWAP11'', SWAP11), (''SWAP12'', SWAP12), (''SWAP13'', SWAP13),
     (''SWAP14'', SWAP14), (''SWAP15'', SWAP15), (''SWAP16'', SWAP16), (''LOG0'', LOG0),
     (''LOG1'', LOG1), (''LOG2'', LOG2), (''LOG3'', LOG3), (''LOG4'', LOG4), (''CREATE'', CREATE),
     (''CALL'', CALL), (''RETURN'', RETURN), (''CALLCODE'', CALLCODE), (''REVERT'', REVERT),
     (''SELFDESTRUCT'', SELFDESTRUCT)]"

definition StringToOp :: "string \<Rightarrow> OpCode" where
  "StringToOp str = (case map_of stringToOp str of Some op \<Rightarrow> op | None \<Rightarrow> 0)"

section \<open>Lemmas\<close>

lemma IsPush_range: "IsPush op \<longleftrightarrow> PUSH1 \<le> op \<and> op \<le> PUSH32"
proof
  assume "PUSH1 \<le> op \<and> op \<le> PUSH32"
  then have "96 \<le> unat op" "unat op < 128"
    by (simp_all add: word_le_nat_alt)
  then have "unat op \<in> set [96..<128]"
    by (simp only: set_upt atLeastLessThan_iff simp_thms)
  moreover have "list_all (\<lambda>n. IsPush (of_nat n)) [96..<128]"
    by (simp add: IsPush_def)
  ultimately have "IsPush (of_nat (unat op))"
    by (simp only: list_all_iff)
  then show "IsPush op" by simp
qed (auto simp: IsPush_def)

end
