(* ===== verification/Analysis.thy ===== *)
theory Analysis
  imports Opcodes
begin

text \<open>
  Jump destination analysis, \<^verbatim>\<open>src/core/vm/analysis.go\<close>: the bit vector that marks the argument bytes
  of the push instructions, its construction and the cached lookup.  \<open>None\<close> is an index out of range.
  Positions are natural numbers: they stay below the code length plus 33, so the 64-bit sums of the
  source do not wrap.
\<close>

section \<open>Bit vectors\<close>

type_synonym bitvec = bytes

unbundle bit_operations_syntax

definition or_at :: "bitvec \<Rightarrow> nat \<Rightarrow> u8 \<Rightarrow> bitvec option" where
  "or_at bits i b = (if i < length bits then Some (bits[i := bits ! i OR b]) else None)"

definition bv_set :: "bitvec \<Rightarrow> nat \<Rightarrow> bitvec option" where
  "bv_set bits pos = or_at bits (pos div 8) (drop_bit (pos mod 8) 0x80)"

definition bv_set8 :: "bitvec \<Rightarrow> nat \<Rightarrow> bitvec option" where
  "bv_set8 bits pos =
    Option.bind (or_at bits (pos div 8) (drop_bit (pos mod 8) 0xFF)) (\<lambda>bits.
    or_at bits (pos div 8 + 1) (NOT (drop_bit (pos mod 8) 0xFF)))"

definition codeSegment :: "bitvec \<Rightarrow> nat \<Rightarrow> bool option" where
  "codeSegment bits pos =
    (if pos div 8 > length bits then Some False
     else if pos div 8 < length bits then
       Some (bits ! (pos div 8) AND drop_bit (pos mod 8) 0x80 = 0)
     else None)"

text \<open>The two inner loops of \<^verbatim>\<open>codeBitmap\<close>; they return the counter and the position they stop at.\<close>

fun bitmap_loop8 :: "nat \<Rightarrow> nat \<Rightarrow> bitvec \<Rightarrow> (nat \<times> nat \<times> bitvec) option" where
  "bitmap_loop8 numbits pc bits =
    (if 8 \<le> numbits then
       Option.bind (bv_set8 bits pc) (\<lambda>bits. bitmap_loop8 (numbits - 8) (pc + 8) bits)
     else Some (numbits, pc, bits))"

fun bitmap_loop1 :: "nat \<Rightarrow> nat \<Rightarrow> bitvec \<Rightarrow> (nat \<times> bitvec) option" where
  "bitmap_loop1 0 pc bits = Some (pc, bits)"
| "bitmap_loop1 (Suc numbits) pc bits =
    Option.bind (bv_set bits pc) (\<lambda>bits. bitmap_loop1 numbits (pc + 1) bits)"

definition bitmap_push :: "nat \<Rightarrow> nat \<Rightarrow> bitvec \<Rightarrow> (nat \<times> bitvec) option" where
  "bitmap_push numbits pc bits =
    Option.bind (bitmap_loop8 numbits pc bits) (\<lambda>(numbits, pc, bits). bitmap_loop1 numbits pc bits)"

declare bitmap_loop8.simps [simp del]

lemma bitmap_loop8_pc: "bitmap_loop8 n pc bits = Some (n', pc', bits') \<Longrightarrow> pc' + n' = pc + n"
proof (induction n pc bits rule: bitmap_loop8.induct)
  case (1 n pc bits)
  show ?case
  proof (cases "8 \<le> n")
    case True
    with 1 show ?thesis
      by (auto simp: bitmap_loop8.simps [of n] Option.bind_eq_Some_conv)
  next
    case False
    with 1(2) show ?thesis by (simp add: bitmap_loop8.simps [of n])
  qed
qed

lemma bitmap_loop1_pc: "bitmap_loop1 n pc bits = Some (pc', bits') \<Longrightarrow> pc' = pc + n"
  by (induction n pc bits rule: bitmap_loop1.induct) (auto simp: Option.bind_eq_Some_conv)

lemma bitmap_push_pc: "bitmap_push n pc bits = Some (pc', bits') \<Longrightarrow> pc' = pc + n"
  by (auto simp: bitmap_push_def Option.bind_eq_Some_conv dest!: bitmap_loop8_pc bitmap_loop1_pc)

text \<open>The outer loop.\<close>

function bitmap_loop :: "bytes \<Rightarrow> nat \<Rightarrow> bitvec \<Rightarrow> bitvec option" where
  "bitmap_loop code pc bits =
    (if pc < length code then
       (let op = code ! pc in
        if PUSH1 \<le> op \<and> op \<le> PUSH32 then
          Option.bind (bitmap_push (unat (op - PUSH1 + 1)) (pc + 1) bits)
            (\<lambda>r. bitmap_loop code (fst r) (snd r))
        else bitmap_loop code (pc + 1) bits)
     else Some bits)"
  by pat_completeness auto
termination
  by (relation "measure (\<lambda>(code, pc, bits). length code - pc)") (auto dest!: bitmap_push_pc)

declare bitmap_loop.simps [simp del]

definition codeBitmap :: "bytes \<Rightarrow> bitvec option" where
  "codeBitmap code = bitmap_loop code 0 (replicate (length code div 8 + 1 + 4) 0)"

section \<open>The cached lookup\<close>

type_synonym destinations = "Hash \<rightharpoonup> bitvec"

text \<open>\<^verbatim>\<open>has\<close> returns the answer and the updated cache.\<close>

definition has :: "destinations \<Rightarrow> Hash \<Rightarrow> bytes \<Rightarrow> int \<Rightarrow> (bool \<times> destinations) option" where
  "has d codehash code dest =
    (let udest = Uint64 dest in
     if BitLen dest \<ge> 63 \<or> unat udest \<ge> length code then Some (False, d)
     else
       Option.bind
         (case d codehash of
            Some m \<Rightarrow> Some (m, d)
          | None \<Rightarrow> Option.bind (codeBitmap code) (\<lambda>m. Some (m, d(codehash \<mapsto> m))))
         (\<lambda>(m, d).
            if code ! unat udest = JUMPDEST then
              Option.bind (codeSegment m (unat udest)) (\<lambda>b. Some (b, d))
            else Some (False, d)))"

section \<open>Reference: the argument bytes of a program\<close>

text \<open>
  A left-to-right scan over the code: \<open>k\<close> argument bytes are still outstanding.  The result says for
  each byte whether it is an argument.
\<close>

definition push_args :: "OpCode \<Rightarrow> nat" where
  "push_args op = (if IsPush op then unat op - 0x5f else 0)"

fun data_mask :: "nat \<Rightarrow> bytes \<Rightarrow> bool list" where
  "data_mask k [] = []"
| "data_mask 0 (b # bs) = False # data_mask (push_args b) bs"
| "data_mask (Suc k) (b # bs) = True # data_mask k bs"

definition valid_jumpdest :: "bytes \<Rightarrow> int \<Rightarrow> bool" where
  "valid_jumpdest code dest \<longleftrightarrow>
    0 \<le> dest \<and> dest < int (length code) \<and> code ! nat dest = JUMPDEST \<and> \<not> data_mask 0 code ! nat dest"

section \<open>Correctness of the bit vector\<close>

definition bit_at :: "bitvec \<Rightarrow> nat \<Rightarrow> bool" where
  "bit_at bits p \<longleftrightarrow> bits ! (p div 8) AND drop_bit (p mod 8) 0x80 \<noteq> 0"

lemma length_data_mask [simp]: "length (data_mask k bs) = length bs"
  by (induction k bs rule: data_mask.induct) simp_all

lemma mask_bits:
  assumes "k < 8" "j < 8"
  shows "drop_bit k 0x80 AND drop_bit j 0x80 \<noteq> (0 :: u8) \<longleftrightarrow> j = k"
    and "drop_bit k 0xFF AND drop_bit j 0x80 \<noteq> (0 :: u8) \<longleftrightarrow> k \<le> j"
    and "NOT (drop_bit k 0xFF) AND drop_bit j 0x80 \<noteq> (0 :: u8) \<longleftrightarrow> j < k"
proof -
  have "\<forall>k\<in>set [0..<8]. \<forall>j\<in>set [0..<8].
      (drop_bit k 0x80 AND drop_bit j 0x80 \<noteq> (0 :: u8) \<longleftrightarrow> j = k) \<and>
      (drop_bit k 0xFF AND drop_bit j 0x80 \<noteq> (0 :: u8) \<longleftrightarrow> k \<le> j) \<and>
      (NOT (drop_bit k 0xFF) AND drop_bit j 0x80 \<noteq> (0 :: u8) \<longleftrightarrow> j < k)"
    by code_simp
  with assms show "drop_bit k 0x80 AND drop_bit j 0x80 \<noteq> (0 :: u8) \<longleftrightarrow> j = k"
    and "drop_bit k 0xFF AND drop_bit j 0x80 \<noteq> (0 :: u8) \<longleftrightarrow> k \<le> j"
    and "NOT (drop_bit k 0xFF) AND drop_bit j 0x80 \<noteq> (0 :: u8) \<longleftrightarrow> j < k"
    by (simp_all only: set_upt Ball_def atLeastLessThan_iff le0 simp_thms)
qed

lemma or_at_bit:
  assumes "or_at bits i b = Some bits'"
  shows "bit_at bits' p \<longleftrightarrow> bit_at bits p \<or> p div 8 = i \<and> b AND drop_bit (p mod 8) 0x80 \<noteq> 0"
  using assms by (auto simp: or_at_def bit_at_def nth_list_update word_ao_dist or_eq_0_iff split: if_splits)

lemma or_at_length: "or_at bits i b = Some bits' \<Longrightarrow> length bits' = length bits"
  by (auto simp: or_at_def split: if_splits)

lemma bv_set_bit:
  assumes "bv_set bits pos = Some bits'"
  shows "bit_at bits' p \<longleftrightarrow> bit_at bits p \<or> p = pos"
proof -
  have "p = pos \<longleftrightarrow> p div 8 = pos div 8 \<and> p mod 8 = pos mod 8"
    by (metis div_mult_mod_eq)
  then show ?thesis
    using or_at_bit [OF assms [unfolded bv_set_def], of p] mask_bits(1) [of "pos mod 8" "p mod 8"] by simp
qed

lemma eight_window:
  fixes p pos :: nat
  shows "pos \<le> p \<and> p < pos + 8 \<longleftrightarrow>
    p div 8 = pos div 8 \<and> pos mod 8 \<le> p mod 8 \<or> p div 8 = pos div 8 + 1 \<and> p mod 8 < pos mod 8"
proof -
  have *: "8 * c + d \<le> 8 * a + b \<and> 8 * a + b < 8 * c + d + 8 \<longleftrightarrow> a = c \<and> d \<le> b \<or> a = c + 1 \<and> b < d"
    if "b < 8" "d < 8" for a b c d :: nat
  proof -
    consider "a < c" | "a = c" | "a = c + 1" | "c + 1 < a" by linarith
    then show ?thesis using that by cases auto
  qed
  show ?thesis
    using * [of "p mod 8" "pos mod 8" "pos div 8" "p div 8"] by simp
qed

lemma bv_set8_bit:
  assumes "bv_set8 bits pos = Some bits'"
  shows "bit_at bits' p \<longleftrightarrow> bit_at bits p \<or> pos \<le> p \<and> p < pos + 8"
proof -
  obtain b1 where 1: "or_at bits (pos div 8) (drop_bit (pos mod 8) 0xFF) = Some b1"
    and 2: "or_at b1 (pos div 8 + 1) (NOT (drop_bit (pos mod 8) 0xFF)) = Some bits'"
    using assms by (auto simp: bv_set8_def Option.bind_eq_Some_conv)
  show ?thesis
    using eight_window [of pos p] or_at_bit [OF 1, of p] or_at_bit [OF 2, of p] mask_bits [of "pos mod 8" "p mod 8"] by simp
qed

lemma bv_set_total: "pos < 8 * length bits \<Longrightarrow> \<exists>b. bv_set bits pos = Some b \<and> length b = length bits"
  using less_mult_imp_div_less [of pos "length bits" 8] by (simp add: bv_set_def or_at_def)

lemma bv_set8_total:
  "pos + 8 < 8 * length bits \<Longrightarrow> \<exists>b. bv_set8 bits pos = Some b \<and> length b = length bits"
  using less_mult_imp_div_less [of "pos + 8" "length bits" 8] by (simp add: bv_set8_def or_at_def)

lemma interval_join:
  fixes i j k p :: nat
  shows "i \<le> j \<Longrightarrow> j \<le> k \<Longrightarrow> (A \<or> i \<le> p \<and> p < j) \<or> j \<le> p \<and> p < k \<longleftrightarrow> A \<or> i \<le> p \<and> p < k"
  by auto

lemma bitmap_loop8_spec:
  assumes "pc + n < 8 * length bits"
  shows "\<exists>n' b. bitmap_loop8 n pc bits = Some (n', pc + n - n', b) \<and> n' < 8 \<and> n' \<le> n \<and>
    length b = length bits \<and> (\<forall>p. bit_at b p \<longleftrightarrow> bit_at bits p \<or> pc \<le> p \<and> p < pc + n - n')"
  using assms
proof (induction n pc bits rule: bitmap_loop8.induct)
  case (1 n pc bits)
  show ?case
  proof (cases "8 \<le> n")
    case True
    with "1.prems" obtain b where b: "bv_set8 bits pc = Some b" "length b = length bits"
      using bv_set8_total [of pc bits] by auto
    then have "pc + 8 + (n - 8) < 8 * length b"
      using True "1.prems" by simp
    from "1.IH" [OF True b(1) this] obtain n' b' where "bitmap_loop8 (n - 8) (pc + 8) b = Some (n', pc + 8 + (n - 8) - n', b')"
      and n': "n' < 8" "n' \<le> n - 8" "length b' = length b"
      and bit: "\<forall>p. bit_at b' p \<longleftrightarrow> bit_at b p \<or> pc + 8 \<le> p \<and> p < pc + 8 + (n - 8) - n'"
      by blast
    then have "bitmap_loop8 n pc bits = Some (n', pc + n - n', b')"
      using True b(1) by (simp add: bitmap_loop8.simps [of n])
    moreover have "bit_at b' p \<longleftrightarrow> bit_at bits p \<or> pc \<le> p \<and> p < pc + n - n'" for p
      using interval_join [of pc "pc + 8" "pc + 8 + (n - 8) - n'"] True n'
      unfolding spec [OF bit, of p] bv_set8_bit [OF b(1), of p] by simp
    ultimately show ?thesis
      using n' b by (intro exI [of _ n'] exI [of _ b']) simp
  qed (auto simp: bitmap_loop8.simps [of n])
qed

lemma bitmap_loop1_spec:
  assumes "pc + n \<le> 8 * length bits"
  shows "\<exists>b. bitmap_loop1 n pc bits = Some (pc + n, b) \<and> length b = length bits \<and>
    (\<forall>p. bit_at b p \<longleftrightarrow> bit_at bits p \<or> pc \<le> p \<and> p < pc + n)"
  using assms
proof (induction n arbitrary: pc bits)
  case (Suc n)
  then obtain b where b: "bv_set bits pc = Some b" "length b = length bits"
    using bv_set_total [of pc bits] by auto
  with Suc.prems obtain b' where "bitmap_loop1 n (pc + 1) b = Some (pc + 1 + n, b')" "length b' = length b"
    and bit: "\<forall>p. bit_at b' p \<longleftrightarrow> bit_at b p \<or> pc + 1 \<le> p \<and> p < pc + 1 + n"
    using Suc.IH [of "pc + 1" b] by auto
  moreover have "bit_at b' p \<longleftrightarrow> bit_at bits p \<or> pc \<le> p \<and> p < pc + Suc n" for p
    using spec [OF bit, of p] bv_set_bit [OF b(1), of p] by (simp, linarith)
  ultimately show ?case
    using b by (intro exI [of _ b']) simp
qed auto

lemma bitmap_push_spec:
  assumes "pc + n < 8 * length bits"
  shows "\<exists>b. bitmap_push n pc bits = Some (pc + n, b) \<and> length b = length bits \<and>
    (\<forall>p. bit_at b p \<longleftrightarrow> bit_at bits p \<or> pc \<le> p \<and> p < pc + n)"
proof -
  obtain n' b where b: "bitmap_loop8 n pc bits = Some (n', pc + n - n', b)" "n' < 8" "n' \<le> n"
    "length b = length bits" "\<forall>p. bit_at b p \<longleftrightarrow> bit_at bits p \<or> pc \<le> p \<and> p < pc + n - n'"
    using bitmap_loop8_spec [OF assms] by blast
  moreover from this assms obtain b' where "bitmap_loop1 n' (pc + n - n') b = Some (pc + n, b')"
    "length b' = length b" "\<forall>p. bit_at b' p \<longleftrightarrow> bit_at b p \<or> pc + n - n' \<le> p \<and> p < pc + n"
    using bitmap_loop1_spec [of "pc + n - n'" n' b] by auto
  ultimately show ?thesis
    by (auto simp: bitmap_push_def)
qed

lemma data_mask_nth:
  "i < length bs \<Longrightarrow> data_mask k bs ! i \<longleftrightarrow> i < k \<or> data_mask 0 (drop k bs) ! (i - k)"
proof (induction k arbitrary: bs i)
  case (Suc k)
  then obtain b bs' where "bs = b # bs'"
    by (cases bs) auto
  with Suc show ?case
    by (cases i) auto
qed simp

lemma data_mask_step:
  assumes "pc < length code" "p < length code"
  shows "pc \<le> p \<and> data_mask 0 (drop pc code) ! (p - pc) \<longleftrightarrow>
    pc + 1 \<le> p \<and> p < pc + 1 + push_args (code ! pc) \<or>
    pc + 1 + push_args (code ! pc) \<le> p \<and>
      data_mask 0 (drop (pc + 1 + push_args (code ! pc)) code) ! (p - (pc + 1 + push_args (code ! pc)))"
proof (cases "pc < p")
  case True
  have "data_mask 0 (drop pc code) ! (p - pc) = data_mask (push_args (code ! pc)) (drop (pc + 1) code) ! (p - pc - 1)"
    using assms True by (simp add: Cons_nth_drop_Suc [symmetric] nth_Cons' del: drop_Suc)
  also have "\<dots> \<longleftrightarrow> p - pc - 1 < push_args (code ! pc) \<or>
      data_mask 0 (drop (push_args (code ! pc)) (drop (pc + 1) code)) ! (p - pc - 1 - push_args (code ! pc))"
    using assms True by (intro data_mask_nth) simp
  finally show ?thesis
    using True by (auto simp: add.commute)
next
  case False
  then show ?thesis
    using assms by (auto simp: Cons_nth_drop_Suc [symmetric] le_less simp del: drop_Suc)
qed

lemma push_args_le: "push_args op \<le> 32"
  by (auto simp: push_args_def IsPush_range word_le_nat_alt)

lemma push_args_numbits: "IsPush op \<Longrightarrow> unat (op - PUSH1 + 1) = push_args op"
  by (simp add: push_args_def IsPush_range word_le_nat_alt unat_sub unat_arith_simps)

lemma bitmap_loop_spec:
  assumes "length code + 33 \<le> 8 * length bits"
  shows "\<exists>b. bitmap_loop code pc bits = Some b \<and> length b = length bits \<and>
    (\<forall>p<length code. bit_at b p \<longleftrightarrow> bit_at bits p \<or> pc \<le> p \<and> data_mask 0 (drop pc code) ! (p - pc))"
  using assms
proof (induction code pc bits rule: bitmap_loop.induct)
  case (1 code pc bits)
  let ?n = "push_args (code ! pc)"
  consider "length code \<le> pc" | "pc < length code" "IsPush (code ! pc)" | "pc < length code" "\<not> IsPush (code ! pc)"
    by linarith
  then show ?case
  proof cases
    case 1
    then show ?thesis by (auto simp: bitmap_loop.simps)
  next
    case 2
    have "pc + 1 + ?n < 8 * length bits"
      using 2(1) "1.prems" push_args_le [of "code ! pc"] by linarith
    from bitmap_push_spec [OF this] obtain b where
      b: "bitmap_push ?n (pc + 1) bits = Some (pc + 1 + ?n, b)" "length b = length bits"
        "\<forall>p. bit_at b p \<longleftrightarrow> bit_at bits p \<or> pc + 1 \<le> p \<and> p < pc + 1 + ?n" by blast
    have "\<exists>b'. bitmap_loop code (pc + 1 + ?n) b = Some b' \<and> length b' = length b \<and> (\<forall>p<length code.
        bit_at b' p \<longleftrightarrow> bit_at b p \<or> pc + 1 + ?n \<le> p \<and> data_mask 0 (drop (pc + 1 + ?n) code) ! (p - (pc + 1 + ?n)))"
      using "1.IH"(1) [OF 2(1) refl 2(2) [unfolded IsPush_range], of "(pc + 1 + ?n, b)"] b(1,2) "1.prems"
        push_args_numbits [OF 2(2)] by simp
    then show ?thesis
      using 2 b data_mask_step [of pc code] push_args_numbits [OF 2(2), simplified]
      by (auto simp: bitmap_loop.simps [of code pc] IsPush_range)
  next
    case 3
    then have "?n = 0" by (simp add: push_args_def)
    then show ?thesis
      using "1.IH"(2) [OF 3(1) refl 3(2) [unfolded IsPush_range]] "1.prems" 3 data_mask_step [of pc code]
      by (auto simp: bitmap_loop.simps [of code pc] IsPush_range Let_def)
  qed
qed

lemma codeBitmap_spec:
  "\<exists>bits. codeBitmap code = Some bits \<and> length bits = length code div 8 + 5 \<and>
    (\<forall>p<length code. codeSegment bits p = Some (\<not> data_mask 0 code ! p))"
proof -
  let ?z = "replicate (length code div 8 + 1 + 4) 0 :: bitvec"
  have "length code + 33 \<le> 8 * length ?z"
    using div_mult_mod_eq [of "length code" 8] by simp
  from bitmap_loop_spec [OF this, of 0] obtain b where b: "codeBitmap code = Some b" "length b = length ?z"
    "\<forall>p<length code. bit_at b p \<longleftrightarrow> bit_at ?z p \<or> data_mask 0 code ! p"
    by (auto simp: codeBitmap_def)
  have "codeSegment b p = Some (\<not> data_mask 0 code ! p)" if "p < length code" for p
  proof -
    have "p div 8 < length ?z"
      using that div_le_mono [of p "length code" 8] by simp
    with that b show ?thesis
      by (auto simp: codeSegment_def bit_at_def)
  qed
  with b show ?thesis by auto
qed

definition coherent :: "destinations \<Rightarrow> Hash \<Rightarrow> bytes \<Rightarrow> bool" where
  "coherent d h code \<longleftrightarrow> (case d h of None \<Rightarrow> True | Some m \<Rightarrow> codeBitmap code = Some m)"

lemma has_spec:
  assumes "coherent d h code" "0 \<le> dest" "length code \<le> 2 ^ 62"
  shows "\<exists>d'. has d h code dest = Some (valid_jumpdest code dest, d') \<and> coherent d' h code \<and>
    (\<forall>h'. h' \<noteq> h \<longrightarrow> d' h' = d h')"
proof (cases "BitLen dest \<ge> 63 \<or> unat (Uint64 dest) \<ge> length code")
  case True
  have "int (length code) \<le> dest"
  proof (cases "BitLen dest \<ge> 63")
    case True
    then have "2 ^ 62 \<le> dest" using BitLen_gt [of 62 dest] assms(2) by simp
    with assms(3) show ?thesis by (meson of_nat_le_numeral_power_cancel_iff order_trans)
  next
    case False
    then have "dest < 2 ^ 62" using BitLen_gt [of 62 dest] assms(2) by simp
    then have "unat (Uint64 dest) = nat dest" using assms(2) by (simp add: unat_Uint64)
    with True False assms(2) show ?thesis by simp
  qed
  with True assms(1) show ?thesis by (simp add: has_def valid_jumpdest_def)
next
  case False
  then have "dest < 2 ^ 62" using BitLen_gt [of 62 dest] assms(2) by simp
  then have u: "unat (Uint64 dest) = nat dest" using assms(2) by (simp add: unat_Uint64)
  with False have l: "nat dest < length code" by simp
  obtain bits where bits: "codeBitmap code = Some bits" "codeSegment bits (nat dest) = Some (\<not> data_mask 0 code ! nat dest)"
    using codeBitmap_spec [of code] l by blast
  have "valid_jumpdest code dest \<longleftrightarrow> code ! nat dest = JUMPDEST \<and> \<not> data_mask 0 code ! nat dest"
    using l assms(2) by (auto simp: valid_jumpdest_def)
  with False u bits assms(1) show ?thesis
    by (cases "d h") (auto simp: has_def coherent_def)
qed

section \<open>Properties\<close>

text \<open>
  C23. The jump destination bitmap: building it never runs out of the vector, and for every byte of the
  code it says "code segment" exactly when a left-to-right scan finds that the byte is not an argument
  of a push instruction.
\<close>

theorem codeBitmap_correct:
  "\<exists>bits. codeBitmap code = Some bits \<and> length bits = length code div 8 + 5 \<and>
    (\<forall>p<length code. codeSegment bits p = Some (\<not> data_mask 0 code ! p))"
  by (rule codeBitmap_spec)

theorem codeBitmap_correct_witness:
  "\<exists>bits. codeBitmap [PUSH2, 0x5b, 0x5b, 0x5b] = Some bits \<and> length bits = 5 \<and>
    codeSegment bits 2 = Some False \<and> codeSegment bits 3 = Some True"
proof -
  have "length [PUSH2, 0x5b, 0x5b, 0x5b :: u8] = 4" by simp
  with codeBitmap_correct [of "[PUSH2, 0x5b, 0x5b, 0x5b]"]
  obtain bits where b: "codeBitmap [PUSH2, 0x5b, 0x5b, 0x5b] = Some bits" "length bits = 5"
    "\<forall>p<4. codeSegment bits p = Some (\<not> data_mask 0 [PUSH2, 0x5b, 0x5b, 0x5b] ! p)" by auto
  have "data_mask 0 [PUSH2, 0x5b, 0x5b, 0x5b] = [False, True, True, False]"
    by code_simp
  with b show ?thesis
    by (intro exI [of _ bits]) (simp add: numeral_eq_Suc)
qed

text \<open>
  C18. The cached check of a jump target: with a cache that agrees with the code, \<^verbatim>\<open>has\<close> never panics,
  accepts exactly the JUMPDEST bytes that are not push arguments, and leaves a cache that agrees again.
\<close>

theorem has_correct:
  assumes "coherent d h code" "0 \<le> dest" "length code \<le> 2 ^ 62"
  shows "\<exists>d'. has d h code dest = Some (valid_jumpdest code dest, d') \<and> coherent d' h code"
  using has_spec [OF assms] by blast

theorem has_correct_witness:
  "\<exists>d'. has Map.empty zeroHash [0, JUMPDEST] 1 = Some (True, d') \<and> coherent d' zeroHash [0, JUMPDEST]"
proof -
  have "valid_jumpdest [0, JUMPDEST] 1"
    by (simp add: valid_jumpdest_def push_args_def IsPush_range)
  with has_correct [of Map.empty zeroHash "[0, JUMPDEST]" 1] show ?thesis
    by (simp add: coherent_def)
qed

text \<open>
  C40. The precondition matters. Let the cache hold, under the hash of the running code, the bitmap of another
  program \<open>short\<close>, a vector of \<open>l\<close> bytes, and let position \<open>p\<close> of the code be a JUMPDEST byte. The check panics (index out of
  range) exactly when \<open>p div 8 = l\<close>: the guard of \<^verbatim>\<open>codeSegment\<close> is off by one. Beyond that it rejects the
  destination, and within \<open>short\<close> it answers for the bytes of \<open>short\<close>. Contracts loaded from the account database
  all carry the zero code hash, and nested calls share the cache.
\<close>

theorem has_stale_cache_panics:
  assumes "d h = Some bits" "codeBitmap short = Some bits" "p < length code" "code ! p = JUMPDEST" "p < 2 ^ 62"
  defines "l \<equiv> length short div 8 + 5"
  shows "(has d h code (int p) = None \<longleftrightarrow> p div 8 = l) \<and>
    (l < p div 8 \<longrightarrow> has d h code (int p) = Some (False, d)) \<and>
    (p < length short \<longrightarrow> has d h code (int p) = Some (\<not> data_mask 0 short ! p, d))"
proof -
  have "int p < 2 ^ 62" using assms(5) by simp
  then have "\<not> 63 \<le> BitLen (int p)" "unat (Uint64 (int p)) = p"
    using BitLen_gt [of 62 "int p"] unat_Uint64 [of "int p"] by simp_all
  moreover have "length bits = l" "\<forall>q<length short. codeSegment bits q = Some (\<not> data_mask 0 short ! q)"
    using codeBitmap_spec [of short] assms(2) by (auto simp: l_def)
  ultimately show ?thesis using assms(1,3,4) by (auto simp: has_def codeSegment_def)
qed

theorem has_stale_cache_panics_witness:
  "\<exists>bits. codeBitmap [0] = Some bits \<and>
    has [zeroHash \<mapsto> bits] zeroHash (replicate 40 0 @ [JUMPDEST] @ replicate 7 0) 40 = None"
proof -
  obtain bits where "codeBitmap [0] = Some bits"
    using codeBitmap_spec [of "[0]"] by blast
  with has_stale_cache_panics [of "[zeroHash \<mapsto> bits]" zeroHash bits "[0]" 40 "replicate 40 0 @ [JUMPDEST] @ replicate 7 0"] show ?thesis
    by (simp add: nth_append)
qed

end
