(* ===== verification/EVM_Types.thy ===== *)
theory EVM_Types
  imports VM_Data StateDB Analysis
begin

text \<open>
  The objects an execution works on: errors (\<^verbatim>\<open>src/core/vm/errors.go\<close>, \<^verbatim>\<open>instructions.go\<close>,
  \<^verbatim>\<open>contracts.go\<close>), the contract environment (\<^verbatim>\<open>contract.go\<close>), the EVM with its interpreter state
  (\<^verbatim>\<open>evm.go\<close>, \<^verbatim>\<open>interpreter.go\<close>) and the frame of one run of the interpreter.
\<close>

section \<open>Errors\<close>

datatype Error =
    ErrOutOfGas
  | ErrCodeStoreOutOfGas
  | ErrDepth
  | ErrTraceLimitReached
  | ErrInsufficientBalance
  | ErrContractAddressCollision
  | errWriteProtection
  | errReturnDataOutOfBounds
  | errExecutionReverted
  | errMaxCodeSizeExceeded
  | errGasUintOverflow
  | errInvalidOpcode OpCode
  | errStackUnderflow nat nat
  | errStackLimit nat nat
  | errInvalidJump OpCode int
  | errNotOnCurve
  | errInvalidCurvePoint
  | errBadPairingInput

type_synonym 'a eres = "(Error, 'a) fallible"

section \<open>Contracts\<close>

record Contract =
  ct_CallerAddress :: Address
  ct_self :: Address
  ct_jumpdests :: destinations
  ct_Code :: bytes
  ct_CodeHash :: Hash
  ct_CodeAddr :: "Address option"
  ct_Input :: bytes
  ct_Gas :: u64
  ct_value :: "int option"
  ct_DelegateCall :: bool

text \<open>
  A caller is an external account or a running contract.  The field \<^verbatim>\<open>caller\<close> of the source is only
  read while the contract is set up, so it is an argument of the constructors here.
\<close>

datatype ContractRef = AccountRef Address | CallerContract Contract

definition ref_Address :: "ContractRef \<Rightarrow> Address" where
  "ref_Address r = (case r of AccountRef a \<Rightarrow> a | CallerContract c \<Rightarrow> ct_self c)"

definition ref_jumpdests :: "ContractRef \<Rightarrow> destinations" where
  "ref_jumpdests r = (case r of AccountRef a \<Rightarrow> Map.empty | CallerContract c \<Rightarrow> ct_jumpdests c)"

definition NewContract :: "ContractRef \<Rightarrow> Address \<Rightarrow> int option \<Rightarrow> u64 \<Rightarrow> Contract" where
  "NewContract caller object value gas =
    \<lparr>ct_CallerAddress = ref_Address caller, ct_self = object, ct_jumpdests = ref_jumpdests caller,
     ct_Code = [], ct_CodeHash = zeroHash, ct_CodeAddr = None, ct_Input = [],
     ct_Gas = gas, ct_value = value, ct_DelegateCall = False\<rparr>"

text \<open>The type assertion \<^verbatim>\<open>c.caller.(*Contract)\<close> panics for an external account.\<close>

definition AsDelegate :: "ContractRef \<Rightarrow> Contract \<Rightarrow> Contract option" where
  "AsDelegate caller c =
    (case caller of
       AccountRef a \<Rightarrow> None
     | CallerContract parent \<Rightarrow>
         Some (c\<lparr>ct_DelegateCall := True, ct_CallerAddress := ct_CallerAddress parent,
                 ct_value := ct_value parent\<rparr>))"

definition GetByte :: "Contract \<Rightarrow> u64 \<Rightarrow> u8" where
  "GetByte c n = (if unat n < length (ct_Code c) then ct_Code c ! unat n else 0)"

definition GetOp :: "Contract \<Rightarrow> u64 \<Rightarrow> OpCode" where
  "GetOp c n = GetByte c n"

definition UseGas :: "Contract \<Rightarrow> u64 \<Rightarrow> bool \<times> Contract" where
  "UseGas c gas = (if ct_Gas c < gas then (False, c) else (True, c\<lparr>ct_Gas := ct_Gas c - gas\<rparr>))"

definition ct_SetCode :: "Contract \<Rightarrow> Hash \<Rightarrow> bytes \<Rightarrow> Contract" where
  "ct_SetCode c h code = c\<lparr>ct_Code := code, ct_CodeHash := h\<rparr>"

definition SetCallCode :: "Contract \<Rightarrow> Address \<Rightarrow> Hash \<Rightarrow> bytes \<Rightarrow> Contract" where
  "SetCallCode c addr h code = c\<lparr>ct_Code := code, ct_CodeHash := h, ct_CodeAddr := Some addr\<rparr>"

section \<open>The EVM\<close>

record Context =
  CanTransferFunc :: "StateDB \<Rightarrow> Address \<Rightarrow> int \<Rightarrow> (bool \<times> StateDB) option"
  TransferFunc :: "StateDB \<Rightarrow> Address \<Rightarrow> Address \<Rightarrow> int \<Rightarrow> StateDB"
  GetHashFunc :: "u64 \<Rightarrow> Hash"
  Origin :: Address
  GasPrice :: int
  Coinbase :: Address
  GasLimit :: u64
  BlockNumber :: int
  Time :: int
  Difficulty :: int

record Config =
  NoRecursion :: bool
  DisableGasMetering :: bool
  EnablePreimageRecording :: bool

text \<open>The three instruction tables of \<^verbatim>\<open>jump_table.go\<close> that \<^verbatim>\<open>NewInterpreter\<close> chooses from.\<close>

datatype InstructionSet = frontierInstructionSet | homesteadInstructionSet | byzantiumInstructionSet

text \<open>
  Cryptographic code reached from the precompiled contracts that is not modelled: the secp256k1
  recovery (a C library), RIPEMD-160 and the curve arithmetic.  A G1 point is given by the four
  integers \<^verbatim>\<open>CurvePoints\<close> returns, a G2 point by four pairs (imaginary and real part).
\<close>

type_synonym G1 = "int \<times> int \<times> int \<times> int"
type_synonym G2 = "(int \<times> int) \<times> (int \<times> int) \<times> (int \<times> int) \<times> (int \<times> int)"

record Crypto =
  cr_Ecrecover :: "bytes \<Rightarrow> bytes \<Rightarrow> bytes option"
  cr_ripemd160 :: "bytes \<Rightarrow> bytes"
  cr_G1_Unmarshal :: "bytes \<Rightarrow> G1 \<times> bool"
  cr_G1_Add :: "G1 \<Rightarrow> G1 \<Rightarrow> G1"
  cr_G1_ScalarMult :: "G1 \<Rightarrow> int \<Rightarrow> G1"
  cr_G1_Marshal :: "G1 \<Rightarrow> bytes"
  cr_G2_Unmarshal :: "bytes \<Rightarrow> G2 \<times> bool"
  cr_PairingCheck :: "G1 list \<Rightarrow> G2 list \<Rightarrow> bool"

text \<open>
  The EVM object with the fields of its only interpreter (prefix \<open>in_\<close>).  \<open>evm_events\<close> lists the
  calls of \<^verbatim>\<open>evm.Callback\<close>, oldest first: the storage location and the value.
\<close>

datatype CallbackSite = opSload_site | opSstore_site

record EVM =
  evm_ctx :: Context
  evm_StateDB :: StateDB
  evm_depth :: nat
  evm_chainConfig :: ChainConfig
  evm_chainRules :: Rules
  evm_vmConfig :: Config
  evm_abort :: bool
  evm_callGasTemp :: u64
  evm_events :: "(CallbackSite \<times> Hash \<times> int) list"
  evm_crypto :: Crypto
  in_JumpTable :: InstructionSet
  in_gasTable :: GasTable
  in_intPool :: Stack
  in_readOnly :: bool
  in_returnData :: bytes

abbreviation evm_BlockNumber :: "EVM \<Rightarrow> int" where
  "evm_BlockNumber evm \<equiv> BlockNumber (evm_ctx evm)"

definition evm_isEIP150 :: "EVM \<Rightarrow> bool" where
  "evm_isEIP150 evm = IsEIP150 (evm_chainConfig evm) (Some (evm_BlockNumber evm))"

definition evm_isEIP158 :: "EVM \<Rightarrow> bool" where
  "evm_isEIP158 evm = IsEIP158 (evm_chainConfig evm) (Some (evm_BlockNumber evm))"

definition evm_isHomestead :: "EVM \<Rightarrow> bool" where
  "evm_isHomestead evm = IsHomestead (evm_chainConfig evm) (Some (evm_BlockNumber evm))"

definition evm_isByzantium :: "EVM \<Rightarrow> bool" where
  "evm_isByzantium evm = IsByzantium (evm_chainConfig evm) (Some (evm_BlockNumber evm))"

definition NewInterpreter_JumpTable :: "ChainConfig \<Rightarrow> int \<Rightarrow> InstructionSet" where
  "NewInterpreter_JumpTable cfg num =
    (if IsByzantium cfg (Some num) then byzantiumInstructionSet
     else if IsHomestead cfg (Some num) then homesteadInstructionSet
     else frontierInstructionSet)"

definition NewEVM :: "Crypto \<Rightarrow> Context \<Rightarrow> StateDB \<Rightarrow> ChainConfig \<Rightarrow> Config \<Rightarrow> EVM" where
  "NewEVM crypto ctx statedb chainConfig vmConfig =
    \<lparr>evm_ctx = ctx, evm_StateDB = statedb, evm_depth = 0, evm_chainConfig = chainConfig,
     evm_chainRules = Rules_of chainConfig (Some (BlockNumber ctx)), evm_vmConfig = vmConfig,
     evm_abort = False, evm_callGasTemp = 0, evm_events = [], evm_crypto = crypto,
     in_JumpTable = NewInterpreter_JumpTable chainConfig (BlockNumber ctx),
     in_gasTable = GasTable_of chainConfig (Some (BlockNumber ctx)),
     in_intPool = newstack, in_readOnly = False, in_returnData = []\<rparr>"

definition Cancel :: "EVM \<Rightarrow> EVM" where
  "Cancel evm = evm\<lparr>evm_abort := True\<rparr>"

section \<open>Frames\<close>

text \<open>The arguments of an \<^verbatim>\<open>executionFunc\<close>; all of them are references the function may update.\<close>

record Frame =
  fr_pc :: u64
  fr_evm :: EVM
  fr_contract :: Contract
  fr_mem :: Memory
  fr_stack :: Stack

type_synonym exec_res = "(Frame \<times> bytes \<times> Error option) res"

text \<open>The result of running a contract: the EVM, the contract, the returned bytes, the error.\<close>

type_synonym run_res = "(EVM \<times> Contract \<times> bytes \<times> Error option) res"
type_synonym run_fn = "EVM \<Rightarrow> Contract \<Rightarrow> bytes \<Rightarrow> run_res"

definition popk :: "Frame \<Rightarrow> (int \<Rightarrow> Frame \<Rightarrow> 'r res) \<Rightarrow> 'r res" where
  "popk fr k = (case pop (fr_stack fr) of None \<Rightarrow> Panic | Some (x, st) \<Rightarrow> k x (fr\<lparr>fr_stack := st\<rparr>))"

definition fpush :: "int \<Rightarrow> Frame \<Rightarrow> Frame" where
  "fpush x fr = fr\<lparr>fr_stack := push (fr_stack fr) x\<rparr>"

definition fdb :: "(StateDB \<Rightarrow> StateDB) \<Rightarrow> Frame \<Rightarrow> Frame" where
  "fdb f fr = fr\<lparr>fr_evm := (fr_evm fr)\<lparr>evm_StateDB := f (evm_StateDB (fr_evm fr))\<rparr>\<rparr>"

text \<open>
  The integer pool of the interpreter.  \<open>fget\<close> takes an integer out; every caller overwrites it at
  once, so its value does not matter.  \<open>fput\<close> gives integers back; the pool records the operand as
  it was popped.
\<close>

definition fget :: "Frame \<Rightarrow> Frame" where
  "fget fr = fr\<lparr>fr_evm := (fr_evm fr)\<lparr>in_intPool := snd (pool_get (in_intPool (fr_evm fr)))\<rparr>\<rparr>"

definition fput :: "int list \<Rightarrow> Frame \<Rightarrow> Frame" where
  "fput is fr = fr\<lparr>fr_evm := (fr_evm fr)\<lparr>in_intPool := pool_put (in_intPool (fr_evm fr)) is\<rparr>\<rparr>"

definition fok :: "Frame \<Rightarrow> exec_res" where
  "fok fr = Done (fr, [], None)"

definition fret :: "bytes \<Rightarrow> Frame \<Rightarrow> exec_res" where
  "fret bs fr = Done (fr, bs, None)"

definition ferr :: "Error \<Rightarrow> Frame \<Rightarrow> exec_res" where
  "ferr e fr = Done (fr, [], Some e)"

definition self_Address :: "Frame \<Rightarrow> Address" where
  "self_Address fr = ct_self (fr_contract fr)"

end
