(* ===== verification/Gas.thy ===== *)
theory Gas
  imports EVM_Types
begin

text \<open>
  Data access and gas arithmetic: \<^verbatim>\<open>src/core/vm/common.go\<close>, \<^verbatim>\<open>gas.go\<close>, \<^verbatim>\<open>gas_table.go\<close> and
  \<^verbatim>\<open>memory_table.go\<close>.  All gas values are 64-bit words and every sum of the source is the wrapping one
  of the word type.
\<close>

section \<open>Data access (common.go)\<close>

definition calcMemSize :: "int \<Rightarrow> int \<Rightarrow> int" where
  "calcMemSize off l = (if l = 0 then 0 else off + l)"

definition getData :: "bytes \<Rightarrow> u64 \<Rightarrow> u64 \<Rightarrow> bytes option" where
  "getData data start sz =
    (let len = of_nat (length data);
         start = (if start > len then len else start);
         e = start + sz;
         e = (if e > len then len else e)
     in map_option (\<lambda>d. RightPadBytes d (sint sz)) (Prelude.slice data (unat start) (unat e)))"

definition getDataBig :: "bytes \<Rightarrow> int \<Rightarrow> int \<Rightarrow> bytes option" where
  "getDataBig data start sz =
    (let dlen = int (length data);
         s = BigMin start dlen;
         e = BigMin (s + sz) dlen
     in map_option (\<lambda>d. RightPadBytes d (sint (Uint64 sz)))
          (Prelude.slice data (unat (Uint64 s)) (unat (Uint64 e))))"

definition bigUint64 :: "int \<Rightarrow> u64 \<times> bool" where
  "bigUint64 v = (Uint64 v, BitLen v > 64)"

definition toWordSize :: "u64 \<Rightarrow> u64" where
  "toWordSize sz = (if sz > MaxUint64 - 31 then MaxUint64 div 32 + 1 else (sz + 31) div 32)"

definition allZero :: "bytes \<Rightarrow> bool" where
  "allZero b = list_all (\<lambda>x. x = 0) b"

section \<open>Gas of calls (gas.go)\<close>

definition GasQuickStep :: u64 where "GasQuickStep = 2"
definition GasFastestStep :: u64 where "GasFastestStep = 3"
definition GasFastStep :: u64 where "GasFastStep = 5"
definition GasMidStep :: u64 where "GasMidStep = 8"
definition GasSlowStep :: u64 where "GasSlowStep = 10"
definition GasExtStep :: u64 where "GasExtStep = 20"

lemmas step_gas_defs = GasQuickStep_def GasFastestStep_def GasFastStep_def GasMidStep_def
  GasSlowStep_def GasExtStep_def

definition callGas :: "GasTable \<Rightarrow> u64 \<Rightarrow> u64 \<Rightarrow> int \<Rightarrow> Error + u64" where
  "callGas gasTable availableGas base callCost =
    (let availableGas' = availableGas - base;
         gas = availableGas' - availableGas' div 64
     in if CreateBySuicide gasTable > 0 \<and> (BitLen callCost > 64 \<or> gas < Uint64 callCost) then Inr gas
        else if BitLen callCost > 64 then Inl errGasUintOverflow
        else Inr (Uint64 callCost))"

section \<open>Memory sizes (memory_table.go)\<close>

text \<open>The memory an instruction touches, from the operands on the stack; \<open>None\<close> when one is missing.\<close>

type_synonym memorySizeFunc = "Stack \<Rightarrow> int option"

definition back_size :: "nat \<Rightarrow> nat \<Rightarrow> memorySizeFunc" where
  "back_size i j stack =
    (case (Back stack i, Back stack j) of
       (Some off, Some l) \<Rightarrow> Some (calcMemSize off l)
     | _ \<Rightarrow> None)"

definition back_size2 :: "nat \<Rightarrow> nat \<Rightarrow> nat \<Rightarrow> nat \<Rightarrow> memorySizeFunc" where
  "back_size2 i j k l stack =
    (case (back_size i j stack, back_size k l stack) of
       (Some x, Some y) \<Rightarrow> Some (BigMax x y)
     | _ \<Rightarrow> None)"

definition memorySha3 :: memorySizeFunc where "memorySha3 = back_size 0 1"
definition memoryCallDataCopy :: memorySizeFunc where "memoryCallDataCopy = back_size 0 2"
definition memoryReturnDataCopy :: memorySizeFunc where "memoryReturnDataCopy = back_size 0 2"
definition memoryCodeCopy :: memorySizeFunc where "memoryCodeCopy = back_size 0 2"
definition memoryExtCodeCopy :: memorySizeFunc where "memoryExtCodeCopy = back_size 1 3"

definition memoryMLoad :: memorySizeFunc where
  "memoryMLoad stack = map_option (\<lambda>off. calcMemSize off 32) (Back stack 0)"

definition memoryMStore8 :: memorySizeFunc where
  "memoryMStore8 stack = map_option (\<lambda>off. calcMemSize off 1) (Back stack 0)"

definition memoryMStore :: memorySizeFunc where
  "memoryMStore stack = map_option (\<lambda>off. calcMemSize off 32) (Back stack 0)"

definition memoryCreate :: memorySizeFunc where "memoryCreate = back_size 1 2"
definition memoryCall :: memorySizeFunc where "memoryCall = back_size2 5 6 3 4"
definition memoryCallCode :: memorySizeFunc where "memoryCallCode = back_size2 5 6 3 4"
definition memoryDelegateCall :: memorySizeFunc where "memoryDelegateCall = back_size2 4 5 2 3"
definition memoryStaticCall :: memorySizeFunc where "memoryStaticCall = back_size2 4 5 2 3"
definition memoryReturn :: memorySizeFunc where "memoryReturn = back_size 0 1"
definition memoryRevert :: memorySizeFunc where "memoryRevert = back_size 0 1"
definition memoryLog :: memorySizeFunc where "memoryLog = back_size 0 1"

lemmas memory_size_defs = memorySha3_def memoryCallDataCopy_def memoryReturnDataCopy_def
  memoryCodeCopy_def memoryExtCodeCopy_def memoryMLoad_def memoryMStore8_def memoryMStore_def
  memoryCreate_def memoryCall_def memoryCallCode_def memoryDelegateCall_def memoryStaticCall_def
  memoryReturn_def memoryRevert_def memoryLog_def

section \<open>Gas functions (gas_table.go)\<close>

definition memoryGasCost :: "Memory \<Rightarrow> u64 \<Rightarrow> (Error + u64) \<times> Memory" where
  "memoryGasCost mem newMemSize =
    (if newMemSize = 0 then (Inr 0, mem)
     else if newMemSize > 0xffffffffe0 then (Inl errGasUintOverflow, mem)
     else
       (let newMemSizeWords = toWordSize newMemSize;
            newMemSize = newMemSizeWords * 32
        in if newMemSize > of_nat (mem_Len mem) then
             (let square = newMemSizeWords * newMemSizeWords;
                  linCoef = newMemSizeWords * MemoryGas;
                  quadCoef = square div QuadCoeffDiv;
                  newTotalFee = linCoef + quadCoef;
                  fee = newTotalFee - mem_lastGasCost mem
              in (Inr fee, mem\<lparr>mem_lastGasCost := newTotalFee\<rparr>))
           else (Inr 0, mem)))"

text \<open>The overflow-checked steps \<^verbatim>\<open>if gas, overflow = math.SafeAdd(...); overflow { return 0, err }\<close>.\<close>

definition safe_add :: "u64 \<Rightarrow> u64 \<Rightarrow> u64 eres" where
  "safe_add x y = (case SafeAdd x y of (r, overflow) \<Rightarrow> if overflow then efail errGasUintOverflow else eok r)"

definition safe_mul :: "u64 \<Rightarrow> u64 \<Rightarrow> u64 eres" where
  "safe_mul x y = (case SafeMul x y of (r, overflow) \<Rightarrow> if overflow then efail errGasUintOverflow else eok r)"

definition big_u64 :: "int \<Rightarrow> u64 eres" where
  "big_u64 v = (case bigUint64 v of (r, overflow) \<Rightarrow> if overflow then efail errGasUintOverflow else eok r)"

text \<open>
  A gas function may update the EVM (the account database, \<^verbatim>\<open>callGasTemp\<close>) and the memory's last gas
  cost, and returns the cost.
\<close>

type_synonym gasFunc =
  "GasTable \<Rightarrow> EVM \<Rightarrow> Contract \<Rightarrow> Stack \<Rightarrow> Memory \<Rightarrow> u64 \<Rightarrow> EVM \<times> Memory \<times> u64 eres"

definition constGasFunc :: "u64 \<Rightarrow> gasFunc" where
  "constGasFunc gas gt evm contract stack mem memorySize = (evm, mem, eok gas)"

text \<open>The copy instructions charge a base and a price per word copied.\<close>

definition copy_gas :: "u64 \<Rightarrow> nat \<Rightarrow> Stack \<Rightarrow> u64 \<Rightarrow> u64 eres" where
  "copy_gas base n stack gas =
    ebind (safe_add gas base) (\<lambda>gas.
    ebind (eopt (Back stack n)) (\<lambda>l.
    ebind (big_u64 l) (\<lambda>words.
    ebind (safe_mul (toWordSize words) CopyGas) (\<lambda>words.
    safe_add gas words))))"

definition gasCallDataCopy :: gasFunc where
  "gasCallDataCopy gt evm contract stack mem memorySize =
    (let (r, mem) = memoryGasCost mem memorySize in
     (evm, mem, ebind (Done r) (copy_gas GasFastestStep 2 stack)))"

definition gasReturnDataCopy :: gasFunc where
  "gasReturnDataCopy gt evm contract stack mem memorySize =
    (let (r, mem) = memoryGasCost mem memorySize in
     (evm, mem, ebind (Done r) (copy_gas GasFastestStep 2 stack)))"

definition gasSStore :: gasFunc where
  "gasSStore gt evm contract stack mem memorySize =
    (case (Back stack 1, Back stack 0) of
       (Some y, Some x) \<Rightarrow>
         (let (val, db) = GetState (evm_StateDB evm) (ct_self contract) (BigToHash x);
              evm = evm\<lparr>evm_StateDB := db\<rparr>
          in if EmptyHash val \<and> \<not> EmptyHash (BigToHash y) then (evm, mem, eok SstoreSetGas)
             else if \<not> EmptyHash val \<and> EmptyHash (BigToHash y) then
               (evm\<lparr>evm_StateDB := AddRefund db SstoreRefundGas\<rparr>, mem, eok SstoreClearGas)
             else (evm, mem, eok SstoreResetGas))
     | _ \<Rightarrow> (evm, mem, Panic))"

definition makeGasLog :: "u64 \<Rightarrow> gasFunc" where
  "makeGasLog n gt evm contract stack mem memorySize =
    (case Back stack 1 of
       None \<Rightarrow> (evm, mem, Panic)
     | Some l \<Rightarrow>
         (case bigUint64 l of
            (requestedSize, overflow) \<Rightarrow>
              if overflow then (evm, mem, efail errGasUintOverflow)
              else
                (let (r, mem) = memoryGasCost mem memorySize in
                 (evm, mem,
                  ebind (Done r) (\<lambda>gas.
                  ebind (safe_add gas LogGas) (\<lambda>gas.
                  ebind (safe_add gas (n * LogTopicGas)) (\<lambda>gas.
                  ebind (safe_mul requestedSize LogDataGas) (\<lambda>memorySizeGas.
                  safe_add gas memorySizeGas))))))))"

definition gasSha3 :: gasFunc where
  "gasSha3 gt evm contract stack mem memorySize =
    (let (r, mem) = memoryGasCost mem memorySize in
     (evm, mem,
      ebind (Done r) (\<lambda>gas.
      ebind (safe_add gas Sha3Gas) (\<lambda>gas.
      ebind (eopt (Back stack 1)) (\<lambda>l.
      ebind (big_u64 l) (\<lambda>wordGas.
      ebind (safe_mul (toWordSize wordGas) Sha3WordGas) (\<lambda>wordGas.
      safe_add gas wordGas)))))))"

definition gasCodeCopy :: gasFunc where
  "gasCodeCopy gt evm contract stack mem memorySize =
    (let (r, mem) = memoryGasCost mem memorySize in
     (evm, mem, ebind (Done r) (copy_gas GasFastestStep 2 stack)))"

definition gasExtCodeCopy :: gasFunc where
  "gasExtCodeCopy gt evm contract stack mem memorySize =
    (let (r, mem) = memoryGasCost mem memorySize in
     (evm, mem, ebind (Done r) (copy_gas (ExtcodeCopy gt) 3 stack)))"

text \<open>\<^verbatim>\<open>gasMLoad\<close>, \<^verbatim>\<open>gasMStore8\<close> and \<^verbatim>\<open>gasMStore\<close> report every memory error as an overflow.\<close>

definition mem_step_gas :: "Memory \<Rightarrow> u64 \<Rightarrow> Memory \<times> u64 eres" where
  "mem_step_gas mem memorySize =
    (case memoryGasCost mem memorySize of
       (Inl e, mem) \<Rightarrow> (mem, efail errGasUintOverflow)
     | (Inr gas, mem) \<Rightarrow> (mem, safe_add gas GasFastestStep))"

definition gasMLoad :: gasFunc where
  "gasMLoad gt evm contract stack mem memorySize = (evm, mem_step_gas mem memorySize)"

definition gasMStore8 :: gasFunc where
  "gasMStore8 gt evm contract stack mem memorySize = (evm, mem_step_gas mem memorySize)"

definition gasMStore :: gasFunc where
  "gasMStore gt evm contract stack mem memorySize = (evm, mem_step_gas mem memorySize)"

definition gasCreate :: gasFunc where
  "gasCreate gt evm contract stack mem memorySize =
    (let (r, mem) = memoryGasCost mem memorySize in
     (evm, mem, ebind (Done r) (\<lambda>gas. safe_add gas CreateGas)))"

definition gasBalance :: gasFunc where
  "gasBalance gt evm contract stack mem memorySize = (evm, mem, eok (BalanceGas gt))"

definition gasExtCodeSize :: gasFunc where
  "gasExtCodeSize gt evm contract stack mem memorySize = (evm, mem, eok (ExtcodeSize gt))"

definition gasSLoad :: gasFunc where
  "gasSLoad gt evm contract stack mem memorySize = (evm, mem, eok (SLoadGas gt))"

definition gasExp :: gasFunc where
  "gasExp gt evm contract stack mem memorySize =
    (evm, mem,
     ebind (eopt (Back stack 1)) (\<lambda>e.
     let expByteLen = of_nat ((BitLen e + 7) div 8);
         gas = expByteLen * ExpByte gt
     in safe_add gas GasSlowStep))"

text \<open>The common tail of the call family: store \<^verbatim>\<open>callGasTemp\<close> and add it to the cost.\<close>

definition call_gas_tail :: "GasTable \<Rightarrow> EVM \<Rightarrow> Contract \<Rightarrow> Stack \<Rightarrow> Memory \<Rightarrow> u64 eres \<Rightarrow> EVM \<times> Memory \<times> u64 eres" where
  "call_gas_tail gt evm contract stack mem r =
    (case r of
       Done (Inr gas) \<Rightarrow>
         (case Back stack 0 of
            None \<Rightarrow> (evm, mem, Panic)
          | Some requested \<Rightarrow>
              (case callGas gt (ct_Gas contract) gas requested of
                 Inl e \<Rightarrow> (evm\<lparr>evm_callGasTemp := 0\<rparr>, mem, efail e)
               | Inr temp \<Rightarrow> (evm\<lparr>evm_callGasTemp := temp\<rparr>, mem, safe_add gas temp)))
     | _ \<Rightarrow> (evm, mem, r))"

definition gasCall :: gasFunc where
  "gasCall gt evm contract stack mem memorySize =
    (case (Back stack 2, Back stack 1) of
       (Some v, Some a) \<Rightarrow>
         (let gas = CallsGas gt;
              transfersValue = (v \<noteq> 0);
              address = BigToAddress a;
              eip158 = evm_isEIP158 evm;
              gas = (if eip158 then
                       (if transfersValue \<and> Empty (evm_StateDB evm) address then gas + CallNewAccountGas else gas)
                     else if \<not> Exist (evm_StateDB evm) address then gas + CallNewAccountGas else gas);
              gas = (if transfersValue then gas + CallValueTransferGas else gas);
              (r, mem) = memoryGasCost mem memorySize
          in call_gas_tail gt evm contract stack mem (ebind (Done r) (\<lambda>memoryGas. safe_add gas memoryGas)))
     | _ \<Rightarrow> (evm, mem, Panic))"

definition gasCallCode :: gasFunc where
  "gasCallCode gt evm contract stack mem memorySize =
    (case Back stack 2 of
       Some v \<Rightarrow>
         (let gas = CallsGas gt;
              gas = (if v \<noteq> 0 then gas + CallValueTransferGas else gas);
              (r, mem) = memoryGasCost mem memorySize
          in call_gas_tail gt evm contract stack mem (ebind (Done r) (\<lambda>memoryGas. safe_add gas memoryGas)))
     | None \<Rightarrow> (evm, mem, Panic))"

definition gasReturn :: gasFunc where
  "gasReturn gt evm contract stack mem memorySize =
    (let (r, mem) = memoryGasCost mem memorySize in (evm, mem, Done r))"

definition gasRevert :: gasFunc where
  "gasRevert gt evm contract stack mem memorySize =
    (let (r, mem) = memoryGasCost mem memorySize in (evm, mem, Done r))"

text \<open>
  The first part of \<^verbatim>\<open>gasSuicide\<close>: with EIP158 the balance is read, which \<^verbatim>\<open>GetBalance\<close> does by
  changing it.
\<close>

definition suicide_base :: "GasTable \<Rightarrow> EVM \<Rightarrow> Contract \<Rightarrow> Stack \<Rightarrow> EVM \<times> u64 res" where
  "suicide_base gt evm contract stack =
    (if evm_isEIP150 evm then
       (case Back stack 0 of
          None \<Rightarrow> (evm, Panic)
        | Some a \<Rightarrow>
            (let gas = SuicideGas gt; address = BigToAddress a; eip158 = evm_isEIP158 evm in
             if eip158 then
               (if Empty (evm_StateDB evm) address then
                  (case GetBalance (evm_StateDB evm) (ct_self contract) of
                     (None, db) \<Rightarrow> (evm\<lparr>evm_StateDB := db\<rparr>, Panic)
                   | (Some b, db) \<Rightarrow>
                       (evm\<lparr>evm_StateDB := db\<rparr>, Done (if b \<noteq> 0 then gas + CreateBySuicide gt else gas)))
                else (evm, Done gas))
             else if \<not> Exist (evm_StateDB evm) address then (evm, Done (gas + CreateBySuicide gt))
             else (evm, Done gas)))
     else (evm, Done 0))"

definition gasSuicide :: gasFunc where
  "gasSuicide gt evm contract stack mem memorySize =
    (case suicide_base gt evm contract stack of
       (evm, Done gas) \<Rightarrow>
         (let (suicided, db) = HasSuicided (evm_StateDB evm) (ct_self contract);
              db = (if \<not> suicided then AddRefund db SuicideRefundGas else db)
          in (evm\<lparr>evm_StateDB := db\<rparr>, mem, eok gas))
     | (evm, _) \<Rightarrow> (evm, mem, Panic))"

definition gasDelegateCall :: gasFunc where
  "gasDelegateCall gt evm contract stack mem memorySize =
    (let (r, mem) = memoryGasCost mem memorySize in
     call_gas_tail gt evm contract stack mem (ebind (Done r) (\<lambda>gas. safe_add gas (CallsGas gt))))"

definition gasStaticCall :: gasFunc where
  "gasStaticCall gt evm contract stack mem memorySize =
    (let (r, mem) = memoryGasCost mem memorySize in
     call_gas_tail gt evm contract stack mem (ebind (Done r) (\<lambda>gas. safe_add gas (CallsGas gt))))"

definition gasPush :: gasFunc where
  "gasPush gt evm contract stack mem memorySize = (evm, mem, eok GasFastestStep)"

definition gasSwap :: gasFunc where
  "gasSwap gt evm contract stack mem memorySize = (evm, mem, eok GasFastestStep)"

definition gasDup :: gasFunc where
  "gasDup gt evm contract stack mem memorySize = (evm, mem, eok GasFastestStep)"

lemma toWordSize_spec: "unat (toWordSize sz) = (unat sz + 31) div 32"
proof (cases "sz > MaxUint64 - 31")
  case True
  have "unat (MaxUint64 - 31) = 2 ^ 64 - 32"
    by (simp add: MaxUint64_def)
  with True have "2 ^ 64 - 32 < unat sz"
    by (simp add: word_less_nat_alt)
  moreover have "unat sz < 2 ^ 64"
    by (rule unat_less_2p64)
  ultimately have "(unat sz + 31) div 32 = 2 ^ 59"
    by (intro div_nat_eqI) simp_all
  with True show ?thesis
    by (simp add: toWordSize_def MaxUint64_def)
next
  case False
  have "unat (MaxUint64 - 31) = 2 ^ 64 - 32"
    by (simp add: MaxUint64_def)
  with False have "unat sz \<le> 2 ^ 64 - 32"
    by (simp add: word_less_nat_alt)
  then have "unat (sz + 31) = unat sz + 31"
    by (subst unat_plus_nowrap) simp_all
  with False show ?thesis
    by (simp add: toWordSize_def unat_div)
qed

section \<open>Memory expansion\<close>

definition memfee :: "nat \<Rightarrow> nat" where
  "memfee w = 3 * w + w * w div 512"

definition mem_inv :: "Memory \<Rightarrow> bool" where
  "mem_inv m \<longleftrightarrow> 32 dvd mem_Len m \<and> mem_Len m \<le> 0x1fffffffe0 \<and>
    unat (mem_lastGasCost m) = memfee (mem_Len m div 32)"

lemma memfee_mono: "v \<le> w \<Longrightarrow> memfee v \<le> memfee w"
  unfolding memfee_def by (intro add_mono mult_mono div_le_mono) simp_all

lemma memfee_bound: "w \<le> 0xffffffff \<Longrightarrow> memfee w < 2 ^ 63"
  using memfee_mono [of w "0xffffffff"] by (simp add: memfee_def)

lemma mem_inv_NewMemory: "mem_inv NewMemory"
  by (simp add: mem_inv_def NewMemory_def mem_Len_def memfee_def)

text \<open>The cost of growing the memory to a whole number of words is the difference of the total fees.\<close>

lemma memoryGasCost_spec:
  assumes inv: "mem_inv m" and w: "unat sz = 32 * w" "sz \<le> 0x1fffffffe0"
  defines "v \<equiv> mem_Len m div 32"
  shows "\<exists>g m'. memoryGasCost m sz = (Inr g, m') \<and> unat g = memfee (max v w) - memfee v \<and>
    mem_store m' = mem_store m \<and> mem_inv (mem_Resize m' sz)"
proof -
  have len: "mem_Len m = 32 * v" and vb: "v \<le> 0xffffffff" and lst: "unat (mem_lastGasCost m) = memfee v"
    using inv by (auto simp: mem_inv_def v_def)
  have lenw: "unat (of_nat (mem_Len m) :: u64) = 32 * v"
    using len vb by (subst unat_of_nat_u64) simp_all
  have wb: "w \<le> 0xffffffff"
    using w by (simp add: word_le_nat_alt)
  have ws: "unat (toWordSize sz) = w"
    by (simp add: toWordSize_spec w)
  then have ws32: "toWordSize sz * 32 = sz"
    using w wb by (simp add: word_unat_eq_iff unat_word_ariths)
  show ?thesis
  proof (cases "v < w")
    case True
    let ?fee = "toWordSize sz * MemoryGas + toWordSize sz * toWordSize sz div QuadCoeffDiv"
    have ww: "w * w \<le> 0xffffffff * 0xffffffff"
      using wb by (intro mult_mono) simp_all
    have fee: "unat ?fee = memfee w"
      using ws wb ww memfee_bound [OF wb]
      by (simp add: unat_word_ariths unat_div memfee_def MemoryGas_def QuadCoeffDiv_def mult.commute)
    have lt: "of_nat (mem_Len m) < sz"
      using True w by (simp add: word_less_nat_alt lenw)
    with True have "sz \<noteq> 0" "\<not> sz > 0xffffffffe0"
      using w by (auto simp: word_less_nat_alt word_le_nat_alt)
    then have cost: "memoryGasCost m sz = (Inr (?fee - mem_lastGasCost m), m\<lparr>mem_lastGasCost := ?fee\<rparr>)"
      using lt by (simp add: memoryGasCost_def ws32 Let_def)
    have "unat (?fee - mem_lastGasCost m) = memfee w - memfee v"
      using fee lst memfee_mono [of v w] True by (subst unat_sub_nowrap) (simp_all add: word_le_nat_alt)
    moreover have "mem_inv (mem_Resize (m\<lparr>mem_lastGasCost := ?fee\<rparr>) sz)"
      using True len w wb fee by (simp add: mem_inv_def mem_Resize_def mem_Len_def)
    ultimately show ?thesis
      using True cost by (simp add: max_def)
  next
    case False
    then have "\<not> of_nat (mem_Len m) < sz"
      using w by (simp add: word_less_nat_alt lenw)
    moreover have "\<not> sz > 0xffffffffe0"
      using w by (simp add: word_less_nat_alt word_le_nat_alt)
    ultimately have "memoryGasCost m sz = (Inr 0, m)"
      by (simp add: memoryGasCost_def ws32 Let_def)
    moreover have "mem_Resize m sz = m"
      using False len w by (simp add: mem_Resize_def)
    ultimately show ?thesis
      using False inv by (simp add: max_def)
  qed
qed

definition mem_ok :: "Memory \<Rightarrow> bool" where
  "mem_ok m \<longleftrightarrow> 32 dvd mem_Len m \<and> mem_Len m \<le> 0xffffffffe0"

lemma mem_ok_NewMemory: "mem_ok NewMemory"
  by (simp add: mem_ok_def NewMemory_def mem_Len_def)

lemma mem_ok_Resize: "mem_ok m \<Longrightarrow> 32 dvd unat sz \<Longrightarrow> sz \<le> 0xffffffffe0 \<Longrightarrow> mem_ok (mem_Resize m sz)"
  by (simp add: mem_ok_def word_le_nat_alt max_def)

lemma mem_keep: "m\<lparr>mem_lastGasCost := mem_lastGasCost m\<rparr> = m"
  by simp

lemma memoryGasCost_err: "sz > 0xffffffffe0 \<Longrightarrow> memoryGasCost m sz = (Inl errGasUintOverflow, m)"
  by (auto simp: memoryGasCost_def)

lemma memoryGasCost_ok:
  assumes "sz \<le> 0xffffffffe0"
  shows "\<exists>g t. memoryGasCost m sz = (Inr g, m\<lparr>mem_lastGasCost := t\<rparr>)"
proof (cases "sz = 0 \<or> \<not> toWordSize sz * 32 > of_nat (mem_Len m)")
  case True
  then have "memoryGasCost m sz = (Inr 0, m\<lparr>mem_lastGasCost := mem_lastGasCost m\<rparr>)"
    using assms unfolding mem_keep by (auto simp: memoryGasCost_def Let_def)
  then show ?thesis by blast
next
  case False
  then show ?thesis
    using assms by (auto simp: memoryGasCost_def Let_def)
qed

section \<open>Call gas\<close>

lemma safe_add_ok: "safe_add x y = eok z \<longleftrightarrow> unat x + unat y < 2 ^ 64 \<and> z = x + y"
proof (cases "SafeAdd x y")
  case (Pair r ov)
  then have "r = x + y" by (simp add: SafeAdd_def)
  with Pair SafeAdd_spec [OF Pair] show ?thesis
    by (auto simp: safe_add_def simp del: One_nat_def)
qed

lemma safe_add_unat: "safe_add x y = eok z \<Longrightarrow> unat z = unat x + unat y"
  by (simp add: safe_add_ok unat_plus_nowrap)

lemma safe_add_Done: "\<exists>r. safe_add x y = Done r"
  by (simp add: safe_add_def split: prod.split)

lemma safe_mul_Done: "\<exists>r. safe_mul x y = Done r"
  by (simp add: safe_mul_def split: prod.split)

lemma big_u64_Done: "\<exists>r. big_u64 v = Done r"
  by (simp add: big_u64_def split: prod.split)

lemma ebind_Done: "\<exists>r. m = Done r \<Longrightarrow> (\<And>x. \<exists>r. f x = Done r) \<Longrightarrow> \<exists>r. ebind m f = Done r"
  by (metis ebind_simps(1,2) sum.exhaust)

lemma callGas_total:
  assumes "callGas gt avail base cost = Inr temp" "safe_add base temp = eok tot" "tot \<le> avail"
  shows "unat tot = unat base + unat temp" and "unat base + unat temp \<le> unat avail"
  using safe_add_unat [OF assms(2)] assms(3) by (simp_all add: word_le_nat_alt)

lemma callGas_eip150:
  assumes "callGas gt avail base cost = Inr temp" "safe_add base temp = eok tot" "tot \<le> avail"
    and "CreateBySuicide gt > 0" "0 \<le> cost"
  shows "unat temp = min (nat cost) ((unat avail - unat base) - (unat avail - unat base) div 64)"
proof -
  have "base \<le> avail"
    using callGas_total [OF assms(1-3)] by (simp add: word_le_nat_alt)
  then have r: "unat (avail - base) = unat avail - unat base"
    by (rule unat_sub_nowrap)
  let ?rem = "avail - base"
  have "?rem div 64 \<le> ?rem"
    by (simp add: word_le_nat_alt unat_div)
  then have g: "unat (?rem - ?rem div 64) = unat ?rem - unat ?rem div 64"
    by (simp add: unat_sub_nowrap unat_div)
  have lt: "unat ?rem - unat ?rem div 64 < 2 ^ 64"
    using unat_less_2p64 [of ?rem] by linarith
  show ?thesis
  proof (cases "BitLen cost > 64")
    case True
    then have "2 ^ 64 \<le> nat cost" using BitLen_gt [of 64 cost] assms(5) by simp
    moreover have "temp = ?rem - ?rem div 64"
      using True assms(1,4) by (simp add: callGas_def Let_def)
    ultimately show ?thesis using g r lt by (simp add: min_def)
  next
    case False
    then have "cost < 2 ^ 64" using BitLen_gt [of 64 cost] assms(5) by simp
    then have "unat (Uint64 cost) = nat cost" using assms(5) by (simp add: unat_Uint64)
    with False assms(1,4) g r show ?thesis
      by (auto simp: callGas_def Let_def word_less_nat_alt min_def split: if_splits)
  qed
qed

section \<open>The contract of the gas functions\<close>

definition std_gas_table :: "GasTable \<Rightarrow> bool" where
  "std_gas_table gt \<longleftrightarrow> gt \<in> {GasTableHomestead, GasTableEIP150, GasTableEIP158}"

text \<open>
  What the interpreter relies on: a gas function changes nothing of the EVM but the account database
  (and there only balances and which accounts exist) and the gas set aside for a call, keeps the bytes in memory,
  does not panic, and a cost it returns is at least \<open>least\<close> and only returned for a memory size that can
  be paid.
\<close>

definition gas_post :: "u64 \<Rightarrow> Memory \<Rightarrow> EVM \<Rightarrow> nat \<Rightarrow> EVM \<times> Memory \<times> u64 eres \<Rightarrow> bool" where
  "gas_post ms mem evm least res \<longleftrightarrow>
    (case res of (evm', mem', r) \<Rightarrow>
      (\<exists>db t. evm' = evm\<lparr>evm_StateDB := db, evm_callGasTemp := t\<rparr> \<and> db_quiet (evm_StateDB evm) db) \<and>
      (\<exists>t. mem' = mem\<lparr>mem_lastGasCost := t\<rparr>) \<and>
      (\<exists>x. r = Done x) \<and>
      (\<forall>g. r = eok g \<longrightarrow> least \<le> unat g \<and> ms \<le> 0xffffffffe0))"

definition gas_contract :: "nat \<Rightarrow> bool \<Rightarrow> nat \<Rightarrow> gasFunc \<Rightarrow> bool" where
  "gas_contract need usesmem least gf \<longleftrightarrow>
    (\<forall>gt evm c st mem ms. std_gas_table gt \<longrightarrow> need \<le> stack_len st \<longrightarrow> usesmem \<or> ms = 0 \<longrightarrow>
      gas_post ms mem evm least (gf gt evm c st mem ms))"

lemma evm_keep: "\<exists>db t. evm = evm\<lparr>evm_StateDB := db, evm_callGasTemp := t\<rparr> \<and> db_quiet (evm_StateDB evm) db"
  by (rule exI [of _ "evm_StateDB evm"], rule exI [of _ "evm_callGasTemp evm"]) (simp add: db_quiet_def)

lemma mem_keep_ex: "\<exists>t. mem = mem\<lparr>mem_lastGasCost := t\<rparr>"
  by (rule exI [of _ "mem_lastGasCost mem"]) simp

lemma gas_post_const:
  "ms = 0 \<Longrightarrow> \<exists>db t. evm' = evm\<lparr>evm_StateDB := db, evm_callGasTemp := t\<rparr> \<and> db_quiet (evm_StateDB evm) db \<Longrightarrow>
   \<exists>x. r = Done x \<Longrightarrow> (\<And>g. r = eok g \<Longrightarrow> least \<le> unat g) \<Longrightarrow> gas_post ms mem evm least (evm', mem, r)"
  using mem_keep_ex [of mem] by (simp add: gas_post_def)

lemma gas_post_mem:
  assumes "\<And>gas. \<exists>x. f gas = Done x" "\<And>gas g. f gas = eok g \<Longrightarrow> least \<le> unat g"
  shows "gas_post ms mem evm least (case memoryGasCost mem ms of (r, mem') \<Rightarrow> (evm, mem', ebind (Done r) f))"
proof (cases "ms > 0xffffffffe0")
  case True
  then show ?thesis
    using evm_keep [of evm] mem_keep_ex [of mem] by (simp add: gas_post_def memoryGasCost_err)
next
  case False
  then obtain g t where "memoryGasCost mem ms = (Inr g, mem\<lparr>mem_lastGasCost := t\<rparr>)"
    using memoryGasCost_ok [of ms mem] by (auto simp: not_less)
  with False assms show ?thesis
    using evm_keep [of evm] by (auto simp: gas_post_def not_less)
qed

lemma Back_Some: "n < stack_len st \<Longrightarrow> \<exists>x. Back st n = Some x"
  by (simp add: Back_def)

lemma copy_gas_Done: "n < stack_len st \<Longrightarrow> \<exists>x. copy_gas base n st gas = Done x"
  using Back_Some [of n st]
  by (auto simp: copy_gas_def intro!: ebind_Done safe_add_Done safe_mul_Done big_u64_Done)

lemma copy_gas_least: "copy_gas base n st gas = eok g \<Longrightarrow> unat base \<le> unat g"
  by (auto simp: copy_gas_def ebind_eq_ok dest!: safe_add_unat)

named_theorems gas_contracts

lemmas gas_table_simps = std_gas_table_def GasTableHomestead_def GasTableEIP150_def GasTableEIP158_def

lemma gas_contract_constGasFunc [gas_contracts]:
  "least \<le> unat g \<Longrightarrow> gas_contract n False least (constGasFunc g)"
  using evm_keep by (auto simp: gas_contract_def constGasFunc_def intro!: gas_post_const)

lemma gas_contract_copies [gas_contracts]:
  "gas_contract 3 True 1 gasCallDataCopy"
  "gas_contract 3 True 1 gasReturnDataCopy"
  "gas_contract 3 True 1 gasCodeCopy"
  "gas_contract 4 True 1 gasExtCodeCopy"
  unfolding gas_contract_def gasCallDataCopy_def gasReturnDataCopy_def gasCodeCopy_def
    gasExtCodeCopy_def Let_def
  by (auto intro!: gas_post_mem copy_gas_Done dest!: copy_gas_least
      simp: step_gas_defs gas_table_simps)

lemma gas_contract_log [gas_contracts]: "gas_contract 2 True 1 (makeGasLog n)"
proof -
  let ?f = "\<lambda>req gas. ebind (safe_add gas LogGas) (\<lambda>gas. ebind (safe_add gas (n * LogTopicGas)) (\<lambda>gas.
    ebind (safe_mul req LogDataGas) (\<lambda>memorySizeGas. safe_add gas memorySizeGas)))"
  have "gas_post ms mem evm 1 (case memoryGasCost mem ms of (r, mem') \<Rightarrow> (evm, mem', ebind (Done r) (?f req)))"
    for ms mem evm req
  proof (rule gas_post_mem)
    show "\<exists>x. ?f req gas = Done x" for gas
      by (intro ebind_Done safe_add_Done safe_mul_Done)
    show "1 \<le> unat g" if "?f req gas = eok g" for gas g
      using that by (auto simp: ebind_eq_ok LogGas_def dest!: safe_add_unat)
  qed
  moreover have "gas_post ms mem evm 1 (evm, mem, efail e)" for ms mem evm e
    using evm_keep [of evm] mem_keep_ex [of mem] by (simp add: gas_post_def)
  ultimately have "gas_post ms mem evm 1 (makeGasLog n gt evm c st mem ms)" if "2 \<le> stack_len st" for gt evm c st mem ms
    using Back_Some [of 1 st] that unfolding makeGasLog_def bigUint64_def Let_def by auto
  then show ?thesis by (simp add: gas_contract_def)
qed

lemma gas_contract_sha3 [gas_contracts]: "gas_contract 2 True 1 gasSha3"
  unfolding gas_contract_def gasSha3_def Let_def
proof (intro allI impI gas_post_mem, goal_cases)
  case (1 gt evm c st mem ms gas)
  then show ?case
    using Back_Some [of 1 st] by (auto intro!: ebind_Done safe_add_Done safe_mul_Done big_u64_Done)
next
  case (2 gt evm c st mem ms gas g)
  then show ?case
    by (auto simp: ebind_eq_ok Sha3Gas_def dest!: safe_add_unat)
qed

lemma mem_step_gas_eq:
  "(evm, mem_step_gas mem ms) =
    (case memoryGasCost mem ms of (r, mem') \<Rightarrow> (evm, mem', ebind (Done r) (\<lambda>gas. safe_add gas GasFastestStep)))"
proof (cases "ms > 0xffffffffe0")
  case False
  then show ?thesis
    using memoryGasCost_ok [of ms mem] by (auto simp: mem_step_gas_def not_less)
qed (simp add: mem_step_gas_def memoryGasCost_err)

lemma gas_contract_mem [gas_contracts]:
  "gas_contract n True 1 gasMLoad"
  "gas_contract n True 1 gasMStore8"
  "gas_contract n True 1 gasMStore"
  "gas_contract n True 1 gasCreate"
  unfolding gas_contract_def gasMLoad_def gasMStore8_def gasMStore_def gasCreate_def mem_step_gas_eq Let_def
  by (auto intro!: gas_post_mem safe_add_Done simp: CreateGas_def step_gas_defs dest!: safe_add_unat)

lemma gas_contract_return [gas_contracts]:
  "gas_contract n True 0 gasReturn"
  "gas_contract n True 0 gasRevert"
proof -
  have "(evm, mem', Done r) = (evm, mem', ebind (Done r) eok)" for evm mem' and r :: "Error + u64"
    by (cases r) simp_all
  then show "gas_contract n True 0 gasReturn" "gas_contract n True 0 gasRevert"
    using gas_post_mem [of eok 0] by (auto simp: gas_contract_def gasReturn_def gasRevert_def)
qed

lemma gas_contract_consts [gas_contracts]:
  "gas_contract n False 1 gasBalance"
  "gas_contract n False 1 gasExtCodeSize"
  "gas_contract n False 1 gasSLoad"
  "gas_contract n False 1 gasPush"
  "gas_contract n False 1 gasSwap"
  "gas_contract n False 1 gasDup"
  unfolding gas_contract_def gasBalance_def gasExtCodeSize_def gasSLoad_def gasPush_def gasSwap_def gasDup_def
  by (auto intro!: gas_post_const evm_keep simp: gas_table_simps step_gas_defs)

lemma gas_contract_exp [gas_contracts]: "gas_contract 2 False 1 gasExp"
  unfolding gas_contract_def gasExp_def
proof (intro allI impI gas_post_const evm_keep, goal_cases)
  case (2 gt evm c st mem ms)
  then show ?case
    using Back_Some [of 1 st] by (auto intro!: ebind_Done safe_add_Done simp: Let_def)
next
  case (3 gt evm c st mem ms g)
  then show ?case
    by (auto simp: ebind_eq_ok Let_def step_gas_defs dest!: safe_add_unat)
qed simp

lemma db_quiet_evm:
  "db_quiet (evm_StateDB evm) db \<Longrightarrow>
   \<exists>db' t. evm\<lparr>evm_StateDB := db\<rparr> = evm\<lparr>evm_StateDB := db', evm_callGasTemp := t\<rparr> \<and> db_quiet (evm_StateDB evm) db'"
  by (rule exI [of _ db], rule exI [of _ "evm_callGasTemp evm"]) simp

lemma gas_contract_sstore [gas_contracts]: "gas_contract 2 False 1 gasSStore"
proof -
  have "gas_post ms mem evm 1 (gasSStore gt evm c st mem ms)" if st: "2 \<le> stack_len st" and "ms = 0" for gt evm c st mem ms
  proof -
    obtain x y where xy: "Back st 0 = Some x" "Back st 1 = Some y"
      using st Back_Some [of 0 st] Back_Some [of 1 st] by auto
    obtain val db where db: "GetState (evm_StateDB evm) (ct_self c) (BigToHash x) = (val, db)"
      by (cases "GetState (evm_StateDB evm) (ct_self c) (BigToHash x)") auto
    then have "db_quiet (evm_StateDB evm) db"
      using db_quiet_ops(3) by (metis snd_conv)
    then have post: "gas_post ms mem evm 1 (evm\<lparr>evm_StateDB := db\<rparr>, mem, eok g)" if "1 \<le> unat g" for g
      using that by (intro gas_post_const db_quiet_evm \<open>ms = 0\<close>) auto
    show ?thesis
      using post [of SstoreSetGas] post [of SstoreClearGas] post [of SstoreResetGas]
      unfolding gasSStore_def xy prod.case option.case db Let_def AddRefund_def by (simp add: param_defs)
  qed
  then show ?thesis by (simp add: gas_contract_def)
qed

lemma suicide_base_ok:
  assumes "0 < stack_len st"
  shows "\<exists>db g. suicide_base gt evm c st = (evm\<lparr>evm_StateDB := db\<rparr>, Done g) \<and> db_quiet (evm_StateDB evm) db"
proof -
  obtain a where a: "Back st 0 = Some a"
    using Back_Some [OF assms] by blast
  have keep: "\<exists>db g'. (evm, Done g) = (evm\<lparr>evm_StateDB := db\<rparr>, Done g') \<and> db_quiet (evm_StateDB evm) db" for g :: u64
    by (rule exI [of _ "evm_StateDB evm"]) (simp add: db_quiet_refl)
  show ?thesis
    using keep db_quiet_ops(1) [of 100]
    by (simp add: suicide_base_def a Let_def GetBalance_eq) blast
qed

lemma gas_contract_suicide [gas_contracts]: "gas_contract 1 False 0 gasSuicide"
proof -
  have "gas_post ms mem evm 0 (gasSuicide gt evm c st mem ms)" if st: "1 \<le> stack_len st" and "ms = 0" for gt evm c st mem ms
  proof -
    obtain db g where b: "suicide_base gt evm c st = (evm\<lparr>evm_StateDB := db\<rparr>, Done g)" "db_quiet (evm_StateDB evm) db"
      using suicide_base_ok [of st gt evm c] st by auto
    have "db_quiet (evm_StateDB evm) (snd (HasSuicided db (ct_self c)))"
      using b(2) db_quiet_ops(2) by (rule db_quiet_trans)
    then have "gas_post ms mem evm 0 (evm\<lparr>evm_StateDB := snd (HasSuicided db (ct_self c))\<rparr>, mem, eok g)"
      by (intro gas_post_const db_quiet_evm \<open>ms = 0\<close>) auto
    then show ?thesis
      by (cases "HasSuicided db (ct_self c)") (simp add: gasSuicide_def b AddRefund_def Let_def)
  qed
  then show ?thesis by (simp add: gas_contract_def)
qed

lemma call_gas_tail_post:
  assumes "gas_post ms mem evm least (evm, mem', r)" "0 < stack_len st"
  shows "gas_post ms mem evm least (call_gas_tail gt evm c st mem' r)"
proof -
  obtain q where q: "Back st 0 = Some q"
    using Back_Some [OF assms(2)] by blast
  obtain x where r: "r = Done x"
    using assms(1) by (auto simp: gas_post_def)
  have keep: "\<exists>db t'. evm\<lparr>evm_callGasTemp := t\<rparr> = evm\<lparr>evm_StateDB := db, evm_callGasTemp := t'\<rparr> \<and>
      db_quiet (evm_StateDB evm) db" for t
    by (rule exI [of _ "evm_StateDB evm"], rule exI [of _ t]) (simp add: db_quiet_refl)
  show ?thesis
  proof (cases x)
    case (Inl e)
    then show ?thesis using assms(1) by (simp add: call_gas_tail_def r)
  next
    case (Inr gas)
    then show ?thesis
      using assms(1) keep safe_add_Done
      by (auto simp: call_gas_tail_def r q gas_post_def dest!: safe_add_unat split: sum.split)
  qed
qed

lemma gas_post_call:
  assumes "0 < stack_len st" "1 \<le> unat base"
  shows "gas_post ms mem evm 1 (case memoryGasCost mem ms of (r, mem') \<Rightarrow>
      call_gas_tail gt evm c st mem' (ebind (Done r) (\<lambda>g. safe_add base g)))"
    and "gas_post ms mem evm 1 (case memoryGasCost mem ms of (r, mem') \<Rightarrow>
      call_gas_tail gt evm c st mem' (ebind (Done r) (\<lambda>g. safe_add g base)))"
proof -
  have "gas_post ms mem evm 1 (case memoryGasCost mem ms of (r, mem') \<Rightarrow> (evm, mem', ebind (Done r) (\<lambda>g. safe_add base g)))"
    "gas_post ms mem evm 1 (case memoryGasCost mem ms of (r, mem') \<Rightarrow> (evm, mem', ebind (Done r) (\<lambda>g. safe_add g base)))"
    using assms(2) by (auto intro!: gas_post_mem safe_add_Done dest!: safe_add_unat)
  then show "gas_post ms mem evm 1 (case memoryGasCost mem ms of (r, mem') \<Rightarrow>
      call_gas_tail gt evm c st mem' (ebind (Done r) (\<lambda>g. safe_add base g)))"
    and "gas_post ms mem evm 1 (case memoryGasCost mem ms of (r, mem') \<Rightarrow>
      call_gas_tail gt evm c st mem' (ebind (Done r) (\<lambda>g. safe_add g base)))"
    using call_gas_tail_post [OF _ assms(1)] by (auto split: prod.splits)
qed

lemma call_base_pos:
  assumes "std_gas_table gt"
  shows "1 \<le> unat (CallsGas gt)" "1 \<le> unat (CallsGas gt + CallValueTransferGas)"
    "1 \<le> unat (CallsGas gt + CallNewAccountGas)"
    "1 \<le> unat (CallsGas gt + CallNewAccountGas + CallValueTransferGas)"
  using assms by (auto simp: gas_table_simps CallValueTransferGas_def CallNewAccountGas_def)

lemma gas_contract_calls [gas_contracts]:
  "gas_contract 3 True 1 gasCall"
  "gas_contract 3 True 1 gasCallCode"
  "gas_contract 1 True 1 gasDelegateCall"
  "gas_contract 1 True 1 gasStaticCall"
proof -
  have "gas_post ms mem evm 1 (gasCall gt evm c st mem ms)" "gas_post ms mem evm 1 (gasCallCode gt evm c st mem ms)"
    if gt: "std_gas_table gt" and st: "3 \<le> stack_len st" for gt evm c st mem ms
  proof -
    obtain v a where va: "Back st 2 = Some v" "Back st 1 = Some a"
      using st Back_Some [of 2 st] Back_Some [of 1 st] by auto
    show "gas_post ms mem evm 1 (gasCall gt evm c st mem ms)"
      using st call_base_pos [OF gt] unfolding gasCall_def va prod.case option.case Let_def
      by (intro gas_post_call) auto
    show "gas_post ms mem evm 1 (gasCallCode gt evm c st mem ms)"
      using st call_base_pos [OF gt] unfolding gasCallCode_def va prod.case option.case Let_def
      by (intro gas_post_call) auto
  qed
  then show "gas_contract 3 True 1 gasCall" "gas_contract 3 True 1 gasCallCode"
    by (simp_all add: gas_contract_def)
  show "gas_contract 1 True 1 gasDelegateCall" "gas_contract 1 True 1 gasStaticCall"
    unfolding gas_contract_def gasDelegateCall_def gasStaticCall_def Let_def
    by (intro allI impI gas_post_call(2) call_base_pos(1); simp)+
qed

text \<open>The gas set aside for the callee is part of the price, with room for the stipend of a transfer.\<close>

lemma call_gas_tail_temp:
  assumes "call_gas_tail gt evm c st mem (ebind (Done r) (\<lambda>x. safe_add base x)) = (evm', mem', eok g) \<or>
      call_gas_tail gt evm c st mem (ebind (Done r) (\<lambda>x. safe_add x base)) = (evm', mem', eok g)"
  shows "unat base + unat (evm_callGasTemp evm') \<le> unat g"
  using assms
  by (cases r; auto simp: call_gas_tail_def dest!: safe_add_unat split: res.splits sum.splits option.splits)

lemma call_base_room:
  assumes "std_gas_table gt"
  shows "1 \<le> unat (CallsGas gt)" "2301 \<le> unat (CallsGas gt + CallValueTransferGas)"
    "2301 \<le> unat (CallsGas gt + CallNewAccountGas + CallValueTransferGas)"
  using assms by (auto simp: gas_table_simps CallValueTransferGas_def CallNewAccountGas_def)

lemma gasCall_temp:
  assumes "std_gas_table gt" "gasCall gt evm c st mem ms = (evm', mem', eok g)"
  shows "\<exists>v. Back st 2 = Some v \<and> unat (evm_callGasTemp evm') + (if v \<noteq> 0 then 2301 else 1) \<le> unat g"
proof -
  obtain v a where va: "Back st 2 = Some v" "Back st 1 = Some a"
    using assms(2) by (auto simp: gasCall_def split: option.splits)
  let ?base = "if v \<noteq> 0 then (if evm_isEIP158 evm then CallsGas gt + CallNewAccountGas else CallsGas gt) + CallValueTransferGas
    else CallsGas gt"
  obtain r m where m: "memoryGasCost mem ms = (r, m)"
    by (cases "memoryGasCost mem ms") auto
  have "call_gas_tail gt evm c st m (ebind (Done r) (\<lambda>x. safe_add ?base x)) = (evm', mem', eok g)"
    using assms(2) unfolding gasCall_def va prod.case option.case Let_def m
    by (auto simp: Empty_def Exist_def split: if_splits)
  then have "unat ?base + unat (evm_callGasTemp evm') \<le> unat g"
    by (intro call_gas_tail_temp) blast
  with va(1) call_base_room [OF assms(1)] show ?thesis
    by (auto split: if_splits)
qed

lemma gasCallCode_temp:
  assumes "std_gas_table gt" "gasCallCode gt evm c st mem ms = (evm', mem', eok g)"
  shows "\<exists>v. Back st 2 = Some v \<and> unat (evm_callGasTemp evm') + (if v \<noteq> 0 then 2301 else 1) \<le> unat g"
proof -
  obtain v where v: "Back st 2 = Some v"
    using assms(2) by (auto simp: gasCallCode_def split: option.splits)
  let ?base = "if v \<noteq> 0 then CallsGas gt + CallValueTransferGas else CallsGas gt"
  obtain r m where m: "memoryGasCost mem ms = (r, m)"
    by (cases "memoryGasCost mem ms") auto
  have "call_gas_tail gt evm c st m (ebind (Done r) (\<lambda>x. safe_add ?base x)) = (evm', mem', eok g)"
    using assms(2) unfolding gasCallCode_def v option.case Let_def m by simp
  then have "unat ?base + unat (evm_callGasTemp evm') \<le> unat g"
    by (intro call_gas_tail_temp) blast
  with v call_base_room [OF assms(1)] show ?thesis
    by (auto split: if_splits)
qed

lemma gasDelegateCall_temp:
  assumes "std_gas_table gt"
    "gasDelegateCall gt evm c st mem ms = (evm', mem', eok g) \<or> gasStaticCall gt evm c st mem ms = (evm', mem', eok g)"
  shows "unat (evm_callGasTemp evm') + 1 \<le> unat g"
proof -
  obtain r m where m: "memoryGasCost mem ms = (r, m)"
    by (cases "memoryGasCost mem ms") auto
  have "call_gas_tail gt evm c st m (ebind (Done r) (\<lambda>x. safe_add x (CallsGas gt))) = (evm', mem', eok g)"
    using assms(2) unfolding gasDelegateCall_def gasStaticCall_def Let_def m by simp
  then have "unat (CallsGas gt) + unat (evm_callGasTemp evm') \<le> unat g"
    by (intro call_gas_tail_temp) blast
  with call_base_room(1) [OF assms(1)] show ?thesis by linarith
qed

section \<open>Properties\<close>

text \<open>Successive expansions as the interpreter performs them: charge, then resize.\<close>

primrec grow :: "Memory \<Rightarrow> u64 list \<Rightarrow> (nat \<times> Memory) option" where
  "grow m [] = Some (0, m)"
| "grow m (sz # szs) =
    (case memoryGasCost m sz of
       (Inl e, m) \<Rightarrow> None
     | (Inr g, m) \<Rightarrow> map_option (\<lambda>(total, m). (unat g + total, m)) (grow (mem_Resize m sz) szs))"

lemma grow_spec:
  assumes "mem_inv m" "\<forall>sz\<in>set szs. 32 dvd unat sz \<and> sz \<le> 0x1fffffffe0"
  shows "\<exists>m'. grow m szs = Some (memfee (mem_Len m' div 32) - memfee (mem_Len m div 32), m') \<and> mem_inv m' \<and>
    mem_Len m' = fold max (map unat szs) (mem_Len m)"
  using assms
proof (induction szs arbitrary: m)
  case (Cons sz szs)
  then obtain w where w: "unat sz = 32 * w" "sz \<le> 0x1fffffffe0" by (auto elim: dvdE)
  let ?v = "mem_Len m div 32"
  from memoryGasCost_spec [OF Cons.prems(1) w] obtain g m1 where g: "memoryGasCost m sz = (Inr g, m1)"
    "unat g = memfee (max ?v w) - memfee ?v" "mem_store m1 = mem_store m" "mem_inv (mem_Resize m1 sz)" by blast
  let ?m2 = "mem_Resize m1 sz"
  have "mem_Len m1 = mem_Len m" using g(3) by (simp add: mem_Len_def)
  then have len: "mem_Len ?m2 = max (unat sz) (mem_Len m)" by (simp add: max.commute)
  have "mem_Len m = 32 * ?v" using Cons.prems(1) by (simp add: mem_inv_def)
  then have v2: "mem_Len ?m2 div 32 = max ?v w" using w(1) len by (auto simp: max_def)
  from Cons.IH [OF g(4)] Cons.prems(2) obtain m' where
    m': "grow ?m2 szs = Some (memfee (mem_Len m' div 32) - memfee (max ?v w), m')" "mem_inv m'"
    "mem_Len m' = fold max (map unat szs) (mem_Len ?m2)" unfolding v2 by auto
  have "mem_Len ?m2 \<le> fold max (map unat szs) (mem_Len ?m2)" for szs
    by (induction szs rule: rev_induct) auto
  then have "memfee (max ?v w) \<le> memfee (mem_Len m' div 32)"
    unfolding v2 [symmetric] m'(3) by (intro memfee_mono div_le_mono)
  moreover have "memfee ?v \<le> memfee (max ?v w)" by (intro memfee_mono) simp
  ultimately show ?case
    using g m' len by simp
qed simp

text \<open>
  C19. Memory expansion is charged exactly: for requested sizes that are multiples of 32 (the interpreter rounds
  up to words before it asks) and at most 0x1fffffffe0 bytes, no 64-bit operation of \<^verbatim>\<open>memoryGasCost\<close> wraps, and
  growing a fresh memory in any number of steps costs, in total, the linear plus quadratic fee of the largest
  size requested.
\<close>

theorem memory_gas_telescopes:
  assumes "\<forall>sz\<in>set szs. 32 dvd unat sz \<and> sz \<le> 0x1fffffffe0"
  shows "\<exists>m. grow NewMemory szs = Some (memfee (fold max (map unat szs) 0 div 32), m)"
  using grow_spec [OF mem_inv_NewMemory assms] by (auto simp: NewMemory_def mem_Len_def memfee_def)

theorem memory_gas_telescopes_witness: "\<exists>m. grow NewMemory [64, 32, 2048] = Some (200, m)"
proof -
  have "32 dvd unat (64 :: u64)" "32 dvd unat (32 :: u64)" "32 dvd unat (2048 :: u64)" by simp_all
  with memory_gas_telescopes [of "[64, 32, 2048]"] show ?thesis by (simp add: memfee_def)
qed

lemma quad_mod: "x mod 2 ^ 64 div 512 + 2 ^ 55 * (x div 2 ^ 64) = x div (512 :: nat)"
proof -
  have "x = x mod 2 ^ 64 + 512 * (2 ^ 55 * (x div 2 ^ 64))" by simp
  then have "x div 512 = (x mod 2 ^ 64 + 512 * (2 ^ 55 * (x div 2 ^ 64))) div 512" by (rule arg_cong)
  also have "\<dots> = 2 ^ 55 * (x div 2 ^ 64) + x mod 2 ^ 64 div 512" by (rule div_mult_self2) simp
  finally show ?thesis by (simp only: add.commute)
qed

text \<open>
  C39. The bound the source checks is eight times too large: every size up to 0xffffffffe0 bytes is
  admitted, but the 64-bit square of the word count \<open>w\<close> wraps above 0x1fffffffe0 bytes. For every admitted
  size the first expansion of a fresh memory is charged the exact linear plus quadratic fee minus \<open>2^55\<close>
  for each time the square wraps; it is too cheap exactly for the sizes above 0x1fffffffe0.
\<close>

theorem memoryGasCost_wraps:
  assumes "0 < sz" "sz \<le> 0xffffffffe0"
  defines "w \<equiv> (unat sz + 31) div 32"
  shows "\<exists>g m. memoryGasCost NewMemory sz = (Inr g, m) \<and> unat g + 2 ^ 55 * (w * w div 2 ^ 64) = memfee w \<and>
    (unat g < memfee w \<longleftrightarrow> 0x1fffffffe0 < sz)"
proof -
  let ?t = "toWordSize sz"
  let ?fee = "?t * MemoryGas + ?t * ?t div QuadCoeffDiv"
  have sz: "0 < unat sz" "unat sz \<le> 0xffffffffe0" using assms(1,2) by (simp_all add: word_less_nat_alt word_le_nat_alt)
  have w: "unat ?t = w" "0 < w" "w \<le> 0x7ffffffff"
    using sz unfolding w_def by (simp_all add: toWordSize_spec del: unat_gt_0)
  have q: "w * w mod 2 ^ 64 div 512 < 2 ^ 55" by (simp add: div_less_iff_less_mult)
  have "unat ?fee = 3 * w + w * w mod 2 ^ 64 div 512"
    using w(3) q by (simp add: unat_word_ariths unat_div w(1) MemoryGas_def QuadCoeffDiv_def mult.commute)
  then have fee: "unat ?fee + 2 ^ 55 * (w * w div 2 ^ 64) = memfee w"
    using quad_mod [of "w * w"] by (simp only: memfee_def)
  have "unat (?t * 32) = w * 32" using w by (simp add: unat_word_ariths)
  then have "0 < ?t * 32" using w(2) by (simp add: word_less_nat_alt)
  moreover have "sz \<noteq> 0" "\<not> 0xffffffffe0 < sz" using assms(1,2) by auto
  ultimately have "fst (memoryGasCost NewMemory sz) = Inr ?fee"
    by (simp add: memoryGasCost_def NewMemory_def mem_Len_def Let_def not_less)
  moreover have "0 < w * w div 2 ^ 64 \<longleftrightarrow> 2 ^ 32 \<le> w"
  proof -
    have "0 < w * w div 2 ^ 64 \<longleftrightarrow> 2 ^ 32 * 2 ^ 32 \<le> w * w" by (simp add: div_greater_zero_iff)
    also have "\<dots> \<longleftrightarrow> 2 ^ 32 \<le> w" using power2_nat_le_eq_le [of "2 ^ 32" w] by (simp add: power2_eq_square)
    finally show ?thesis .
  qed
  moreover have "2 ^ 32 \<le> w \<longleftrightarrow> 0x1fffffffe0 < sz" unfolding w_def word_less_nat_alt by (simp add: less_eq_div_iff_mult_less_eq) linarith
  moreover have "unat ?fee < memfee w \<longleftrightarrow> 0 < w * w div 2 ^ 64" by (simp only: fee [symmetric] less_add_same_cancel1) simp
  ultimately show ?thesis using fee by (cases "memoryGasCost NewMemory sz") (auto simp del: power_numeral)
qed

theorem memoryGasCost_wraps_witness:
  "\<exists>g m. memoryGasCost NewMemory 0x2000000000 = (Inr g, m) \<and> unat g < memfee (2 ^ 32)"
  using memoryGasCost_wraps [of "0x2000000000"] by simp blast

text \<open>
  C24. The 63/64 rule: with the repriced gas tables (those whose fee for creating an account by
  self-destruction is positive, EIP150 and later) and a requested amount that is not negative, when the total
  is affordable the callee gets the requested gas, capped at all but one 64th of what the caller has left
  after the base fee; the unchecked subtraction of the source does not wrap in that case.
\<close>

theorem callGas_63_64:
  assumes "callGas gt avail base cost = Inr temp" "safe_add base temp = eok tot" "tot \<le> avail"
    and "CreateBySuicide gt > 0" "0 \<le> cost"
  shows "unat temp = min (nat cost) ((unat avail - unat base) - (unat avail - unat base) div 64)"
  using assms by (rule callGas_eip150)

theorem callGas_63_64_witness:
  "callGas GasTableEIP150 1700 700 (2 ^ 200) = Inr 985 \<and>
   unat (985 :: u64) = min (nat (2 ^ 200)) ((1700 - 700) - (1700 - 700) div 64)"
proof -
  have "callGas GasTableEIP150 1700 700 (2 ^ 200) = Inr 985"
    using BitLen_gt [of 64 "2 ^ 200"] by (simp add: callGas_def GasTableEIP150_def)
  moreover have "safe_add 700 985 = eok (1685 :: u64)"
    by (simp add: safe_add_def SafeAdd_def MaxUint64_def)
  ultimately show ?thesis
    using callGas_63_64 [of GasTableEIP150 1700 700 "2 ^ 200" 985 1685] by (simp add: GasTableEIP150_def)
qed

end
