(* ===== verification/Precompiles.thy ===== *)
theory Precompiles
  imports Gas RLP
begin

text \<open>
  The precompiled contracts, \<^verbatim>\<open>src/core/vm/contracts.go\<close>, with \<^verbatim>\<open>ValidateSignatureValues\<close> of
  \<^verbatim>\<open>src/crypto/crypto.go\<close> and SHA-256 of Go's standard library.  The curve operations, RIPEMD-160
  and the public key recovery are taken from the \<open>Crypto\<close> parameter.
\<close>

section \<open>SHA-256 (standard library)\<close>

unbundle bit_operations_syntax

type_synonym u32 = "32 word"

definition sha256_K :: "u32 list" where
  "sha256_K =
    [0x428a2f98, 0x71374491, 0xb5c0fbcf, 0xe9b5dba5, 0x3956c25b, 0x59f111f1, 0x923f82a4, 0xab1c5ed5,
     0xd807aa98, 0x12835b01, 0x243185be, 0x550c7dc3, 0x72be5d74, 0x80deb1fe, 0x9bdc06a7, 0xc19bf174,
     0xe49b69c1, 0xefbe4786, 0x0fc19dc6, 0x240ca1cc, 0x2de92c6f, 0x4a7484aa, 0x5cb0a9dc, 0x76f988da,
     0x983e5152, 0xa831c66d, 0xb00327c8, 0xbf597fc7, 0xc6e00bf3, 0xd5a79147, 0x06ca6351, 0x14292967,
     0x27b70a85, 0x2e1b2138, 0x4d2c6dfc, 0x53380d13, 0x650a7354, 0x766a0abb, 0x81c2c92e, 0x92722c85,
     0xa2bfe8a1, 0xa81a664b, 0xc24b8b70, 0xc76c51a3, 0xd192e819, 0xd6990624, 0xf40e3585, 0x106aa070,
     0x19a4c116, 0x1e376c08, 0x2748774c, 0x34b0bcb5, 0x391c0cb3, 0x4ed8aa4a, 0x5b9cca4f, 0x682e6ff3,
     0x748f82ee, 0x78a5636f, 0x84c87814, 0x8cc70208, 0x90befffa, 0xa4506ceb, 0xbef9a3f7, 0xc67178f2]"

definition sha256_init :: "u32 list" where
  "sha256_init = [0x6a09e667, 0xbb67ae85, 0x3c6ef372, 0xa54ff53a, 0x510e527f, 0x9b05688c, 0x1f83d9ab, 0x5be0cd19]"

definition be_u32 :: "bytes \<Rightarrow> u32" where
  "be_u32 bs = fold (\<lambda>b w. push_bit 8 w OR ucast b) bs 0"

definition u32_be :: "u32 \<Rightarrow> bytes" where
  "u32_be w = [ucast (drop_bit 24 w), ucast (drop_bit 16 w), ucast (drop_bit 8 w), ucast w]"

primrec sha256_sched :: "nat \<Rightarrow> u32 list \<Rightarrow> u32 list" where
  "sha256_sched 0 w = w"
| "sha256_sched (Suc n) w =
    (let i = length w;
         v1 = w ! (i - 2); t1 = word_rotr 17 v1 XOR word_rotr 19 v1 XOR drop_bit 10 v1;
         v2 = w ! (i - 15); t2 = word_rotr 7 v2 XOR word_rotr 18 v2 XOR drop_bit 3 v2
     in sha256_sched n (w @ [t1 + w ! (i - 7) + t2 + w ! (i - 16)]))"

definition sha256_round :: "u32 \<times> u32 \<Rightarrow> u32 list \<Rightarrow> u32 list" where
  "sha256_round kw v =
    (let a = v ! 0; b = v ! 1; c = v ! 2; d = v ! 3; e = v ! 4; f = v ! 5; g = v ! 6; h = v ! 7;
         t1 = h + (word_rotr 6 e XOR word_rotr 11 e XOR word_rotr 25 e) + (e AND f XOR NOT e AND g)
              + fst kw + snd kw;
         t2 = (word_rotr 2 a XOR word_rotr 13 a XOR word_rotr 22 a) + (a AND b XOR a AND c XOR b AND c)
     in [t1 + t2, a, b, c, d + t1, e, f, g])"

definition sha256_block :: "bytes \<Rightarrow> u32 list \<Rightarrow> u32 list" where
  "sha256_block p h =
    (let w = sha256_sched 48 (map (\<lambda>i. be_u32 (take 4 (drop (4 * i) p))) [0..<16])
     in map2 (+) h (fold sha256_round (zip sha256_K w) h))"

definition sha256_pad :: "bytes \<Rightarrow> bytes" where
  "sha256_pad m =
    (let n = length m; z = (119 - n mod 64) mod 64
     in m @ [0x80] @ replicate z 0 @ map (\<lambda>i. word_of_nat (n * 8 div 256 ^ i)) (rev [0..<8]))"

primrec sha256_blocks :: "nat \<Rightarrow> bytes \<Rightarrow> u32 list \<Rightarrow> u32 list" where
  "sha256_blocks 0 p h = h"
| "sha256_blocks (Suc n) p h = sha256_blocks n (drop 64 p) (sha256_block (take 64 p) h)"

definition sha256_Sum256 :: "bytes \<Rightarrow> bytes" where
  "sha256_Sum256 m =
    (let p = sha256_pad m in concat (map u32_be (sha256_blocks (length p div 64) p sha256_init)))"

section \<open>Signature values\<close>

definition secp256k1_N :: int where
  "secp256k1_N = 0xfffffffffffffffffffffffffffffffebaaedce6af48a03bbfd25e8cd0364141"

definition secp256k1_halfN :: int where
  "secp256k1_halfN = secp256k1_N div 2"

definition ValidateSignatureValues :: "u8 \<Rightarrow> int \<Rightarrow> int \<Rightarrow> bool \<Rightarrow> bool" where
  "ValidateSignatureValues v r s homestead =
    (if r < 1 \<or> s < 1 then False
     else if homestead \<and> s > secp256k1_halfN then False
     else r < secp256k1_N \<and> s < secp256k1_N \<and> (v = 0 \<or> v = 1))"

section \<open>The contracts\<close>

datatype PrecompiledContract =
  ecrecover | sha256hash | ripemd160hash | dataCopy | bigModExp | bn256Add | bn256ScalarMul | bn256Pairing

definition PrecompiledContractsHomestead :: "(Address \<times> PrecompiledContract) list" where
  "PrecompiledContractsHomestead =
    [(BytesToAddress [1], ecrecover), (BytesToAddress [2], sha256hash),
     (BytesToAddress [3], ripemd160hash), (BytesToAddress [4], dataCopy)]"

definition PrecompiledContractsByzantium :: "(Address \<times> PrecompiledContract) list" where
  "PrecompiledContractsByzantium =
    [(BytesToAddress [1], ecrecover), (BytesToAddress [2], sha256hash),
     (BytesToAddress [3], ripemd160hash), (BytesToAddress [4], dataCopy),
     (BytesToAddress [5], bigModExp), (BytesToAddress [6], bn256Add),
     (BytesToAddress [7], bn256ScalarMul), (BytesToAddress [8], bn256Pairing)]"

definition ecrecover_Run :: "Crypto \<Rightarrow> bytes \<Rightarrow> bytes eres" where
  "ecrecover_Run cr input =
    (let input = RightPadBytes input 128;
         r = SetBytes (take 32 (drop 64 input));
         s = SetBytes (take 32 (drop 96 input));
         v = input ! 63 - 27
     in if \<not> allZero (take 31 (drop 32 input)) \<or> \<not> ValidateSignatureValues v r s False then eok []
        else
          (case cr_Ecrecover cr (take 32 input) (take 64 (drop 64 input) @ [v]) of
             None \<Rightarrow> eok []
           | Some pubKey \<Rightarrow>
               if length pubKey < 1 then Panic
               else eok (LeftPadBytes (drop 12 (Keccak256 (drop 1 pubKey))) 32)))"

text \<open>The operand lengths are the first three words of the input.\<close>

definition modexp_len :: "bytes \<Rightarrow> u64 \<Rightarrow> int option" where
  "modexp_len input start = map_option SetBytes (getData input start 32)"

definition modexp_body :: "bytes \<Rightarrow> bytes" where
  "modexp_body input = (if length input > 96 then drop 96 input else [])"

definition modexp_expHead :: "bytes \<Rightarrow> int \<Rightarrow> int \<Rightarrow> int option" where
  "modexp_expHead input baseLen expLen =
    (if int (length input) \<le> baseLen then Some 0
     else if expLen > 32 then map_option SetBytes (getData input (Uint64 baseLen) 32)
     else map_option SetBytes (getData input (Uint64 baseLen) (Uint64 expLen)))"

definition modexp_complexity :: "int \<Rightarrow> int" where
  "modexp_complexity x =
    (if x \<le> 64 then x * x
     else if x \<le> 1024 then x * x div 4 + (96 * x - 3072)
     else x * x div 16 + (480 * x - 199680))"

definition bigModExp_RequiredGas :: "bytes \<Rightarrow> u64 option" where
  "bigModExp_RequiredGas input =
    Option.bind (modexp_len input 0) (\<lambda>baseLen.
    Option.bind (modexp_len input 32) (\<lambda>expLen.
    Option.bind (modexp_len input 64) (\<lambda>modLen.
    Option.bind (modexp_expHead (modexp_body input) baseLen expLen) (\<lambda>expHead.
    let msb = (if BitLen expHead > 0 then int (BitLen expHead) - 1 else 0);
        adjExpLen = (if expLen > 32 then 8 * (expLen - 32) else 0) + msb;
        gas = modexp_complexity (BigMax modLen baseLen);
        gas = gas * BigMax adjExpLen 1 div int (unat ModExpQuadCoeffDiv)
    in Some (if BitLen gas > 64 then MaxUint64 else Uint64 gas)))))"

definition bigModExp_Run :: "bytes \<Rightarrow> bytes eres" where
  "bigModExp_Run input =
    ebind (eopt (modexp_len input 0)) (\<lambda>bl.
    ebind (eopt (modexp_len input 32)) (\<lambda>el.
    ebind (eopt (modexp_len input 64)) (\<lambda>ml.
    let baseLen = Uint64 bl; expLen = Uint64 el; modLen = Uint64 ml; input = modexp_body input in
    if baseLen = 0 \<and> modLen = 0 then eok []
    else
      ebind (eopt (getData input 0 baseLen)) (\<lambda>b.
      ebind (eopt (getData input baseLen expLen)) (\<lambda>e.
      ebind (eopt (getData input (baseLen + expLen) modLen)) (\<lambda>m.
      let base = SetBytes b; exp = SetBytes e; modulus = SetBytes m in
      if BitLen modulus = 0 then eok (LeftPadBytes [] (sint modLen))
      else eok (LeftPadBytes (Bytes (base ^ nat exp mod modulus)) (sint modLen))))))))"

text \<open>The prime of the curve, \<^verbatim>\<open>src/crypto/bn256/constants.go\<close>.\<close>

definition bn256_P :: int where
  "bn256_P = 21888242871839275222246405745257275088696311157297823662689037894645226208583"

definition newCurvePoint :: "Crypto \<Rightarrow> bytes \<Rightarrow> Error + G1" where
  "newCurvePoint cr blob =
    (case cr_G1_Unmarshal cr blob of
       (p, onCurve) \<Rightarrow>
         if \<not> onCurve then Inl errNotOnCurve
         else (case p of (gx, gy, z, t) \<Rightarrow>
           if gx \<ge> bn256_P \<or> gy \<ge> bn256_P then Inl errInvalidCurvePoint else Inr p))"

definition newTwistPoint :: "Crypto \<Rightarrow> bytes \<Rightarrow> Error + G2" where
  "newTwistPoint cr blob =
    (case cr_G2_Unmarshal cr blob of
       (p, onCurve) \<Rightarrow>
         if \<not> onCurve then Inl errNotOnCurve
         else (case p of ((x2i, x2r), (y2i, y2r), z, t) \<Rightarrow>
           if x2r \<ge> bn256_P \<or> x2i \<ge> bn256_P \<or> y2r \<ge> bn256_P \<or> y2i \<ge> bn256_P then Inl errInvalidCurvePoint
           else Inr p))"

definition bn256Add_Run :: "Crypto \<Rightarrow> bytes \<Rightarrow> bytes eres" where
  "bn256Add_Run cr input =
    ebind (eopt (getData input 0 64)) (\<lambda>b1.
    ebind (Done (newCurvePoint cr b1)) (\<lambda>x.
    ebind (eopt (getData input 64 64)) (\<lambda>b2.
    ebind (Done (newCurvePoint cr b2)) (\<lambda>y.
    eok (cr_G1_Marshal cr (cr_G1_Add cr x y))))))"

definition bn256ScalarMul_Run :: "Crypto \<Rightarrow> bytes \<Rightarrow> bytes eres" where
  "bn256ScalarMul_Run cr input =
    ebind (eopt (getData input 0 64)) (\<lambda>b1.
    ebind (Done (newCurvePoint cr b1)) (\<lambda>p.
    ebind (eopt (getData input 64 32)) (\<lambda>b2.
    eok (cr_G1_Marshal cr (cr_G1_ScalarMult cr p (SetBytes b2))))))"

definition true32Byte :: bytes where "true32Byte = replicate 31 0 @ [1]"
definition false32Byte :: bytes where "false32Byte = replicate 32 0"

text \<open>The loop over the pairs of points; the length of the input is a multiple of 192.\<close>

fun pairing_points :: "Crypto \<Rightarrow> bytes \<Rightarrow> Error + (G1 list \<times> G2 list)" where
  "pairing_points cr input =
    (if length input < 192 then Inr ([], [])
     else
       (case newCurvePoint cr (take 64 input) of
          Inl e \<Rightarrow> Inl e
        | Inr c \<Rightarrow>
            (case newTwistPoint cr (take 128 (drop 64 input)) of
               Inl e \<Rightarrow> Inl e
             | Inr t \<Rightarrow> map_sum id (\<lambda>(cs, ts). (c # cs, t # ts)) (pairing_points cr (drop 192 input)))))"

declare pairing_points.simps [simp del]

definition bn256Pairing_Run :: "Crypto \<Rightarrow> bytes \<Rightarrow> bytes eres" where
  "bn256Pairing_Run cr input =
    (if length input mod 192 > 0 then efail errBadPairingInput
     else
       (case pairing_points cr input of
          Inl e \<Rightarrow> efail e
        | Inr (cs, ts) \<Rightarrow> eok (if cr_PairingCheck cr cs ts then true32Byte else false32Byte)))"

text \<open>The price of the hashing contracts is linear in the number of words.\<close>

definition per_word_gas :: "u64 \<Rightarrow> u64 \<Rightarrow> bytes \<Rightarrow> u64" where
  "per_word_gas word base input = of_nat (length input + 31) div 32 * word + base"

primrec RequiredGas :: "PrecompiledContract \<Rightarrow> bytes \<Rightarrow> u64 option" where
  "RequiredGas ecrecover input = Some EcrecoverGas"
| "RequiredGas sha256hash input = Some (per_word_gas Sha256PerWordGas Sha256BaseGas input)"
| "RequiredGas ripemd160hash input = Some (per_word_gas Ripemd160PerWordGas Ripemd160BaseGas input)"
| "RequiredGas dataCopy input = Some (per_word_gas IdentityPerWordGas IdentityBaseGas input)"
| "RequiredGas bigModExp input = bigModExp_RequiredGas input"
| "RequiredGas bn256Add input = Some Bn256AddGas"
| "RequiredGas bn256ScalarMul input = Some Bn256ScalarMulGas"
| "RequiredGas bn256Pairing input =
    Some (Bn256PairingBaseGas + of_nat (length input div 192) * Bn256PairingPerPointGas)"

primrec precompiled_Run :: "Crypto \<Rightarrow> PrecompiledContract \<Rightarrow> bytes \<Rightarrow> bytes eres" where
  "precompiled_Run cr ecrecover input = ecrecover_Run cr input"
| "precompiled_Run cr sha256hash input = eok (sha256_Sum256 input)"
| "precompiled_Run cr ripemd160hash input = eok (LeftPadBytes (cr_ripemd160 cr input) 32)"
| "precompiled_Run cr dataCopy input = eok input"
| "precompiled_Run cr bigModExp input = bigModExp_Run input"
| "precompiled_Run cr bn256Add input = bn256Add_Run cr input"
| "precompiled_Run cr bn256ScalarMul input = bn256ScalarMul_Run cr input"
| "precompiled_Run cr bn256Pairing input = bn256Pairing_Run cr input"

text \<open>The contract is returned with the gas it has left.\<close>

definition RunPrecompiledContract ::
  "Crypto \<Rightarrow> PrecompiledContract \<Rightarrow> bytes \<Rightarrow> Contract \<Rightarrow> (Contract \<times> bytes \<times> Error option) res" where
  "RunPrecompiledContract cr p input contract =
    (case RequiredGas p input of
       None \<Rightarrow> Panic
     | Some gas \<Rightarrow>
         (case UseGas contract gas of
            (False, contract) \<Rightarrow> Done (contract, [], Some ErrOutOfGas)
          | (True, contract) \<Rightarrow>
              rbind (precompiled_Run cr p input) (\<lambda>r.
                case r of
                  Inl e \<Rightarrow> Done (contract, [], Some e)
                | Inr ret \<Rightarrow> Done (contract, ret, None))))"

end
