(* ===== verification/Calls.thy ===== *)
theory Calls
  imports Precompiles
begin

text \<open>
  Message calls and contract creation, \<^verbatim>\<open>src/core/vm/evm.go\<close>.  The operations take the interpreter's
  \<^verbatim>\<open>Run\<close> as an argument, since it calls back into them; the recursion is tied in the theory of the
  interpreter.  The jump destination cache is a Go map shared between the caller and the callee:
  every call returns the cache as the callee left it.  The tracer hooks of debug mode only observe
  and are left out.
\<close>

section \<open>Running a contract\<close>

definition precompile_at :: "EVM \<Rightarrow> Address \<Rightarrow> PrecompiledContract option" where
  "precompile_at evm addr =
    map_of (if evm_isByzantium evm then PrecompiledContractsByzantium else PrecompiledContractsHomestead) addr"

definition run :: "run_fn \<Rightarrow> run_fn" where
  "run interp evm contract input =
    (case ct_CodeAddr contract of
       Some addr \<Rightarrow>
         (case precompile_at evm addr of
            Some p \<Rightarrow>
              rbind (RunPrecompiledContract (evm_crypto evm) p input contract)
                (\<lambda>(contract, ret, err). Done (evm, contract, ret, err))
          | None \<Rightarrow> interp evm contract input)
     | None \<Rightarrow> interp evm contract input)"

text \<open>The result of a call: EVM, shared jump destinations, returned data, gas left, error.\<close>

type_synonym call_res = "(EVM \<times> destinations \<times> bytes \<times> u64 \<times> Error option) res"

text \<open>The common end: on an error revert to the snapshot, and unless reverted consume all the gas.\<close>

definition end_call :: "int \<Rightarrow> EVM \<times> Contract \<times> bytes \<times> Error option \<Rightarrow> call_res" where
  "end_call snapshot r =
    (case r of (evm, contract, ret, err) \<Rightarrow>
       (let evm = (if err \<noteq> None then evm\<lparr>evm_StateDB := RevertToSnapshot (evm_StateDB evm) snapshot\<rparr> else evm);
            contract = (if err \<noteq> None \<and> err \<noteq> Some errExecutionReverted
                        then snd (UseGas contract (ct_Gas contract)) else contract)
        in Done (evm, ct_jumpdests contract, ret, ct_Gas contract, err)))"

definition with_db :: "EVM \<Rightarrow> StateDB \<Rightarrow> EVM" where
  "with_db evm db = evm\<lparr>evm_StateDB := db\<rparr>"

definition callee :: "ContractRef \<Rightarrow> Address \<Rightarrow> int option \<Rightarrow> u64 \<Rightarrow> EVM \<Rightarrow> Address \<Rightarrow> Contract" where
  "callee caller to value gas evm addr =
    SetCallCode (NewContract caller to value gas) addr
      (GetCodeHash (evm_StateDB evm) addr) (GetCode (evm_StateDB evm) addr)"

section \<open>Calls\<close>

definition Call :: "run_fn \<Rightarrow> EVM \<Rightarrow> ContractRef \<Rightarrow> Address \<Rightarrow> bytes \<Rightarrow> u64 \<Rightarrow> int \<Rightarrow> call_res" where
  "Call interp evm caller addr input gas value =
    (if NoRecursion (evm_vmConfig evm) \<and> evm_depth evm > 0 then Done (evm, ref_jumpdests caller, [], gas, None)
     else if evm_depth evm > CallCreateDepth then Done (evm, ref_jumpdests caller, [], gas, Some ErrDepth)
     else
       (case CanTransferFunc (evm_ctx evm) (evm_StateDB evm) (ref_Address caller) value of
          None \<Rightarrow> Panic
        | Some (False, db) \<Rightarrow>
            Done (with_db evm db, ref_jumpdests caller, [], gas, Some ErrInsufficientBalance)
        | Some (True, db) \<Rightarrow>
            (let snapshot = Snapshot db in
             if \<not> Exist db addr \<and> precompile_at evm addr = None \<and> evm_isEIP158 evm \<and> value = 0 then
               Done (with_db evm db, ref_jumpdests caller, [], gas, None)
             else
               (let db = (if \<not> Exist db addr then CreateAccount db addr else db);
                    db = TransferFunc (evm_ctx evm) db (ref_Address caller) addr value;
                    evm = with_db evm db;
                    contract = callee caller addr (Some value) gas evm addr
                in rbind (run interp evm contract input) (end_call snapshot)))))"

definition CallCode :: "run_fn \<Rightarrow> EVM \<Rightarrow> ContractRef \<Rightarrow> Address \<Rightarrow> bytes \<Rightarrow> u64 \<Rightarrow> int \<Rightarrow> call_res" where
  "CallCode interp evm caller addr input gas value =
    (if NoRecursion (evm_vmConfig evm) \<and> evm_depth evm > 0 then Done (evm, ref_jumpdests caller, [], gas, None)
     else if evm_depth evm > CallCreateDepth then Done (evm, ref_jumpdests caller, [], gas, Some ErrDepth)
     else
       (case CanTransferFunc (evm_ctx evm) (evm_StateDB evm) (ref_Address caller) value of
          None \<Rightarrow> Panic
        | Some (False, db) \<Rightarrow>
            Done (with_db evm db, ref_jumpdests caller, [], gas, Some ErrInsufficientBalance)
        | Some (True, db) \<Rightarrow>
            (let snapshot = Snapshot db;
                 evm = with_db evm db;
                 contract = callee caller (ref_Address caller) (Some value) gas evm addr
             in rbind (run interp evm contract input) (end_call snapshot))))"

definition DelegateCall :: "run_fn \<Rightarrow> EVM \<Rightarrow> ContractRef \<Rightarrow> Address \<Rightarrow> bytes \<Rightarrow> u64 \<Rightarrow> call_res" where
  "DelegateCall interp evm caller addr input gas =
    (if NoRecursion (evm_vmConfig evm) \<and> evm_depth evm > 0 then Done (evm, ref_jumpdests caller, [], gas, None)
     else if evm_depth evm > CallCreateDepth then Done (evm, ref_jumpdests caller, [], gas, Some ErrDepth)
     else
       (let snapshot = Snapshot (evm_StateDB evm) in
        case AsDelegate caller (NewContract caller (ref_Address caller) None gas) of
          None \<Rightarrow> Panic
        | Some contract \<Rightarrow>
            (let contract = SetCallCode contract addr
                   (GetCodeHash (evm_StateDB evm) addr) (GetCode (evm_StateDB evm) addr)
             in rbind (run interp evm contract input) (end_call snapshot))))"

text \<open>\<^verbatim>\<open>StaticCall\<close> resets the read-only flag when it was the one to set it (a deferred function).\<close>

definition StaticCall :: "run_fn \<Rightarrow> EVM \<Rightarrow> ContractRef \<Rightarrow> Address \<Rightarrow> bytes \<Rightarrow> u64 \<Rightarrow> call_res" where
  "StaticCall interp evm caller addr input gas =
    (if NoRecursion (evm_vmConfig evm) \<and> evm_depth evm > 0 then Done (evm, ref_jumpdests caller, [], gas, None)
     else if evm_depth evm > CallCreateDepth then Done (evm, ref_jumpdests caller, [], gas, Some ErrDepth)
     else
       (let wasReadOnly = in_readOnly evm;
            evm = evm\<lparr>in_readOnly := True\<rparr>;
            snapshot = Snapshot (evm_StateDB evm);
            contract = callee caller addr (Some 0) gas evm addr
        in rbind (rbind (run interp evm contract input) (end_call snapshot))
             (\<lambda>(evm, r). Done (if wasReadOnly then evm else evm\<lparr>in_readOnly := False\<rparr>, r))))"

section \<open>Creation\<close>

definition emptyCodeHash :: Hash where
  "emptyCodeHash = Keccak256Hash []"

text \<open>The part of \<^verbatim>\<open>Create\<close> after the init code ran: store the code or fail.\<close>

definition end_create :: "int \<Rightarrow> Address \<Rightarrow> EVM \<times> Contract \<times> bytes \<times> Error option \<Rightarrow>
    (EVM \<times> destinations \<times> bytes \<times> Address \<times> u64 \<times> Error option) res" where
  "end_create snapshot contractAddr r =
    (case r of (evm, contract, ret, err) \<Rightarrow>
       (let maxCodeSizeExceeded = (evm_isEIP158 evm \<and> length ret > MaxCodeSize);
            createDataGas = of_nat (length ret) * CreateDataGas;
            (evm, contract, err) =
              (if err = None \<and> \<not> maxCodeSizeExceeded then
                 (case UseGas contract createDataGas of
                    (True, contract) \<Rightarrow>
                      (with_db evm (SetCode (evm_StateDB evm) contractAddr ret), contract, err)
                  | (False, contract) \<Rightarrow> (evm, contract, Some ErrCodeStoreOutOfGas))
               else (evm, contract, err));
            failed = (maxCodeSizeExceeded \<or>
              (err \<noteq> None \<and> (evm_isHomestead evm \<or> err \<noteq> Some ErrCodeStoreOutOfGas)));
            evm = (if failed then with_db evm (RevertToSnapshot (evm_StateDB evm) snapshot) else evm);
            contract = (if failed \<and> err \<noteq> Some errExecutionReverted
                        then snd (UseGas contract (ct_Gas contract)) else contract);
            err = (if maxCodeSizeExceeded \<and> err = None then Some errMaxCodeSizeExceeded else err)
        in Done (evm, ct_jumpdests contract, ret, contractAddr, ct_Gas contract, err)))"

definition Create :: "run_fn \<Rightarrow> EVM \<Rightarrow> ContractRef \<Rightarrow> bytes \<Rightarrow> u64 \<Rightarrow> int \<Rightarrow>
    (EVM \<times> destinations \<times> bytes \<times> Address \<times> u64 \<times> Error option) res" where
  "Create interp evm caller code gas value =
    (if evm_depth evm > CallCreateDepth then
       Done (evm, ref_jumpdests caller, [], zeroAddress, gas, Some ErrDepth)
     else
       (case CanTransferFunc (evm_ctx evm) (evm_StateDB evm) (ref_Address caller) value of
          None \<Rightarrow> Panic
        | Some (False, db) \<Rightarrow>
            Done (with_db evm db, ref_jumpdests caller, [], zeroAddress, gas, Some ErrInsufficientBalance)
        | Some (True, db) \<Rightarrow>
            (let nonce = GetNonce db (ref_Address caller);
                 db = SetNonce db (ref_Address caller) (nonce + 1);
                 contractAddr = CreateAddress (ref_Address caller) nonce;
                 contractHash = GetCodeHash db contractAddr
             in if GetNonce db contractAddr \<noteq> 0 \<or> (contractHash \<noteq> zeroHash \<and> contractHash \<noteq> emptyCodeHash) then
                  Done (with_db evm db, ref_jumpdests caller, [], zeroAddress, 0, Some ErrContractAddressCollision)
                else
                  (let snapshot = Snapshot db;
                       db = CreateAccount db contractAddr;
                       db = (if evm_isEIP158 evm then SetNonce db contractAddr 1 else db);
                       db = TransferFunc (evm_ctx evm) db (ref_Address caller) contractAddr value;
                       evm = with_db evm db;
                       contract = SetCallCode (NewContract caller contractAddr (Some value) gas)
                         contractAddr (Keccak256Hash code) code
                   in if NoRecursion (evm_vmConfig evm) \<and> evm_depth evm > 0 then
                        Done (evm, ref_jumpdests caller, [], contractAddr, gas, None)
                      else rbind (run interp evm contract []) (end_create snapshot contractAddr)))))"

end
