(* ===== verification/Instructions.thy ===== *)
theory Instructions
  imports Calls
begin

text \<open>
  The instruction implementations of \<^verbatim>\<open>src/core/vm/instructions.go\<close>, in the order of the source.  An
  instruction maps a frame to the updated frame, the returned bytes and an error.  Integers are
  taken from the stack by \<open>popk\<close>, which panics on an empty stack.
\<close>

unbundle bit_operations_syntax

section \<open>Big integer division\<close>

text \<open>\<^verbatim>\<open>Div\<close> and \<^verbatim>\<open>Mod\<close> of \<^verbatim>\<open>math/big\<close> are Euclidean.\<close>

definition big_Div :: "int \<Rightarrow> int \<Rightarrow> int" where
  "big_Div x y = (if y > 0 then x div y else - (x div (- y)))"

definition big_Mod :: "int \<Rightarrow> int \<Rightarrow> int" where
  "big_Mod x y = x mod \<bar>y\<bar>"

lemma big_Div_Mod: "y \<noteq> 0 \<Longrightarrow> x = big_Div x y * y + big_Mod x y"
  by (auto simp: big_Div_def big_Mod_def minus_mult_div_eq_mod [symmetric] algebra_simps)

section \<open>Arithmetic\<close>

text \<open>The overflow marker: a storage slot of the running contract set to the program counter.\<close>

definition marker_Add :: string where "marker_Add = ''Nyanpass. Overflow detected: Add''"
definition marker_Sub :: string where "marker_Sub = ''Nyanpass. Overflow detected: Sub''"
definition marker_Mul :: string where "marker_Mul = ''Nyanpass. Overflow detected: Mul''"
definition marker_Div :: string where "marker_Div = ''Nyanpass. Overflow detected: Div''"

definition mark :: "string \<Rightarrow> Frame \<Rightarrow> Frame" where
  "mark key fr =
    fdb (\<lambda>db. SetState db (self_Address fr) (StringToHash key) (BigToHash (sint (fr_pc fr)))) fr"

definition opAdd :: "Frame \<Rightarrow> exec_res" where
  "opAdd fr =
    popk fr (\<lambda>x fr. popk fr (\<lambda>y fr.
      let result = x + y; resultMod = U256 result; fr = fput [y] (fpush resultMod fr)
      in fok (if result \<noteq> resultMod then mark marker_Add fr else fr)))"

definition opSub :: "Frame \<Rightarrow> exec_res" where
  "opSub fr =
    popk fr (\<lambda>x fr. popk fr (\<lambda>y fr.
      let result = x - y; resultMod = U256 result; fr = fput [y] (fpush resultMod fr)
      in fok (if result \<noteq> resultMod then mark marker_Sub fr else fr)))"

definition opMul :: "Frame \<Rightarrow> exec_res" where
  "opMul fr =
    popk fr (\<lambda>x fr. popk fr (\<lambda>y fr.
      let result = x * y; resultMod = U256 result; fr = fput [y] (fpush resultMod fr)
      in fok (if result \<noteq> resultMod then mark marker_Mul fr else fr)))"

definition opDiv :: "Frame \<Rightarrow> exec_res" where
  "opDiv fr =
    popk fr (\<lambda>x fr. popk fr (\<lambda>y fr.
      if y \<noteq> 0 then
        (let result = big_Div x y; resultMod = U256 result;
             fr = (if result \<noteq> resultMod then mark marker_Div fr else fr)
         in fok (fput [y] (fpush resultMod fr)))
      else fok (fput [y] (fpush 0 fr))))"

definition opSdiv :: "Frame \<Rightarrow> exec_res" where
  "opSdiv fr =
    popk fr (\<lambda>x fr. popk fr (\<lambda>y fr.
      let x = S256 x; y = S256 y in
      if y = 0 then fok (fpush 0 fr)
      else
        (let n = (if x * y < 0 then -1 else 1); fr = fget fr;
             res = big_Div \<bar>x\<bar> \<bar>y\<bar> * n
         in fok (fput [y] (fpush (U256 res) fr)))))"

definition opMod :: "Frame \<Rightarrow> exec_res" where
  "opMod fr =
    popk fr (\<lambda>x fr. popk fr (\<lambda>y fr.
      fok (fput [y] (if y = 0 then fpush 0 fr else fpush (U256 (big_Mod x y)) fr))))"

definition opSmod :: "Frame \<Rightarrow> exec_res" where
  "opSmod fr =
    popk fr (\<lambda>x fr. popk fr (\<lambda>y fr.
      let x = S256 x; y = S256 y in
      if y = 0 then fok (fput [y] (fpush 0 fr))
      else
        (let n = (if x < 0 then -1 else 1); res = big_Mod \<bar>x\<bar> \<bar>y\<bar> * n
         in fok (fput [y] (fpush (U256 res) fr)))))"

definition opExp :: "Frame \<Rightarrow> exec_res" where
  "opExp fr =
    popk fr (\<lambda>base fr. popk fr (\<lambda>exponent fr.
      fok (fput [base, exponent] (fpush (Exp base exponent) fr))))"

definition opSignExtend :: "Frame \<Rightarrow> exec_res" where
  "opSignExtend fr =
    popk fr (\<lambda>b fr.
      if b < 31 then
        (let n = unat (Uint64 b * 8 + 7) in
         popk fr (\<lambda>num fr.
           let mask = push_bit n 1 - 1;
               num = (if bit num n then num OR NOT mask else num AND mask)
           in fok (fput [b] (fpush (U256 num) fr))))
      else fok (fput [b] fr))"

section \<open>Comparison and bitwise operations\<close>

definition opNot :: "Frame \<Rightarrow> exec_res" where
  "opNot fr = popk fr (\<lambda>x fr. fok (fpush (U256 (NOT x)) fr))"

text \<open>A boolean result: a recycled integer set to one, or a new zero.\<close>

definition push_bool :: "bool \<Rightarrow> Frame \<Rightarrow> Frame" where
  "push_bool b fr = (if b then fpush 1 (fget fr) else fpush 0 fr)"

definition opLt :: "Frame \<Rightarrow> exec_res" where
  "opLt fr = popk fr (\<lambda>x fr. popk fr (\<lambda>y fr. fok (fput [x, y] (push_bool (x < y) fr))))"

definition opGt :: "Frame \<Rightarrow> exec_res" where
  "opGt fr = popk fr (\<lambda>x fr. popk fr (\<lambda>y fr. fok (fput [x, y] (push_bool (x > y) fr))))"

definition opSlt :: "Frame \<Rightarrow> exec_res" where
  "opSlt fr =
    popk fr (\<lambda>x fr. popk fr (\<lambda>y fr.
      let x = S256 x; y = S256 y in fok (fput [x, y] (push_bool (x < S256 y) fr))))"

definition opSgt :: "Frame \<Rightarrow> exec_res" where
  "opSgt fr =
    popk fr (\<lambda>x fr. popk fr (\<lambda>y fr.
      let x = S256 x; y = S256 y in fok (fput [x, y] (push_bool (x > y) fr))))"

definition opEq :: "Frame \<Rightarrow> exec_res" where
  "opEq fr = popk fr (\<lambda>x fr. popk fr (\<lambda>y fr. fok (fput [x, y] (push_bool (x = y) fr))))"

definition opIszero :: "Frame \<Rightarrow> exec_res" where
  "opIszero fr = popk fr (\<lambda>x fr. fok (fput [x] (push_bool (\<not> x > 0) fr)))"

definition opAnd :: "Frame \<Rightarrow> exec_res" where
  "opAnd fr = popk fr (\<lambda>x fr. popk fr (\<lambda>y fr. fok (fput [y] (fpush (x AND y) fr))))"

definition opOr :: "Frame \<Rightarrow> exec_res" where
  "opOr fr = popk fr (\<lambda>x fr. popk fr (\<lambda>y fr. fok (fput [y] (fpush (x OR y) fr))))"

definition opXor :: "Frame \<Rightarrow> exec_res" where
  "opXor fr = popk fr (\<lambda>x fr. popk fr (\<lambda>y fr. fok (fput [y] (fpush (x XOR y) fr))))"

text \<open>\<^verbatim>\<open>opByte\<close> overwrites the integer on top of the stack in place.\<close>

definition opByte :: "Frame \<Rightarrow> exec_res" where
  "opByte fr =
    popk fr (\<lambda>th fr. popk fr (\<lambda>val fr.
      let b = (if th < 32 then uint (Byte val 32 (nat (Int64 th))) else 0)
      in fok (fput [th] (fpush b fr))))"

definition opAddmod :: "Frame \<Rightarrow> exec_res" where
  "opAddmod fr =
    popk fr (\<lambda>x fr. popk fr (\<lambda>y fr. popk fr (\<lambda>z fr.
      fok (fput [y, z] (if z > 0 then fpush (U256 (big_Mod (x + y) z)) fr else fpush 0 fr)))))"

definition opMulmod :: "Frame \<Rightarrow> exec_res" where
  "opMulmod fr =
    popk fr (\<lambda>x fr. popk fr (\<lambda>y fr. popk fr (\<lambda>z fr.
      fok (fput [y, z] (if z > 0 then fpush (U256 (big_Mod (x * y) z)) fr else fpush 0 fr)))))"

section \<open>Hashing and environment\<close>

definition opSha3 :: "Frame \<Rightarrow> exec_res" where
  "opSha3 fr =
    popk fr (\<lambda>offset fr. popk fr (\<lambda>sz fr.
      case mem_Get (fr_mem fr) (Int64 offset) (Int64 sz) of
        None \<Rightarrow> Panic
      | Some data \<Rightarrow>
          (let hash = Keccak256 data;
               fr = (if EnablePreimageRecording (evm_vmConfig (fr_evm fr))
                     then fdb (\<lambda>db. AddPreimage db (BytesToHash hash) data) fr else fr)
           in fok (fput [offset, sz] (fpush (SetBytes hash) fr)))))"

definition opAddress :: "Frame \<Rightarrow> exec_res" where
  "opAddress fr = fok (fpush (Address_Big (self_Address fr)) fr)"

definition opBalance :: "Frame \<Rightarrow> exec_res" where
  "opBalance fr =
    popk fr (\<lambda>a fr.
      case GetBalance (evm_StateDB (fr_evm fr)) (BigToAddress a) of
        (None, db) \<Rightarrow> Panic
      | (Some balance, db) \<Rightarrow> fok (fpush balance (fdb (\<lambda>_. db) fr)))"

definition opOrigin :: "Frame \<Rightarrow> exec_res" where
  "opOrigin fr = fok (fpush (Address_Big (Origin (evm_ctx (fr_evm fr)))) fr)"

definition opCaller :: "Frame \<Rightarrow> exec_res" where
  "opCaller fr = fok (fpush (Address_Big (ct_CallerAddress (fr_contract fr))) fr)"

definition opCallValue :: "Frame \<Rightarrow> exec_res" where
  "opCallValue fr =
    (case ct_value (fr_contract fr) of None \<Rightarrow> Panic | Some v \<Rightarrow> fok (fpush v (fget fr)))"

definition opCallDataLoad :: "Frame \<Rightarrow> exec_res" where
  "opCallDataLoad fr =
    popk fr (\<lambda>x fr.
      case getDataBig (ct_Input (fr_contract fr)) x 32 of
        None \<Rightarrow> Panic
      | Some d \<Rightarrow> fok (fpush (SetBytes d) fr))"

definition opCallDataSize :: "Frame \<Rightarrow> exec_res" where
  "opCallDataSize fr = fok (fpush (int (length (ct_Input (fr_contract fr)))) (fget fr))"

text \<open>\<^verbatim>\<open>memory.Set\<close>, which panics outside the memory.\<close>

definition fmem_Set :: "int \<Rightarrow> int \<Rightarrow> bytes \<Rightarrow> Frame \<Rightarrow> (Frame \<Rightarrow> exec_res) \<Rightarrow> exec_res" where
  "fmem_Set offset sz value fr k =
    (case mem_Set (fr_mem fr) (Uint64 offset) (Uint64 sz) value of
       None \<Rightarrow> Panic
     | Some m \<Rightarrow> k (fr\<lparr>fr_mem := m\<rparr>))"

text \<open>The copy instructions: pad the requested part of the data and store it.\<close>

definition copy_to_mem :: "bytes \<Rightarrow> int \<Rightarrow> int \<Rightarrow> int \<Rightarrow> Frame \<Rightarrow> exec_res" where
  "copy_to_mem data memOffset dataOffset len fr =
    (case getDataBig data dataOffset len of
       None \<Rightarrow> Panic
     | Some d \<Rightarrow> fmem_Set memOffset len d fr (\<lambda>fr. fok (fput [memOffset, dataOffset, len] fr)))"

definition opCallDataCopy :: "Frame \<Rightarrow> exec_res" where
  "opCallDataCopy fr =
    popk fr (\<lambda>memOffset fr. popk fr (\<lambda>dataOffset fr. popk fr (\<lambda>len fr.
      copy_to_mem (ct_Input (fr_contract fr)) memOffset dataOffset len fr)))"

definition opReturnDataSize :: "Frame \<Rightarrow> exec_res" where
  "opReturnDataSize fr = fok (fpush (int (length (in_returnData (fr_evm fr)))) (fget fr))"

definition opReturnDataCopy :: "Frame \<Rightarrow> exec_res" where
  "opReturnDataCopy fr =
    popk fr (\<lambda>memOffset fr. popk fr (\<lambda>dataOffset fr. popk fr (\<lambda>len fr.
      let e = dataOffset + len; data = in_returnData (fr_evm fr);
          put = fput [memOffset, dataOffset, len]
      in if BitLen e > 64 \<or> length data < unat (Uint64 e) then ferr errReturnDataOutOfBounds (put fr)
         else
           (case slice data (unat (Uint64 dataOffset)) (unat (Uint64 e)) of
              None \<Rightarrow> Panic
            | Some d \<Rightarrow> fmem_Set memOffset len d fr (\<lambda>fr. fok (put fr))))))"

definition opExtCodeSize :: "Frame \<Rightarrow> exec_res" where
  "opExtCodeSize fr =
    popk fr (\<lambda>a fr. fok (fpush (int (GetCodeSize (evm_StateDB (fr_evm fr)) (BigToAddress a))) fr))"

definition opCodeSize :: "Frame \<Rightarrow> exec_res" where
  "opCodeSize fr = fok (fpush (int (length (ct_Code (fr_contract fr)))) (fget fr))"

definition opCodeCopy :: "Frame \<Rightarrow> exec_res" where
  "opCodeCopy fr =
    popk fr (\<lambda>memOffset fr. popk fr (\<lambda>codeOffset fr. popk fr (\<lambda>len fr.
      copy_to_mem (ct_Code (fr_contract fr)) memOffset codeOffset len fr)))"

definition opExtCodeCopy :: "Frame \<Rightarrow> exec_res" where
  "opExtCodeCopy fr =
    popk fr (\<lambda>a fr. popk fr (\<lambda>memOffset fr. popk fr (\<lambda>codeOffset fr. popk fr (\<lambda>len fr.
      copy_to_mem (GetCode (evm_StateDB (fr_evm fr)) (BigToAddress a)) memOffset codeOffset len fr))))"

definition opGasprice :: "Frame \<Rightarrow> exec_res" where
  "opGasprice fr = fok (fpush (GasPrice (evm_ctx (fr_evm fr))) (fget fr))"

definition opBlockhash :: "Frame \<Rightarrow> exec_res" where
  "opBlockhash fr =
    popk fr (\<lambda>num fr.
      let fr = fget fr; n = evm_BlockNumber (fr_evm fr) - 257
      in if num > n \<and> num < evm_BlockNumber (fr_evm fr)
         then fok (fput [num, n] (fpush (Hash_Big (GetHashFunc (evm_ctx (fr_evm fr)) (Uint64 num))) fr))
         else fok (fput [num, n] (fpush 0 fr)))"

definition opCoinbase :: "Frame \<Rightarrow> exec_res" where
  "opCoinbase fr = fok (fpush (Address_Big (Coinbase (evm_ctx (fr_evm fr)))) fr)"

definition opTimestamp :: "Frame \<Rightarrow> exec_res" where
  "opTimestamp fr = fok (fpush (U256 (Time (evm_ctx (fr_evm fr)))) fr)"

definition opNumber :: "Frame \<Rightarrow> exec_res" where
  "opNumber fr = fok (fpush (U256 (evm_BlockNumber (fr_evm fr))) fr)"

definition opDifficulty :: "Frame \<Rightarrow> exec_res" where
  "opDifficulty fr = fok (fpush (U256 (Difficulty (evm_ctx (fr_evm fr)))) fr)"

definition opGasLimit :: "Frame \<Rightarrow> exec_res" where
  "opGasLimit fr = fok (fpush (U256 (uint (GasLimit (evm_ctx (fr_evm fr))))) fr)"

section \<open>Stack, memory, storage and control flow\<close>

definition opPop :: "Frame \<Rightarrow> exec_res" where
  "opPop fr = popk fr (\<lambda>x fr. fok (fput [x] fr))"

definition opMload :: "Frame \<Rightarrow> exec_res" where
  "opMload fr =
    popk fr (\<lambda>offset fr.
      case mem_Get (fr_mem fr) (Int64 offset) 32 of
        None \<Rightarrow> Panic
      | Some d \<Rightarrow> fok (fput [offset] (fpush (SetBytes d) fr)))"

definition opMstore :: "Frame \<Rightarrow> exec_res" where
  "opMstore fr =
    popk fr (\<lambda>mStart fr. popk fr (\<lambda>val fr.
      fmem_Set mStart 32 (PaddedBigBytes val 32) fr (\<lambda>fr. fok (fput [mStart, val] fr))))"

definition opMstore8 :: "Frame \<Rightarrow> exec_res" where
  "opMstore8 fr =
    popk fr (\<lambda>off fr. popk fr (\<lambda>val fr.
      case mem_setbyte (fr_mem fr) (Int64 off) (word_of_int (Int64 val AND 0xff)) of
        None \<Rightarrow> Panic
      | Some m \<Rightarrow> fok (fr\<lparr>fr_mem := m\<rparr>)))"

definition callback :: "CallbackSite \<Rightarrow> Hash \<Rightarrow> int \<Rightarrow> Frame \<Rightarrow> Frame" where
  "callback site loc val fr =
    fr\<lparr>fr_evm := (fr_evm fr)\<lparr>evm_events := evm_events (fr_evm fr) @ [(site, loc, val)]\<rparr>\<rparr>"

definition opSload :: "Frame \<Rightarrow> exec_res" where
  "opSload fr =
    popk fr (\<lambda>x fr.
      let loc = BigToHash x;
          (h, db) = GetState (evm_StateDB (fr_evm fr)) (self_Address fr) loc;
          val = Hash_Big h
      in fok (callback opSload_site loc val (fpush val (fdb (\<lambda>_. db) fr))))"

definition opSstore :: "Frame \<Rightarrow> exec_res" where
  "opSstore fr =
    popk fr (\<lambda>x fr. popk fr (\<lambda>val fr.
      let loc = BigToHash x;
          fr = fdb (\<lambda>db. SetState db (self_Address fr) loc (BigToHash val)) fr
      in fok (callback opSstore_site loc val (fput [val] fr))))"

text \<open>The check of a jump target, which may extend the cache of analysed code.\<close>

definition jump_to :: "int \<Rightarrow> Frame \<Rightarrow> (Frame \<Rightarrow> exec_res) \<Rightarrow> exec_res" where
  "jump_to pos fr k =
    (let c = fr_contract fr in
     case has (ct_jumpdests c) (ct_CodeHash c) (ct_Code c) pos of
       None \<Rightarrow> Panic
     | Some (valid, d) \<Rightarrow>
         (let fr = fr\<lparr>fr_contract := c\<lparr>ct_jumpdests := d\<rparr>\<rparr> in
          if \<not> valid then ferr (errInvalidJump (GetOp c (Uint64 pos)) pos) fr
          else k (fr\<lparr>fr_pc := Uint64 pos\<rparr>)))"

definition opJump :: "Frame \<Rightarrow> exec_res" where
  "opJump fr = popk fr (\<lambda>pos fr. jump_to pos fr (\<lambda>fr. fok (fput [pos] fr)))"

definition opJumpi :: "Frame \<Rightarrow> exec_res" where
  "opJumpi fr =
    popk fr (\<lambda>pos fr. popk fr (\<lambda>cond fr.
      if cond \<noteq> 0 then jump_to pos fr (\<lambda>fr. fok (fput [pos, cond] fr))
      else fok (fput [pos, cond] (fr\<lparr>fr_pc := fr_pc fr + 1\<rparr>))))"

definition opJumpdest :: "Frame \<Rightarrow> exec_res" where
  "opJumpdest fr = fok fr"

definition opPc :: "Frame \<Rightarrow> exec_res" where
  "opPc fr = fok (fpush (uint (fr_pc fr)) (fget fr))"

definition opMsize :: "Frame \<Rightarrow> exec_res" where
  "opMsize fr = fok (fpush (int (mem_Len (fr_mem fr))) (fget fr))"

definition opGas :: "Frame \<Rightarrow> exec_res" where
  "opGas fr = fok (fpush (uint (ct_Gas (fr_contract fr))) (fget fr))"

section \<open>Calls and creation\<close>

definition set_gas :: "u64 \<Rightarrow> Frame \<Rightarrow> Frame" where
  "set_gas g fr = fr\<lparr>fr_contract := (fr_contract fr)\<lparr>ct_Gas := g\<rparr>\<rparr>"

definition set_evm_jumps :: "EVM \<Rightarrow> destinations \<Rightarrow> Frame \<Rightarrow> Frame" where
  "set_evm_jumps evm d fr = fr\<lparr>fr_evm := evm, fr_contract := (fr_contract fr)\<lparr>ct_jumpdests := d\<rparr>\<rparr>"

definition opCreate :: "run_fn \<Rightarrow> Frame \<Rightarrow> exec_res" where
  "opCreate interp fr =
    popk fr (\<lambda>value fr. popk fr (\<lambda>offset fr. popk fr (\<lambda>sz fr.
      case mem_Get (fr_mem fr) (Int64 offset) (Int64 sz) of
        None \<Rightarrow> Panic
      | Some input \<Rightarrow>
          (let gas = ct_Gas (fr_contract fr);
               gas = (if evm_isEIP150 (fr_evm fr) then gas - gas div 64 else gas);
               fr = fr\<lparr>fr_contract := snd (UseGas (fr_contract fr) gas)\<rparr>
           in rbind (Create interp (fr_evm fr) (CallerContract (fr_contract fr)) input gas value)
                (\<lambda>(evm, d, res, addr, returnGas, suberr).
                   let fr = set_evm_jumps evm d fr;
                       fr = (if evm_isHomestead evm \<and> suberr = Some ErrCodeStoreOutOfGas then fpush 0 fr
                             else if suberr \<noteq> None \<and> suberr \<noteq> Some ErrCodeStoreOutOfGas then fpush 0 fr
                             else fpush (Address_Big addr) fr);
                       fr = set_gas (ct_Gas (fr_contract fr) + returnGas) fr;
                       fr = fput [value, offset, sz] fr
                   in if suberr = Some errExecutionReverted then fret res fr else fok fr)))))"

text \<open>
  What the four call instructions do with the result: push the success flag, copy the returned data,
  take back the gas.
\<close>

definition finish_call :: "int \<Rightarrow> int \<Rightarrow> int list \<Rightarrow> Frame \<Rightarrow>
    EVM \<times> destinations \<times> bytes \<times> u64 \<times> Error option \<Rightarrow> exec_res" where
  "finish_call retOffset retSize puts fr r =
    (case r of (evm, d, ret, returnGas, err) \<Rightarrow>
       (let fr = set_evm_jumps evm d fr;
            fr = fpush (if err \<noteq> None then 0 else 1) fr;
            k = (\<lambda>fr. fret ret (fput puts (set_gas (ct_Gas (fr_contract fr) + returnGas) fr)))
        in if err = None \<or> err = Some errExecutionReverted then fmem_Set retOffset retSize ret fr k
           else k fr))"

definition opCall :: "run_fn \<Rightarrow> Frame \<Rightarrow> exec_res" where
  "opCall interp fr =
    popk fr (\<lambda>g fr.
      let fr = fput [g] fr; gas = evm_callGasTemp (fr_evm fr) in
      popk fr (\<lambda>addr fr. popk fr (\<lambda>value fr. popk fr (\<lambda>inOffset fr. popk fr (\<lambda>inSize fr.
      popk fr (\<lambda>retOffset fr. popk fr (\<lambda>retSize fr.
        let toAddr = BigToAddress addr; value = U256 value in
        case mem_Get (fr_mem fr) (Int64 inOffset) (Int64 inSize) of
          None \<Rightarrow> Panic
        | Some args \<Rightarrow>
            (let gas = (if value \<noteq> 0 then gas + CallStipend else gas) in
             rbind (Call interp (fr_evm fr) (CallerContract (fr_contract fr)) toAddr args gas value)
               (finish_call retOffset retSize [addr, value, inOffset, inSize, retOffset, retSize] fr)))))))))"

definition opCallCode :: "run_fn \<Rightarrow> Frame \<Rightarrow> exec_res" where
  "opCallCode interp fr =
    popk fr (\<lambda>g fr.
      let fr = fput [g] fr; gas = evm_callGasTemp (fr_evm fr) in
      popk fr (\<lambda>addr fr. popk fr (\<lambda>value fr. popk fr (\<lambda>inOffset fr. popk fr (\<lambda>inSize fr.
      popk fr (\<lambda>retOffset fr. popk fr (\<lambda>retSize fr.
        let toAddr = BigToAddress addr; value = U256 value in
        case mem_Get (fr_mem fr) (Int64 inOffset) (Int64 inSize) of
          None \<Rightarrow> Panic
        | Some args \<Rightarrow>
            (let gas = (if value \<noteq> 0 then gas + CallStipend else gas) in
             rbind (CallCode interp (fr_evm fr) (CallerContract (fr_contract fr)) toAddr args gas value)
               (finish_call retOffset retSize [addr, value, inOffset, inSize, retOffset, retSize] fr)))))))))"

definition opDelegateCall :: "run_fn \<Rightarrow> Frame \<Rightarrow> exec_res" where
  "opDelegateCall interp fr =
    popk fr (\<lambda>g fr.
      let fr = fput [g] fr; gas = evm_callGasTemp (fr_evm fr) in
      popk fr (\<lambda>addr fr. popk fr (\<lambda>inOffset fr. popk fr (\<lambda>inSize fr.
      popk fr (\<lambda>retOffset fr. popk fr (\<lambda>retSize fr.
        let toAddr = BigToAddress addr in
        case mem_Get (fr_mem fr) (Int64 inOffset) (Int64 inSize) of
          None \<Rightarrow> Panic
        | Some args \<Rightarrow>
            rbind (DelegateCall interp (fr_evm fr) (CallerContract (fr_contract fr)) toAddr args gas)
              (finish_call retOffset retSize [addr, inOffset, inSize, retOffset, retSize] fr)))))))"

definition opStaticCall :: "run_fn \<Rightarrow> Frame \<Rightarrow> exec_res" where
  "opStaticCall interp fr =
    popk fr (\<lambda>g fr.
      let fr = fput [g] fr; gas = evm_callGasTemp (fr_evm fr) in
      popk fr (\<lambda>addr fr. popk fr (\<lambda>inOffset fr. popk fr (\<lambda>inSize fr.
      popk fr (\<lambda>retOffset fr. popk fr (\<lambda>retSize fr.
        let toAddr = BigToAddress addr in
        case mem_Get (fr_mem fr) (Int64 inOffset) (Int64 inSize) of
          None \<Rightarrow> Panic
        | Some args \<Rightarrow>
            rbind (StaticCall interp (fr_evm fr) (CallerContract (fr_contract fr)) toAddr args gas)
              (finish_call retOffset retSize [addr, inOffset, inSize, retOffset, retSize] fr)))))))"

section \<open>Halting\<close>

definition opReturn :: "Frame \<Rightarrow> exec_res" where
  "opReturn fr =
    popk fr (\<lambda>offset fr. popk fr (\<lambda>sz fr.
      case mem_GetPtr (fr_mem fr) (Int64 offset) (Int64 sz) of
        None \<Rightarrow> Panic
      | Some ret \<Rightarrow> fret ret (fput [offset, sz] fr)))"

definition opRevert :: "Frame \<Rightarrow> exec_res" where
  "opRevert fr =
    popk fr (\<lambda>offset fr. popk fr (\<lambda>sz fr.
      case mem_GetPtr (fr_mem fr) (Int64 offset) (Int64 sz) of
        None \<Rightarrow> Panic
      | Some ret \<Rightarrow> fret ret (fput [offset, sz] fr)))"

definition opStop :: "Frame \<Rightarrow> exec_res" where
  "opStop fr = fok fr"

definition opSuicide :: "Frame \<Rightarrow> exec_res" where
  "opSuicide fr =
    (case GetBalance (evm_StateDB (fr_evm fr)) (self_Address fr) of
       (None, db) \<Rightarrow> Panic
     | (Some balance, db) \<Rightarrow>
         popk (fdb (\<lambda>_. db) fr) (\<lambda>a fr.
           let fr = fdb (\<lambda>db. AddBalance db (BigToAddress a) balance) fr
           in fok (fdb (\<lambda>db. snd (Suicide db (self_Address fr))) fr)))"

section \<open>Families\<close>

primrec pop_topics :: "nat \<Rightarrow> Frame \<Rightarrow> (Hash list \<Rightarrow> Frame \<Rightarrow> exec_res) \<Rightarrow> exec_res" where
  "pop_topics 0 fr k = k [] fr"
| "pop_topics (Suc n) fr k = popk fr (\<lambda>x fr. pop_topics n fr (\<lambda>ts. k (BigToHash x # ts)))"

definition makeLog :: "nat \<Rightarrow> Frame \<Rightarrow> exec_res" where
  "makeLog n fr =
    popk fr (\<lambda>mStart fr. popk fr (\<lambda>mSize fr. pop_topics n fr (\<lambda>topics fr.
      case mem_Get (fr_mem fr) (Int64 mStart) (Int64 mSize) of
        None \<Rightarrow> Panic
      | Some d \<Rightarrow>
          (let log = \<lparr>log_Address = self_Address fr, log_Topics = topics, log_Data = d,
                      log_BlockNumber = Uint64 (evm_BlockNumber (fr_evm fr))\<rparr>
           in fok (fput [mStart, mSize] (fdb (\<lambda>db. AddLog db log) fr))))))"

definition makePush :: "u64 \<Rightarrow> nat \<Rightarrow> Frame \<Rightarrow> exec_res" where
  "makePush sz pushByteSize fr =
    (let code = ct_Code (fr_contract fr);
         codeLen = int (length code);
         startMin = (if sint (fr_pc fr + 1) < codeLen then sint (fr_pc fr + 1) else codeLen);
         endMin = (if startMin + int pushByteSize < codeLen then startMin + int pushByteSize else codeLen)
     in if startMin < 0 then Panic
        else
          (case slice code (nat startMin) (nat endMin) of
             None \<Rightarrow> Panic
           | Some d \<Rightarrow>
               (let fr = fpush (SetBytes (RightPadBytes d (int pushByteSize))) (fget fr)
                in fok (fr\<lparr>fr_pc := fr_pc fr + sz\<rparr>))))"

definition makeDup :: "nat \<Rightarrow> Frame \<Rightarrow> exec_res" where
  "makeDup n fr =
    (case dup (fr_stack fr) n of None \<Rightarrow> Panic | Some st \<Rightarrow> fok ((fget fr)\<lparr>fr_stack := st\<rparr>))"

definition makeSwap :: "nat \<Rightarrow> Frame \<Rightarrow> exec_res" where
  "makeSwap n fr =
    (case swap (fr_stack fr) (n + 1) of None \<Rightarrow> Panic | Some st \<Rightarrow> fok (fr\<lparr>fr_stack := st\<rparr>))"

section \<open>Frame lemmas\<close>

lemma popk_tops: "fr_stack fr = of_tops (x # xs) \<Longrightarrow> popk fr k = k x (fr\<lparr>fr_stack := of_tops xs\<rparr>)"
  by (simp add: popk_def)

lemma popk_eq_Done:
  "popk fr k = Done r \<longleftrightarrow> (\<exists>x st. pop (fr_stack fr) = Some (x, st) \<and> k x (fr\<lparr>fr_stack := st\<rparr>) = Done r)"
  by (auto simp: popk_def split: option.split)

lemma popk_eq_NoFuel:
  "popk fr k = NoFuel \<longleftrightarrow> (\<exists>x st. pop (fr_stack fr) = Some (x, st) \<and> k x (fr\<lparr>fr_stack := st\<rparr>) = NoFuel)"
  by (auto simp: popk_def split: option.split)

lemma frame_simps [simp]:
  "fr_pc (fpush x fr) = fr_pc fr" "fr_evm (fpush x fr) = fr_evm fr" "fr_contract (fpush x fr) = fr_contract fr"
  "fr_mem (fpush x fr) = fr_mem fr" "fr_stack (fpush x fr) = push (fr_stack fr) x"
  "fr_pc (fput l fr) = fr_pc fr" "fr_contract (fput l fr) = fr_contract fr" "fr_mem (fput l fr) = fr_mem fr"
  "fr_stack (fput l fr) = fr_stack fr"
  "fr_pc (fget fr) = fr_pc fr" "fr_contract (fget fr) = fr_contract fr" "fr_mem (fget fr) = fr_mem fr"
  "fr_stack (fget fr) = fr_stack fr"
  "fr_pc (fdb f fr) = fr_pc fr" "fr_contract (fdb f fr) = fr_contract fr" "fr_mem (fdb f fr) = fr_mem fr"
  "fr_stack (fdb f fr) = fr_stack fr"
  "fr_pc (mark k fr) = fr_pc fr" "fr_contract (mark k fr) = fr_contract fr" "fr_mem (mark k fr) = fr_mem fr"
  "fr_stack (mark k fr) = fr_stack fr"
  "fr_pc (callback s loc v fr) = fr_pc fr" "fr_contract (callback s loc v fr) = fr_contract fr"
  "fr_mem (callback s loc v fr) = fr_mem fr" "fr_stack (callback s loc v fr) = fr_stack fr"
  "fr_pc (push_bool b fr) = fr_pc fr" "fr_contract (push_bool b fr) = fr_contract fr"
  "fr_mem (push_bool b fr) = fr_mem fr" "fr_stack (push_bool b fr) = push (fr_stack fr) (if b then 1 else 0)"
  by (simp_all add: fpush_def fput_def fget_def fdb_def mark_def callback_def push_bool_def)

text \<open>The account database seen through the frame operations.\<close>

abbreviation fr_db :: "Frame \<Rightarrow> StateDB" where
  "fr_db fr \<equiv> evm_StateDB (fr_evm fr)"

lemma frame_db_simps [simp]:
  "fr_db (fput l fr) = fr_db fr" "fr_db (fget fr) = fr_db fr" "fr_db (fdb f fr) = f (fr_db fr)"
  "fr_db (callback s loc v fr) = fr_db fr" "fr_db (push_bool b fr) = fr_db fr"
  "fr_db (mark k fr) = SetState (fr_db fr) (self_Address fr) (StringToHash k) (BigToHash (sint (fr_pc fr)))"
  by (simp_all add: fput_def fget_def fdb_def mark_def callback_def push_bool_def)

lemma self_Address_simps [simp]:
  "self_Address (fpush x fr) = self_Address fr" "self_Address (fput l fr) = self_Address fr"
  "self_Address (fget fr) = self_Address fr" "self_Address (fdb f fr) = self_Address fr"
  "self_Address (mark k fr) = self_Address fr" "self_Address (fr\<lparr>fr_stack := st\<rparr>) = self_Address fr"
  by (simp_all add: self_Address_def)

lemma U256_neq: "x \<noteq> U256 x \<longleftrightarrow> x < 0 \<or> 2 ^ 256 \<le> x"
  by (metis U256_eq_iff U256_less U256_nonneg linorder_not_less)

end
