(* ===== verification/Word_Ops.thy ===== *)
theory Word_Ops
  imports Instructions
begin

text \<open>
  What the arithmetic, comparison and bitwise instructions compute: overflow detection, and the
  instructions as operations on 256-bit words.
\<close>

unbundle bit_operations_syntax

section \<open>Overflow detection\<close>

text \<open>
  An arithmetic instruction detects overflow for an exact operation: it pushes the result modulo two to
  the 256, and the marker slot of the running contract is set to the program counter exactly when the
  exact result does not fit; no other storage changes.
\<close>

definition detects :: "(Frame \<Rightarrow> exec_res) \<Rightarrow> string \<Rightarrow> (int \<Rightarrow> int \<Rightarrow> int) \<Rightarrow> bool" where
  "detects exec marker f \<longleftrightarrow>
    (\<forall>fr x y xs. fr_stack fr = of_tops (x # y # xs) \<longrightarrow>
      (\<exists>fr'. exec fr = Done (fr', [], None) \<and>
        fr_stack fr' = of_tops (f x y mod 2 ^ 256 # xs) \<and>
        (\<forall>ak. storage_at (fr_db fr') ak =
          (if ak = (self_Address fr, StringToHash marker) \<and> (f x y < 0 \<or> 2 ^ 256 \<le> f x y)
           then BigToHash (sint (fr_pc fr)) else storage_at (fr_db fr) ak))))"

lemma storage_at_SetState:
  "storage_at (SetState db a k v) ak = (if ak = (a, k) then v else storage_at db ak)"
  using storage.gt_st [of db "(a, k)" v ak] by simp

lemma detect_add: "detects opAdd marker_Add (+)"
  by (auto simp: detects_def opAdd_def popk_tops Let_def fok_def U256_neq storage_at_SetState U256_mod)

lemma detect_sub: "detects opSub marker_Sub (-)"
  by (auto simp: detects_def opSub_def popk_tops Let_def fok_def U256_neq storage_at_SetState U256_mod)

lemma detect_mul: "detects opMul marker_Mul (*)"
  by (auto simp: detects_def opMul_def popk_tops Let_def fok_def U256_neq storage_at_SetState U256_mod)

section \<open>Instructions as operations on 256-bit words\<close>

type_synonym w256 = "256 word"

definition word1 :: "(Frame \<Rightarrow> exec_res) \<Rightarrow> (w256 \<Rightarrow> w256) \<Rightarrow> bool" where
  "word1 exec f \<longleftrightarrow> (\<forall>fr a xs. fr_stack fr = of_tops (uint a # xs) \<longrightarrow>
    (\<exists>fr'. exec fr = Done (fr', [], None) \<and> fr_stack fr' = of_tops (uint (f a) # xs)))"

definition word2 :: "(Frame \<Rightarrow> exec_res) \<Rightarrow> (w256 \<Rightarrow> w256 \<Rightarrow> w256) \<Rightarrow> bool" where
  "word2 exec f \<longleftrightarrow> (\<forall>fr a b xs. fr_stack fr = of_tops (uint a # uint b # xs) \<longrightarrow>
    (\<exists>fr'. exec fr = Done (fr', [], None) \<and> fr_stack fr' = of_tops (uint (f a b) # xs)))"

definition word3 :: "(Frame \<Rightarrow> exec_res) \<Rightarrow> (w256 \<Rightarrow> w256 \<Rightarrow> w256 \<Rightarrow> w256) \<Rightarrow> bool" where
  "word3 exec f \<longleftrightarrow> (\<forall>fr a b c xs. fr_stack fr = of_tops (uint a # uint b # uint c # xs) \<longrightarrow>
    (\<exists>fr'. exec fr = Done (fr', [], None) \<and> fr_stack fr' = of_tops (uint (f a b c) # xs)))"

lemma uint_w256: "0 \<le> uint (a :: w256)" "uint a < 2 ^ 256"
  using uint_lt2p [of a] by simp_all

lemma U256_uint: "U256 x = uint (word_of_int x :: w256)"
  by (simp add: U256_mod uint_word_of_int)

lemma S256_uint: "S256 (uint (a :: w256)) = sint a"
  using S256_sint [of "uint a"] uint_w256 [of a] by simp

lemma U256_of_uint [simp]: "U256 (uint (a :: w256)) = uint a"
  by (simp add: U256_uint)

lemma uint_w256_eq [simp]: "uint (a :: w256) = uint b \<longleftrightarrow> a = b" "uint (a :: w256) = 0 \<longleftrightarrow> a = 0"
  by (simp_all add: word_uint_eq_iff)

lemma S256_sint_w256 [simp]: "S256 (sint (a :: w256)) = sint a"
  using S256_idem [of "uint a"] uint_w256 [of a] by (simp add: S256_uint)

lemma sint_w256_eq_0 [simp]: "sint (a :: w256) = 0 \<longleftrightarrow> a = 0"
  by (simp add: signed_eq_0_iff)

lemma S256_0 [simp]: "S256 0 = 0"
  by (simp add: S256_def tt255_def)

lemma uint_pos_iff [simp]: "0 < uint (a :: w256) \<longleftrightarrow> a \<noteq> 0"
  using uint_w256(1) [of a] by (auto simp: order_less_le)

lemma big_Div_uint: "b \<noteq> 0 \<Longrightarrow> big_Div (uint a) (uint b) = uint (a div b :: w256)"
  by (simp add: big_Div_def uint_div_distrib)

lemma big_Mod_uint: "big_Mod (uint a) (uint b) = uint (a mod b :: w256)"
  by (simp add: big_Mod_def uint_mod_distrib)

lemmas word_op_simps = popk_tops Let_def fok_def

lemma word_add: "word2 opAdd (+)"
  by (auto simp: word2_def opAdd_def word_op_simps U256_uint)

lemma word_sub: "word2 opSub (-)"
  by (auto simp: word2_def opSub_def word_op_simps U256_uint)

lemma word_mul: "word2 opMul (*)"
  by (auto simp: word2_def opMul_def word_op_simps U256_uint)

lemma word_div: "word2 opDiv (div)"
  by (auto simp: word2_def opDiv_def word_op_simps big_Div_uint)

lemma word_mod: "word2 opMod (\<lambda>a b. if b = 0 then 0 else a mod b)"
  by (auto simp: word2_def opMod_def word_op_simps big_Mod_uint)

lemma word_addmod: "word3 opAddmod (\<lambda>a b c. if c = 0 then 0 else word_of_int ((uint a + uint b) mod uint c))"
  by (auto simp: word3_def opAddmod_def word_op_simps U256_uint big_Mod_def)

lemma word_mulmod: "word3 opMulmod (\<lambda>a b c. if c = 0 then 0 else word_of_int ((uint a * uint b) mod uint c))"
  by (auto simp: word3_def opMulmod_def word_op_simps U256_uint big_Mod_def)

lemma word_sdiv: "word2 opSdiv (\<lambda>a b. word_of_int (sgn (sint a) * sgn (sint b) * (\<bar>sint a\<bar> div \<bar>sint b\<bar>)))"
  by (auto simp: word2_def opSdiv_def word_op_simps U256_uint S256_uint big_Div_def sgn_if mult_less_0_iff)

lemma word_smod: "word2 opSmod (\<lambda>a b. if b = 0 then 0 else word_of_int (sgn (sint a) * (\<bar>sint a\<bar> mod \<bar>sint b\<bar>)))"
  by (auto simp: word2_def opSmod_def word_op_simps U256_uint S256_uint big_Mod_def sgn_if)

lemma word_lt: "word2 opLt (\<lambda>a b. of_bool (a < b))" "word2 opGt (\<lambda>a b. of_bool (b < a))" "word2 opEq (\<lambda>a b. of_bool (a = b))"
  by (auto simp: word2_def opLt_def opGt_def opEq_def word_op_simps word_less_def)

lemma word_slt: "word2 opSlt (\<lambda>a b. of_bool (sint a < sint b))" "word2 opSgt (\<lambda>a b. of_bool (sint b < sint a))"
  by (auto simp: word2_def opSlt_def opSgt_def word_op_simps S256_uint)

lemma word_iszero: "word1 opIszero (\<lambda>a. of_bool (a = 0))"
  by (auto simp: word1_def opIszero_def word_op_simps)

lemma word_logic: "word2 opAnd and" "word2 opOr or" "word2 opXor xor" "word1 opNot not"
  by (auto simp: word1_def word2_def opAnd_def opOr_def opXor_def opNot_def word_op_simps U256_uint of_int_not_eq unsigned_and_eq unsigned_or_eq unsigned_xor_eq)

lemma word_exp: "word2 opExp (\<lambda>a b. a ^ unat b)"
proof -
  have "Exp (uint a) (uint b) = uint (a ^ unat b)" for a b :: w256
    using Exp_power [of "uint b" "uint a"] U256_uint [of "uint a ^ unat b"] uint_w256(1) [of b]
    by (simp add: U256_mod)
  then show ?thesis
    by (auto simp: word2_def opExp_def word_op_simps)
qed

lemma signext_int:
  "(if bit x n then x OR NOT (push_bit n 1 - 1) else x AND (push_bit n 1 - 1)) = signed_take_bit n (x :: int)"
proof -
  have m: "push_bit n 1 - 1 = (mask n :: int)"
    by (simp add: mask_eq_exp_minus_1 push_bit_eq_mult)
  show ?thesis
    unfolding m
    by (rule bit_eqI)
      (auto simp: bit_or_iff bit_and_iff bit_not_iff bit_mask_iff bit_signed_take_bit_iff min_def not_less dest: le_antisym)
qed

lemma signext_cases:
  "bit x n \<Longrightarrow> x OR NOT (2 ^ n - 1) = signed_take_bit n (x :: int)"
  "\<not> bit x n \<Longrightarrow> x AND 2 ^ n - 1 = signed_take_bit n x"
  using signext_int [of x n] by simp_all

lemma signext_word:
  assumes "n < 256"
  shows "U256 (signed_take_bit n (uint (x :: w256))) = uint (signed_take_bit n x)"
  using assms unfolding U256_uint by (intro arg_cong [where f = uint] bit_word_eqI) (auto simp: bit_word_of_int_iff bit_signed_take_bit_iff bit_uint_iff min_def)

lemma word_signextend:
  "word2 opSignExtend (\<lambda>b x. if b < 31 then signed_take_bit (8 * unat b + 7) x else x)"
proof -
  have n: "unat (Uint64 (uint b) * 8 + 7) = 8 * unat b + 7" if "b < 31" for b :: w256
  proof -
    have "unat b < 31" using that by (simp add: word_less_nat_alt)
    have "uint b < 2 ^ 64" using that by (simp add: word_less_def)
    then have "unat (Uint64 (uint b)) = unat b" using unat_Uint64 [of "uint b"] uint_w256(1) [of b] by simp
    with \<open>unat b < 31\<close> show ?thesis by (simp add: unat_word_ariths mult.commute)
  qed
  have b: "uint b < 31 \<longleftrightarrow> b < 31" for b :: w256
    by (simp add: word_less_def)
  show ?thesis
    unfolding word2_def
  proof (intro allI impI, goal_cases)
    case (1 fr b x xs)
    show ?case
    proof (cases "b < 31")
      case True
      then have "8 * unat b + 7 < 256" by (simp add: word_less_nat_alt)
      with True 1 show ?thesis
        by (simp add: opSignExtend_def word_op_simps b n signext_cases signext_word)
    qed (use 1 in \<open>simp add: opSignExtend_def word_op_simps b\<close>)
  qed
qed

lemma word_byte:
  "word2 opByte (\<lambda>th val. if th < 32 then drop_bit (8 * (31 - unat th)) val AND 0xff else 0)"
proof -
  have b: "uint th < 32 \<longleftrightarrow> th < 32" for th :: w256
    by (simp add: word_less_def)
  have "uint (Byte (uint val) 32 (nat (Int64 (uint th)))) = uint (drop_bit (8 * (31 - unat th)) val AND 0xff)"
    if "th < 32" for th val :: w256
  proof -
    have t: "unat th < 32" using that by (simp add: word_less_nat_alt)
    have "uint th < 2 ^ 63" using that by (simp add: word_less_def)
    then have "Int64 (uint th) = uint th" using uint_w256(1) [of th] by (intro Int64_small) simp_all
    then have "Byte (uint val) 32 (nat (Int64 (uint th))) = word_of_nat (unat val div 256 ^ (31 - unat th))"
      using t uint_w256(1) [of val] by (simp add: Byte_spec nth_be_bytes)
    also have "(256 :: nat) ^ (31 - unat th) = 2 ^ (8 * (31 - unat th))"
      by (simp add: power_mult)
    finally have *: "uint (Byte (uint val) 32 (nat (Int64 (uint th)))) = take_bit 8 (drop_bit (8 * (31 - unat th)) (uint val))"
      by (simp add: unsigned_of_nat drop_bit_eq_div zdiv_int of_nat_take_bit)
    have "drop_bit (8 * (31 - unat th)) val AND 0xff = take_bit 8 (drop_bit (8 * (31 - unat th)) val)"
      by (simp add: take_bit_eq_mask mask_eq_exp_minus_1)
    moreover have "take_bit 256 (uint val) = uint val"
      using uint_w256 [of val] by (intro take_bit_int_eq_self) simp_all
    ultimately show ?thesis
      unfolding * by (simp add: unsigned_take_bit_eq unsigned_drop_bit_eq)
  qed
  then show ?thesis
    by (auto simp: word2_def opByte_def word_op_simps b)
qed

lemma detectsD:
  "detects exec marker f \<Longrightarrow> fr_stack fr = of_tops (x # y # xs) \<Longrightarrow>
   \<exists>fr'. exec fr = Done (fr', [], None) \<and> fr_stack fr' = of_tops (f x y mod 2 ^ 256 # xs) \<and>
    (\<forall>ak. storage_at (fr_db fr') ak =
      (if ak = (self_Address fr, StringToHash marker) \<and> (f x y < 0 \<or> 2 ^ 256 \<le> f x y)
       then BigToHash (sint (fr_pc fr)) else storage_at (fr_db fr) ak))"
  unfolding detects_def by blast

section \<open>Properties\<close>

text \<open>
  C4. Overflow detection is exact: ADD, SUB and MUL push the result modulo two to the 256, and they set
  the marker slot of the running contract to the program counter if and only if the exact sum,
  difference or product lies outside the 256-bit range; no other storage slot changes.
\<close>

theorem overflow_markers:
  "detects opAdd marker_Add (+) \<and> detects opSub marker_Sub (-) \<and> detects opMul marker_Mul (*)"
  by (simp add: detect_add detect_sub detect_mul)

theorem overflow_markers_witness:
  "\<forall>fr0. \<exists>fr'. opAdd (fr0\<lparr>fr_stack := of_tops [2 ^ 256 - 1, 1]\<rparr>) = Done (fr', [], None) \<and>
    fr_stack fr' = of_tops [0] \<and>
    storage_at (fr_db fr') (self_Address fr0, StringToHash marker_Add) = BigToHash (sint (fr_pc fr0))"
proof
  fix fr0 :: Frame
  let ?fr = "fr0\<lparr>fr_stack := of_tops [2 ^ 256 - 1, 1]\<rparr>"
  have "detects opAdd marker_Add (+)"
    using overflow_markers by (rule conjunct1)
  from detectsD [OF this, of ?fr "2 ^ 256 - 1" 1 "[]"]
  show "\<exists>fr'. opAdd ?fr = Done (fr', [], None) \<and> fr_stack fr' = of_tops [0] \<and>
      storage_at (fr_db fr') (self_Address fr0, StringToHash marker_Add) = BigToHash (sint (fr_pc fr0))"
    by (auto simp: self_Address_def)
qed

text \<open>
  The marker code of DIV is dead: on nonnegative operands below two to the 256 the instruction leaves
  all storage as it was.
\<close>

lemma opDiv_never_marks:
  assumes "fr_stack fr = of_tops (x # y # xs)" "0 \<le> x" "x < 2 ^ 256" "0 \<le> y"
  shows "\<exists>fr'. opDiv fr = Done (fr', [], None) \<and> storage_at (fr_db fr') = storage_at (fr_db fr)"
proof -
  have "U256 (big_Div x y) = big_Div x y" if "y \<noteq> 0"
  proof (rule U256_id)
    show "0 \<le> big_Div x y" using that assms by (simp add: big_Div_def pos_imp_zdiv_nonneg_iff)
    have "big_Div x y \<le> x" using that assms zdiv_mono2 [of x 1 y] by (simp add: big_Div_def)
    then show "big_Div x y < 2 ^ 256" using assms(3) by simp
  qed
  then show ?thesis
    using assms(1) by (auto simp: opDiv_def word_op_simps)
qed

text \<open>
  C5. The instructions refine operations on 256-bit words, signed ones in two's complement, on every pair
  (or triple) of operands: ADD, SUB, MUL, DIV, SDIV (truncated), MOD, SMOD (sign of the dividend), ADDMOD
  and MULMOD (without intermediate wrap), EXP, SIGNEXTEND, the comparisons, the bitwise operations and
  BYTE; division and remainder by zero give zero.
\<close>

theorem instructions_refine_words:
  "word2 opAdd (+) \<and> word2 opSub (-) \<and> word2 opMul (*) \<and> word2 opDiv (div) \<and>
   word2 opSdiv (\<lambda>a b. word_of_int (sgn (sint a) * sgn (sint b) * (\<bar>sint a\<bar> div \<bar>sint b\<bar>))) \<and>
   word2 opMod (\<lambda>a b. if b = 0 then 0 else a mod b) \<and>
   word2 opSmod (\<lambda>a b. if b = 0 then 0 else word_of_int (sgn (sint a) * (\<bar>sint a\<bar> mod \<bar>sint b\<bar>))) \<and>
   word3 opAddmod (\<lambda>a b c. if c = 0 then 0 else word_of_int ((uint a + uint b) mod uint c)) \<and>
   word3 opMulmod (\<lambda>a b c. if c = 0 then 0 else word_of_int ((uint a * uint b) mod uint c)) \<and>
   word2 opExp (\<lambda>a b. a ^ unat b) \<and>
   word2 opSignExtend (\<lambda>b x. if b < 31 then signed_take_bit (8 * unat b + 7) x else x) \<and>
   word2 opLt (\<lambda>a b. of_bool (a < b)) \<and> word2 opGt (\<lambda>a b. of_bool (b < a)) \<and>
   word2 opSlt (\<lambda>a b. of_bool (sint a < sint b)) \<and> word2 opSgt (\<lambda>a b. of_bool (sint b < sint a)) \<and>
   word2 opEq (\<lambda>a b. of_bool (a = b)) \<and> word1 opIszero (\<lambda>a. of_bool (a = 0)) \<and>
   word2 opAnd and \<and> word2 opOr or \<and> word2 opXor xor \<and> word1 opNot not \<and>
   word2 opByte (\<lambda>th val. if th < 32 then drop_bit (8 * (31 - unat th)) val AND 0xff else 0)"
  by (intro conjI word_add word_sub word_mul word_div word_sdiv word_mod word_smod word_addmod word_mulmod
      word_exp word_signextend word_lt word_slt word_iszero word_logic word_byte)

end
