(* ===== verification/Jump_Table.thy ===== *)
theory Jump_Table
  imports Instructions
begin

text \<open>
  The instruction tables: \<^verbatim>\<open>src/core/vm/jump_table.go\<close> with the stack checks of \<^verbatim>\<open>stack_table.go\<close>.  The
  closure made by \<^verbatim>\<open>makeStackFunc\<close> is represented by its two arguments.
\<close>

section \<open>Operations\<close>

record operation =
  op_execute :: "run_fn \<Rightarrow> Frame \<Rightarrow> exec_res"
  op_gasCost :: gasFunc
  op_pop :: nat
  op_push :: nat
  op_memorySize :: "memorySizeFunc option"
  op_halts :: bool
  op_jumps :: bool
  op_writes :: bool
  op_valid :: bool
  op_reverts :: bool
  op_returns :: bool

definition makeStackFunc :: "nat \<Rightarrow> nat \<Rightarrow> Stack \<Rightarrow> Error option" where
  "makeStackFunc pops pushes st =
    (case require st pops of
       Some (l, n) \<Rightarrow> Some (errStackUnderflow l n)
     | None \<Rightarrow>
         if stack_len st + pushes - pops > StackLimit then Some (errStackLimit (stack_len st) StackLimit)
         else None)"

definition validateStack :: "operation \<Rightarrow> Stack \<Rightarrow> Error option" where
  "validateStack oper st = makeStackFunc (op_pop oper) (op_push oper) st"

text \<open>A valid operation with no flag set.\<close>

definition mkop :: "(run_fn \<Rightarrow> Frame \<Rightarrow> exec_res) \<Rightarrow> gasFunc \<Rightarrow> nat \<Rightarrow> nat \<Rightarrow> operation" where
  "mkop execute gasCost pops pushes =
    \<lparr>op_execute = execute, op_gasCost = gasCost, op_pop = pops, op_push = pushes,
     op_memorySize = None, op_halts = False, op_jumps = False, op_writes = False, op_valid = True,
     op_reverts = False, op_returns = False\<rparr>"

text \<open>The zero value of the table's element type; it is never executed.\<close>

definition invalid_operation :: operation where
  "invalid_operation = (mkop (\<lambda>_. opStop) (constGasFunc 0) 0 0)\<lparr>op_valid := False\<rparr>"

section \<open>The tables\<close>

definition frontier_arith :: "(OpCode \<times> operation) list" where
  "frontier_arith =
    [(STOP, (mkop (\<lambda>_. opStop) (constGasFunc 0) 0 0)\<lparr>op_halts := True\<rparr>),
     (ADD, mkop (\<lambda>_. opAdd) (constGasFunc GasFastestStep) 2 1),
     (MUL, mkop (\<lambda>_. opMul) (constGasFunc GasFastStep) 2 1),
     (SUB, mkop (\<lambda>_. opSub) (constGasFunc GasFastestStep) 2 1),
     (DIV, mkop (\<lambda>_. opDiv) (constGasFunc GasFastStep) 2 1),
     (SDIV, mkop (\<lambda>_. opSdiv) (constGasFunc GasFastStep) 2 1),
     (MOD, mkop (\<lambda>_. opMod) (constGasFunc GasFastStep) 2 1),
     (SMOD, mkop (\<lambda>_. opSmod) (constGasFunc GasFastStep) 2 1),
     (ADDMOD, mkop (\<lambda>_. opAddmod) (constGasFunc GasMidStep) 3 1),
     (MULMOD, mkop (\<lambda>_. opMulmod) (constGasFunc GasMidStep) 3 1),
     (EXP, mkop (\<lambda>_. opExp) gasExp 2 1),
     (SIGNEXTEND, mkop (\<lambda>_. opSignExtend) (constGasFunc GasFastStep) 2 1)]"

definition frontier_logic :: "(OpCode \<times> operation) list" where
  "frontier_logic =
    [(LT, mkop (\<lambda>_. opLt) (constGasFunc GasFastestStep) 2 1),
     (GT, mkop (\<lambda>_. opGt) (constGasFunc GasFastestStep) 2 1),
     (SLT, mkop (\<lambda>_. opSlt) (constGasFunc GasFastestStep) 2 1),
     (SGT, mkop (\<lambda>_. opSgt) (constGasFunc GasFastestStep) 2 1),
     (EQ, mkop (\<lambda>_. opEq) (constGasFunc GasFastestStep) 2 1),
     (ISZERO, mkop (\<lambda>_. opIszero) (constGasFunc GasFastestStep) 1 1),
     (AND_op, mkop (\<lambda>_. opAnd) (constGasFunc GasFastestStep) 2 1),
     (XOR_op, mkop (\<lambda>_. opXor) (constGasFunc GasFastestStep) 2 1),
     (OR_op, mkop (\<lambda>_. opOr) (constGasFunc GasFastestStep) 2 1),
     (NOT_op, mkop (\<lambda>_. opNot) (constGasFunc GasFastestStep) 1 1),
     (BYTE, mkop (\<lambda>_. opByte) (constGasFunc GasFastestStep) 2 1),
     (SHA3, (mkop (\<lambda>_. opSha3) gasSha3 2 1)\<lparr>op_memorySize := Some memorySha3\<rparr>)]"

definition frontier_env :: "(OpCode \<times> operation) list" where
  "frontier_env =
    [(ADDRESS, mkop (\<lambda>_. opAddress) (constGasFunc GasQuickStep) 0 1),
     (BALANCE, mkop (\<lambda>_. opBalance) gasBalance 1 1),
     (ORIGIN, mkop (\<lambda>_. opOrigin) (constGasFunc GasQuickStep) 0 1),
     (CALLER, mkop (\<lambda>_. opCaller) (constGasFunc GasQuickStep) 0 1),
     (CALLVALUE, mkop (\<lambda>_. opCallValue) (constGasFunc GasQuickStep) 0 1),
     (CALLDATALOAD, mkop (\<lambda>_. opCallDataLoad) (constGasFunc GasFastestStep) 1 1),
     (CALLDATASIZE, mkop (\<lambda>_. opCallDataSize) (constGasFunc GasQuickStep) 0 1),
     (CALLDATACOPY, (mkop (\<lambda>_. opCallDataCopy) gasCallDataCopy 3 0)\<lparr>op_memorySize := Some memoryCallDataCopy\<rparr>),
     (CODESIZE, mkop (\<lambda>_. opCodeSize) (constGasFunc GasQuickStep) 0 1),
     (CODECOPY, (mkop (\<lambda>_. opCodeCopy) gasCodeCopy 3 0)\<lparr>op_memorySize := Some memoryCodeCopy\<rparr>),
     (GASPRICE, mkop (\<lambda>_. opGasprice) (constGasFunc GasQuickStep) 0 1),
     (EXTCODESIZE, mkop (\<lambda>_. opExtCodeSize) gasExtCodeSize 1 1),
     (EXTCODECOPY, (mkop (\<lambda>_. opExtCodeCopy) gasExtCodeCopy 4 0)\<lparr>op_memorySize := Some memoryExtCodeCopy\<rparr>)]"

definition frontier_block :: "(OpCode \<times> operation) list" where
  "frontier_block =
    [(BLOCKHASH, mkop (\<lambda>_. opBlockhash) (constGasFunc GasExtStep) 1 1),
     (COINBASE, mkop (\<lambda>_. opCoinbase) (constGasFunc GasQuickStep) 0 1),
     (TIMESTAMP, mkop (\<lambda>_. opTimestamp) (constGasFunc GasQuickStep) 0 1),
     (NUMBER, mkop (\<lambda>_. opNumber) (constGasFunc GasQuickStep) 0 1),
     (DIFFICULTY, mkop (\<lambda>_. opDifficulty) (constGasFunc GasQuickStep) 0 1),
     (GASLIMIT, mkop (\<lambda>_. opGasLimit) (constGasFunc GasQuickStep) 0 1),
     (POP, mkop (\<lambda>_. opPop) (constGasFunc GasQuickStep) 1 0),
     (MLOAD, (mkop (\<lambda>_. opMload) gasMLoad 1 1)\<lparr>op_memorySize := Some memoryMLoad\<rparr>),
     (MSTORE, (mkop (\<lambda>_. opMstore) gasMStore 2 0)\<lparr>op_memorySize := Some memoryMStore\<rparr>),
     (MSTORE8, (mkop (\<lambda>_. opMstore8) gasMStore8 2 0)\<lparr>op_memorySize := Some memoryMStore8\<rparr>)]"

definition frontier_flow :: "(OpCode \<times> operation) list" where
  "frontier_flow =
    [(SLOAD, mkop (\<lambda>_. opSload) gasSLoad 1 1),
     (SSTORE, (mkop (\<lambda>_. opSstore) gasSStore 2 0)\<lparr>op_writes := True\<rparr>),
     (JUMP, (mkop (\<lambda>_. opJump) (constGasFunc GasMidStep) 1 0)\<lparr>op_jumps := True\<rparr>),
     (JUMPI, (mkop (\<lambda>_. opJumpi) (constGasFunc GasSlowStep) 2 0)\<lparr>op_jumps := True\<rparr>),
     (PC, mkop (\<lambda>_. opPc) (constGasFunc GasQuickStep) 0 1),
     (MSIZE, mkop (\<lambda>_. opMsize) (constGasFunc GasQuickStep) 0 1),
     (GAS, mkop (\<lambda>_. opGas) (constGasFunc GasQuickStep) 0 1),
     (JUMPDEST, mkop (\<lambda>_. opJumpdest) (constGasFunc JumpdestGas) 0 0)]"

definition frontier_push :: "(OpCode \<times> operation) list" where
  "frontier_push =
    map (\<lambda>n. (PUSH1 + of_nat (n - 1), mkop (\<lambda>_. makePush (of_nat n) n) gasPush 0 1)) [1..<33]"

text \<open>\<^verbatim>\<open>makeDupStackFunc(n)\<close> is \<^verbatim>\<open>makeStackFunc(n, n+1)\<close>, \<^verbatim>\<open>makeSwapStackFunc(n)\<close> is \<^verbatim>\<open>makeStackFunc(n, n)\<close>.\<close>

definition frontier_dup :: "(OpCode \<times> operation) list" where
  "frontier_dup = map (\<lambda>n. (DUP1 + of_nat (n - 1), mkop (\<lambda>_. makeDup n) gasDup n (n + 1))) [1..<17]"

definition frontier_swap :: "(OpCode \<times> operation) list" where
  "frontier_swap =
    map (\<lambda>n. (SWAP1 + of_nat (n - 1), mkop (\<lambda>_. makeSwap n) gasSwap (n + 1) (n + 1))) [1..<17]"

definition frontier_log :: "(OpCode \<times> operation) list" where
  "frontier_log =
    [(LOG0, (mkop (\<lambda>_. makeLog 0) (makeGasLog 0) 2 0)\<lparr>op_memorySize := Some memoryLog, op_writes := True\<rparr>),
     (LOG1, (mkop (\<lambda>_. makeLog 1) (makeGasLog 1) 3 0)\<lparr>op_memorySize := Some memoryLog, op_writes := True\<rparr>),
     (LOG2, (mkop (\<lambda>_. makeLog 2) (makeGasLog 2) 4 0)\<lparr>op_memorySize := Some memoryLog, op_writes := True\<rparr>),
     (LOG3, (mkop (\<lambda>_. makeLog 3) (makeGasLog 3) 5 0)\<lparr>op_memorySize := Some memoryLog, op_writes := True\<rparr>),
     (LOG4, (mkop (\<lambda>_. makeLog 4) (makeGasLog 4) 6 0)\<lparr>op_memorySize := Some memoryLog, op_writes := True\<rparr>)]"

definition frontier_call :: "(OpCode \<times> operation) list" where
  "frontier_call =
    [(CREATE, (mkop opCreate gasCreate 3 1)\<lparr>op_memorySize := Some memoryCreate, op_writes := True, op_returns := True\<rparr>),
     (CALL, (mkop opCall gasCall 7 1)\<lparr>op_memorySize := Some memoryCall, op_returns := True\<rparr>),
     (CALLCODE, (mkop opCallCode gasCallCode 7 1)\<lparr>op_memorySize := Some memoryCall, op_returns := True\<rparr>),
     (RETURN, (mkop (\<lambda>_. opReturn) gasReturn 2 0)\<lparr>op_memorySize := Some memoryReturn, op_halts := True\<rparr>),
     (SELFDESTRUCT, (mkop (\<lambda>_. opSuicide) gasSuicide 1 0)\<lparr>op_halts := True, op_writes := True\<rparr>)]"

definition NewFrontierInstructionSet :: "(OpCode \<times> operation) list" where
  "NewFrontierInstructionSet =
    frontier_arith @ frontier_logic @ frontier_env @ frontier_block @ frontier_flow @
    frontier_push @ frontier_dup @ frontier_swap @ frontier_log @ frontier_call"

text \<open>An assignment to an array element puts an entry in front.\<close>

definition NewHomesteadInstructionSet :: "(OpCode \<times> operation) list" where
  "NewHomesteadInstructionSet =
    (DELEGATECALL, (mkop opDelegateCall gasDelegateCall 6 1)\<lparr>op_memorySize := Some memoryDelegateCall, op_returns := True\<rparr>)
    # NewFrontierInstructionSet"

definition NewByzantiumInstructionSet :: "(OpCode \<times> operation) list" where
  "NewByzantiumInstructionSet =
    [(STATICCALL, (mkop opStaticCall gasStaticCall 6 1)\<lparr>op_memorySize := Some memoryStaticCall, op_returns := True\<rparr>),
     (RETURNDATASIZE, mkop (\<lambda>_. opReturnDataSize) (constGasFunc GasQuickStep) 0 1),
     (RETURNDATACOPY, (mkop (\<lambda>_. opReturnDataCopy) gasReturnDataCopy 3 0)\<lparr>op_memorySize := Some memoryReturnDataCopy\<rparr>),
     (REVERT, (mkop (\<lambda>_. opRevert) gasRevert 2 0)\<lparr>op_memorySize := Some memoryRevert, op_reverts := True, op_returns := True\<rparr>)]
    @ NewHomesteadInstructionSet"

primrec instruction_table :: "InstructionSet \<Rightarrow> (OpCode \<times> operation) list" where
  "instruction_table frontierInstructionSet = NewFrontierInstructionSet"
| "instruction_table homesteadInstructionSet = NewHomesteadInstructionSet"
| "instruction_table byzantiumInstructionSet = NewByzantiumInstructionSet"

definition JumpTable :: "InstructionSet \<Rightarrow> OpCode \<Rightarrow> operation" where
  "JumpTable s op = (case map_of (instruction_table s) op of Some oper \<Rightarrow> oper | None \<Rightarrow> invalid_operation)"

lemmas frontier_defs = frontier_arith_def frontier_logic_def frontier_env_def frontier_block_def
  frontier_flow_def frontier_push_def frontier_dup_def frontier_swap_def frontier_log_def frontier_call_def

lemma mkop_simps [simp]:
  "op_execute (mkop e g n m) = e" "op_gasCost (mkop e g n m) = g" "op_pop (mkop e g n m) = n"
  "op_push (mkop e g n m) = m" "op_memorySize (mkop e g n m) = None" "op_halts (mkop e g n m) = False"
  "op_jumps (mkop e g n m) = False" "op_writes (mkop e g n m) = False" "op_valid (mkop e g n m) = True"
  "op_reverts (mkop e g n m) = False" "op_returns (mkop e g n m) = False"
  by (simp_all add: mkop_def)

lemma makeStackFunc_None:
  "makeStackFunc n m st = None \<longleftrightarrow> n \<le> stack_len st \<and> stack_len st + m - n \<le> StackLimit"
  by (simp add: makeStackFunc_def require_def)

text \<open>A valid operation of the table is one of its entries.\<close>

lemma JumpTable_valid:
  "op_valid (JumpTable s op) \<Longrightarrow> (op, JumpTable s op) \<in> set (instruction_table s)"
  by (auto simp: JumpTable_def invalid_operation_def dest: map_of_SomeD split: option.splits)

text \<open>
  A property that holds of all entries is proved entry by entry, on the largest table, which contains
  the others.
\<close>

definition table_all :: "(OpCode \<Rightarrow> operation \<Rightarrow> bool) \<Rightarrow> bool" where
  "table_all P \<longleftrightarrow> list_all (\<lambda>(op, oper). P op oper) NewByzantiumInstructionSet"

lemma table_all_JumpTable: "table_all P \<Longrightarrow> op_valid (JumpTable s op) \<Longrightarrow> P op (JumpTable s op)"
  using JumpTable_valid [of s op]
  by (cases s) (auto simp: table_all_def list_all_iff NewByzantiumInstructionSet_def NewHomesteadInstructionSet_def)

end
