(* ===== verification/Interpreter.thy ===== *)
theory Interpreter
  imports Jump_Table
begin

text \<open>
  The interpreter loop, \<^verbatim>\<open>src/core/vm/interpreter.go\<close>.  One iteration of the loop is \<open>step\<close>; the loop is
  a recursion on fuel, which also bounds the depth of nested runs.  The local variable \<^verbatim>\<open>codehash\<close> of
  \<^verbatim>\<open>Run\<close> is computed but never used in the source and has no counterpart.
\<close>

section \<open>One iteration\<close>

definition enforceRestrictions :: "EVM \<Rightarrow> OpCode \<Rightarrow> operation \<Rightarrow> Stack \<Rightarrow> Error option res" where
  "enforceRestrictions evm op oper stack =
    (if RulesByzantium (evm_chainRules evm) \<and> in_readOnly evm then
       (if op_writes oper then Done (Some errWriteProtection)
        else if op = CALL then
          (case Back stack 2 of
             None \<Rightarrow> Panic
           | Some v \<Rightarrow> Done (if BitLen v > 0 then Some errWriteProtection else None))
        else Done None)
     else Done None)"

text \<open>The memory the instruction needs, rounded up to words; zero for instructions without memory.\<close>

definition memory_request :: "operation \<Rightarrow> Stack \<Rightarrow> u64 eres" where
  "memory_request oper stack =
    (case op_memorySize oper of
       None \<Rightarrow> eok 0
     | Some f \<Rightarrow>
         ebind (eopt (f stack)) (\<lambda>need.
         ebind (big_u64 need) (\<lambda>memSize.
         safe_mul (toWordSize memSize) 32)))"

text \<open>Charging: the frame and whether the gas was there.  Every error is reported as out of gas.\<close>

definition charge :: "operation \<Rightarrow> u64 \<Rightarrow> Frame \<Rightarrow> (bool \<times> Frame) res" where
  "charge oper memorySize fr =
    (if DisableGasMetering (evm_vmConfig (fr_evm fr)) then Done (True, fr)
     else
       (case op_gasCost oper (in_gasTable (fr_evm fr)) (fr_evm fr) (fr_contract fr) (fr_stack fr) (fr_mem fr) memorySize of
          (evm, mem, r) \<Rightarrow>
            (let fr = fr\<lparr>fr_evm := evm, fr_mem := mem\<rparr> in
             rbind r (\<lambda>r. case r of
                 Inl e \<Rightarrow> Done (False, fr)
               | Inr cost \<Rightarrow>
                   (case UseGas (fr_contract fr) cost of
                      (ok, c) \<Rightarrow> Done (ok, fr\<lparr>fr_contract := c\<rparr>))))))"

datatype step_res = Next Frame | Halt Frame bytes "Error option"

text \<open>What follows the execution of the instruction.\<close>

definition finish_step :: "operation \<Rightarrow> Frame \<times> bytes \<times> Error option \<Rightarrow> step_res" where
  "finish_step oper r =
    (case r of (fr, ret, err) \<Rightarrow>
       (let fr = (if op_returns oper then fr\<lparr>fr_evm := (fr_evm fr)\<lparr>in_returnData := ret\<rparr>\<rparr> else fr) in
        if err \<noteq> None then Halt fr [] err
        else if op_reverts oper then Halt fr ret (Some errExecutionReverted)
        else if op_halts oper then Halt fr ret None
        else if \<not> op_jumps oper then Next (fr\<lparr>fr_pc := fr_pc fr + 1\<rparr>)
        else Next fr))"

definition exec_op :: "run_fn \<Rightarrow> operation \<Rightarrow> u64 \<Rightarrow> Frame \<Rightarrow> step_res res" where
  "exec_op interp oper memorySize fr =
    rbind (charge oper memorySize fr) (\<lambda>(ok, fr).
      if \<not> ok then Done (Halt fr [] (Some ErrOutOfGas))
      else
        (let fr = (if memorySize > 0 then fr\<lparr>fr_mem := mem_Resize (fr_mem fr) memorySize\<rparr> else fr) in
         rbind (op_execute oper interp fr) (\<lambda>r. Done (finish_step oper r))))"

definition step :: "run_fn \<Rightarrow> Frame \<Rightarrow> step_res res" where
  "step interp fr =
    (let op = GetOp (fr_contract fr) (fr_pc fr);
         oper = JumpTable (in_JumpTable (fr_evm fr)) op
     in if \<not> op_valid oper then Done (Halt fr [] (Some (errInvalidOpcode op)))
        else
          (case validateStack oper (fr_stack fr) of
             Some e \<Rightarrow> Done (Halt fr [] (Some e))
           | None \<Rightarrow>
               rbind (enforceRestrictions (fr_evm fr) op oper (fr_stack fr)) (\<lambda>r.
                 case r of
                   Some e \<Rightarrow> Done (Halt fr [] (Some e))
                 | None \<Rightarrow>
                     rbind (memory_request oper (fr_stack fr)) (\<lambda>m.
                       case m of
                         Inl e \<Rightarrow> Done (Halt fr [] (Some e))
                       | Inr memorySize \<Rightarrow> exec_op interp oper memorySize fr))))"

section \<open>The loop\<close>

definition enter :: "EVM \<Rightarrow> EVM" where
  "enter evm = evm\<lparr>evm_depth := evm_depth evm + 1, in_returnData := []\<rparr>"

definition leave :: "EVM \<Rightarrow> EVM" where
  "leave evm = evm\<lparr>evm_depth := evm_depth evm - 1\<rparr>"

definition init_frame :: "EVM \<Rightarrow> Contract \<Rightarrow> bytes \<Rightarrow> Frame" where
  "init_frame evm contract input =
    \<lparr>fr_pc = 0, fr_evm = evm, fr_contract = contract\<lparr>ct_Input := input\<rparr>, fr_mem = NewMemory,
     fr_stack = newstack\<rparr>"

definition Interpreter_Run :: "(Frame \<Rightarrow> exec_res) \<Rightarrow> run_fn" where
  "Interpreter_Run loop evm contract input =
    (let evm = enter evm in
     if length (ct_Code contract) = 0 then Done (leave evm, contract, [], None)
     else
       rbind (loop (init_frame evm contract input))
         (\<lambda>(fr, ret, err). Done (leave (fr_evm fr), fr_contract fr, ret, err)))"

primrec Run_loop :: "nat \<Rightarrow> Frame \<Rightarrow> exec_res" where
  "Run_loop 0 = (\<lambda>fr. NoFuel)"
| "Run_loop (Suc n) =
    (\<lambda>fr. if evm_abort (fr_evm fr) then Done (fr, [], None)
          else rbind (step (Interpreter_Run (Run_loop n)) fr) (\<lambda>r.
            case r of Next fr \<Rightarrow> Run_loop n fr | Halt fr ret err \<Rightarrow> Done (fr, ret, err)))"

definition Run :: "nat \<Rightarrow> run_fn" where
  "Run n = Interpreter_Run (Run_loop n)"

section \<open>Entry points\<close>

definition evm_Call :: "nat \<Rightarrow> EVM \<Rightarrow> ContractRef \<Rightarrow> Address \<Rightarrow> bytes \<Rightarrow> u64 \<Rightarrow> int \<Rightarrow> call_res" where
  "evm_Call n = Call (Run n)"

definition evm_Create :: "nat \<Rightarrow> EVM \<Rightarrow> ContractRef \<Rightarrow> bytes \<Rightarrow> u64 \<Rightarrow> int \<Rightarrow>
    (EVM \<times> destinations \<times> bytes \<times> Address \<times> u64 \<times> Error option) res" where
  "evm_Create n = Create (Run n)"

end
