(* ===== verification/Exec_Rules.thy ===== *)
theory Exec_Rules
  imports Interpreter
begin

text \<open>
  Reasoning about executions. \<^verbatim>\<open>wp p n m Q\<close> says that the outcome \<^verbatim>\<open>m\<close> satisfies \<^verbatim>\<open>Q\<close>, and that it panics (runs
  out of fuel) only if \<^verbatim>\<open>p\<close> (\<^verbatim>\<open>n\<close>) holds. Its rules walk through the bodies of the instructions, so that a contract on
  all entries of the jump table is one \<^verbatim>\<open>auto\<close> call per group of the table. On top of it stand the contracts of the
  table that every later theory needs (stack effect, gas, memory request) and the rule for one step of the
  interpreter loop: what is known of the frame when the instruction is reached, and after it has been paid for.
\<close>

section \<open>Outcomes\<close>

definition wp :: "bool \<Rightarrow> bool \<Rightarrow> 'a res \<Rightarrow> ('a \<Rightarrow> bool) \<Rightarrow> bool" where
  "wp p n m Q \<longleftrightarrow> (case m of Done a \<Rightarrow> Q a | Panic \<Rightarrow> p | NoFuel \<Rightarrow> n)"

lemma wp_base [simp]:
  "wp p n (Done a) Q \<longleftrightarrow> Q a" "wp p n Panic Q \<longleftrightarrow> p" "wp p n NoFuel Q \<longleftrightarrow> n"
  by (simp_all add: wp_def)

lemma wp_rbind [simp]: "wp p n (rbind m k) Q \<longleftrightarrow> wp p n m (\<lambda>a. wp p n (k a) Q)"
  by (cases m) simp_all

lemma wp_mono: "wp p n m Q \<Longrightarrow> (\<And>a. m = Done a \<Longrightarrow> Q a \<Longrightarrow> Q' a) \<Longrightarrow> wp p n m Q'"
  by (cases m) simp_all

lemma wp_Done: "wp p n m Q \<Longrightarrow> m = Done a \<Longrightarrow> Q a"
  by simp

lemma wp_partial: "wp True True m Q \<longleftrightarrow> (\<forall>a. m = Done a \<longrightarrow> Q a)"
  by (cases m) simp_all

lemma wp_conj: "wp True True m Q \<Longrightarrow> wp p n m Q' \<Longrightarrow> wp p n m (\<lambda>a. Q a \<and> Q' a)"
  by (cases m) simp_all

lemma wp_branch [simp]:
  "wp p n (if b then m else m') Q \<longleftrightarrow> (b \<longrightarrow> wp p n m Q) \<and> (\<not> b \<longrightarrow> wp p n m' Q)"
  "wp p n (case b of True \<Rightarrow> m | False \<Rightarrow> m') Q \<longleftrightarrow> (b \<longrightarrow> wp p n m Q) \<and> (\<not> b \<longrightarrow> wp p n m' Q)"
  "wp p n (case opt of None \<Rightarrow> m | Some x \<Rightarrow> f x) Q \<longleftrightarrow>
    (opt = None \<longrightarrow> wp p n m Q) \<and> (\<forall>x. opt = Some x \<longrightarrow> wp p n (f x) Q)"
  "wp p n (case xy of (x, y) \<Rightarrow> g x y) Q \<longleftrightarrow> wp p n (g (fst xy) (snd xy)) Q"
  by (simp_all add: split_beta split: option.split bool.split)

lemma wp_exits [simp]:
  "wp p n (fok fr) Q \<longleftrightarrow> Q (fr, [], None)"
  "wp p n (fret bs fr) Q \<longleftrightarrow> Q (fr, bs, None)"
  "wp p n (ferr e fr) Q \<longleftrightarrow> Q (fr, [], Some e)"
  by (simp_all add: fok_def fret_def ferr_def)

lemma wp_popk [simp]:
  "wp p n (popk fr k) Q \<longleftrightarrow>
    (stack_tops (fr_stack fr) = [] \<longrightarrow> p) \<and>
    (\<forall>x xs. stack_tops (fr_stack fr) = x # xs \<longrightarrow> wp p n (k x (fr\<lparr>fr_stack := of_tops xs\<rparr>)) Q)"
  by (simp add: popk_def vmstack.pp_tops split: list.split)

lemma wp_fmem_Set [simp]:
  "wp p n (fmem_Set offset sz v fr k) Q \<longleftrightarrow>
    (mem_Set (fr_mem fr) (Uint64 offset) (Uint64 sz) v = None \<longrightarrow> p) \<and>
    (\<forall>m. mem_Set (fr_mem fr) (Uint64 offset) (Uint64 sz) v = Some m \<longrightarrow> wp p n (k (fr\<lparr>fr_mem := m\<rparr>)) Q)"
  by (simp add: fmem_Set_def)

lemmas arith_ops = opAdd_def opSub_def opMul_def opDiv_def opSdiv_def opMod_def opSmod_def opExp_def opSignExtend_def
  opNot_def opLt_def opGt_def opSlt_def opSgt_def opEq_def opIszero_def opAnd_def opOr_def opXor_def opByte_def
  opAddmod_def opMulmod_def

lemmas env_ops = opSha3_def opAddress_def opBalance_def opOrigin_def opCaller_def opCallValue_def opCallDataLoad_def
  opCallDataSize_def opCallDataCopy_def opReturnDataSize_def opReturnDataCopy_def opExtCodeSize_def opCodeSize_def
  opCodeCopy_def opExtCodeCopy_def opGasprice_def opBlockhash_def opCoinbase_def opTimestamp_def opNumber_def
  opDifficulty_def opGasLimit_def copy_to_mem_def

lemmas flow_ops = opPop_def opMload_def opMstore_def opMstore8_def opSload_def opSstore_def opJump_def opJumpi_def
  opJumpdest_def opPc_def opMsize_def opGas_def jump_to_def opReturn_def opRevert_def opStop_def opSuicide_def

lemmas family_ops = makePush_def makeDup_def makeSwap_def makeLog_def

lemmas call_ops = opCreate_def opCall_def opCallCode_def opDelegateCall_def opStaticCall_def finish_call_def

lemma tops_push [simp]: "stack_tops (push st x) = x # stack_tops st"
  by (simp add: vmstack.psh_tops)

lemma Back_tops: "Back st n = Some v \<longleftrightarrow> n < length (stack_tops st) \<and> stack_tops st ! n = v"
  using Back_of_tops [of "stack_tops st" n] by (simp add: vmstack.of_tops_tops split: if_splits)

definition stack_effect :: "operation \<Rightarrow> bool" where
  "stack_effect oper \<longleftrightarrow> (\<forall>interp fr. wp True True (op_execute oper interp fr) (\<lambda>(fr', ret, err).
     stack_len (fr_stack fr') + op_pop oper = stack_len (fr_stack fr) + op_push oper))"

lemma fr_keep_stack: "fr\<lparr>fr_stack := of_tops (stack_tops (fr_stack fr))\<rparr> = fr"
  by (simp add: vmstack.of_tops_tops)

lemma wp_pop_topics [simp]:
  "wp p n (pop_topics k fr f) Q \<longleftrightarrow>
    (if k \<le> stack_len (fr_stack fr)
     then wp p n (f (map BigToHash (take k (stack_tops (fr_stack fr)))) (fr\<lparr>fr_stack := of_tops (drop k (stack_tops (fr_stack fr)))\<rparr>)) Q
     else p)"
proof (induction k arbitrary: fr f)
  case 0
  show ?case by (simp add: fr_keep_stack)
next
  case (Suc k)
  then show ?case
    by (cases "stack_tops (fr_stack fr)") (auto simp flip: length_tops)
qed

lemma stack_effect_groups:
  "list_all (\<lambda>(op, oper). stack_effect oper) frontier_arith"
  "list_all (\<lambda>(op, oper). stack_effect oper) frontier_logic"
  "list_all (\<lambda>(op, oper). stack_effect oper) frontier_env"
  "list_all (\<lambda>(op, oper). stack_effect oper) frontier_block"
  "list_all (\<lambda>(op, oper). stack_effect oper) frontier_flow"
  by (simp_all add: frontier_defs stack_effect_def arith_ops env_ops flow_ops Let_def split_beta flip: length_tops length_tops)

lemma tops_set_evm_jumps [simp]:
  "fr_stack (set_evm_jumps evm d fr) = fr_stack fr" "fr_stack (set_gas g fr) = fr_stack fr"
  "fr_mem (set_evm_jumps evm d fr) = fr_mem fr" "fr_mem (set_gas g fr) = fr_mem fr"
  "fr_evm (set_evm_jumps evm d fr) = evm" "fr_evm (set_gas g fr) = fr_evm fr"
  "fr_pc (set_evm_jumps evm d fr) = fr_pc fr" "fr_pc (set_gas g fr) = fr_pc fr"
  by (simp_all add: set_evm_jumps_def set_gas_def)

lemma wp_any: "(\<And>a. Q a) \<Longrightarrow> wp True True m Q"
  by (cases m) simp_all

lemma wp_let [simp]: "wp p n (Let x f) Q \<longleftrightarrow> wp p n (f x) Q"
  by simp

lemma stack_effect_log: "list_all (\<lambda>(op, oper). stack_effect oper) frontier_log"
  by (auto simp: frontier_log_def stack_effect_def makeLog_def simp flip: length_tops)

lemma stack_effect_push: "list_all (\<lambda>(op, oper). stack_effect oper) frontier_push"
  by (simp add: frontier_push_def stack_effect_def makePush_def list_all_iff flip: length_tops)

lemma dup_Some: "dup st n = Some st' \<Longrightarrow> stack_len st' = Suc (stack_len st)"
  by (auto simp: dup_def Let_def stack_len_def push_def split: if_splits)

lemma swap_Some: "swap st n = Some st' \<Longrightarrow> stack_len st' = stack_len st"
  by (auto simp: swap_def Let_def stack_len_def split: if_splits)

lemma stack_effect_dup_swap:
  "list_all (\<lambda>(op, oper). stack_effect oper) frontier_dup"
  "list_all (\<lambda>(op, oper). stack_effect oper) frontier_swap"
  by (auto simp: frontier_dup_def frontier_swap_def stack_effect_def makeDup_def makeSwap_def list_all_iff dest: dup_Some swap_Some)

lemma stack_effect_calls:
  "list_all (\<lambda>(op, oper). stack_effect oper) frontier_call"
  by (auto simp: frontier_call_def stack_effect_def call_ops flow_ops simp flip: length_tops intro!: wp_any)

lemma stack_effect_table: "table_all (\<lambda>op oper. stack_effect oper)"
  unfolding table_all_def NewByzantiumInstructionSet_def NewHomesteadInstructionSet_def NewFrontierInstructionSet_def
    list_all_append
  by (auto simp: stack_effect_groups stack_effect_log stack_effect_push stack_effect_dup_swap stack_effect_calls
      stack_effect_def call_ops env_ops flow_ops simp flip: length_tops intro!: wp_any)

section \<open>Entry by entry\<close>

lemma list_all_families:
  assumes "\<And>op oper. 96 \<le> unat op \<Longrightarrow> unat op < 160 \<Longrightarrow> P op oper"
  shows "list_all (\<lambda>(op, oper). P op oper) frontier_push" "list_all (\<lambda>(op, oper). P op oper) frontier_dup"
    "list_all (\<lambda>(op, oper). P op oper) frontier_swap"
proof -
  have code: "unat (w + word_of_nat (n - 1) :: OpCode) = unat w + (n - 1)" if "unat w + n < 256" "0 < n" for w :: OpCode and n
    using that by (cases n) (simp_all add: unat_word_ariths unat_of_nat)
  show "list_all (\<lambda>(op, oper). P op oper) frontier_push" "list_all (\<lambda>(op, oper). P op oper) frontier_dup"
    "list_all (\<lambda>(op, oper). P op oper) frontier_swap"
    unfolding frontier_push_def frontier_dup_def frontier_swap_def list.pred_map o_def split_conv
    unfolding list_all_iff
    by (intro ballI assms; subst code; simp)+
qed
lemma table_all_iff:
  "table_all P \<longleftrightarrow>
    list_all (\<lambda>(op, oper). P op oper) (frontier_arith @ frontier_logic @ frontier_env @ frontier_block @ frontier_flow @
      frontier_log @ frontier_call @ take 5 NewByzantiumInstructionSet) \<and>
    list_all (\<lambda>(op, oper). P op oper) frontier_push \<and> list_all (\<lambda>(op, oper). P op oper) frontier_dup \<and>
    list_all (\<lambda>(op, oper). P op oper) frontier_swap"
  by (auto simp: table_all_def NewByzantiumInstructionSet_def NewHomesteadInstructionSet_def NewFrontierInstructionSet_def)

lemmas table_parts = frontier_arith_def frontier_logic_def frontier_env_def frontier_block_def frontier_flow_def
  frontier_log_def frontier_call_def NewByzantiumInstructionSet_def NewHomesteadInstructionSet_def

section \<open>Gas contracts of the table\<close>

lemma gas_post_weaken: "gas_post ms mem evm least res \<Longrightarrow> least' \<le> least \<Longrightarrow> gas_post ms mem evm least' res"
  unfolding gas_post_def by (cases res) (auto dest: order_trans)

lemma gas_contract_weaken:
  "gas_contract need um least gf \<Longrightarrow> need \<le> need' \<Longrightarrow> (um' \<Longrightarrow> um) \<Longrightarrow> least' \<le> least \<Longrightarrow>
   gas_contract need' um' least' gf"
  unfolding gas_contract_def by (blast intro: gas_post_weaken dest: order_trans)

lemmas gas_contracts_le = gas_contracts [THEN gas_contract_weaken]

definition op_least :: "operation \<Rightarrow> nat" where
  "op_least oper = (if op_halts oper \<or> op_reverts oper then 0 else 1)"

definition gas_entry :: "operation \<Rightarrow> bool" where
  "gas_entry oper \<longleftrightarrow> gas_contract (op_pop oper) (op_memorySize oper \<noteq> None) (op_least oper) (op_gasCost oper)"

lemma gas_entry_groups:
  "list_all (\<lambda>(op, oper). gas_entry oper) frontier_arith"
  "list_all (\<lambda>(op, oper). gas_entry oper) frontier_logic"
  "list_all (\<lambda>(op, oper). gas_entry oper) frontier_env"
  "list_all (\<lambda>(op, oper). gas_entry oper) frontier_block"
  "list_all (\<lambda>(op, oper). gas_entry oper) frontier_flow"
  "list_all (\<lambda>(op, oper). gas_entry oper) frontier_push"
  "list_all (\<lambda>(op, oper). gas_entry oper) frontier_dup"
  "list_all (\<lambda>(op, oper). gas_entry oper) frontier_swap"
  "list_all (\<lambda>(op, oper). gas_entry oper) frontier_log"
  "list_all (\<lambda>(op, oper). gas_entry oper) frontier_call"
  by (simp_all add: frontier_defs gas_entry_def op_least_def step_gas_defs JumpdestGas_def list_all_iff gas_contracts gas_contracts_le
      del: One_nat_def)

lemma gas_entry_table: "table_all (\<lambda>op oper. gas_entry oper)"
  unfolding table_all_def NewByzantiumInstructionSet_def NewHomesteadInstructionSet_def NewFrontierInstructionSet_def
    list_all_append
  by (simp add: gas_entry_groups gas_entry_def op_least_def step_gas_defs gas_contracts gas_contracts_le
      del: One_nat_def)

text \<open>A validated stack holds the operands the memory size function looks at.\<close>

definition memory_entry :: "operation \<Rightarrow> bool" where
  "memory_entry oper \<longleftrightarrow>
    (\<forall>f st. op_memorySize oper = Some f \<longrightarrow> op_pop oper \<le> stack_len st \<longrightarrow> (\<exists>need. f st = Some need))"

lemma memory_entry_table: "table_all (\<lambda>op oper. memory_entry oper)"
  unfolding table_all_def NewByzantiumInstructionSet_def NewHomesteadInstructionSet_def NewFrontierInstructionSet_def
    list_all_append
  by (auto simp: frontier_defs list_all_iff memory_entry_def memory_size_defs back_size_def back_size2_def Back_def)

definition pops_entry :: "OpCode \<Rightarrow> operation \<Rightarrow> bool" where
  "pops_entry op oper \<longleftrightarrow> (op = CALL \<longrightarrow> 3 \<le> op_pop oper)"

lemma pops_entry_table: "table_all pops_entry"
  unfolding table_all_iff
  by (intro conjI list_all_families) (simp_all add: table_parts pops_entry_def, auto)

section \<open>The phases of an iteration\<close>

abbreviation cur_op :: "Frame \<Rightarrow> OpCode" where
  "cur_op fr \<equiv> GetOp (fr_contract fr) (fr_pc fr)"

abbreviation cur_oper :: "Frame \<Rightarrow> operation" where
  "cur_oper fr \<equiv> JumpTable (in_JumpTable (fr_evm fr)) (cur_op fr)"

text \<open>The instruction passed every check that precedes charging, and needs \<open>ms\<close> bytes of memory.\<close>

definition admitted :: "Frame \<Rightarrow> u64 \<Rightarrow> bool" where
  "admitted fr ms \<longleftrightarrow> op_valid (cur_oper fr) \<and> validateStack (cur_oper fr) (fr_stack fr) = None \<and>
    enforceRestrictions (fr_evm fr) (cur_op fr) (cur_oper fr) (fr_stack fr) = Done None \<and>
    memory_request (cur_oper fr) (fr_stack fr) = eok ms"

text \<open>The frame after charging: only the database (quietly), the gas for a callee, the remembered memory fee and
  the gas left have changed.\<close>

definition charged :: "u64 \<Rightarrow> Frame \<Rightarrow> Frame \<Rightarrow> bool" where
  "charged ms fr fr1 \<longleftrightarrow>
    (if DisableGasMetering (evm_vmConfig (fr_evm fr)) then fr1 = fr
     else \<exists>evm mem cost.
       op_gasCost (cur_oper fr) (in_gasTable (fr_evm fr)) (fr_evm fr) (fr_contract fr) (fr_stack fr) (fr_mem fr) ms =
         (evm, mem, eok cost) \<and>
       cost \<le> ct_Gas (fr_contract fr) \<and>
       fr1 = fr\<lparr>fr_evm := evm, fr_mem := mem, fr_contract := (fr_contract fr)\<lparr>ct_Gas := ct_Gas (fr_contract fr) - cost\<rparr>\<rparr>)"

definition resized :: "u64 \<Rightarrow> Frame \<Rightarrow> Frame" where
  "resized ms fr = (if ms > 0 then fr\<lparr>fr_mem := mem_Resize (fr_mem fr) ms\<rparr> else fr)"

lemma wp_sum [simp]:
  "wp p n (case r of Inl e \<Rightarrow> f e | Inr x \<Rightarrow> g x) Q \<longleftrightarrow>
    (\<forall>e. r = Inl e \<longrightarrow> wp p n (f e) Q) \<and> (\<forall>x. r = Inr x \<longrightarrow> wp p n (g x) Q)"
  by (cases r) simp_all

lemma validated_len:
  "validateStack oper st = None \<Longrightarrow> op_pop oper \<le> stack_len st \<and> stack_len st + op_push oper - op_pop oper \<le> StackLimit"
  by (simp add: validateStack_def makeStackFunc_None)

lemma enforceRestrictions_Done:
  assumes "op_valid (cur_oper fr)" "validateStack (cur_oper fr) (fr_stack fr) = None"
  shows "\<exists>r. enforceRestrictions (fr_evm fr) (cur_op fr) (cur_oper fr) (fr_stack fr) = Done r"
proof -
  have "cur_op fr = CALL \<Longrightarrow> 2 < stack_len (fr_stack fr)"
    using table_all_JumpTable [OF pops_entry_table assms(1)] validated_len [OF assms(2)] by (simp add: pops_entry_def)
  then show ?thesis
    using Back_Some [of 2 "fr_stack fr"] by (auto simp: enforceRestrictions_def)
qed

lemma memory_request_Done:
  assumes "op_valid (cur_oper fr)" "validateStack (cur_oper fr) (fr_stack fr) = None"
  shows "\<exists>r. memory_request (cur_oper fr) (fr_stack fr) = Done r"
proof (cases "op_memorySize (cur_oper fr)")
  case None
  then show ?thesis by (simp add: memory_request_def)
next
  case (Some f)
  then obtain need where "f (fr_stack fr) = Some need"
    using table_all_JumpTable [OF memory_entry_table assms(1)] validated_len [OF assms(2)] by (auto simp: memory_entry_def)
  then show ?thesis
    using Some by (auto simp: memory_request_def intro!: ebind_Done big_u64_Done safe_mul_Done)
qed

lemma wp_stepI:
  assumes fail: "\<And>e. Q (Halt fr [] (Some e))"
    and exec: "\<And>ms. admitted fr ms \<Longrightarrow> wp p n (exec_op interp (cur_oper fr) ms fr) Q"
  shows "wp p n (step interp fr) Q"
proof (cases "op_valid (cur_oper fr) \<and> validateStack (cur_oper fr) (fr_stack fr) = None")
  case True
  then obtain r m where r: "enforceRestrictions (fr_evm fr) (cur_op fr) (cur_oper fr) (fr_stack fr) = Done r"
    and m: "memory_request (cur_oper fr) (fr_stack fr) = Done m"
    using enforceRestrictions_Done memory_request_Done by blast
  show ?thesis
    using True r m fail exec by (auto simp: step_def Let_def admitted_def)
next
  case False
  then show ?thesis
    using fail by (auto simp: step_def Let_def)
qed

lemma admitted_gas_post:
  assumes "admitted fr ms" "std_gas_table (in_gasTable (fr_evm fr))"
  shows "gas_post ms (fr_mem fr) (fr_evm fr) (op_least (cur_oper fr))
    (op_gasCost (cur_oper fr) (in_gasTable (fr_evm fr)) (fr_evm fr) (fr_contract fr) (fr_stack fr) (fr_mem fr) ms)"
proof -
  have "gas_entry (cur_oper fr)" and "op_pop (cur_oper fr) \<le> stack_len (fr_stack fr)"
    using table_all_JumpTable [OF gas_entry_table] validated_len assms(1) by (auto simp: admitted_def)
  moreover have "op_memorySize (cur_oper fr) \<noteq> None \<or> ms = 0"
    using assms(1) by (auto simp: admitted_def memory_request_def split: option.splits)
  ultimately show ?thesis
    using assms(2) by (auto simp: gas_entry_def gas_contract_def)
qed

lemma wp_exec_opI:
  assumes adm: "admitted fr ms" "std_gas_table (in_gasTable (fr_evm fr))"
    and oog: "\<And>db t l. db_quiet (evm_StateDB (fr_evm fr)) db \<Longrightarrow>
      Q (Halt (fr\<lparr>fr_evm := (fr_evm fr)\<lparr>evm_StateDB := db, evm_callGasTemp := t\<rparr>,
        fr_mem := (fr_mem fr)\<lparr>mem_lastGasCost := l\<rparr>\<rparr>) [] (Some ErrOutOfGas))"
    and exec: "\<And>fr1. charged ms fr fr1 \<Longrightarrow>
      wp p n (op_execute (cur_oper fr) interp (resized ms fr1)) (\<lambda>r. Q (finish_step (cur_oper fr) r))"
  shows "wp p n (exec_op interp (cur_oper fr) ms fr) Q"
proof (cases "DisableGasMetering (evm_vmConfig (fr_evm fr))")
  case True
  then show ?thesis
    using exec [of fr] by (simp add: exec_op_def charge_def charged_def resized_def Let_def)
next
  case False
  obtain evm mem r where gc: "op_gasCost (cur_oper fr) (in_gasTable (fr_evm fr)) (fr_evm fr) (fr_contract fr)
      (fr_stack fr) (fr_mem fr) ms = (evm, mem, r)"
    by (cases "op_gasCost (cur_oper fr) (in_gasTable (fr_evm fr)) (fr_evm fr) (fr_contract fr) (fr_stack fr) (fr_mem fr) ms")
  with admitted_gas_post [OF adm] obtain db t l x where post: "evm = (fr_evm fr)\<lparr>evm_StateDB := db, evm_callGasTemp := t\<rparr>"
    "db_quiet (evm_StateDB (fr_evm fr)) db" "mem = (fr_mem fr)\<lparr>mem_lastGasCost := l\<rparr>" "r = Done x"
    unfolding gas_post_def by auto
  show ?thesis
  proof (cases x)
    case (Inl e)
    then show ?thesis
      using False gc post oog [OF post(2)] by (simp add: exec_op_def charge_def)
  next
    case (Inr cost)
    show ?thesis
    proof (cases "ct_Gas (fr_contract fr) < cost")
      case True
      then show ?thesis
        using False gc post Inr oog [OF post(2)] by (simp add: exec_op_def charge_def UseGas_def)
    next
      case afford: False
      let ?fr1 = "fr\<lparr>fr_evm := evm, fr_mem := mem, fr_contract := (fr_contract fr)\<lparr>ct_Gas := ct_Gas (fr_contract fr) - cost\<rparr>\<rparr>"
      have "charged ms fr ?fr1"
        using False gc post(4) Inr afford by (auto simp: charged_def not_less)
      from exec [OF this] show ?thesis
        using False gc post(4) Inr afford by (simp add: exec_op_def charge_def UseGas_def resized_def Let_def)
    qed
  qed
qed

lemma chargedE:
  assumes "charged ms fr fr1" "admitted fr ms" "std_gas_table (in_gasTable (fr_evm fr))"
  obtains db t l g where
    "fr1 = fr\<lparr>fr_evm := (fr_evm fr)\<lparr>evm_StateDB := db, evm_callGasTemp := t\<rparr>, fr_mem := (fr_mem fr)\<lparr>mem_lastGasCost := l\<rparr>,
       fr_contract := (fr_contract fr)\<lparr>ct_Gas := ct_Gas (fr_contract fr) - g\<rparr>\<rparr>"
    "db_quiet (evm_StateDB (fr_evm fr)) db" "g \<le> ct_Gas (fr_contract fr)"
    "\<not> DisableGasMetering (evm_vmConfig (fr_evm fr)) \<Longrightarrow> op_least (cur_oper fr) \<le> unat g \<and> ms \<le> 0xffffffffe0"
proof (cases "DisableGasMetering (evm_vmConfig (fr_evm fr))")
  case True
  then have "fr1 = fr\<lparr>fr_evm := (fr_evm fr)\<lparr>evm_StateDB := evm_StateDB (fr_evm fr), evm_callGasTemp := evm_callGasTemp (fr_evm fr)\<rparr>,
       fr_mem := (fr_mem fr)\<lparr>mem_lastGasCost := mem_lastGasCost (fr_mem fr)\<rparr>,
       fr_contract := (fr_contract fr)\<lparr>ct_Gas := ct_Gas (fr_contract fr) - 0\<rparr>\<rparr>"
    using assms(1) by (simp add: charged_def)
  then show ?thesis
    by (rule that) (use True in \<open>auto simp: db_quiet_refl\<close>)
next
  case False
  then obtain evm mem g where g: "op_gasCost (cur_oper fr) (in_gasTable (fr_evm fr)) (fr_evm fr) (fr_contract fr)
      (fr_stack fr) (fr_mem fr) ms = (evm, mem, eok g)" "g \<le> ct_Gas (fr_contract fr)"
    "fr1 = fr\<lparr>fr_evm := evm, fr_mem := mem, fr_contract := (fr_contract fr)\<lparr>ct_Gas := ct_Gas (fr_contract fr) - g\<rparr>\<rparr>"
    using assms(1) by (auto simp: charged_def)
  with admitted_gas_post [OF assms(2,3)] obtain db t l where "evm = (fr_evm fr)\<lparr>evm_StateDB := db, evm_callGasTemp := t\<rparr>"
    and q: "db_quiet (evm_StateDB (fr_evm fr)) db" and "mem = (fr_mem fr)\<lparr>mem_lastGasCost := l\<rparr>"
    and least: "op_least (cur_oper fr) \<le> unat g \<and> ms \<le> 0xffffffffe0"
    unfolding gas_post_def by auto
  then have "fr1 = fr\<lparr>fr_evm := (fr_evm fr)\<lparr>evm_StateDB := db, evm_callGasTemp := t\<rparr>, fr_mem := (fr_mem fr)\<lparr>mem_lastGasCost := l\<rparr>,
       fr_contract := (fr_contract fr)\<lparr>ct_Gas := ct_Gas (fr_contract fr) - g\<rparr>\<rparr>"
    using g(3) by simp
  then show ?thesis
    by (rule that [OF _ q g(2) least])
qed

end
