(* ===== verification/Exec_Relations.thy ===== *)
theory Exec_Relations
  imports Exec_Rules
begin

text \<open>
  Relations between the EVM before and after an execution. The locale \<^verbatim>\<open>evm_rel\<close> lists what a relation must admit
  (scratch fields of the interpreter, reads of the state, the overflow markers, any write outside read-only mode,
  entering and leaving a nested run) and shows once, by induction on the fuel, that every execution of every program
  keeps such a relation. It is interpreted twice: on the configuration of the EVM, which no execution changes, and on
  what a read-only execution leaves alone in the state.
\<close>

section \<open>The contract\<close>

text \<open>What no execution changes.\<close>

definition evm_static :: "EVM \<Rightarrow> EVM \<Rightarrow> bool" where
  "evm_static e e' \<longleftrightarrow> evm_ctx e' = evm_ctx e \<and> evm_depth e' = evm_depth e \<and> evm_chainConfig e' = evm_chainConfig e \<and>
    evm_chainRules e' = evm_chainRules e \<and> evm_vmConfig e' = evm_vmConfig e \<and> evm_abort e' = evm_abort e \<and>
    evm_crypto e' = evm_crypto e \<and> in_JumpTable e' = in_JumpTable e \<and> in_gasTable e' = in_gasTable e \<and>
    in_readOnly e' = in_readOnly e"

definition restricted :: "EVM \<Rightarrow> bool" where
  "restricted e \<longleftrightarrow> RulesByzantium (evm_chainRules e) \<and> in_readOnly e"

text \<open>The environment every caller in the sources sets up: the balance functions of \<^verbatim>\<open>core\<close> and a gas table of
  \<^verbatim>\<open>params\<close>.\<close>

definition std_evm :: "EVM \<Rightarrow> bool" where
  "std_evm e \<longleftrightarrow> CanTransferFunc (evm_ctx e) = CanTransfer \<and> TransferFunc (evm_ctx e) = Transfer \<and>
    std_gas_table (in_gasTable e)"

definition markers :: "string set" where
  "markers = {marker_Add, marker_Sub, marker_Mul, marker_Div}"

lemma std_evm_static: "evm_static e e' \<Longrightarrow> std_evm e' = std_evm e"
  by (simp add: evm_static_def std_evm_def)

lemma restricted_static: "evm_static e e' \<Longrightarrow> restricted e' = restricted e"
  by (simp add: evm_static_def restricted_def)

lemma list_all_Cons: "list_all P (x # xs) \<longleftrightarrow> P x \<and> list_all P xs" and list_all_Nil: "list_all P [] \<longleftrightarrow> True"
  by simp_all

lemma with_db_simps [simp]:
  "evm_StateDB (with_db e db) = db" "evm_ctx (with_db e db) = evm_ctx e" "evm_depth (with_db e db) = evm_depth e"
  "evm_chainConfig (with_db e db) = evm_chainConfig e" "evm_chainRules (with_db e db) = evm_chainRules e"
  "evm_vmConfig (with_db e db) = evm_vmConfig e" "in_gasTable (with_db e db) = in_gasTable e"
  "in_readOnly (with_db e db) = in_readOnly e"
  by (simp_all add: with_db_def)

locale evm_rel =
  fixes R :: "EVM \<Rightarrow> EVM \<Rightarrow> bool"
  assumes static: "R e e' \<Longrightarrow> evm_static e e'"
    and refl: "R e e"
    and trans: "R e e' \<Longrightarrow> R e' e'' \<Longrightarrow> R e e''"
    and pool: "R e (e\<lparr>in_intPool := st\<rparr>)"
    and temp: "R e (e\<lparr>evm_callGasTemp := g\<rparr>)"
    and events: "R e (e\<lparr>evm_events := ev\<rparr>)"
    and ret: "R e (e\<lparr>in_returnData := bs\<rparr>)"
    and quiet: "db_quiet (evm_StateDB e) db \<Longrightarrow> R e (e\<lparr>evm_StateDB := db\<rparr>)"
    and marked: "m \<in> markers \<Longrightarrow> R e (e\<lparr>evm_StateDB := SetState (evm_StateDB e) a (StringToHash m) h\<rparr>)"
    and writing: "\<not> restricted e \<Longrightarrow> R e (e\<lparr>evm_StateDB := db\<rparr>)"
    and nested: "R (enter e) e' \<Longrightarrow> R e (leave e')"
    and static_call: "R (e\<lparr>in_readOnly := True\<rparr>) e' \<Longrightarrow> R e (if in_readOnly e then e' else e'\<lparr>in_readOnly := False\<rparr>)"
begin

lemma step_pool: "R e0 e \<Longrightarrow> R e0 (e\<lparr>in_intPool := st\<rparr>)"
  by (rule trans [OF _ pool])

lemma step_temp: "R e0 e \<Longrightarrow> R e0 (e\<lparr>evm_callGasTemp := g\<rparr>)"
  by (rule trans [OF _ temp])

lemma step_events: "R e0 e \<Longrightarrow> R e0 (e\<lparr>evm_events := ev\<rparr>)"
  by (rule trans [OF _ events])

lemma step_db: "R e0 e \<Longrightarrow> (restricted e0 \<Longrightarrow> db_quiet (evm_StateDB e) db) \<Longrightarrow> R e0 (e\<lparr>evm_StateDB := db\<rparr>)"
  using trans [OF _ quiet, of e0 e db] trans [OF _ writing, of e0 e db] restricted_static [OF static, of e0 e]
  by (cases "restricted e0") simp_all

lemma frame_steps:
  "R e0 (fr_evm fr) \<Longrightarrow> R e0 (fr_evm (fput l fr))"
  "R e0 (fr_evm fr) \<Longrightarrow> R e0 (fr_evm (fget fr))"
  "R e0 (fr_evm fr) \<Longrightarrow> R e0 (fr_evm (push_bool b fr))"
  "R e0 (fr_evm fr) \<Longrightarrow> R e0 (fr_evm (callback s loc v fr))"
  "R e0 (fr_evm fr) \<Longrightarrow> m \<in> markers \<Longrightarrow> R e0 (fr_evm (mark m fr))"
  "R e0 (fr_evm fr) \<Longrightarrow> (restricted e0 \<Longrightarrow> db_quiet (fr_db fr) (f (fr_db fr))) \<Longrightarrow> R e0 (fr_evm (fdb f fr))"
  by (simp_all add: fput_def fget_def push_bool_def callback_def mark_def fdb_def step_pool step_events step_db
      trans [OF _ marked])

definition run_keeps :: "run_fn \<Rightarrow> bool" where
  "run_keeps interp \<longleftrightarrow> (\<forall>e c inp. std_evm e \<longrightarrow> wp True True (interp e c inp) (\<lambda>(e', c', ret, err). R e e'))"

definition op_keeps :: "OpCode \<Rightarrow> operation \<Rightarrow> bool" where
  "op_keeps op oper \<longleftrightarrow> (\<forall>interp fr. run_keeps interp \<longrightarrow> std_evm (fr_evm fr) \<longrightarrow>
     (restricted (fr_evm fr) \<longrightarrow> \<not> op_writes oper \<and> (op = CALL \<longrightarrow> Back (fr_stack fr) 2 = Some 0)) \<longrightarrow>
     wp True True (op_execute oper interp fr) (\<lambda>(fr', ret, err). R (fr_evm fr) (fr_evm fr')))"

lemma op_keeps_groups:
  "list_all (\<lambda>(op, oper). op_keeps op oper) frontier_arith"
  "list_all (\<lambda>(op, oper). op_keeps op oper) frontier_logic"
  "list_all (\<lambda>(op, oper). op_keeps op oper) frontier_env"
  "list_all (\<lambda>(op, oper). op_keeps op oper) frontier_block"
  by (auto simp: frontier_defs op_keeps_def arith_ops env_ops flow_ops Let_def split_beta GetBalance_eq AddPreimage_def markers_def
    intro!: frame_steps refl db_quiet_ops db_quiet_refl)

lemma op_keeps_flow: "list_all (\<lambda>(op, oper). op_keeps op oper) frontier_flow"
  by (auto simp: frontier_defs op_keeps_def flow_ops Let_def split_beta
      intro!: frame_steps refl db_quiet_ops)

lemma op_keeps_families:
  "list_all (\<lambda>(op, oper). op_keeps op oper) frontier_push"
  "list_all (\<lambda>(op, oper). op_keeps op oper) frontier_dup"
  "list_all (\<lambda>(op, oper). op_keeps op oper) frontier_swap"
  "list_all (\<lambda>(op, oper). op_keeps op oper) frontier_log"
  by (auto simp: frontier_defs list_all_iff op_keeps_def family_ops Let_def split_beta intro!: frame_steps refl)

lemma run_run:
  assumes "run_keeps interp" "std_evm e" "R e0 e"
  shows "wp True True (run interp e c inp) (\<lambda>(e', c', ret, err). R e0 e')"
proof -
  have "wp True True (interp e c inp) (\<lambda>(e', c', ret, err). R e0 e')"
    using assms unfolding run_keeps_def by (auto intro: wp_mono trans)
  then show ?thesis
    using assms(3) by (auto simp: run_def intro!: wp_any)
qed

lemma run_end_call:
  assumes "run_keeps interp" "std_evm e" "R e0 e"
  shows "wp True True (rbind (run interp e c inp) (end_call sn)) (\<lambda>(e', r). R e0 e')"
  unfolding wp_rbind
  by (rule wp_mono [OF run_run [OF assms]]) (auto simp: end_call_def RevertToSnapshot_def Let_def)

lemma std_db: "std_evm (with_db e db) = std_evm e"
  by (simp add: std_evm_def with_db_def)

lemma call_keeps:
  assumes "run_keeps interp" "std_evm e" "restricted e \<Longrightarrow> v = 0"
  shows "wp True True (Call interp e caller addr inp gas v) (\<lambda>(e', r). R e e')"
proof -
  let ?db = "AddBalance (evm_StateDB e) (ref_Address caller) 100"
  have can: "R e (with_db e ?db)"
    unfolding with_db_def by (intro quiet db_quiet_ops) simp
  have "R e (with_db e (Transfer ?db (ref_Address caller) addr v))"
    unfolding with_db_def
  proof (rule step_db [OF refl])
    assume "restricted e"
    then have "db_quiet ?db (Transfer ?db (ref_Address caller) addr v)"
      using assms(3) db_quiet_ops(4) by simp
    with db_quiet_ops(1) show "db_quiet (evm_StateDB e) (Transfer ?db (ref_Address caller) addr v)"
      by (rule db_quiet_trans) simp
  qed
  then show ?thesis
    using assms(1,2) can
    by (auto simp: Call_def std_evm_def CanTransfer_eq Exist_def Let_def std_db refl
        simp del: wp_rbind intro!: run_end_call)
qed

lemma callcode_keeps:
  assumes "run_keeps interp" "std_evm e"
  shows "wp True True (CallCode interp e caller addr inp gas v) (\<lambda>(e', r). R e e')"
proof -
  have "R e (with_db e (AddBalance (evm_StateDB e) (ref_Address caller) 100))"
    unfolding with_db_def by (intro quiet db_quiet_ops) simp
  then show ?thesis
    using assms by (auto simp: CallCode_def std_evm_def CanTransfer_eq Let_def std_db refl
        simp del: wp_rbind intro!: run_end_call)
qed

lemma delegatecall_keeps:
  assumes "run_keeps interp" "std_evm e"
  shows "wp True True (DelegateCall interp e caller addr inp gas) (\<lambda>(e', r). R e e')"
  using assms by (auto simp: DelegateCall_def Let_def refl simp del: wp_rbind intro!: run_end_call)

lemma staticcall_keeps:
  assumes "run_keeps interp" "std_evm e"
  shows "wp True True (StaticCall interp e caller addr inp gas) (\<lambda>(e', r). R e e')"
proof -
  let ?e = "e\<lparr>in_readOnly := True\<rparr>"
  have "wp True True (rbind (run interp ?e c inp) (end_call sn)) (\<lambda>(e', r). R ?e e')" for c sn
    using assms by (intro run_end_call refl) (simp_all add: std_evm_def)
  then have "wp True True (rbind (rbind (run interp ?e c inp) (end_call sn))
      (\<lambda>(e', r). Done (if in_readOnly e then e' else e'\<lparr>in_readOnly := False\<rparr>, r))) (\<lambda>(e', r). R e e')" for c sn
    unfolding wp_rbind [of _ _ "rbind (run interp ?e c inp) (end_call sn)"]
  proof (rule wp_mono)
    fix a :: "EVM \<times> destinations \<times> bytes \<times> u64 \<times> Error option"
    assume "case a of (e', r) \<Rightarrow> R ?e e'"
    then have "R ?e (fst a)" by auto
    from static_call [OF this]
    show "wp True True (case a of (e', r) \<Rightarrow> Done (if in_readOnly e then e' else e'\<lparr>in_readOnly := False\<rparr>, r)) (\<lambda>(e', r). R e e')"
      by (simp add: split_beta)
  qed
  then show ?thesis
    by (auto simp: StaticCall_def Let_def refl simp del: wp_rbind)
qed

lemma run_end_create:
  assumes "run_keeps interp" "std_evm e" "R e0 e" "\<not> restricted e0"
  shows "wp True True (rbind (run interp e c inp) (end_create sn addr)) (\<lambda>(e', r). R e0 e')"
  unfolding wp_rbind
  by (rule wp_mono [OF run_run [OF assms(1-3)]])
    (use assms(4) in \<open>auto simp: end_create_def RevertToSnapshot_def with_db_def Let_def UseGas_def intro!: step_db\<close>)

lemma create_keeps:
  assumes "run_keeps interp" "std_evm e" "\<not> restricted e"
  shows "wp True True (Create interp e caller code gas v) (\<lambda>(e', r). R e e')"
proof -
  have db: "R e (with_db e db)" for db
    unfolding with_db_def using assms(3) by (rule writing)
  then have "wp True True (rbind (run interp (with_db e db) c inp) (end_create sn addr)) (\<lambda>(e', r). R e e')" for db c inp sn addr
    using assms by (intro run_end_create) (simp_all add: std_db)
  then show ?thesis
    using assms(1,2) db by (auto simp: Create_def std_evm_def CanTransfer_eq Let_def std_db refl simp del: wp_rbind)
qed

lemma finish_keeps:
  assumes "wp True True m (\<lambda>(e', r). R e0 e')"
  shows "wp True True m (\<lambda>a. wp True True (finish_call ro rs puts fr a) (\<lambda>(fr', ret, err). R e0 (fr_evm fr')))"
  by (rule wp_mono [OF assms]) (auto simp: finish_call_def Let_def intro!: frame_steps)

lemma std_pool: "std_evm (e\<lparr>in_intPool := st\<rparr>) = std_evm e" "restricted (e\<lparr>in_intPool := st\<rparr>) = restricted e"
  by (simp_all add: std_evm_def restricted_def)

lemma from_pool: "wp True True m (\<lambda>(e', r). R (e\<lparr>in_intPool := st\<rparr>) e') \<Longrightarrow> wp True True m (\<lambda>(e', r). R e e')"
  by (erule wp_mono) (auto intro: trans [OF pool])

lemmas calls_keep = call_keeps callcode_keeps delegatecall_keeps staticcall_keeps

lemmas calls_finish = calls_keep [THEN from_pool, THEN finish_keeps]

lemma op_keeps_calls:
  "op_keeps CALL ((mkop opCall gc n m)\<lparr>op_memorySize := ms, op_returns := True\<rparr>)"
  "op_keeps CALLCODE ((mkop opCallCode gc n m)\<lparr>op_memorySize := ms, op_returns := True\<rparr>)"
  "op_keeps DELEGATECALL ((mkop opDelegateCall gc n m)\<lparr>op_memorySize := ms, op_returns := True\<rparr>)"
  "op_keeps STATICCALL ((mkop opStaticCall gc n m)\<lparr>op_memorySize := ms, op_returns := True\<rparr>)"
  unfolding op_keeps_def opCall_def opCallCode_def opDelegateCall_def opStaticCall_def
  by (simp add: Let_def fput_def Back_tops; intro allI impI conjI; rule calls_finish;
      auto simp: std_pool U256_def)+

lemma op_keeps_create:
  "op_keeps CREATE ((mkop opCreate gc n m)\<lparr>op_memorySize := ms, op_writes := True, op_returns := True\<rparr>)"
  unfolding op_keeps_def opCreate_def
  by (simp add: Let_def; intro allI impI conjI; rule wp_mono [OF create_keeps]; auto intro!: frame_steps)

lemma op_keeps_halts:
  "op_keeps RETURN ((mkop (\<lambda>_. opReturn) gc n m)\<lparr>op_memorySize := ms, op_halts := True\<rparr>)"
  "op_keeps SELFDESTRUCT ((mkop (\<lambda>_. opSuicide) gc n m)\<lparr>op_halts := True, op_writes := True\<rparr>)"
  "op_keeps REVERT ((mkop (\<lambda>_. opRevert) gc n m)\<lparr>op_memorySize := ms, op_reverts := True, op_returns := True\<rparr>)"
  "op_keeps RETURNDATASIZE (mkop (\<lambda>_. opReturnDataSize) gc n m)"
  "op_keeps RETURNDATACOPY ((mkop (\<lambda>_. opReturnDataCopy) gc n m)\<lparr>op_memorySize := ms\<rparr>)"
  by (auto simp: op_keeps_def flow_ops env_ops GetBalance_eq Let_def intro!: frame_steps refl)

lemma op_keeps_table: "table_all op_keeps"
  unfolding table_all_def NewByzantiumInstructionSet_def NewHomesteadInstructionSet_def NewFrontierInstructionSet_def
    list_all_append frontier_call_def list_all_Cons list_all_Nil split_conv
  by (intro conjI TrueI op_keeps_groups op_keeps_flow op_keeps_families op_keeps_create op_keeps_calls op_keeps_halts)

lemma admitted_restricted:
  assumes "admitted fr ms" "restricted (fr_evm fr)"
  shows "\<not> op_writes (cur_oper fr) \<and> (cur_op fr = CALL \<longrightarrow> Back (fr_stack fr) 2 = Some 0)"
  using assms
  by (auto simp: admitted_def restricted_def enforceRestrictions_def BitLen_pos split: if_splits option.splits)

lemma charged_keeps:
  assumes "charged ms fr fr1" "admitted fr ms" "std_gas_table (in_gasTable (fr_evm fr))"
  shows "R (fr_evm fr) (fr_evm fr1)" "fr_stack fr1 = fr_stack fr"
  by (rule chargedE [OF assms]; simp add: step_temp quiet)+

lemma finish_step_keeps:
  "R e0 (fr_evm fr) \<Longrightarrow>
   (case finish_step oper (fr, ret, err) of Next fr' \<Rightarrow> R e0 (fr_evm fr') | Halt fr' bs er \<Rightarrow> R e0 (fr_evm fr'))"
  by (auto simp: finish_step_def Let_def intro: trans [OF _ ret])

lemma step_keeps:
  assumes "run_keeps interp" "std_evm (fr_evm fr)"
  shows "wp True True (step interp fr)
    (\<lambda>r. case r of Next fr' \<Rightarrow> R (fr_evm fr) (fr_evm fr') | Halt fr' bs err \<Rightarrow> R (fr_evm fr) (fr_evm fr'))"
proof (rule wp_stepI)
  fix ms assume adm: "admitted fr ms"
  have gt: "std_gas_table (in_gasTable (fr_evm fr))"
    using assms(2) by (simp add: std_evm_def)
  show "wp True True (exec_op interp (cur_oper fr) ms fr)
    (\<lambda>r. case r of Next fr' \<Rightarrow> R (fr_evm fr) (fr_evm fr') | Halt fr' bs err \<Rightarrow> R (fr_evm fr) (fr_evm fr'))"
  proof (rule wp_exec_opI [OF adm gt])
    fix fr1 assume ch: "charged ms fr fr1"
    let ?fr = "resized ms fr1"
    have r: "R (fr_evm fr) (fr_evm ?fr)" "fr_stack ?fr = fr_stack fr"
      using charged_keeps [OF ch adm gt] by (simp_all add: resized_def)
    have "op_keeps (cur_op fr) (cur_oper fr)"
      using table_all_JumpTable [OF op_keeps_table] adm by (simp add: admitted_def)
    then have "wp True True (op_execute (cur_oper fr) interp ?fr) (\<lambda>(fr', ret, err). R (fr_evm ?fr) (fr_evm fr'))"
      using assms r static [OF r(1)] admitted_restricted [OF adm]
      by (simp add: op_keeps_def std_evm_static restricted_static)
    then show "wp True True (op_execute (cur_oper fr) interp ?fr) (\<lambda>r. case finish_step (cur_oper fr) r of
        Next fr' \<Rightarrow> R (fr_evm fr) (fr_evm fr') | Halt fr' bs err \<Rightarrow> R (fr_evm fr) (fr_evm fr'))"
      by (rule wp_mono) (auto intro!: finish_step_keeps trans [OF r(1)])
  qed (simp add: step_temp quiet)
qed (simp add: refl)

lemma Run_keeps: "run_keeps (Interpreter_Run loop)"
  if "\<And>fr. std_evm (fr_evm fr) \<Longrightarrow> wp True True (loop fr) (\<lambda>(fr', r). R (fr_evm fr) (fr_evm fr'))"
  unfolding run_keeps_def
proof (intro allI impI)
  fix e c inp assume "std_evm e"
  then have "std_evm (enter e)" by (simp add: enter_def std_evm_def)
  with that [of "init_frame (enter e) c inp"] have "wp True True (loop (init_frame (enter e) c inp))
      (\<lambda>(fr', r). R (enter e) (fr_evm fr'))" by (simp add: init_frame_def)
  then have "wp True True (loop (init_frame (enter e) c inp)) (\<lambda>r. R e (leave (fr_evm (fst r))))"
    by (rule wp_mono) (auto intro: nested)
  then show "wp True True (Interpreter_Run loop e c inp) (\<lambda>(e', c', ret, err). R e e')"
    using nested [OF refl] by (auto simp: Interpreter_Run_def Let_def split_beta)
qed

lemma Run_loop_keeps:
  "std_evm (fr_evm fr) \<Longrightarrow> wp True True (Run_loop n fr) (\<lambda>(fr', r). R (fr_evm fr) (fr_evm fr'))"
proof (induction n arbitrary: fr)
  case (Suc n)
  have "wp True True (step (Interpreter_Run (Run_loop n)) fr)
    (\<lambda>r. case r of Next fr' \<Rightarrow> R (fr_evm fr) (fr_evm fr') | Halt fr' bs err \<Rightarrow> R (fr_evm fr) (fr_evm fr'))"
    using Suc by (intro step_keeps Run_keeps)
  then have "wp True True (step (Interpreter_Run (Run_loop n)) fr)
     (\<lambda>r. wp True True (case r of Next fr \<Rightarrow> Run_loop n fr | Halt fr ret err \<Rightarrow> Done (fr, ret, err))
       (\<lambda>(fr', r). R (fr_evm fr) (fr_evm fr')))"
  proof (rule wp_mono)
    fix r assume r: "case r of Next fr' \<Rightarrow> R (fr_evm fr) (fr_evm fr') | Halt fr' bs err \<Rightarrow> R (fr_evm fr) (fr_evm fr')"
    show "wp True True (case r of Next fr \<Rightarrow> Run_loop n fr | Halt fr ret err \<Rightarrow> Done (fr, ret, err))
       (\<lambda>(fr', r). R (fr_evm fr) (fr_evm fr'))"
    proof (cases r)
      case (Next fr1)
      with r have r1: "R (fr_evm fr) (fr_evm fr1)" by simp
      with Suc.prems have "std_evm (fr_evm fr1)" by (simp add: std_evm_static [OF static])
      then have "wp True True (Run_loop n fr1) (\<lambda>(fr', r). R (fr_evm fr1) (fr_evm fr'))" by (rule Suc.IH)
      then show ?thesis using Next by (auto intro: wp_mono trans [OF r1])
    qed (use r in simp)
  qed
  then show ?case by (simp add: refl)
qed simp

theorem Run_n_keeps: "run_keeps (Run n)"
  unfolding Run_def by (rule Run_keeps) (rule Run_loop_keeps)

end

section \<open>Two relations\<close>

text \<open>The configuration of the EVM, its depth and the read-only flag are as before the execution.\<close>

interpretation keep_static: evm_rel evm_static
  by unfold_locales (auto simp: evm_static_def enter_def leave_def)

text \<open>In read-only mode moreover nothing is logged, deployed or created, no balance decreases, and no storage slot
  changes except those of the overflow markers.\<close>

definition unwritten :: "StateDB \<Rightarrow> StateDB \<Rightarrow> bool" where
  "unwritten db db' \<longleftrightarrow> Logs db' = Logs db \<and> GetCode db' = GetCode db \<and> GetCodeHash db' = GetCodeHash db \<and>
    GetNonce db' = GetNonce db \<and> (\<forall>a. balance_of db a \<le> balance_of db' a) \<and>
    (\<forall>a k. k \<notin> StringToHash ` markers \<longrightarrow> storage_at db' (a, k) = storage_at db (a, k))"

definition read_only_rel :: "EVM \<Rightarrow> EVM \<Rightarrow> bool" where
  "read_only_rel e e' \<longleftrightarrow> evm_static e e' \<and> (restricted e \<longrightarrow> unwritten (evm_StateDB e) (evm_StateDB e'))"

lemma unwritten_quiet: "db_quiet db db' \<Longrightarrow> unwritten db db'"
  by (simp add: unwritten_def db_quiet_def)

lemma unwritten_trans: "unwritten db db' \<Longrightarrow> unwritten db' db'' \<Longrightarrow> unwritten db db''"
  unfolding unwritten_def by (metis order_trans)

lemma unwritten_mark: "m \<in> markers \<Longrightarrow> unwritten db (SetState db a (StringToHash m) h)"
  using storage.gt_st [of db "(a, StringToHash m)" h] by (auto simp: unwritten_def)

interpretation keep_read_only: evm_rel read_only_rel
proof (unfold_locales, goal_cases)
  case (3 e e' e'')
  then show ?case
    using restricted_static [of e e'] keep_static.trans [of e e' e''] unwritten_trans
    unfolding read_only_rel_def by blast
next
  case (8 e db)
  then show ?case by (simp add: read_only_rel_def keep_static.quiet unwritten_quiet)
next
  case (9 m e a h)
  then show ?case by (simp add: read_only_rel_def keep_static.marked unwritten_mark)
next
  case (11 e e')
  then show ?case
    using keep_static.nested [of e e'] by (auto simp: read_only_rel_def restricted_def enter_def leave_def)
next
  case (12 e e')
  then show ?case
    using keep_static.static_call [of e e'] by (auto simp: read_only_rel_def restricted_def)
qed (auto simp: read_only_rel_def keep_static.refl keep_static.pool keep_static.temp keep_static.events keep_static.ret
    keep_static.writing unwritten_quiet db_quiet_refl)

end
