(* ===== verification/Gas_Termination.thy ===== *)
theory Gas_Termination
  imports Exec_Relations
begin

text \<open>
  Gas bounds the execution. With gas metering on, every instruction that does not halt costs at least one unit, and a
  nested call or creation returns no more gas than it was handed; so fuel above the gas is never exhausted, and the
  gas left at the end is at most the gas at the start.
\<close>

section \<open>Precompiled contracts\<close>

lemma wp_ebind [simp]: "wp p n (ebind m f) (\<lambda>_. True) \<longleftrightarrow> wp p n m (\<lambda>r. \<forall>x. r = Inr x \<longrightarrow> wp p n (f x) (\<lambda>_. True))"
  by (cases m) (auto simp: ebind_def)

lemma wp_eopt [simp]: "wp p n (eopt v) Q \<longleftrightarrow> (v = None \<longrightarrow> p) \<and> (\<forall>x. v = Some x \<longrightarrow> Q (Inr x))"
  by (cases v) simp_all

lemma precompiled_Run_fuel: "wp True False (precompiled_Run cr p input) (\<lambda>_. True)"
  by (cases p) (auto simp: ecrecover_Run_def bigModExp_Run_def bn256Add_Run_def bn256ScalarMul_Run_def
      bn256Pairing_Run_def Let_def)

lemma UseGas_le: "unat (ct_Gas (snd (UseGas c g))) \<le> unat (ct_Gas c)"
  by (auto simp: UseGas_def unat_sub_nowrap)

lemma wp_RunPrecompiled:
  "wp True False (RunPrecompiledContract cr p input c) (\<lambda>(c', ret, err). unat (ct_Gas c') \<le> unat (ct_Gas c))"
proof -
  have "wp True False (precompiled_Run cr p input) Q" if "\<And>r. Q r" for Q
    using wp_mono [OF precompiled_Run_fuel] that by blast
  then show ?thesis
    using UseGas_le [of c] by (auto simp: RunPrecompiledContract_def split_beta)
qed

section \<open>Calls\<close>

definition metered :: "EVM \<Rightarrow> bool" where
  "metered e \<longleftrightarrow> std_evm e \<and> \<not> DisableGasMetering (evm_vmConfig e)"

text \<open>A run function that returns, with no more gas than it was given, on every contract with less than \<open>n\<close> gas.\<close>

definition run_bounded :: "nat \<Rightarrow> run_fn \<Rightarrow> bool" where
  "run_bounded n interp \<longleftrightarrow> (\<forall>e c inp. metered e \<longrightarrow> unat (ct_Gas c) < n \<longrightarrow>
     wp True False (interp e c inp) (\<lambda>(e', c', r). unat (ct_Gas c') \<le> unat (ct_Gas c)))"

lemma metered_keep [simp]:
  "metered (with_db e db) = metered e" "metered (e\<lparr>in_readOnly := b\<rparr>) = metered e"
  "metered (e\<lparr>in_intPool := st\<rparr>) = metered e" "metered (enter e) = metered e"
  by (simp_all add: metered_def std_evm_def enter_def)

lemma metered_static: "evm_static e e' \<Longrightarrow> metered e' = metered e"
  by (simp add: metered_def std_evm_static) (simp add: evm_static_def)

lemma run_bound:
  assumes "run_bounded n interp" "metered e" "unat (ct_Gas c) < n"
  shows "wp True False (run interp e c inp) (\<lambda>(e', c', r). unat (ct_Gas c') \<le> unat (ct_Gas c))"
proof -
  have "wp True False (interp e c inp) (\<lambda>(e', c', r). unat (ct_Gas c') \<le> unat (ct_Gas c))"
    using assms by (simp add: run_bounded_def)
  moreover have "wp True False (RunPrecompiledContract cr p inp c) (\<lambda>r. unat (ct_Gas (fst r)) \<le> unat (ct_Gas c))" for cr p
    by (rule wp_mono [OF wp_RunPrecompiled]) auto
  ultimately show ?thesis
    by (auto simp: run_def split_beta)
qed

lemma run_end_call_bound:
  assumes "run_bounded n interp" "metered e" "unat (ct_Gas c) < n"
  shows "wp True False (rbind (run interp e c inp) (end_call sn)) (\<lambda>(e', d, ret, g, err). unat g \<le> unat (ct_Gas c))"
  unfolding wp_rbind
  by (rule wp_mono [OF run_bound [OF assms]]) (auto simp: end_call_def Let_def UseGas_def intro: order_trans)

lemma run_end_create_bound:
  assumes "run_bounded n interp" "metered e" "unat (ct_Gas c) < n"
  shows "wp True False (rbind (run interp e c inp) (end_create sn addr)) (\<lambda>(e', d, ret, a, g, err). unat g \<le> unat (ct_Gas c))"
  unfolding wp_rbind
  by (rule wp_mono [OF run_bound [OF assms]])
    (auto simp: end_create_def Let_def UseGas_def unat_sub_nowrap split_beta not_less intro: order_trans)

lemma ct_Gas_simps [simp]:
  "ct_Gas (callee caller to v g e addr) = g" "ct_Gas (SetCallCode c addr h code) = ct_Gas c" "ct_Gas (NewContract caller to v g) = g"
  by (simp_all add: callee_def SetCallCode_def NewContract_def)

lemma AsDelegate_Gas: "AsDelegate caller c = Some c' \<Longrightarrow> ct_Gas c' = ct_Gas c"
  by (auto simp: AsDelegate_def split: ContractRef.splits)

lemma calls_bound:
  assumes "run_bounded n interp" "metered e" "unat g < n"
  shows "wp True False (Call interp e caller addr inp g v) (\<lambda>(e', d, ret, g', err). unat g' \<le> unat g)"
    and "wp True False (CallCode interp e caller addr inp g v) (\<lambda>(e', d, ret, g', err). unat g' \<le> unat g)"
    and "wp True False (DelegateCall interp e caller addr inp g) (\<lambda>(e', d, ret, g', err). unat g' \<le> unat g)"
    and "wp True False (StaticCall interp e caller addr inp g) (\<lambda>(e', d, ret, g', err). unat g' \<le> unat g)"
    and "wp True False (Create interp e caller code g v) (\<lambda>(e', d, ret, a, g', err). unat g' \<le> unat g)"
proof -
  have run: "wp True False (rbind (run interp e' c inp) (end_call sn)) (\<lambda>(e', d, ret, g', err). unat g' \<le> unat g)"
    if "metered e'" "ct_Gas c = g" for e' c inp sn
    using run_end_call_bound [OF assms(1) that(1), of c inp sn] assms(3) that by simp
  have crt: "wp True False (rbind (run interp e' c inp) (end_create sn a)) (\<lambda>(e', d, ret, a, g', err). unat g' \<le> unat g)"
    if "metered e'" "ct_Gas c = g" for e' c inp sn a
    using run_end_create_bound [OF assms(1) that(1), of c inp sn a] assms(3) that by simp
  note e = assms(2) [unfolded metered_def std_evm_def]
  show "wp True False (Call interp e caller addr inp g v) (\<lambda>(e', d, ret, g', err). unat g' \<le> unat g)"
    "wp True False (CallCode interp e caller addr inp g v) (\<lambda>(e', d, ret, g', err). unat g' \<le> unat g)"
    using e assms(2) run by (auto simp: Call_def CallCode_def CanTransfer_eq Let_def simp del: wp_rbind)
  show "wp True False (DelegateCall interp e caller addr inp g) (\<lambda>(e', d, ret, g', err). unat g' \<le> unat g)"
    using assms(2) run by (auto simp: DelegateCall_def Let_def dest: AsDelegate_Gas simp del: wp_rbind)
  show "wp True False (StaticCall interp e caller addr inp g) (\<lambda>(e', d, ret, g', err). unat g' \<le> unat g)"
    using assms(2) run [of "e\<lparr>in_readOnly := True\<rparr>", unfolded split_beta] by (auto simp: StaticCall_def Let_def split_beta)
  show "wp True False (Create interp e caller code g v) (\<lambda>(e', d, ret, a, g', err). unat g' \<le> unat g)"
    using e assms(2) crt by (auto simp: Create_def CanTransfer_eq Let_def simp del: wp_rbind)
qed

section \<open>Instructions\<close>

text \<open>The gas an instruction may hand to a callee beyond what the frame has left.\<close>

definition budget :: "OpCode \<Rightarrow> Frame \<Rightarrow> nat" where
  "budget op fr =
    (if op = CALL \<or> op = CALLCODE then
       unat (evm_callGasTemp (fr_evm fr)) + (if Back (fr_stack fr) 2 = Some 0 then 0 else 2300)
     else if op = DELEGATECALL \<or> op = STATICCALL then unat (evm_callGasTemp (fr_evm fr))
     else 0)"

definition gas_bounded :: "OpCode \<Rightarrow> operation \<Rightarrow> bool" where
  "gas_bounded op oper \<longleftrightarrow> (\<forall>n interp fr. run_bounded n interp \<longrightarrow> metered (fr_evm fr) \<longrightarrow>
     unat (ct_Gas (fr_contract fr)) + budget op fr < 2 ^ 64 \<longrightarrow>
     (op_least oper = 1 \<longrightarrow> unat (ct_Gas (fr_contract fr)) + budget op fr < n) \<longrightarrow>
     wp True False (op_execute oper interp fr) (\<lambda>(fr', r).
       unat (ct_Gas (fr_contract fr')) \<le> unat (ct_Gas (fr_contract fr)) + budget op fr))"

lemma gas_boundedD:
  "gas_bounded op oper \<Longrightarrow> run_bounded n interp \<Longrightarrow> metered (fr_evm fr) \<Longrightarrow>
   unat (ct_Gas (fr_contract fr)) + budget op fr < 2 ^ 64 \<Longrightarrow>
   (op_least oper = 1 \<Longrightarrow> unat (ct_Gas (fr_contract fr)) + budget op fr < n) \<Longrightarrow>
   wp True False (op_execute oper interp fr) (\<lambda>(fr', r).
     unat (ct_Gas (fr_contract fr')) \<le> unat (ct_Gas (fr_contract fr)) + budget op fr)"
  by (simp add: gas_bounded_def)

lemma budget_resized: "budget op (resized ms fr) = budget op fr"
  by (simp add: budget_def resized_def)

lemma gas_bounded_groups:
  "list_all (\<lambda>(op, oper). gas_bounded op oper) frontier_arith"
  "list_all (\<lambda>(op, oper). gas_bounded op oper) frontier_logic"
  "list_all (\<lambda>(op, oper). gas_bounded op oper) frontier_env"
  "list_all (\<lambda>(op, oper). gas_bounded op oper) frontier_block"
  "list_all (\<lambda>(op, oper). gas_bounded op oper) frontier_flow"
  by (auto simp: frontier_defs gas_bounded_def arith_ops env_ops flow_ops Let_def split_beta)

lemma gas_bounded_families:
  "list_all (\<lambda>(op, oper). gas_bounded op oper) frontier_push"
  "list_all (\<lambda>(op, oper). gas_bounded op oper) frontier_dup"
  "list_all (\<lambda>(op, oper). gas_bounded op oper) frontier_swap"
  "list_all (\<lambda>(op, oper). gas_bounded op oper) frontier_log"
  by (auto simp: frontier_defs list_all_iff gas_bounded_def family_ops Let_def split_beta)

lemma gas_bounded_halts:
  "gas_bounded RETURN ((mkop (\<lambda>_. opReturn) gc n m)\<lparr>op_memorySize := ms, op_halts := True\<rparr>)"
  "gas_bounded SELFDESTRUCT ((mkop (\<lambda>_. opSuicide) gc n m)\<lparr>op_halts := True, op_writes := True\<rparr>)"
  "gas_bounded REVERT ((mkop (\<lambda>_. opRevert) gc n m)\<lparr>op_memorySize := ms, op_reverts := True, op_returns := True\<rparr>)"
  "gas_bounded RETURNDATASIZE (mkop (\<lambda>_. opReturnDataSize) gc n m)"
  "gas_bounded RETURNDATACOPY ((mkop (\<lambda>_. opReturnDataCopy) gc n m)\<lparr>op_memorySize := ms\<rparr>)"
  by (auto simp: gas_bounded_def flow_ops env_ops Let_def split_beta)

lemma finish_bound:
  assumes "wp True False m (\<lambda>(e', d, ret, g', err). unat g' \<le> k)" "unat (ct_Gas (fr_contract fr)) + k < 2 ^ 64"
  shows "wp True False m (\<lambda>a. wp True False (finish_call ro rs puts fr a) (\<lambda>(fr', r).
    unat (ct_Gas (fr_contract fr')) \<le> unat (ct_Gas (fr_contract fr)) + k))"
  by (rule wp_mono [OF assms(1)])
    (use assms(2) in \<open>auto simp: finish_call_def Let_def set_gas_def set_evm_jumps_def unat_plus_nowrap\<close>)

lemma calls_finish_bound:
  assumes "run_bounded n interp" "metered e" "unat g \<le> k" "unat (ct_Gas (fr_contract fr)) + k < n"
    "unat (ct_Gas (fr_contract fr)) + k < 2 ^ 64"
  shows "wp True False (Call interp e caller addr inp g v) (\<lambda>a. wp True False (finish_call ro rs puts fr a) (\<lambda>(fr', r).
      unat (ct_Gas (fr_contract fr')) \<le> unat (ct_Gas (fr_contract fr)) + k))"
    and "wp True False (CallCode interp e caller addr inp g v) (\<lambda>a. wp True False (finish_call ro rs puts fr a) (\<lambda>(fr', r).
      unat (ct_Gas (fr_contract fr')) \<le> unat (ct_Gas (fr_contract fr)) + k))"
    and "wp True False (DelegateCall interp e caller addr inp g) (\<lambda>a. wp True False (finish_call ro rs puts fr a) (\<lambda>(fr', r).
      unat (ct_Gas (fr_contract fr')) \<le> unat (ct_Gas (fr_contract fr)) + k))"
    and "wp True False (StaticCall interp e caller addr inp g) (\<lambda>a. wp True False (finish_call ro rs puts fr a) (\<lambda>(fr', r).
      unat (ct_Gas (fr_contract fr')) \<le> unat (ct_Gas (fr_contract fr)) + k))"
proof -
  have "unat g < n" using assms(3,4) by simp
  note b = calls_bound [OF assms(1,2) this]
  have le: "wp True False m (\<lambda>(e', d, ret, g', err). unat g' \<le> k)"
    if "wp True False m (\<lambda>(e', d, ret, g', err). unat g' \<le> unat g)"
    for m :: call_res
    by (rule wp_mono [OF that]) (use assms(3) in auto)
  show "wp True False (Call interp e caller addr inp g v) (\<lambda>a. wp True False (finish_call ro rs puts fr a) (\<lambda>(fr', r).
      unat (ct_Gas (fr_contract fr')) \<le> unat (ct_Gas (fr_contract fr)) + k))"
    by (rule finish_bound [OF le [OF b(1)] assms(5)])
  show "wp True False (CallCode interp e caller addr inp g v) (\<lambda>a. wp True False (finish_call ro rs puts fr a) (\<lambda>(fr', r).
      unat (ct_Gas (fr_contract fr')) \<le> unat (ct_Gas (fr_contract fr)) + k))"
    by (rule finish_bound [OF le [OF b(2)] assms(5)])
  show "wp True False (DelegateCall interp e caller addr inp g) (\<lambda>a. wp True False (finish_call ro rs puts fr a) (\<lambda>(fr', r).
      unat (ct_Gas (fr_contract fr')) \<le> unat (ct_Gas (fr_contract fr)) + k))"
    by (rule finish_bound [OF le [OF b(3)] assms(5)])
  show "wp True False (StaticCall interp e caller addr inp g) (\<lambda>a. wp True False (finish_call ro rs puts fr a) (\<lambda>(fr', r).
      unat (ct_Gas (fr_contract fr')) \<le> unat (ct_Gas (fr_contract fr)) + k))"
    by (rule finish_bound [OF le [OF b(4)] assms(5)])
qed

lemma stipend_le: "unat t + 2300 < 2 ^ 64 \<Longrightarrow> unat (t + CallStipend) = unat t + 2300"
  by (simp add: CallStipend_def unat_plus_nowrap)

lemma gas_bounded_calls:
  "gas_bounded CALL ((mkop opCall gc n m)\<lparr>op_memorySize := ms, op_returns := True\<rparr>)"
  "gas_bounded CALLCODE ((mkop opCallCode gc n m)\<lparr>op_memorySize := ms, op_returns := True\<rparr>)"
  "gas_bounded DELEGATECALL ((mkop opDelegateCall gc n m)\<lparr>op_memorySize := ms, op_returns := True\<rparr>)"
  "gas_bounded STATICCALL ((mkop opStaticCall gc n m)\<lparr>op_memorySize := ms, op_returns := True\<rparr>)"
  unfolding gas_bounded_def opCall_def opCallCode_def opDelegateCall_def opStaticCall_def
  by (simp add: Let_def fput_def op_least_def budget_def Back_tops; intro allI impI conjI;
      (rule calls_finish_bound [where fr = "x\<lparr>fr_evm := e\<lparr>in_intPool := p\<rparr>, fr_stack := s\<rparr>" for x e p s, simplified],
        assumption); auto simp: stipend_le U256_def)+

lemma refund_le:
  fixes gas :: u64
  assumes "g \<le> gas" "unat g' \<le> unat g"
  shows "unat (gas - g + g') \<le> unat gas"
proof -
  have "unat (gas - g) + unat g' \<le> unat gas"
    using assms by (simp add: unat_sub_nowrap word_le_nat_alt)
  then show ?thesis
    using unat_less_2p64 [of gas] by (subst unat_plus_nowrap) simp_all
qed

lemma gas_bounded_create:
  "gas_bounded CREATE ((mkop opCreate gc n m)\<lparr>op_memorySize := ms, op_writes := True, op_returns := True\<rparr>)"
proof -
  have le: "gas - gas div 64 \<le> gas" for gas :: u64
    by (simp add: word_le_nat_alt unat_sub_nowrap unat_div)
  have lt: "(gas < gas - gas div 64) = False" "unat gas < n \<Longrightarrow> unat (gas - gas div 64) < n" for gas :: u64 and n
    using le [of gas] by (auto simp: not_less word_le_nat_alt)
  have *: "wp True False (Create interp e caller code g v) (\<lambda>a. wp True False (case a of (e', d, res, addr, g', err) \<Rightarrow> k e' d res addr g' err) Q)"
    if "run_bounded n interp" "metered e" "unat g < n"
      "\<And>e' d res addr g' err. unat g' \<le> unat g \<Longrightarrow> wp True False (k e' d res addr g' err) Q"
    for n interp e caller code g v k Q
    by (rule wp_mono [OF calls_bound(5) [OF that(1-3)]]) (use that(4) in auto)
  show ?thesis
    unfolding gas_bounded_def opCreate_def
    by (simp add: Let_def op_least_def budget_def UseGas_def lt del: wp_rbind, unfold wp_rbind,
        intro allI impI conjI; (rule *, assumption);
        auto simp: set_gas_def set_evm_jumps_def lt refund_le [OF le, simplified])
qed

lemma gas_bounded_table: "table_all gas_bounded"
  unfolding table_all_def NewByzantiumInstructionSet_def NewHomesteadInstructionSet_def NewFrontierInstructionSet_def
    list_all_append frontier_call_def list_all_Cons list_all_Nil split_conv
  by (intro conjI TrueI gas_bounded_groups gas_bounded_families gas_bounded_create gas_bounded_calls gas_bounded_halts)

section \<open>Iterations\<close>

text \<open>The price of a call covers the gas handed to the callee and at least one unit more.\<close>

definition priced :: "OpCode \<Rightarrow> operation \<Rightarrow> bool" where
  "priced op oper \<longleftrightarrow>
    (op = CALL \<longrightarrow> op_gasCost oper = gasCall) \<and> (op = CALLCODE \<longrightarrow> op_gasCost oper = gasCallCode) \<and>
    (op = DELEGATECALL \<longrightarrow> op_gasCost oper = gasDelegateCall) \<and> (op = STATICCALL \<longrightarrow> op_gasCost oper = gasStaticCall)"

lemma priced_table: "table_all priced"
  unfolding table_all_iff
  by (intro conjI list_all_families) (simp_all add: table_parts priced_def, auto)

lemma charged_budget:
  assumes ch: "charged ms fr fr1" and adm: "admitted fr ms" and m: "metered (fr_evm fr)"
  shows "unat (ct_Gas (fr_contract fr1)) + budget (cur_op fr) fr1 + op_least (cur_oper fr) \<le> unat (ct_Gas (fr_contract fr))"
proof -
  have gt: "std_gas_table (in_gasTable (fr_evm fr))" and "\<not> DisableGasMetering (evm_vmConfig (fr_evm fr))"
    using m by (simp_all add: metered_def std_evm_def)
  then obtain evm mem cost where c: "op_gasCost (cur_oper fr) (in_gasTable (fr_evm fr)) (fr_evm fr) (fr_contract fr)
      (fr_stack fr) (fr_mem fr) ms = (evm, mem, eok cost)" "cost \<le> ct_Gas (fr_contract fr)"
    "fr1 = fr\<lparr>fr_evm := evm, fr_mem := mem, fr_contract := (fr_contract fr)\<lparr>ct_Gas := ct_Gas (fr_contract fr) - cost\<rparr>\<rparr>"
    using ch by (auto simp: charged_def)
  have least: "op_least (cur_oper fr) \<le> unat cost" "op_least (cur_oper fr) \<le> 1"
    using admitted_gas_post [OF adm gt] c(1) by (auto simp: gas_post_def op_least_def)
  have priced: "priced (cur_op fr) (cur_oper fr)"
    using table_all_JumpTable [OF priced_table] adm by (simp add: admitted_def)
  have fr1: "fr_stack fr1 = fr_stack fr" "fr_evm fr1 = evm"
    using c(3) by simp_all
  have "budget (cur_op fr) fr1 + op_least (cur_oper fr) \<le> unat cost"
  proof -
    consider "cur_op fr = CALL \<or> cur_op fr = CALLCODE" | "cur_op fr = DELEGATECALL \<or> cur_op fr = STATICCALL"
      | "budget (cur_op fr) fr1 = 0" by (metis budget_def)
    then show ?thesis
    proof cases
      case 1
      then have "op_gasCost (cur_oper fr) = gasCall \<or> op_gasCost (cur_oper fr) = gasCallCode"
        using priced by (auto simp: priced_def)
      then have "\<exists>v. Back (fr_stack fr) 2 = Some v \<and> unat (evm_callGasTemp evm) + (if v \<noteq> 0 then 2301 else 1) \<le> unat cost"
        using c(1) gasCall_temp [OF gt] gasCallCode_temp [OF gt] by metis
      then show ?thesis using 1 least(2) by (auto simp: budget_def fr1 split: if_splits)
    next
      case 2
      then have "op_gasCost (cur_oper fr) = gasDelegateCall \<or> op_gasCost (cur_oper fr) = gasStaticCall"
        using priced by (auto simp: priced_def)
      then have "unat (evm_callGasTemp evm) + 1 \<le> unat cost"
        using c(1) gasDelegateCall_temp [OF gt] by metis
      then show ?thesis using 2 least(2) by (auto simp: budget_def fr1)
    qed (use least in simp)
  qed
  then show ?thesis
    using c by (simp add: unat_sub_nowrap word_le_nat_alt)
qed

lemma step_bound:
  assumes run: "run_bounded n interp" "keep_static.run_keeps interp" and m: "metered (fr_evm fr)"
    and g: "unat (ct_Gas (fr_contract fr)) \<le> n"
  shows "wp True False (step interp fr) (\<lambda>r. case r of
      Next fr' \<Rightarrow> unat (ct_Gas (fr_contract fr')) < unat (ct_Gas (fr_contract fr))
    | Halt fr' ret err \<Rightarrow> unat (ct_Gas (fr_contract fr')) \<le> unat (ct_Gas (fr_contract fr)))" (is "wp _ _ _ ?Q")
proof (rule wp_stepI)
  fix ms assume adm: "admitted fr ms"
  have std: "std_evm (fr_evm fr)" "std_gas_table (in_gasTable (fr_evm fr))"
    using m by (simp_all add: metered_def std_evm_def)
  show "wp True False (exec_op interp (cur_oper fr) ms fr) ?Q"
  proof (rule wp_exec_opI [OF adm std(2)])
    fix fr1 assume ch: "charged ms fr fr1"
    let ?fr = "resized ms fr1"
    have fr: "fr_evm ?fr = fr_evm fr1" "fr_contract ?fr = fr_contract fr1" "fr_stack ?fr = fr_stack fr1"
      by (simp_all add: resized_def)
    have bud: "unat (ct_Gas (fr_contract ?fr)) + budget (cur_op fr) ?fr + op_least (cur_oper fr) \<le> unat (ct_Gas (fr_contract fr))"
      using charged_budget [OF ch adm m] budget_resized [of "cur_op fr" ms fr1] by (simp add: fr)
    have "metered (fr_evm ?fr)"
      using m metered_static [OF keep_static.charged_keeps(1) [OF ch adm std(2)]] by (simp add: fr)
    moreover have "gas_bounded (cur_op fr) (cur_oper fr)"
      using table_all_JumpTable [OF gas_bounded_table] adm by (simp add: admitted_def)
    moreover have "unat (ct_Gas (fr_contract ?fr)) + budget (cur_op fr) ?fr < 2 ^ 64"
      using bud unat_less_2p64 [of "ct_Gas (fr_contract fr)"] by linarith
    ultimately have "wp True False (op_execute (cur_oper fr) interp ?fr) (\<lambda>(fr', r).
        unat (ct_Gas (fr_contract fr')) \<le> unat (ct_Gas (fr_contract ?fr)) + budget (cur_op fr) ?fr)"
      by (intro gas_boundedD [OF _ run(1)]) (use bud g in auto)
    then show "wp True False (op_execute (cur_oper fr) interp ?fr) (\<lambda>r. ?Q (finish_step (cur_oper fr) r))"
    proof (rule wp_mono)
      fix a :: "Frame \<times> bytes \<times> Error option" assume "case a of (fr', r) \<Rightarrow> unat (ct_Gas (fr_contract fr')) \<le> unat (ct_Gas (fr_contract ?fr)) + budget (cur_op fr) ?fr"
      then show "?Q (finish_step (cur_oper fr) a)"
        using bud by (auto simp: finish_step_def Let_def op_least_def split: if_splits)
    qed
  qed simp
qed simp

theorem Run_loop_bound:
  assumes "metered (fr_evm fr)" "unat (ct_Gas (fr_contract fr)) < n"
  shows "wp True False (Run_loop n fr) (\<lambda>(fr', r). unat (ct_Gas (fr_contract fr')) \<le> unat (ct_Gas (fr_contract fr)))"
  using assms
proof (induction n arbitrary: fr)
  case (Suc n)
  let ?interp = "Interpreter_Run (Run_loop n)"
  have keeps: "keep_static.run_keeps ?interp"
    using keep_static.Run_n_keeps [of n] by (simp add: Run_def)
  have bounded: "run_bounded n ?interp"
    unfolding run_bounded_def
  proof (intro allI impI)
    fix e inp and c :: Contract assume "metered e" "unat (ct_Gas c) < n"
    then have "wp True False (Run_loop n (init_frame (enter e) c inp)) (\<lambda>(fr', r). unat (ct_Gas (fr_contract fr')) \<le> unat (ct_Gas c))"
      using Suc.IH [of "init_frame (enter e) c inp"] by (simp add: init_frame_def)
    then have "wp True False (Run_loop n (init_frame (enter e) c inp)) (\<lambda>r. unat (ct_Gas (fr_contract (fst r))) \<le> unat (ct_Gas c))"
      by (rule wp_mono) auto
    then show "wp True False (?interp e c inp) (\<lambda>(e', c', r). unat (ct_Gas c') \<le> unat (ct_Gas c))"
      by (auto simp: Interpreter_Run_def Let_def split_beta)
  qed
  let ?gas = "\<lambda>fr. unat (ct_Gas (fr_contract fr))"
  have "wp True False (step ?interp fr) (\<lambda>r.
      (case r of Next fr' \<Rightarrow> evm_static (fr_evm fr) (fr_evm fr') | Halt fr' ret err \<Rightarrow> evm_static (fr_evm fr) (fr_evm fr')) \<and>
      (case r of Next fr' \<Rightarrow> ?gas fr' < ?gas fr | Halt fr' ret err \<Rightarrow> ?gas fr' \<le> ?gas fr))"
    using Suc.prems by (intro wp_conj keep_static.step_keeps step_bound [OF bounded keeps] keeps) (simp_all add: metered_def)
  then have "wp True False (step ?interp fr) (\<lambda>r. wp True False
      (case r of Next fr \<Rightarrow> Run_loop n fr | Halt fr ret err \<Rightarrow> Done (fr, ret, err)) (\<lambda>(fr', r). ?gas fr' \<le> ?gas fr))"
  proof (rule wp_mono, goal_cases)
    case (1 r)
    show ?case
    proof (cases r)
      case (Next fr1)
      with 1 have "metered (fr_evm fr1)" "?gas fr1 < ?gas fr"
        using Suc.prems(1) metered_static [of "fr_evm fr" "fr_evm fr1"] by simp_all
      then have "wp True False (Run_loop n fr1) (\<lambda>(fr', r). ?gas fr' \<le> ?gas fr1)"
        using Suc.prems(2) by (intro Suc.IH) simp_all
      then have "wp True False (Run_loop n fr1) (\<lambda>(fr', r). ?gas fr' \<le> ?gas fr)"
        by (rule wp_mono) (use \<open>?gas fr1 < ?gas fr\<close> in auto)
      then show ?thesis using Next by simp
    qed (use 1 in simp)
  qed
  then show ?case by simp
qed simp

end
