(* ===== verification/Contract_Utils.thy ===== *)
theory Contract_Utils
  imports Exec_Relations
begin

text \<open>
  The world the detectors run contracts in, \<^verbatim>\<open>src/detectors/contractutils.go\<close> and
  \<^verbatim>\<open>src/detectors/overflowdetection.go\<close>: the accounts, the block context, the configuration, and the EVM
  built from them.  The current time and the cryptographic primitives are arguments.
\<close>

section \<open>The world\<close>

definition contractcreator :: string where
  "contractcreator = ''One key to rule them all''"

definition contractattacker :: string where
  "contractattacker = ''Contract Attacker...maybe''"

definition ContractCreater :: Address where
  "ContractCreater = StringToAddress contractcreator"

definition ContractAttacker :: Address where
  "ContractAttacker = StringToAddress contractattacker"

definition deploy_state :: StateDB where
  "deploy_state =
    (let db = NewStateDB;
         db = AddBalance db ContractCreater 100;
         db = AddBalance db ContractAttacker 100;
         db = SetNonce db ContractCreater 20
     in SetNonce db ContractAttacker 20)"

definition detector_context :: "int \<Rightarrow> Context" where
  "detector_context now =
    \<lparr>CanTransferFunc = CanTransfer, TransferFunc = Transfer, GetHashFunc = (\<lambda>n. BigToHash (sint n)),
     Origin = zeroAddress, GasPrice = 100, Coinbase = zeroAddress, GasLimit = 0,
     BlockNumber = 4370001, Time = now, Difficulty = 100\<rparr>"

definition fuzz_config :: Config where
  "fuzz_config = \<lparr>NoRecursion = True, DisableGasMetering = False, EnablePreimageRecording = False\<rparr>"

definition overflow_config :: Config where
  "overflow_config = \<lparr>NoRecursion = False, DisableGasMetering = False, EnablePreimageRecording = False\<rparr>"

definition fuzz_evm :: "Crypto \<Rightarrow> int \<Rightarrow> StateDB \<Rightarrow> EVM" where
  "fuzz_evm crypto now db = NewEVM crypto (detector_context now) db MainnetChainConfig fuzz_config"

definition overflow_evm :: "Crypto \<Rightarrow> int \<Rightarrow> StateDB \<Rightarrow> EVM" where
  "overflow_evm crypto now db = NewEVM crypto (detector_context now) db MainnetChainConfig overflow_config"

section \<open>Its rules\<close>

text \<open>Block 4370001 is past every fork of the main network.\<close>

lemma detector_rules:
  "IsHomestead MainnetChainConfig (Some 4370001)" "IsEIP150 MainnetChainConfig (Some 4370001)"
  "IsEIP158 MainnetChainConfig (Some 4370001)" "IsByzantium MainnetChainConfig (Some 4370001)"
  by (simp_all add: IsHomestead_def IsEIP150_def IsEIP158_def IsByzantium_def isForked_def MainnetChainConfig_def)

lemma std_GasTable_of: "std_gas_table (GasTable_of c num)"
  using GasTable_of_cases [of c num] by (auto simp: std_gas_table_def)

lemma detector_evm_rules [simp]:
  "std_evm (fuzz_evm crypto now db)" "std_evm (overflow_evm crypto now db)"
  "in_JumpTable (fuzz_evm crypto now db) = byzantiumInstructionSet" "in_JumpTable (overflow_evm crypto now db) = byzantiumInstructionSet"
  "RulesByzantium (evm_chainRules (fuzz_evm crypto now db))" "RulesByzantium (evm_chainRules (overflow_evm crypto now db))"
  "evm_depth (fuzz_evm crypto now db) = 0" "evm_depth (overflow_evm crypto now db) = 0"
  "evm_StateDB (fuzz_evm crypto now db) = db" "evm_StateDB (overflow_evm crypto now db) = db"
  "evm_vmConfig (fuzz_evm crypto now db) = fuzz_config" "evm_vmConfig (overflow_evm crypto now db) = overflow_config"
  "\<not> evm_abort (fuzz_evm crypto now db)" "\<not> evm_abort (overflow_evm crypto now db)"
  "\<not> in_readOnly (fuzz_evm crypto now db)" "\<not> in_readOnly (overflow_evm crypto now db)"
  by (simp_all add: std_evm_def fuzz_evm_def overflow_evm_def NewEVM_def detector_context_def std_GasTable_of
      NewInterpreter_JumpTable_def Rules_of_def detector_rules)

end
