(* ===== verification/Executions.thy ===== *)
theory Executions
  imports Gas_Termination Contract_Utils
begin

text \<open>
  Whole executions. More fuel never changes an outcome, and fuel above the gas is always enough; so calls and
  creations return, whatever the program. The frames a run passes through form a reachability relation, on which the
  bound of the stack is an invariant. What a call may change in the EVM is read off the relations of
  \<^verbatim>\<open>Exec_Relations\<close>.
\<close>

section \<open>More fuel\<close>

text \<open>An outcome with little fuel is either the outcome with more fuel or lack of fuel.\<close>

definition res_le :: "'a res \<Rightarrow> 'a res \<Rightarrow> bool" where
  "res_le m m' \<longleftrightarrow> m = NoFuel \<or> m = m'"

definition run_le :: "run_fn \<Rightarrow> run_fn \<Rightarrow> bool" where
  "run_le f g \<longleftrightarrow> (\<forall>e c inp. res_le (f e c inp) (g e c inp))"

lemma res_le_refl [simp]: "res_le m m"
  by (simp add: res_le_def)

lemma res_le_NoFuel [simp]: "res_le NoFuel m"
  by (simp add: res_le_def)

lemma res_le_trans: "res_le m m' \<Longrightarrow> res_le m' m'' \<Longrightarrow> res_le m m''"
  by (auto simp: res_le_def)

lemma res_le_returns: "res_le m m' \<Longrightarrow> m \<noteq> NoFuel \<Longrightarrow> m' = m"
  by (auto simp: res_le_def)

lemma res_le_rbind: "res_le m m' \<Longrightarrow> (\<And>a. res_le (k a) (k' a)) \<Longrightarrow> res_le (rbind m k) (rbind m' k')"
  by (cases m) (fastforce simp: res_le_def)+

lemma res_le_popk: "(\<And>x fr. res_le (k x fr) (k' x fr)) \<Longrightarrow> res_le (popk fr k) (popk fr k')"
  by (simp add: popk_def split: option.split)

lemmas res_le_intros = res_le_rbind res_le_popk

lemma run_mono: "run_le f g \<Longrightarrow> res_le (run f e c inp) (run g e c inp)"
  by (simp add: run_def run_le_def split: option.split)

lemma calls_mono:
  assumes "run_le f g"
  shows "res_le (Call f e caller addr inp gas v) (Call g e caller addr inp gas v)"
    and "res_le (CallCode f e caller addr inp gas v) (CallCode g e caller addr inp gas v)"
    and "res_le (DelegateCall f e caller addr inp gas) (DelegateCall g e caller addr inp gas)"
    and "res_le (StaticCall f e caller addr inp gas) (StaticCall g e caller addr inp gas)"
    and "res_le (Create f e caller code gas v) (Create g e caller code gas v)"
  by (auto simp: Call_def CallCode_def DelegateCall_def StaticCall_def Create_def Let_def
      split: option.split bool.split intro!: res_le_rbind run_mono [OF assms])

definition op_mono :: "operation \<Rightarrow> bool" where
  "op_mono oper \<longleftrightarrow> (\<forall>f g fr. run_le f g \<longrightarrow> res_le (op_execute oper f fr) (op_execute oper g fr))"

lemma op_mono_groups:
  "list_all (\<lambda>(op, oper). op_mono oper) (frontier_arith @ frontier_logic @ frontier_env @ frontier_block @ frontier_flow)"
  "list_all (\<lambda>(op, oper). op_mono oper) (frontier_push @ frontier_dup @ frontier_swap @ frontier_log)"
  by (auto simp: frontier_defs op_mono_def list_all_iff)

lemma op_mono_calls:
  "run_le f g \<Longrightarrow> res_le (opCall f fr) (opCall g fr)"
  "run_le f g \<Longrightarrow> res_le (opCallCode f fr) (opCallCode g fr)"
  "run_le f g \<Longrightarrow> res_le (opDelegateCall f fr) (opDelegateCall g fr)"
  "run_le f g \<Longrightarrow> res_le (opStaticCall f fr) (opStaticCall g fr)"
  "run_le f g \<Longrightarrow> res_le (opCreate f fr) (opCreate g fr)"
  by (auto simp: opCall_def opCallCode_def opDelegateCall_def opStaticCall_def opCreate_def Let_def split_beta
      split: option.split intro!: res_le_intros calls_mono)

lemma op_mono_table: "table_all (\<lambda>op oper. op_mono oper)"
  using op_mono_groups
  unfolding table_all_def NewByzantiumInstructionSet_def NewHomesteadInstructionSet_def NewFrontierInstructionSet_def
    list_all_append
  by (simp add: frontier_call_def op_mono_def op_mono_calls)

lemma step_mono:
  assumes "run_le f g"
  shows "res_le (step f fr) (step g fr)"
proof (cases "op_valid (cur_oper fr)")
  case True
  then have "op_mono (cur_oper fr)"
    by (rule table_all_JumpTable [OF op_mono_table])
  then have "res_le (op_execute (cur_oper fr) f fr') (op_execute (cur_oper fr) g fr')" for fr'
    using assms by (simp add: op_mono_def)
  then show ?thesis
    by (auto simp: step_def exec_op_def Let_def split: option.split sum.split intro!: res_le_rbind)
qed (simp add: step_def Let_def)

lemma Interpreter_Run_mono: "(\<And>fr. res_le (l fr) (l' fr)) \<Longrightarrow> run_le (Interpreter_Run l) (Interpreter_Run l')"
  by (auto simp: run_le_def Interpreter_Run_def Let_def intro!: res_le_rbind)

lemma Run_loop_Suc: "res_le (Run_loop n fr) (Run_loop (Suc n) fr)"
proof (induction n arbitrary: fr)
  case (Suc n)
  have "run_le (Interpreter_Run (Run_loop n)) (Interpreter_Run (Run_loop (Suc n)))"
    by (rule Interpreter_Run_mono) (rule Suc)
  then show ?case
    using Suc by (auto simp: Run_loop.simps(2) [of n] Run_loop.simps(2) [of "Suc n"] simp del: Run_loop.simps(2)
        split: step_res.split intro!: res_le_rbind step_mono)
qed simp

lemma Run_loop_mono: "n \<le> m \<Longrightarrow> res_le (Run_loop n fr) (Run_loop m fr)"
  by (induction rule: dec_induct) (simp_all add: res_le_trans [OF _ Run_loop_Suc] del: Run_loop.simps)

lemma Run_mono: "n \<le> m \<Longrightarrow> run_le (Run n) (Run m)"
  unfolding Run_def by (intro Interpreter_Run_mono Run_loop_mono)

section \<open>Complete runs\<close>

lemma run_bounded_Run: "run_bounded n (Run n)"
  unfolding run_bounded_def
proof (intro allI impI)
  fix e inp and c :: Contract assume "metered e" "unat (ct_Gas c) < n"
  then have "wp True False (Run_loop n (init_frame (enter e) c inp)) (\<lambda>(fr', r). unat (ct_Gas (fr_contract fr')) \<le> unat (ct_Gas c))"
    using Run_loop_bound [of "init_frame (enter e) c inp" n] by (simp add: init_frame_def)
  then have "wp True False (Run_loop n (init_frame (enter e) c inp)) (\<lambda>r. unat (ct_Gas (fr_contract (fst r))) \<le> unat (ct_Gas c))"
    by (rule wp_mono) auto
  then show "wp True False (Run n e c inp) (\<lambda>(e', c', r). unat (ct_Gas c') \<le> unat (ct_Gas c))"
    by (auto simp: Run_def Interpreter_Run_def Let_def split_beta)
qed

lemma Run_loop_fuel:
  assumes "metered (fr_evm fr)" "unat (ct_Gas (fr_contract fr)) < n" "n \<le> m"
  shows "Run_loop m fr = Run_loop n fr"
proof -
  have "Run_loop n fr \<noteq> NoFuel"
    using Run_loop_bound [OF assms(1,2)] by auto
  then show ?thesis
    by (rule res_le_returns [OF Run_loop_mono [OF assms(3)]])
qed

lemma Run_fuel:
  assumes "metered e" "unat (ct_Gas c) < n" "n \<le> m"
  shows "Run m e c inp = Run n e c inp"
proof -
  have "Run_loop m (init_frame (enter e) c inp) = Run_loop n (init_frame (enter e) c inp)"
    by (rule Run_loop_fuel) (use assms in \<open>simp_all add: init_frame_def\<close>)
  then show ?thesis
    by (simp add: Run_def Interpreter_Run_def Let_def)
qed


section \<open>Reachable frames\<close>

text \<open>The frames the loop of one run passes through, nested runs taking a single step.\<close>

inductive steps :: "run_fn \<Rightarrow> Frame \<Rightarrow> Frame \<Rightarrow> bool" for interp :: run_fn where
  steps_refl: "steps interp fr fr"
| steps_step: "steps interp fr fr' \<Longrightarrow> step interp fr' = Done (Next fr'') \<Longrightarrow> steps interp fr fr''"

lemma steps_first: "step interp fr = Done (Next fr1) \<Longrightarrow> steps interp fr1 fr2 \<Longrightarrow> steps interp fr fr2"
  by (rotate_tac, induction rule: steps.induct) (auto intro: steps.intros)

lemma steps_invariant:
  assumes "steps interp fr fr'" "P fr" "\<And>fr fr'. P fr \<Longrightarrow> step interp fr = Done (Next fr') \<Longrightarrow> P fr'"
  shows "P fr'"
  using assms by (induction rule: steps.induct) auto

text \<open>A run ends in a frame it has reached, by a halting step or because the flag that aborts it is set.\<close>

lemma Run_loop_steps:
  assumes "Run_loop m fr = Done (fr', ret, err)" "m \<le> Suc n"
  shows "\<exists>fr1. steps (Run n) fr fr1 \<and>
    (step (Run n) fr1 = Done (Halt fr' ret err) \<or> evm_abort (fr_evm fr1) \<and> fr' = fr1 \<and> ret = [] \<and> err = None)"
  using assms
proof (induction m arbitrary: fr)
  case (Suc m)
  show ?case
  proof (cases "evm_abort (fr_evm fr)")
    case True
    with Suc.prems(1) show ?thesis by (auto intro: steps_refl)
  next
    case False
    with Suc.prems(1) obtain r where r: "step (Run m) fr = Done r"
      and k: "(case r of Next fr \<Rightarrow> Run_loop m fr | Halt fr ret err \<Rightarrow> Done (fr, ret, err)) = Done (fr', ret, err)"
      by (auto simp: Run_def rbind_eq_Done)
    from step_mono [OF Run_mono, of m n fr] Suc.prems(2) have n: "step (Run n) fr = Done r"
      using r by (auto simp: res_le_def)
    show ?thesis
    proof (cases r)
      case (Next fr1)
      with k have "Run_loop m fr1 = Done (fr', ret, err)" by simp
      from Suc.IH [OF this] Suc.prems(2) show ?thesis
        using steps_first [OF n [unfolded Next]] by auto
    qed (use k n in \<open>auto intro: steps_refl\<close>)
  qed
qed simp

section \<open>The stack\<close>

lemma charge_stack: "wp True True (charge oper ms fr) (\<lambda>r. fr_stack (snd r) = fr_stack fr)"
  by (auto simp: charge_def UseGas_def split_beta intro!: wp_any)

lemma step_stack:
  assumes "step interp fr = Done r"
  shows "case r of Next fr' \<Rightarrow> stack_len (fr_stack fr') + op_pop (cur_oper fr) = stack_len (fr_stack fr) + op_push (cur_oper fr) \<and>
      stack_len (fr_stack fr') \<le> StackLimit
    | Halt fr' ret err \<Rightarrow> stack_len (fr_stack fr') \<le> max (stack_len (fr_stack fr)) StackLimit"
proof -
  let ?Q = "\<lambda>r. case r of Next fr' \<Rightarrow> stack_len (fr_stack fr') + op_pop (cur_oper fr) = stack_len (fr_stack fr) + op_push (cur_oper fr) \<and>
      stack_len (fr_stack fr') \<le> StackLimit
    | Halt fr' ret err \<Rightarrow> stack_len (fr_stack fr') \<le> max (stack_len (fr_stack fr)) StackLimit"
  have "wp True True (step interp fr) ?Q"
  proof (rule wp_stepI)
    fix ms assume adm: "admitted fr ms"
    then have len: "op_pop (cur_oper fr) \<le> stack_len (fr_stack fr)"
        "stack_len (fr_stack fr) + op_push (cur_oper fr) - op_pop (cur_oper fr) \<le> StackLimit"
      using validated_len by (auto simp: admitted_def)
    have "wp True True (op_execute (cur_oper fr) interp fr1) (\<lambda>r. ?Q (finish_step (cur_oper fr) r))"
      if "fr_stack fr1 = fr_stack fr" for fr1
    proof -
      have "stack_effect (cur_oper fr)"
        using table_all_JumpTable [OF stack_effect_table] adm by (simp add: admitted_def)
      then have "wp True True (op_execute (cur_oper fr) interp fr1) (\<lambda>(fr', ret, err).
          stack_len (fr_stack fr') + op_pop (cur_oper fr) = stack_len (fr_stack fr) + op_push (cur_oper fr))"
        unfolding stack_effect_def that [symmetric] by blast
      then show ?thesis
        by (rule wp_mono) (use len in \<open>auto simp: finish_step_def Let_def\<close>)
    qed
    then show "wp True True (exec_op interp (cur_oper fr) ms fr) ?Q"
      unfolding exec_op_def wp_rbind by (intro wp_mono [OF charge_stack]) (simp add: split_beta)
  qed simp
  with assms show ?thesis by simp
qed

lemma wp_total: "wp True False m Q \<Longrightarrow> m \<noteq> NoFuel"
  by auto

lemma fuzz_metered [simp]: "metered (fuzz_evm crypto now db)" "metered (overflow_evm crypto now db)"
  by (simp_all add: metered_def fuzz_config_def overflow_config_def)

section \<open>A sample program\<close>

text \<open>The program \<^verbatim>\<open>PUSH1 1, PUSH1 0, SSTORE\<close>, deployed at the address of the attacker.\<close>

definition sample_code :: bytes where
  "sample_code = [PUSH1, 1, PUSH1, 0, SSTORE]"

definition sample_db :: StateDB where
  "sample_db = SetCode NewStateDB ContractAttacker sample_code"

lemma lookup_SSTORE: "JumpTable byzantiumInstructionSet SSTORE = (mkop (\<lambda>_. opSstore) gasSStore 2 0)\<lparr>op_writes := True\<rparr>"
  by (simp add: JumpTable_def NewByzantiumInstructionSet_def NewHomesteadInstructionSet_def NewFrontierInstructionSet_def frontier_defs
    map_of_append)

lemma lookup_PUSH1: "JumpTable byzantiumInstructionSet PUSH1 = mkop (\<lambda>_. makePush 1 1) gasPush 0 1"
  by (simp add: JumpTable_def NewByzantiumInstructionSet_def NewHomesteadInstructionSet_def NewFrontierInstructionSet_def frontier_defs
    map_of_append upt_rec)

lemma sample_not_precompiled: "evm_isByzantium e \<Longrightarrow> precompile_at e ContractAttacker = None"
proof -
  have "map_of PrecompiledContractsByzantium ContractAttacker = None" by code_simp
  then show "evm_isByzantium e \<Longrightarrow> precompile_at e ContractAttacker = None"
    by (simp add: precompile_at_def)
qed

lemma detector_isByzantium:
  "evm_isByzantium (fuzz_evm crypto now db)" "evm_isByzantium (e\<lparr>in_readOnly := b\<rparr>) = evm_isByzantium e"
  by (simp_all add: evm_isByzantium_def fuzz_evm_def NewEVM_def detector_context_def detector_rules)

lemma sint_small: "unat (w :: u64) < 2 ^ 63 \<Longrightarrow> sint w = int (unat w)"
proof -
  assume "unat w < 2 ^ 63"
  then have "uint w < 2 ^ 63" by (metis of_nat_less_iff of_nat_numeral of_nat_power uint_nat)
  then show "sint w = int (unat w)"
    using signed_take_bit_int_eq_self [of 63 "uint w"] uint_ge_0 [of w] by (simp add: sint_uint)
qed

lemma makePush_eq:
  assumes "unat (fr_pc fr) < length (ct_Code (fr_contract fr))" "length (ct_Code (fr_contract fr)) < 2 ^ 62"
  shows "makePush sz n fr = fok ((fpush (SetBytes (RightPadBytes (take n (drop (unat (fr_pc fr) + 1) (ct_Code (fr_contract fr)))) (int n)))
    (fget fr))\<lparr>fr_pc := fr_pc fr + sz\<rparr>)"
proof -
  have "unat (fr_pc fr + 1) = unat (fr_pc fr) + 1"
    using assms by (subst unat_plus_nowrap) simp_all
  then have pc: "sint (fr_pc fr + 1) = int (unat (fr_pc fr) + 1)"
    using assms by (subst sint_small) simp_all
  obtain k where k: "unat (fr_pc fr) = k"
    by simp
  show ?thesis
    using assms(1) unfolding makePush_def pc k
    by (auto simp: Let_def slice_def nat_add_distrib)
qed

lemma step_PUSH1:
  assumes "in_JumpTable (fr_evm fr) = byzantiumInstructionSet" "metered (fr_evm fr)"
    "unat (fr_pc fr) + 1 < length (ct_Code (fr_contract fr))" "length (ct_Code (fr_contract fr)) < 2 ^ 62"
    "ct_Code (fr_contract fr) ! unat (fr_pc fr) = PUSH1" "stack_len (fr_stack fr) < 1024" "3 \<le> ct_Gas (fr_contract fr)"
  shows "step interp fr = Done (Next (fr\<lparr>fr_pc := fr_pc fr + 2, fr_evm := (fr_evm fr)\<lparr>in_intPool := snd (pool_get (in_intPool (fr_evm fr)))\<rparr>,
     fr_contract := (fr_contract fr)\<lparr>ct_Gas := ct_Gas (fr_contract fr) - 3\<rparr>,
     fr_stack := push (fr_stack fr) (uint (ct_Code (fr_contract fr) ! (unat (fr_pc fr) + 1)))\<rparr>))"
proof -
  have "enforceRestrictions (fr_evm fr) PUSH1 (mkop e g n m) st = Done None" for e g n m st
    by (simp add: enforceRestrictions_def)
  moreover have "take 1 (drop (unat (fr_pc fr) + 1) (ct_Code (fr_contract fr))) = [ct_Code (fr_contract fr) ! (unat (fr_pc fr) + 1)]"
    using assms(3) by (simp add: take_Suc_conv_app_nth)
  ultimately show ?thesis
    using assms
    by (simp add: step_def GetOp_def GetByte_def lookup_PUSH1 validateStack_def makeStackFunc_def require_def StackLimit_def
        memory_request_def exec_op_def charge_def metered_def gasPush_def GasFastestStep_def UseGas_def not_less
        makePush_eq Let_def RightPadBytes_def SetBytes_def finish_step_def fget_def fpush_def fok_def ex_bool_eq)
qed

lemma step_SSTORE_restricted:
  assumes "in_JumpTable (fr_evm fr) = byzantiumInstructionSet" "restricted (fr_evm fr)"
    "unat (fr_pc fr) < length (ct_Code (fr_contract fr))" "ct_Code (fr_contract fr) ! unat (fr_pc fr) = SSTORE"
    "2 \<le> stack_len (fr_stack fr)" "stack_len (fr_stack fr) \<le> 1024"
  shows "step interp fr = Done (Halt fr [] (Some errWriteProtection))"
  using assms
  by (simp add: step_def GetOp_def GetByte_def lookup_SSTORE validateStack_def makeStackFunc_def require_def StackLimit_def
        enforceRestrictions_def restricted_def Let_def)


lemma sample_code_at: "GetCode sample_db ContractAttacker = sample_code"
  by (simp add: GetCode_def sample_db_def SetCode_def put_state_def ensure_def)

lemma two_pushes:
  assumes "in_JumpTable e = byzantiumInstructionSet" "metered e" "ct_Code c = [PUSH1, 1, PUSH1, 0, op]" "6 \<le> ct_Gas c"
  shows "\<exists>fr1 fr2 st1 st2. (\<forall>interp. step interp (init_frame e c inp) = Done (Next fr1)) \<and> (\<forall>interp. step interp fr1 = Done (Next fr2)) \<and>
    fr_evm fr1 = e\<lparr>in_intPool := st1\<rparr> \<and> cur_op fr1 = PUSH1 \<and> fr_evm fr2 = e\<lparr>in_intPool := st2\<rparr> \<and> fr_pc fr2 = 4 \<and>
    fr_contract fr2 = c\<lparr>ct_Input := inp, ct_Gas := ct_Gas c - 6\<rparr> \<and> stack_tops (fr_stack fr2) = [0, 1]"
proof -
  define fr0 where "fr0 = init_frame e c inp"
  define fr1 where "fr1 = fr0\<lparr>fr_pc := 2, fr_evm := e\<lparr>in_intPool := snd (pool_get (in_intPool e))\<rparr>,
    fr_contract := c\<lparr>ct_Input := inp, ct_Gas := ct_Gas c - 3\<rparr>, fr_stack := push newstack 1\<rparr>"
  define fr2 where "fr2 = fr1\<lparr>fr_pc := 4, fr_evm := (fr_evm fr1)\<lparr>in_intPool := snd (pool_get (in_intPool (fr_evm fr1)))\<rparr>,
    fr_contract := c\<lparr>ct_Input := inp, ct_Gas := ct_Gas c - 6\<rparr>, fr_stack := push (push newstack 1) 0\<rparr>"
  note fr_defs = fr0_def fr1_def fr2_def init_frame_def stack_len_def push_def newstack_def
  have g: "3 \<le> ct_Gas c" "3 \<le> ct_Gas c - 3" "ct_Gas c - 3 - 3 = ct_Gas c - 6"
    using assms(4) by (simp_all add: word_le_nat_alt unat_sub_if_size)
  have 1: "step interp fr0 = Done (Next fr1)" for interp
    using assms(1-3) g by (subst step_PUSH1) (simp_all add: fr_defs)
  have 2: "step interp fr1 = Done (Next fr2)" for interp
    using assms(1-3) g by (subst step_PUSH1) (simp_all add: fr_defs)
  have "stack_tops (fr_stack fr2) = [0, 1]" "fr_pc fr2 = 4" "cur_op fr1 = PUSH1"
    "fr_contract fr2 = c\<lparr>ct_Input := inp, ct_Gas := ct_Gas c - 6\<rparr>"
    "fr_evm fr1 = e\<lparr>in_intPool := snd (pool_get (in_intPool e))\<rparr>"
    "fr_evm fr2 = e\<lparr>in_intPool := snd (pool_get (in_intPool (fr_evm fr1)))\<rparr>"
    using assms(3) by (simp_all add: fr1_def fr2_def GetOp_def GetByte_def) (simp add: newstack_def stack_tops_def)
  then show ?thesis
    using 1 2 unfolding fr0_def [symmetric] by blast
qed

lemma sample_restricted:
  assumes "in_JumpTable e = byzantiumInstructionSet" "metered e" "restricted e" "\<not> evm_abort e"
    "ct_Code c = sample_code" "ct_Gas c = 100"
  shows "\<exists>fr. Run_loop 3 (init_frame e c inp) = Done (fr, [], Some errWriteProtection)"
proof -
  obtain fr1 fr2 st1 st2 where s: "step interp (init_frame e c inp) = Done (Next fr1)" "step interp fr1 = Done (Next fr2)"
    "fr_evm fr1 = e\<lparr>in_intPool := st1\<rparr>" "fr_evm fr2 = e\<lparr>in_intPool := st2\<rparr>" "fr_pc fr2 = 4"
    "fr_contract fr2 = c\<lparr>ct_Input := inp, ct_Gas := ct_Gas c - 6\<rparr>" "stack_tops (fr_stack fr2) = [0, 1]" for interp
    using two_pushes [OF assms(1,2) assms(5) [unfolded sample_code_def], of inp] assms(6) by auto
  moreover have "stack_len (fr_stack fr2) = 2"
    using s(7) by (simp flip: length_tops)
  ultimately have "step interp fr2 = Done (Halt fr2 [] (Some errWriteProtection))" for interp
    using assms(1,3,5) by (subst step_SSTORE_restricted) (simp_all add: sample_code_def restricted_def)
  with s show ?thesis
    using assms(4) by (simp add: numeral_3_eq_3) (simp add: init_frame_def)
qed

lemma enter_simps [simp]:
  "in_JumpTable (enter e) = in_JumpTable e" "evm_abort (enter e) = evm_abort e" "restricted (enter e) = restricted e"
  "in_readOnly (enter e) = in_readOnly e" "evm_depth (enter e) = Suc (evm_depth e)" "evm_StateDB (enter e) = evm_StateDB e"
  "evm_vmConfig (enter e) = evm_vmConfig e" "evm_ctx (enter e) = evm_ctx e" "evm_chainRules (enter e) = evm_chainRules e"
  by (simp_all add: enter_def restricted_def)

lemma sample_static:
  "\<exists>evm' d. StaticCall (Run 3) (fuzz_evm crypto now sample_db) (AccountRef ContractCreater) ContractAttacker [] 100 =
    Done (evm', d, [], 0, Some errWriteProtection)"
proof -
  let ?e = "(fuzz_evm crypto now sample_db)\<lparr>in_readOnly := True\<rparr>"
  let ?c = "callee (AccountRef ContractCreater) ContractAttacker (Some 0) 100 ?e ContractAttacker"
  have c: "ct_Code ?c = sample_code" "ct_Gas ?c = 100" "ct_CodeAddr ?c = Some ContractAttacker"
    by (simp_all add: callee_def SetCallCode_def NewContract_def sample_code_at)
  then obtain fr where "Run_loop 3 (init_frame (enter ?e) ?c []) = Done (fr, [], Some errWriteProtection)"
    using sample_restricted [of "enter ?e" ?c "[]"] by (auto simp: restricted_def)
  then have "run (Run 3) ?e ?c [] = Done (leave (fr_evm fr), fr_contract fr, [], Some errWriteProtection)"
    using c by (simp add: run_def Run_def Interpreter_Run_def sample_not_precompiled detector_isByzantium sample_code_def)
  then show ?thesis
    by (simp add: StaticCall_def end_call_def UseGas_def)
qed

section \<open>Properties\<close>

text \<open>
  C6. A message call returns, for every program and every state: with gas metering on, fuel above the gas
  handed to it is never exhausted, any larger fuel gives the same outcome, and the gas left is at most the gas
  handed to the call.
\<close>

theorem Call_terminates:
  assumes "metered evm" "unat gas < n"
  shows "evm_Call n evm caller addr input gas value \<noteq> NoFuel \<and>
    (\<forall>m. n \<le> m \<longrightarrow> evm_Call m evm caller addr input gas value = evm_Call n evm caller addr input gas value) \<and>
    (\<forall>evm' d ret left err. evm_Call n evm caller addr input gas value = Done (evm', d, ret, left, err) \<longrightarrow> left \<le> gas)"
proof -
  note b = calls_bound(1) [OF run_bounded_Run assms, folded evm_Call_def, of caller addr input "value"]
  then have r: "evm_Call n evm caller addr input gas value \<noteq> NoFuel"
    by (rule wp_total)
  have "evm_Call m evm caller addr input gas value = evm_Call n evm caller addr input gas value" if "n \<le> m" for m
    using res_le_returns [OF calls_mono(1) [OF Run_mono [OF that]] r [unfolded evm_Call_def]] by (simp add: evm_Call_def)
  moreover have "\<forall>evm' d ret left err. evm_Call n evm caller addr input gas value = Done (evm', d, ret, left, err) \<longrightarrow> left \<le> gas"
    using b by (auto simp: word_le_nat_alt)
  ultimately show ?thesis
    using r by blast
qed

theorem Call_terminates_witness:
  "\<forall>crypto now db addr input.
    evm_Call 100000000001 (fuzz_evm crypto now db) (AccountRef ContractCreater) addr input 100000000000 0 \<noteq> NoFuel"
  by (intro allI conjunct1 [OF Call_terminates]) simp_all

text \<open>
  Contract creation returns in the same sense, for every init code.
\<close>

lemma Create_terminates:
  assumes "metered evm" "unat gas < n"
  shows "evm_Create n evm caller code gas value \<noteq> NoFuel \<and>
    (\<forall>m. n \<le> m \<longrightarrow> evm_Create m evm caller code gas value = evm_Create n evm caller code gas value) \<and>
    (\<forall>evm' d ret addr left err. evm_Create n evm caller code gas value = Done (evm', d, ret, addr, left, err) \<longrightarrow> left \<le> gas)"
proof -
  note b = calls_bound(5) [OF run_bounded_Run assms, folded evm_Create_def, of caller code "value"]
  then have r: "evm_Create n evm caller code gas value \<noteq> NoFuel"
    by (rule wp_total)
  have "evm_Create m evm caller code gas value = evm_Create n evm caller code gas value" if "n \<le> m" for m
    using res_le_returns [OF calls_mono(5) [OF Run_mono [OF that]] r [unfolded evm_Create_def]] by (simp add: evm_Create_def)
  moreover have "\<forall>evm' d ret addr left err. evm_Create n evm caller code gas value = Done (evm', d, ret, addr, left, err) \<longrightarrow> left \<le> gas"
    using b by (auto simp: word_le_nat_alt)
  ultimately show ?thesis
    using r by blast
qed

text \<open>
  C7. A static call writes nothing: whatever code runs below it, logs, code, nonces and the storage outside the
  slots of the overflow markers are as before, no balance has decreased, and the configuration, the depth and the
  read-only flag of the EVM are those the caller had.
\<close>

theorem StaticCall_read_only:
  assumes "std_evm evm" "RulesByzantium (evm_chainRules evm)"
    and "StaticCall (Run n) evm caller addr input gas = Done (evm', res)"
  shows "unwritten (evm_StateDB evm) (evm_StateDB evm') \<and> evm_static evm evm'"
proof -
  let ?e = "evm\<lparr>in_readOnly := True\<rparr>"
  have ro: "wp True True (rbind (run (Run n) ?e c input) (end_call sn)) (\<lambda>(e', r). read_only_rel ?e e')" for c sn
    using assms by (intro keep_read_only.run_end_call keep_read_only.Run_n_keeps keep_read_only.refl) (simp_all add: std_evm_def)
  have "restricted ?e"
    using assms(2) by (simp add: restricted_def)
  then have "wp True True (rbind (run (Run n) ?e c input) (end_call sn))
      (\<lambda>r. unwritten (evm_StateDB evm) (evm_StateDB (fst r)))" for c sn
    by (intro wp_mono [OF ro]) (auto simp: read_only_rel_def)
  then have "wp True True (StaticCall (Run n) evm caller addr input gas) (\<lambda>(e', r). unwritten (evm_StateDB evm) (evm_StateDB e'))"
    by (auto simp: StaticCall_def Let_def split_beta unwritten_quiet db_quiet_refl)
  moreover have "wp True True (StaticCall (Run n) evm caller addr input gas) (\<lambda>(e', r). evm_static evm e')"
    using assms(1) by (intro keep_static.staticcall_keeps keep_static.Run_n_keeps)
  ultimately show ?thesis
    using assms(3) by simp
qed

theorem StaticCall_read_only_witness:
  "\<forall>crypto now. \<exists>evm' d.
    StaticCall (Run 3) (fuzz_evm crypto now sample_db) (AccountRef ContractCreater) ContractAttacker [] 100 =
      Done (evm', d, [], 0, Some errWriteProtection) \<and> unwritten sample_db (evm_StateDB evm')"
proof (intro allI)
  fix crypto now
  obtain evm' d where r: "StaticCall (Run 3) (fuzz_evm crypto now sample_db) (AccountRef ContractCreater) ContractAttacker [] 100 =
      Done (evm', d, [], 0, Some errWriteProtection)"
    using sample_static by blast
  with StaticCall_read_only [OF _ _ r] show "\<exists>evm' d.
    StaticCall (Run 3) (fuzz_evm crypto now sample_db) (AccountRef ContractCreater) ContractAttacker [] 100 =
      Done (evm', d, [], 0, Some errWriteProtection) \<and> unwritten sample_db (evm_StateDB evm')"
    by simp
qed

text \<open>
  A call or a creation at the top level changes neither the context, the chain configuration and rules, the
  interpreter's tables, nor the call depth and the read-only flag, whether it succeeds or fails.
\<close>

lemma configuration_kept:
  assumes "std_evm evm" "\<not> in_readOnly evm"
  shows "(\<forall>evm' res. evm_Call n evm caller addr input gas value = Done (evm', res) \<longrightarrow> evm_static evm evm') \<and>
    (\<forall>evm' res. evm_Create n evm caller code gas value = Done (evm', res) \<longrightarrow> evm_static evm evm')"
proof -
  have "\<not> restricted evm"
    using assms(2) by (simp add: restricted_def)
  then have "wp True True (evm_Call n evm caller addr input gas value) (\<lambda>(e', r). evm_static evm e')"
    and "wp True True (evm_Create n evm caller code gas value) (\<lambda>(e', r). evm_static evm e')"
    unfolding evm_Call_def evm_Create_def
    using assms(1) by (auto intro!: keep_static.call_keeps keep_static.create_keeps keep_static.Run_n_keeps)
  then show ?thesis by (auto simp: wp_partial)
qed

text \<open>
  C17. The stack never grows beyond its limit: in every frame a run passes through, for every program, there are at
  most 1024 words on the stack, and a step that continues changes their number by exactly what the instruction
  table declares.
\<close>

theorem stack_discipline:
  assumes "steps (Run n) (init_frame evm contract input) fr"
  shows "stack_len (fr_stack fr) \<le> StackLimit \<and>
    (\<forall>fr'. step (Run n) fr = Done (Next fr') \<longrightarrow>
      stack_len (fr_stack fr') + op_pop (cur_oper fr) = stack_len (fr_stack fr) + op_push (cur_oper fr))"
proof -
  have "stack_len (fr_stack fr) \<le> StackLimit"
    using assms
  proof (rule steps_invariant [where P = "\<lambda>fr. stack_len (fr_stack fr) \<le> StackLimit"])
    show "stack_len (fr_stack fr') \<le> StackLimit" if "step (Run n) fr = Done (Next fr')" for fr fr'
      using step_stack [OF that] by simp
  qed (simp add: init_frame_def newstack_def stack_len_def)
  then show ?thesis
    using step_stack [of "Run n" fr "Next fr'" for fr'] by auto
qed

theorem stack_discipline_witness:
  "\<forall>crypto now. \<exists>fr. steps (Run 0) (init_frame (fuzz_evm crypto now sample_db) ((NewContract (AccountRef ContractCreater) ContractAttacker (Some 0) 100)\<lparr>ct_Code := sample_code\<rparr>) []) fr \<and>
    stack_tops (fr_stack fr) = [0, 1] \<and> stack_len (fr_stack fr) \<le> StackLimit"
proof (intro allI)
  fix crypto now
  let ?c = "(NewContract (AccountRef ContractCreater) ContractAttacker (Some 0) 100)\<lparr>ct_Code := sample_code\<rparr>"
  obtain fr1 fr2 where "step (Run 0) (init_frame (fuzz_evm crypto now sample_db) ?c []) = Done (Next fr1)"
    "step (Run 0) fr1 = Done (Next fr2)" and tops: "stack_tops (fr_stack fr2) = [0, 1]"
    using two_pushes [of "fuzz_evm crypto now sample_db" ?c SSTORE "[]"] by (auto simp: NewContract_def sample_code_def)
  then have "steps (Run 0) (init_frame (fuzz_evm crypto now sample_db) ?c []) fr2"
    by (metis steps_refl steps_step)
  with stack_discipline [OF this] tops show "\<exists>fr. steps (Run 0) (init_frame (fuzz_evm crypto now sample_db) ?c []) fr \<and>
    stack_tops (fr_stack fr) = [0, 1] \<and> stack_len (fr_stack fr) \<le> StackLimit"
    by blast
qed

end
