(* ===== verification/No_Panic.thy ===== *)
theory No_Panic
  imports Executions
begin

text \<open>
  Absence of panics. The fuzzer runs contracts with nested calls switched off. In that configuration no instruction
  panics on a frame that satisfies \<^verbatim>\<open>frame_safe\<close>, and every step keeps that invariant: operands are not negative, the
  memory an instruction touches has been paid for and allocated, jumps find an analysis that fits the code, and the
  nonce of the running contract cannot wrap because each creation costs gas. So calls and deployments by the fuzzer
  return for every program.
\<close>

section \<open>Safe frames\<close>

text \<open>
  A state in which no instruction panics while nested calls are switched off: balances, the gas price and the value
  of the call are not negative, code and input have a length a 64-bit integer can hold, and the cache of analysed
  code agrees with the code.
\<close>

definition db_safe :: "StateDB \<Rightarrow> bool" where
  "db_safe db \<longleftrightarrow> (\<forall>a. 0 \<le> balance_of db a \<and> length (GetCode db a) < 2 ^ 62)"

definition evm_safe :: "EVM \<Rightarrow> bool" where
  "evm_safe e \<longleftrightarrow> metered e \<and> NoRecursion (evm_vmConfig e) \<and> 0 \<le> GasPrice (evm_ctx e) \<and> db_safe (evm_StateDB e)"

definition contract_safe :: "Contract \<Rightarrow> bool" where
  "contract_safe c \<longleftrightarrow> (\<exists>v\<ge>0. ct_value c = Some v) \<and> length (ct_Code c) < 2 ^ 62 \<and> length (ct_Input c) < 2 ^ 62 \<and>
    coherent (ct_jumpdests c) (ct_CodeHash c) (ct_Code c)"

definition env_safe :: "Frame \<Rightarrow> bool" where
  "env_safe fr \<longleftrightarrow> evm_safe (fr_evm fr) \<and> 0 < evm_depth (fr_evm fr) \<and> contract_safe (fr_contract fr)"

definition mem_safe :: "Memory \<Rightarrow> bool" where
  "mem_safe m \<longleftrightarrow> mem_Len m \<le> 0xffffffffe0"

abbreviation stack_safe :: "Frame \<Rightarrow> bool" where
  "stack_safe fr \<equiv> (\<forall>x \<in> set (stack_tops (fr_stack fr)). 0 \<le> x)"

text \<open>The nonce of the running contract and its gas together leave room for \<open>k\<close> below a bound \<open>B\<close>: a creation raises the nonce by
  one and costs gas, so the nonce does not wrap and stays below every such bound.\<close>

definition room :: "nat \<Rightarrow> nat \<Rightarrow> Frame \<Rightarrow> bool" where
  "room B k fr \<longleftrightarrow> unat (GetNonce (fr_db fr) (self_Address fr)) + unat (ct_Gas (fr_contract fr)) + k < B \<and> B < 2 ^ 64"

definition frame_safe :: "nat \<Rightarrow> Frame \<Rightarrow> bool" where
  "frame_safe B fr \<longleftrightarrow> env_safe fr \<and> mem_safe (fr_mem fr) \<and> stack_safe fr \<and> room B 0 fr"

text \<open>What is left of it when the run has ended.\<close>

definition halt_safe :: "nat \<Rightarrow> Frame \<Rightarrow> bool" where
  "halt_safe B fr \<longleftrightarrow> db_safe (fr_db fr) \<and> room B 0 fr"

lemma frame_halt_safe: "frame_safe B fr \<Longrightarrow> halt_safe B fr"
  by (simp add: frame_safe_def halt_safe_def env_safe_def evm_safe_def)

lemma evm_safe_keep [simp]:
  "evm_safe (e\<lparr>in_intPool := st\<rparr>) = evm_safe e" "evm_safe (e\<lparr>evm_events := ev\<rparr>) = evm_safe e"
  "evm_safe (e\<lparr>in_returnData := bs\<rparr>) = evm_safe e" "evm_safe (e\<lparr>evm_callGasTemp := g\<rparr>) = evm_safe e"
  by (simp_all add: evm_safe_def metered_def std_evm_def)

lemma evm_safe_db [simp]: "evm_safe e \<Longrightarrow> evm_safe (e\<lparr>evm_StateDB := db\<rparr>) = db_safe db"
  by (simp add: evm_safe_def metered_def std_evm_def)

lemma env_safe_simps [simp]:
  "env_safe (fpush x fr) = env_safe fr" "env_safe (fput l fr) = env_safe fr" "env_safe (fget fr) = env_safe fr"
  "env_safe (push_bool b fr) = env_safe fr" "env_safe (callback s loc v fr) = env_safe fr"
  "env_safe (fr\<lparr>fr_stack := st\<rparr>) = env_safe fr" "env_safe (fr\<lparr>fr_pc := pc\<rparr>) = env_safe fr" "env_safe (fr\<lparr>fr_mem := m\<rparr>) = env_safe fr"
  "env_safe (set_gas g fr) = env_safe fr"
  by (simp_all add: env_safe_def fpush_def fput_def fget_def push_bool_def callback_def set_gas_def contract_safe_def)

lemma env_safe_db: "env_safe fr \<Longrightarrow> (db_safe (fr_db fr) \<Longrightarrow> db_safe (f (fr_db fr))) \<Longrightarrow> env_safe (fdb f fr)"
  by (auto simp: env_safe_def fdb_def) (simp add: evm_safe_def)

lemma env_safe_mark: "env_safe fr \<Longrightarrow> env_safe (mark k fr)"
  unfolding mark_def by (erule env_safe_db) (simp add: db_safe_def)

lemma room_simps [simp]:
  "room B k (fpush x fr) = room B k fr" "room B k (fput l fr) = room B k fr" "room B k (fget fr) = room B k fr"
  "room B k (push_bool b fr) = room B k fr" "room B k (callback s loc v fr) = room B k fr" "room B k (mark key fr) = room B k fr"
  "room B k (fr\<lparr>fr_stack := st\<rparr>) = room B k fr" "room B k (fr\<lparr>fr_pc := pc\<rparr>) = room B k fr" "room B k (fr\<lparr>fr_mem := m\<rparr>) = room B k fr"
  by (simp_all add: room_def self_Address_def)

lemma room_db: "GetNonce (f (fr_db fr)) = GetNonce (fr_db fr) \<Longrightarrow> room B k (fdb f fr) = room B k fr"
  by (simp add: room_def)

section \<open>Memory access\<close>

lemma mem_Get_safe:
  assumes "mem_safe m" "0 \<le> off" "0 \<le> sz" "calcMemSize off sz \<le> int (mem_Len m)"
  shows "mem_Get m (Int64 off) (Int64 sz) \<noteq> None"
proof (cases "sz = 0")
  case True
  then show ?thesis by (simp add: mem_Get_def Int64_small)
next
  case False
  then have "off + sz \<le> int (mem_Len m)" "off < 2 ^ 63" "sz < 2 ^ 63"
    using assms by (simp_all add: calcMemSize_def mem_safe_def)
  then show ?thesis
    using assms(2,3) mem_Get_ok [of sz off m] by (auto simp: Int64_small)
qed

lemma mem_Set_safe:
  assumes "mem_safe m" "0 \<le> off" "0 \<le> sz" "calcMemSize off sz \<le> int (mem_Len m)"
  shows "mem_Set m (Uint64 off) (Uint64 sz) v \<noteq> None"
proof (cases "sz = 0")
  case True
  then show ?thesis by (simp add: mem_Set_def Uint64_def)
next
  case False
  then have "off + sz \<le> int (mem_Len m)" "off < 2 ^ 64" "sz < 2 ^ 64" "mem_Len m < 2 ^ 64"
    using assms by (simp_all add: calcMemSize_def mem_safe_def)
  then show ?thesis
    using assms(2,3) mem_Set_ok [of "Uint64 sz" "Uint64 off" m v] by (force simp: unat_Uint64)
qed

lemma mem_Set_len: "mem_Set m off sz v = Some m' \<Longrightarrow> mem_Len m' = mem_Len m"
  by (auto simp: mem_Set_def mem_Len_def unat_plus_simple split: if_splits)

lemma getDataBig_safe: "length data < 2 ^ 62 \<Longrightarrow> 0 \<le> start \<Longrightarrow> 0 \<le> sz \<Longrightarrow> getDataBig data start sz \<noteq> None"
  by (auto simp: getDataBig_def Let_def BigMin_def unat_Uint64 slice_def)

section \<open>Instructions\<close>

definition mem_ready :: "operation \<Rightarrow> Frame \<Rightarrow> bool" where
  "mem_ready oper fr \<longleftrightarrow> (\<forall>f need. op_memorySize oper = Some f \<longrightarrow> f (fr_stack fr) = Some need \<longrightarrow> need \<le> int (mem_Len (fr_mem fr)))"

definition op_safe :: "OpCode \<Rightarrow> operation \<Rightarrow> bool" where
  "op_safe op oper \<longleftrightarrow> (\<forall>interp fr B. env_safe fr \<longrightarrow> mem_safe (fr_mem fr) \<longrightarrow> stack_safe fr \<longrightarrow>
     room B (budget op fr + op_least oper) fr \<longrightarrow> op_pop oper \<le> length (stack_tops (fr_stack fr)) \<longrightarrow> mem_ready oper fr \<longrightarrow>
     (op_least oper = 1 \<longrightarrow> unat (fr_pc fr) < length (ct_Code (fr_contract fr))) \<longrightarrow>
     wp False False (op_execute oper interp fr) (\<lambda>r. frame_safe B (fst r)))"

lemma roomI: "room B k fr \<Longrightarrow> n \<le> k \<Longrightarrow> room B n fr"
  by (simp add: room_def)

lemma room_any: "room B k fr \<Longrightarrow> room B 0 fr"
  by (rule roomI) simp_all

lemma nonneg_simps [simp]:
  "0 \<le> e \<Longrightarrow> 0 \<le> Exp b e" "0 \<le> Address_Big a" "0 \<le> Hash_Big h"
  by (simp_all add: Address_Big_def Hash_Big_def Exp_power)

lemma U256_diff: "x - y = U256 (x - y) \<Longrightarrow> y \<le> x"
  by (metis U256_nonneg diff_ge_0_iff_ge)

lemma Back_tops_eq: "Back st n = (if n < length (stack_tops st) then Some (stack_tops st ! n) else None)"
  using Back_of_tops [of "stack_tops st" n] by (simp add: vmstack.of_tops_tops)

lemma memory_sizes:
  "back_size i j st = (let t = stack_tops st in
    if i < length t \<and> j < length t then Some (calcMemSize (t ! i) (t ! j)) else None)"
  "back_size2 i j k l st = (let t = stack_tops st in
    if i < length t \<and> j < length t \<and> k < length t \<and> l < length t
    then Some (max (calcMemSize (t ! i) (t ! j)) (calcMemSize (t ! k) (t ! l))) else None)"
  by (auto simp: back_size_def back_size2_def Back_tops_eq BigMax_def Let_def simp del: length_tops)

lemma env_safe_facts:
  assumes "env_safe fr"
  shows "0 \<le> balance_of (fr_db fr) a" "ct_value (fr_contract fr) \<noteq> None" "ct_value (fr_contract fr) = Some v \<Longrightarrow> 0 \<le> v"
    "length (ct_Code (fr_contract fr)) < 2 ^ 62" "length (ct_Input (fr_contract fr)) < 2 ^ 62" "length (GetCode (fr_db fr) a) < 2 ^ 62"
    "0 \<le> GasPrice (evm_ctx (fr_evm fr))"
  using assms by (auto simp: env_safe_def evm_safe_def db_safe_def contract_safe_def)

lemma env_safe_data:
  assumes "env_safe fr" "0 \<le> start" "0 \<le> sz"
  shows "getDataBig (ct_Input (fr_contract fr)) start sz \<noteq> None" "getDataBig (ct_Code (fr_contract fr)) start sz \<noteq> None"
    "getDataBig (GetCode (fr_db fr) a) start sz \<noteq> None"
  by (rule getDataBig_safe; use assms env_safe_facts(4-6) [OF assms(1)] in simp)+

lemma mem_Set_keeps: "mem_Set m off sz v = Some m' \<Longrightarrow> mem_safe m \<Longrightarrow> mem_safe m'"
  by (simp add: mem_safe_def mem_Set_len)

lemma mem_Get_word: "mem_safe m \<Longrightarrow> 0 \<le> off \<Longrightarrow> calcMemSize off 32 \<le> int (mem_Len m) \<Longrightarrow> mem_Get m (Int64 off) 32 \<noteq> None"
  using mem_Get_safe [of m off 32] by (simp add: Int64_small)

lemma mem_setbyte_safe:
  "mem_safe m \<Longrightarrow> 0 \<le> off \<Longrightarrow> calcMemSize off 1 \<le> int (mem_Len m) \<Longrightarrow> mem_setbyte m (Int64 off) b \<noteq> None"
  "mem_setbyte m i b = Some m' \<Longrightarrow> mem_safe m \<Longrightarrow> mem_safe m'"
  by (auto simp: mem_setbyte_def mem_safe_def mem_Len_def calcMemSize_def Int64_small split: if_splits)

lemma has_safe:
  assumes "env_safe fr" "0 \<le> pos"
  shows "has (ct_jumpdests (fr_contract fr)) (ct_CodeHash (fr_contract fr)) (ct_Code (fr_contract fr)) pos \<noteq> None"
    "has (ct_jumpdests (fr_contract fr)) (ct_CodeHash (fr_contract fr)) (ct_Code (fr_contract fr)) pos = Some (v, d) \<Longrightarrow>
     env_safe (fr\<lparr>fr_stack := st, fr_contract := (fr_contract fr)\<lparr>ct_jumpdests := d\<rparr>\<rparr>)"
  using assms has_spec [of "ct_jumpdests (fr_contract fr)" "ct_CodeHash (fr_contract fr)" "ct_Code (fr_contract fr)" pos]
  by (auto simp: env_safe_def contract_safe_def)

lemma room_jumps [simp]: "room B k (fr\<lparr>fr_stack := st, fr_contract := (fr_contract fr)\<lparr>ct_jumpdests := d\<rparr>\<rparr>) = room B k fr"
  by (simp add: room_def self_Address_def)

lemma db_safe_ops:
  "db_safe db \<Longrightarrow> 0 \<le> v \<Longrightarrow> db_safe (AddBalance db a v)" "db_safe db \<Longrightarrow> db_safe (SetState db a k h)"
  "db_safe db \<Longrightarrow> db_safe (snd (GetState db a k))" "db_safe db \<Longrightarrow> db_safe (AddLog db l)"
  by (auto simp: db_safe_def) (auto simp: AddLog_def balance_of_def ensure_def GetCode_def)

lemma Suicide_keeps [simp]:
  "db_safe (snd (Suicide db a)) = db_safe db" "GetNonce (snd (Suicide db a)) = GetNonce db"
proof -
  have "balance_of (snd (Suicide db a)) b = balance_of db b" "GetCode (snd (Suicide db a)) b = GetCode db b"
    "GetNonce (snd (Suicide db a)) b = GetNonce db b" for b
    by (auto simp: Suicide_def put_state_def balance_of_def ensure_def GetCode_def GetNonce_def newState_def split: option.splits)
  then show "db_safe (snd (Suicide db a)) = db_safe db" "GetNonce (snd (Suicide db a)) = GetNonce db"
    by (simp_all add: db_safe_def fun_eq_iff)
qed

lemma suicide_safe:
  fixes a st
  assumes "env_safe fr" "room B 0 fr"
  defines "fr' \<equiv> fdb (\<lambda>db. snd (Suicide db (self_Address fr))) (fdb (\<lambda>db. AddBalance db a (balance_of (fr_db fr) (self_Address fr) + 100))
    (fdb (\<lambda>_. AddBalance (fr_db fr) (self_Address fr) 100) fr\<lparr>fr_stack := st\<rparr>))"
  shows "env_safe fr'" "room B 0 fr'"
proof -
  have "0 \<le> balance_of (fr_db fr) (self_Address fr)" using assms(1) by (simp add: env_safe_def evm_safe_def db_safe_def)
  moreover have "env_safe (fdb (\<lambda>_. AddBalance (fr_db fr) (self_Address fr) 100) fr)" using assms(1) by (intro env_safe_db) (simp_all add: db_safe_ops)
  ultimately show "env_safe fr'" unfolding fr'_def by (intro env_safe_db) (simp_all add: db_safe_ops)
  show "room B 0 fr'" using assms(2) by (simp add: fr'_def room_def fdb_def self_Address_def)
qed

lemma AddLog_nonce [simp]: "GetNonce (AddLog db l) = GetNonce db"
  by (simp add: AddLog_def GetNonce_def fun_eq_iff)

lemmas safe_simps = op_safe_def mem_ready_def memory_size_defs memory_sizes Back_tops_eq Let_def frame_safe_def budget_def op_least_def
  env_safe_mark mem_Get_safe mem_Set_safe mem_GetPtr_eq mem_Get_word mem_setbyte_safe(1) has_safe split_beta env_safe_data room_db env_safe_facts

lemma op_safe_arith:
  "list_all (\<lambda>(op, oper). op_safe op oper) frontier_arith"
  by (auto simp: frontier_defs arith_ops flow_ops safe_simps simp del: length_tops iff del: not_None_eq intro: room_any U256_diff)

lemma op_safe_logic:
  "list_all (\<lambda>(op, oper). op_safe op oper) frontier_logic"
  by (auto simp: frontier_defs arith_ops env_ops safe_simps AddPreimage_def
    simp del: length_tops iff del: not_None_eq intro!: env_safe_db db_safe_ops intro: room_any mem_Set_keeps mem_setbyte_safe(2))

lemma op_safe_env:
  "list_all (\<lambda>(op, oper). op_safe op oper) frontier_env"
  by (auto simp: frontier_defs env_ops flow_ops safe_simps GetBalance_eq
    simp del: length_tops iff del: not_None_eq intro!: env_safe_db db_safe_ops intro: room_any mem_Set_keeps mem_setbyte_safe(2))

lemma op_safe_block:
  "list_all (\<lambda>(op, oper). op_safe op oper) frontier_block"
  by (auto simp: frontier_defs env_ops flow_ops safe_simps GetBalance_eq
    simp del: length_tops iff del: not_None_eq intro!: env_safe_db db_safe_ops intro: room_any mem_Set_keeps mem_setbyte_safe(2))

lemma op_safe_flow:
  "list_all (\<lambda>(op, oper). op_safe op oper) frontier_flow"
  by (auto simp: frontier_defs env_ops flow_ops safe_simps GetBalance_eq
    simp del: length_tops iff del: not_None_eq intro!: env_safe_db db_safe_ops intro: room_any mem_Set_keeps mem_setbyte_safe(2))

lemma op_safe_log: "list_all (\<lambda>(op, oper). op_safe op oper) frontier_log"
  by (auto simp: frontier_defs makeLog_def safe_simps
    simp del: length_tops iff del: not_None_eq intro!: env_safe_db db_safe_ops intro: room_any dest: in_set_dropD simp flip: length_tops)

lemma op_safe_push: "list_all (\<lambda>(op, oper). op_safe op oper) frontier_push"
proof -
  have "op_safe op (mkop (\<lambda>_. makePush sz n) g 0 1)" for op sz n g
    by (auto simp: op_safe_def op_least_def makePush_eq [OF _ env_safe_facts(4)] frame_safe_def intro: room_any)
  then show ?thesis
    by (auto simp: frontier_push_def list_all_iff)
qed

lemma dup_tops:
  "dup st n = (if 0 < n \<and> n \<le> length (stack_tops st) then Some (of_tops (stack_tops st ! (n - 1) # stack_tops st)) else None)"
  using dup_of_tops [of "stack_tops st" n] by (simp add: vmstack.of_tops_tops)

lemma swap_tops:
  "swap st n = (if 0 < n \<and> n \<le> length (stack_tops st)
    then Some (of_tops ((stack_tops st)[n - 1 := stack_tops st ! 0, 0 := stack_tops st ! (n - 1)])) else None)"
  using swap_of_tops [of "stack_tops st" n] by (simp add: vmstack.of_tops_tops)

lemma op_safeI:
  assumes "op_pop oper = n"
    "\<And>interp fr B. n \<le> length (stack_tops (fr_stack fr)) \<Longrightarrow> env_safe fr \<Longrightarrow> mem_safe (fr_mem fr) \<Longrightarrow> stack_safe fr \<Longrightarrow>
      room B (budget op fr + op_least oper) fr \<Longrightarrow> mem_ready oper fr \<Longrightarrow>
      wp False False (op_execute oper interp fr) (\<lambda>r. frame_safe B (fst r))"
  shows "op_safe op oper"
  using assms unfolding op_safe_def by blast

lemma op_safe_dup_swap:
  "list_all (\<lambda>(op, oper). op_safe op oper) frontier_dup"
  "list_all (\<lambda>(op, oper). op_safe op oper) frontier_swap"
proof -
  have dup: "op_safe op (mkop (\<lambda>_. makeDup n) g n m)" if "0 < n" for op n m g
    using that by (auto simp: op_safe_def op_least_def makeDup_def dup_tops frame_safe_def simp del: length_tops intro: room_any)
  have swap: "op_safe op (mkop (\<lambda>_. makeSwap n) g (Suc n) m)" if "0 < n" for op n m g
  proof (rule op_safeI)
    fix interp :: run_fn and fr :: Frame and B :: nat
    let ?xs = "stack_tops (fr_stack fr)"
    assume fr: "Suc n \<le> length ?xs" "env_safe fr" "mem_safe (fr_mem fr)" "stack_safe fr"
      "room B (budget op fr + op_least (mkop (\<lambda>_. makeSwap n) g (Suc n) m)) fr"
    have "set (?xs[n := ?xs ! 0, 0 := ?xs ! n]) \<subseteq> set ?xs"
      using fr(1) by (intro set_update_subsetI subset_refl nth_mem) linarith+
    then have "\<forall>x\<in>set (?xs[n := ?xs ! 0, 0 := ?xs ! n]). 0 \<le> x"
      using fr(4) by blast
    then show "wp False False (op_execute (mkop (\<lambda>_. makeSwap n) g (Suc n) m) interp fr)
        (\<lambda>r. frame_safe B (fst r))"
      using fr room_any [OF fr(5)] by (simp add: makeSwap_def swap_tops frame_safe_def del: length_tops)
  qed simp
  show "list_all (\<lambda>(op, oper). op_safe op oper) frontier_dup"
    using dup by (auto simp: frontier_dup_def list_all_iff)
  show "list_all (\<lambda>(op, oper). op_safe op oper) frontier_swap"
    using swap by (auto simp: frontier_swap_def list_all_iff)
qed

lemma calls_NoRecursion:
  assumes "NoRecursion (evm_vmConfig e)" "0 < evm_depth e"
  shows "Call interp e caller addr inp g v = Done (e, ref_jumpdests caller, [], g, None)"
    "CallCode interp e caller addr inp g v = Done (e, ref_jumpdests caller, [], g, None)"
    "DelegateCall interp e caller addr inp g = Done (e, ref_jumpdests caller, [], g, None)"
    "StaticCall interp e caller addr inp g = Done (e, ref_jumpdests caller, [], g, None)"
  using assms by (simp_all add: Call_def CallCode_def DelegateCall_def StaticCall_def)

lemma env_safe_NoRecursion:
  "env_safe fr \<Longrightarrow> NoRecursion (evm_vmConfig (fr_evm fr))" "env_safe fr \<Longrightarrow> 0 < evm_depth (fr_evm fr)"
  by (simp_all add: env_safe_def evm_safe_def)

lemma set_own_jumps [simp]: "set_evm_jumps e (ct_jumpdests (fr_contract fr)) fr = fr\<lparr>fr_evm := e\<rparr>"
  by (simp add: set_evm_jumps_def)

lemma room_gas: "room B (unat g + n) fr \<Longrightarrow> room B n (set_gas (ct_Gas (fr_contract fr) + g) fr)"
  using unat_add_lem
  by (simp add: room_def set_gas_def self_Address_def unat_word_ariths)

lemma finish_call_safe:
  assumes "env_safe fr" "mem_safe (fr_mem fr)" "stack_safe fr" "room B (unat g) fr" "0 \<le> ro" "0 \<le> rs"
    "calcMemSize ro rs \<le> int (mem_Len (fr_mem fr))"
  shows "wp False False (finish_call ro rs puts fr (fr_evm fr, ct_jumpdests (fr_contract fr), [], g, None)) (\<lambda>r. frame_safe B (fst r))"
proof -
  have "frame_safe B (fput puts (set_gas (ct_Gas (fr_contract fr) + g) (fpush 1 fr\<lparr>fr_mem := m\<rparr>)))" if "mem_safe m" for m
    using assms(1,3,4) that room_gas [of B g 0 "fpush 1 fr\<lparr>fr_mem := m\<rparr>"] by (simp add: frame_safe_def)
  then show ?thesis
    using assms mem_Set_safe [OF assms(2,5-7)] by (auto simp: finish_call_def intro: room_any mem_Set_keeps)
qed

lemma call_finish_safe:
  assumes "env_safe fr" "mem_safe (fr_mem fr)" "\<forall>x\<in>set xs. 0 \<le> x" "room B (unat g) fr" "0 \<le> ro" "0 \<le> rs"
    "calcMemSize ro rs \<le> int (mem_Len (fr_mem fr))"
  shows "wp False False (finish_call ro rs puts (fr\<lparr>fr_evm := (fr_evm fr)\<lparr>in_intPool := st\<rparr>, fr_stack := of_tops xs\<rparr>)
    ((fr_evm fr)\<lparr>in_intPool := st\<rparr>, ct_jumpdests (fr_contract fr), [], g, None)) (\<lambda>r. frame_safe B (fst r))"
proof -
  have "env_safe (fr\<lparr>fr_evm := (fr_evm fr)\<lparr>in_intPool := st\<rparr>\<rparr>) = env_safe fr" "room B k (fr\<lparr>fr_evm := (fr_evm fr)\<lparr>in_intPool := st\<rparr>\<rparr>) = room B k fr" for k
    by (simp_all add: env_safe_def room_def self_Address_def)
  then show ?thesis
    using assms finish_call_safe [of "fr\<lparr>fr_evm := (fr_evm fr)\<lparr>in_intPool := st\<rparr>, fr_stack := of_tops xs\<rparr>" B g ro rs puts] by simp
qed

lemma budget_room:
  "room B (budget CALL fr + n) fr \<Longrightarrow> room B (unat (evm_callGasTemp (fr_evm fr))) fr"
  "room B (budget CALLCODE fr + n) fr \<Longrightarrow> room B (unat (evm_callGasTemp (fr_evm fr))) fr"
  "room B (budget DELEGATECALL fr + n) fr \<Longrightarrow> room B (unat (evm_callGasTemp (fr_evm fr))) fr"
  "room B (budget STATICCALL fr + n) fr \<Longrightarrow> room B (unat (evm_callGasTemp (fr_evm fr))) fr"
  "room B (budget CALL fr + n) fr \<Longrightarrow> Back (fr_stack fr) 2 \<noteq> Some 0 \<Longrightarrow> room B (unat (evm_callGasTemp (fr_evm fr) + CallStipend)) fr"
  "room B (budget CALLCODE fr + n) fr \<Longrightarrow> Back (fr_stack fr) 2 \<noteq> Some 0 \<Longrightarrow> room B (unat (evm_callGasTemp (fr_evm fr) + CallStipend)) fr"
  by (auto simp: budget_def room_def stipend_le)

lemma list_6E:
  assumes "6 \<le> length xs"
  obtains a b c d e f ys where "xs = a # b # c # d # e # f # ys"
  using assms by (auto simp: numeral_eq_Suc Suc_le_length_iff)

lemma list_7E:
  assumes "7 \<le> length xs"
  obtains a b c d e f g ys where "xs = a # b # c # d # e # f # g # ys"
  using assms by (auto simp: numeral_eq_Suc Suc_le_length_iff)

lemmas call_simps = memory_size_defs memory_sizes fput_def calls_NoRecursion env_safe_NoRecursion ref_jumpdests_def op_least_def
  mem_ready_def Let_def call_finish_safe mem_Get_safe [unfolded not_None_eq] budget_room [of _ _ "Suc 0", simplified] Back_tops_eq

lemma U256_nonzero: "U256 x \<noteq> 0 \<Longrightarrow> x \<noteq> 0"
  by (auto simp: U256_def)

lemma op_safe_CALL:
  "op_safe CALL ((mkop opCall gc 7 m)\<lparr>op_memorySize := Some memoryCall, op_returns := True\<rparr>)"
  "op_safe CALLCODE ((mkop opCallCode gc 7 m)\<lparr>op_memorySize := Some memoryCall, op_returns := True\<rparr>)"
  by (rule op_safeI [where n = 7], simp, erule list_7E, simp add: opCall_def opCallCode_def call_simps U256_nonzero del: length_tops)+

lemma op_safe_DELEGATECALL:
  "op_safe DELEGATECALL ((mkop opDelegateCall gc 6 m)\<lparr>op_memorySize := Some memoryDelegateCall, op_returns := True\<rparr>)"
  "op_safe STATICCALL ((mkop opStaticCall gc 6 m)\<lparr>op_memorySize := Some memoryStaticCall, op_returns := True\<rparr>)"
  by (rule op_safeI [where n = 6], simp, erule list_6E, simp add: opDelegateCall_def opStaticCall_def call_simps del: length_tops)+

lemma op_safe_halts:
  "op_safe RETURN ((mkop (\<lambda>_. opReturn) gc 2 m)\<lparr>op_memorySize := Some memoryReturn, op_halts := True\<rparr>)"
  "op_safe SELFDESTRUCT ((mkop (\<lambda>_. opSuicide) gc 1 m)\<lparr>op_halts := True, op_writes := True\<rparr>)"
  "op_safe REVERT ((mkop (\<lambda>_. opRevert) gc 2 m)\<lparr>op_memorySize := Some memoryRevert, op_reverts := True, op_returns := True\<rparr>)"
  "op_safe RETURNDATASIZE (mkop (\<lambda>_. opReturnDataSize) gc 0 m)"
  by (auto simp: flow_ops env_ops safe_simps GetBalance_eq simp del: length_tops iff del: not_None_eq intro: room_any suicide_safe)

lemma returndata_slice:
  assumes "\<not> 64 < BitLen (a + b)" "0 \<le> a" "0 \<le> b" "\<not> length d < unat (Uint64 (a + b))"
  shows "slice d (unat (Uint64 a)) (unat (Uint64 (a + b))) \<noteq> None"
proof -
  have "a + b < 2 ^ 64"
    using assms(1-3) BitLen_gt [of 64 "a + b"] by simp
  with assms show ?thesis
    by (simp add: slice_def unat_Uint64 nat_add_distrib)
qed

lemma op_safe_returndatacopy:
  "op_safe RETURNDATACOPY ((mkop (\<lambda>_. opReturnDataCopy) gc 3 m)\<lparr>op_memorySize := Some memoryReturnDataCopy\<rparr>)"
  by (auto simp: env_ops safe_simps returndata_slice simp del: length_tops iff del: not_None_eq intro: room_any mem_Set_keeps)

section \<open>Creation\<close>

lemma CreateAccount_simps [simp]:
  "balance_of (CreateAccount db a) b = (if b = a then 0 else balance_of db b)"
  "GetCode (CreateAccount db a) b = (if b = a then [] else GetCode db b)"
  "GetNonce (CreateAccount db a) b = (if b = a then 0 else GetNonce db b)"
  by (simp_all add: CreateAccount_def balance_of_def GetCode_ensure GetNonce_ensure ensure_def newState_def)

lemma SetNonce_balance [simp]: "balance_of (SetNonce db a n) b = balance_of db b"
  by (simp add: SetNonce_def balance_of_def)

definition nonce_after :: "StateDB \<Rightarrow> Address \<Rightarrow> StateDB \<Rightarrow> bool" where
  "nonce_after db a db' \<longleftrightarrow> unat (GetNonce db' a) \<le> unat (GetNonce db a) + 1"

text \<open>With nested runs switched off, creating a contract keeps the state safe, raises the creator's nonce by at most
  one and hands all gas back or consumes it.\<close>

lemma created_db_safe:
  assumes "db_safe db" "0 \<le> v" "v \<le> balance_of db a + 100" "GetNonce db a \<noteq> - 1"
  defines "db2 \<equiv> SetNonce (AddBalance db a 100) a (GetNonce db a + 1)"
  assumes "GetNonce db2 ca = 0" "db' = SetNonce (CreateAccount db2 ca) ca 1 \<or> db' = CreateAccount db2 ca"
  shows "db_safe (Transfer db' a ca v)" "nonce_after db a (Transfer db' a ca v)" "unat (GetNonce (Transfer db' a ca v) ca) \<le> 1"
proof -
  have n: "unat (GetNonce db a + 1) \<le> unat (GetNonce db a) + 1" "GetNonce db a + 1 \<noteq> 0"
    using assms(4) by (simp add: unat_word_ariths, metis add_eq_0_iff add.commute)
  then have ca: "ca \<noteq> a"
    using assms(6) by (auto simp: db2_def nonce.gt_st)
  have "GetNonce db' a = GetNonce db a + 1"
    using ca assms(7) by (auto simp: db2_def nonce.gt_st)
  then show "nonce_after db a (Transfer db' a ca v)"
    using n(1) by (simp add: nonce_after_def Transfer_def)
  have "balance_of db' b = (if b = ca then 0 else balance_of db b + (if b = a then 100 else 0))"
    "GetCode db' b = (if b = ca then [] else GetCode db b)" for b
    using assms(7) by (auto simp: db2_def)
  then show "db_safe (Transfer db' a ca v)"
    using ca assms(1-3) by (auto simp: db_safe_def Transfer_def)
  show "unat (GetNonce (Transfer db' a ca v) ca) \<le> 1"
    using assms(7) by (auto simp: Transfer_def nonce.gt_st)
qed

lemma Create_safe:
  assumes "evm_safe e" "0 < evm_depth e" "0 \<le> v" "GetNonce (evm_StateDB e) (ref_Address caller) \<noteq> - 1"
  shows "wp False False (Create interp e caller code g v) (\<lambda>(e', d, ret, a, g', err).
    evm_safe e' \<and> evm_depth e' = evm_depth e \<and> d = ref_jumpdests caller \<and> g' \<le> g \<and>
    nonce_after (evm_StateDB e) (ref_Address caller) (evm_StateDB e'))"
proof -
  let ?a = "ref_Address caller" and ?db = "evm_StateDB e"
  let ?db1 = "AddBalance ?db ?a 100" and ?n = "GetNonce ?db ?a"
  let ?db2 = "SetNonce ?db1 ?a (?n + 1)"
  have e: "CanTransferFunc (evm_ctx e) = CanTransfer" "TransferFunc (evm_ctx e) = Transfer" "NoRecursion (evm_vmConfig e)" "db_safe ?db"
    using assms(1) by (simp_all add: evm_safe_def metered_def std_evm_def)
  have keep: "evm_safe (with_db e db) = db_safe db" for db
    using assms(1) by (simp add: with_db_def)
  have db: "db_safe ?db1" "db_safe ?db2"
    using e(4) by (auto simp: db_safe_def)
  have after: "nonce_after ?db ?a ?db1" "nonce_after ?db ?a ?db2" "nonce_after ?db ?a ?db"
    by (simp_all add: nonce_after_def nonce.gt_st unat_word_ariths)
  let ?ca = "CreateAddress ?a ?n"
  show ?thesis
  proof (cases "v \<le> balance_of ?db ?a + 100 \<and> GetNonce ?db2 ?ca = 0")
    case True
    with created_db_safe [OF e(4) assms(3) _ assms(4), of ?ca]
    have "db_safe (Transfer (SetNonce (CreateAccount ?db2 ?ca) ?ca 1) ?a ?ca v)"
      "nonce_after ?db ?a (Transfer (SetNonce (CreateAccount ?db2 ?ca) ?ca 1) ?a ?ca v)"
      "db_safe (Transfer (CreateAccount ?db2 ?ca) ?a ?ca v)" "nonce_after ?db ?a (Transfer (CreateAccount ?db2 ?ca) ?a ?ca v)"
      by blast+
    with True show ?thesis
      using assms(2) e(3) db after by (simp add: Create_def e(1,2) CanTransfer_eq Let_def keep assms(1))
  next
    case False
    then show ?thesis
      using assms(2) e(3) db after by (auto simp: Create_def e(1,2) CanTransfer_eq Let_def keep assms(1))
  qed
qed

lemma list_3E:
  assumes "3 \<le> length xs"
  obtains a b c ys where "xs = a # b # c # ys"
  using assms by (auto simp: numeral_eq_Suc Suc_le_length_iff)

lemma created_frame_safe:
  assumes "env_safe fr" "mem_safe (fr_mem fr)" "room B (Suc 0) fr" "\<forall>x\<in>set xs. 0 \<le> x" "0 \<le> res"
    "evm_safe e" "evm_depth e = evm_depth (fr_evm fr)" "nonce_after (fr_db fr) (self_Address fr) (evm_StateDB e)"
    "g \<le> ct_Gas (fr_contract fr)" "g' \<le> g"
  shows "frame_safe B (fput puts (set_gas (ct_Gas (fr_contract fr) - g + g') (fpush res
    (fr\<lparr>fr_stack := of_tops xs, fr_evm := e, fr_contract := (fr_contract fr)\<lparr>ct_Gas := g''\<rparr>\<rparr>))))"
proof -
  have "unat (ct_Gas (fr_contract fr) - g + g') \<le> unat (ct_Gas (fr_contract fr))"
    using assms(9,10) by (intro refund_le) (simp_all add: word_le_nat_alt)
  then have "room B 0 (set_gas (ct_Gas (fr_contract fr) - g + g') (fr\<lparr>fr_evm := e\<rparr>))"
    using assms(3,8) by (simp add: room_def nonce_after_def set_gas_def self_Address_def)
  moreover have "env_safe (fr\<lparr>fr_evm := e\<rparr>)"
    using assms(1,6,7) by (simp add: env_safe_def)
  ultimately show ?thesis
    using assms(2,4,5) by (simp add: frame_safe_def env_safe_def contract_safe_def room_def self_Address_def set_gas_def fput_def fpush_def)
qed

lemma op_safe_create:
  "op_safe CREATE ((mkop opCreate gc 3 m)\<lparr>op_memorySize := Some memoryCreate, op_writes := True, op_returns := True\<rparr>)"
proof (rule op_safeI)
  fix interp :: run_fn and fr :: Frame and B :: nat
  let ?oper = "(mkop opCreate gc 3 m)\<lparr>op_memorySize := Some memoryCreate, op_writes := True, op_returns := True\<rparr>"
  assume len: "3 \<le> length (stack_tops (fr_stack fr))" and fr: "env_safe fr" "mem_safe (fr_mem fr)" "stack_safe fr"
    "room B (budget CREATE fr + op_least ?oper) fr" "mem_ready ?oper fr"
  from len obtain v off sz xs where st: "stack_tops (fr_stack fr) = v # off # sz # xs"
    by (rule list_3E)
  have nn: "0 \<le> v" "0 \<le> off" "0 \<le> sz" "\<forall>x\<in>set xs. 0 \<le> x"
    using fr(3) by (simp_all add: st)
  have mem: "mem_Get (fr_mem fr) (Int64 off) (Int64 sz) \<noteq> None"
    using fr(2,5) nn by (intro mem_Get_safe) (simp_all add: mem_ready_def memory_size_defs memory_sizes st Let_def)
  have room: "room B (Suc 0) fr"
    using fr(4) by (rule roomI) (simp add: op_least_def)
  have key: "wp False False (Create interp (fr_evm fr) (CallerContract ((fr_contract fr)\<lparr>ct_Gas := ct_Gas (fr_contract fr) - g\<rparr>)) input g v)
      (\<lambda>a. \<forall>res\<ge>0. frame_safe B (fput [v, off, sz] (set_gas (ct_Gas (fr_contract fr) - g + fst (snd (snd (snd (snd a))))) (fpush res
        (fr\<lparr>fr_stack := of_tops xs, fr_evm := fst a, fr_contract := (fr_contract fr)\<lparr>ct_Gas := ct_Gas (fr_contract fr) - g, ct_jumpdests := fst (snd a)\<rparr>\<rparr>)))))"
    if "g \<le> ct_Gas (fr_contract fr)" for g input
  proof (rule wp_mono)
    show "wp False False (Create interp (fr_evm fr) (CallerContract ((fr_contract fr)\<lparr>ct_Gas := ct_Gas (fr_contract fr) - g\<rparr>)) input g v)
      (\<lambda>(e', d, ret, a, g', err). evm_safe e' \<and> evm_depth e' = evm_depth (fr_evm fr) \<and> d = ct_jumpdests (fr_contract fr) \<and> g' \<le> g \<and>
        nonce_after (fr_db fr) (self_Address fr) (evm_StateDB e'))"
    proof -
      have "unat (- 1 :: u64) = 2 ^ 64 - 1" by (simp add: unsigned_minus_1_eq_mask mask_eq_exp_minus_1)
      then have "GetNonce (fr_db fr) (self_Address fr) \<noteq> - 1"
        using room by (auto simp: room_def)
      then show ?thesis
        using Create_safe [of "fr_evm fr" v "CallerContract ((fr_contract fr)\<lparr>ct_Gas := ct_Gas (fr_contract fr) - g\<rparr>)" interp input g] fr(1) nn(1)
        by (simp add: env_safe_def ref_Address_def ref_jumpdests_def self_Address_def)
    qed
  qed (use fr room nn that in \<open>auto intro!: created_frame_safe\<close>)
  have le: "gas - gas div 64 \<le> gas" for gas :: u64
    by (simp add: word_le_nat_alt unat_sub_nowrap unat_div)
  note keys = key [OF le, simplified] key [OF order_refl, simplified]
  show "wp False False (op_execute ?oper interp fr) (\<lambda>r. frame_safe B (fst r))"
    using mem
    by (simp add: opCreate_def st Let_def UseGas_def not_less [THEN iffD2, OF le] set_evm_jumps_def)
      (intro conjI allI impI; (rule wp_mono [OF keys(1)] | rule wp_mono [OF keys(2)]); simp)
qed simp

lemma op_safe_table: "table_all op_safe"
  unfolding table_all_def NewByzantiumInstructionSet_def NewHomesteadInstructionSet_def NewFrontierInstructionSet_def
    list_all_append frontier_call_def list_all_Cons list_all_Nil split_conv
  by (intro conjI TrueI op_safe_arith op_safe_logic op_safe_env op_safe_block op_safe_flow op_safe_push op_safe_dup_swap
      op_safe_log op_safe_create op_safe_CALL op_safe_DELEGATECALL op_safe_halts op_safe_returndatacopy)

section \<open>Iterations\<close>

lemma zero_halts_table: "table_all (\<lambda>op oper. op = 0 \<longrightarrow> op_least oper = 0)"
  unfolding table_all_iff
  by (intro conjI list_all_families) (simp_all add: table_parts op_least_def, auto)

lemma safe_mul_ok: "safe_mul x y = eok r \<Longrightarrow> unat r = unat x * unat y"
  using SafeMul_spec [of x y] by (auto simp: safe_mul_def split: prod.splits if_splits)

lemma memory_request_covers:
  assumes "memory_request oper st = eok ms" "op_memorySize oper = Some f" "f st = Some need"
  shows "need \<le> int (unat ms)"
proof -
  obtain sz where sz: "big_u64 need = eok sz" and ms: "safe_mul (toWordSize sz) 32 = eok ms"
    using assms by (auto simp: memory_request_def ebind_eq_ok)
  have "\<bar>need\<bar> < 2 ^ 64" "sz = Uint64 need"
    using sz BitLen_le [of need 64] by (auto simp: big_u64_def bigUint64_def split: if_splits)
  then have "need \<le> int (unat sz)"
    by (cases "need < 0") (simp_all add: unat_Uint64 order_trans [OF less_imp_le uint_ge_0])
  moreover have "unat sz \<le> unat ms"
    using safe_mul_ok [OF ms] by (simp add: toWordSize_spec)
  ultimately show ?thesis by linarith
qed

text \<open>What the instruction finds once it has been paid for and its memory is allocated.\<close>

lemma charged_safe:
  assumes "frame_safe B fr" "admitted fr ms" "charged ms fr fr1"
  defines "fr2 \<equiv> resized ms fr1"
  shows "env_safe fr2" "fr_stack fr2 = fr_stack fr" "fr_pc fr2 = fr_pc fr" "mem_safe (fr_mem fr2)" "mem_ready (cur_oper fr) fr2"
    "room B (budget (cur_op fr) fr2 + op_least (cur_oper fr)) fr2"
    "op_least (cur_oper fr) = 1 \<Longrightarrow> unat (fr_pc fr) < length (ct_Code (fr_contract fr))"
    "\<exists>db g. db_quiet (fr_db fr) db \<and> fr_db fr2 = db \<and> fr_contract fr2 = (fr_contract fr)\<lparr>ct_Gas := g\<rparr>"
proof -
  let ?oper = "cur_oper fr"
  have m: "metered (fr_evm fr)" and gt: "std_gas_table (in_gasTable (fr_evm fr))" "\<not> DisableGasMetering (evm_vmConfig (fr_evm fr))"
    using assms(1) by (simp_all add: frame_safe_def env_safe_def evm_safe_def metered_def std_evm_def)
  obtain db t l g where fr1: "fr1 = fr\<lparr>fr_evm := (fr_evm fr)\<lparr>evm_StateDB := db, evm_callGasTemp := t\<rparr>,
      fr_mem := (fr_mem fr)\<lparr>mem_lastGasCost := l\<rparr>, fr_contract := (fr_contract fr)\<lparr>ct_Gas := ct_Gas (fr_contract fr) - g\<rparr>\<rparr>"
    "db_quiet (fr_db fr) db" "ms \<le> 0xffffffffe0"
    using chargedE [OF assms(3,2) gt(1)] gt(2) by metis
  have "db_safe db"
    using assms(1) fr1(2) by (auto simp: frame_safe_def env_safe_def evm_safe_def db_safe_def db_quiet_def intro: order_trans)
  then have "env_safe fr1"
    using assms(1) by (simp add: fr1(1) frame_safe_def env_safe_def contract_safe_def)
  then show "env_safe fr2"
    by (simp add: fr2_def resized_def)
  show stack: "fr_stack fr2 = fr_stack fr" "fr_pc fr2 = fr_pc fr"
    and "\<exists>db g. db_quiet (fr_db fr) db \<and> fr_db fr2 = db \<and> fr_contract fr2 = (fr_contract fr)\<lparr>ct_Gas := g\<rparr>"
    using fr1(2) by (auto simp: fr2_def resized_def fr1(1))
  have "mem_Len (fr_mem fr1) = mem_Len (fr_mem fr)"
    by (simp add: fr1(1) mem_Len_def)
  then have len: "mem_Len (fr_mem fr2) = max (mem_Len (fr_mem fr)) (unat ms)"
    by (simp add: fr2_def resized_def word_gt_0)
  then have "need \<le> int (mem_Len (fr_mem fr2))" if "op_memorySize ?oper = Some f" "f (fr_stack fr) = Some need" for f need
    using memory_request_covers [OF _ that, of ms] assms(2) by (simp add: admitted_def of_nat_max le_max_iff_disj)
  then show "mem_safe (fr_mem fr2)" "mem_ready ?oper fr2"
    using assms(1) fr1(3) len stack by (simp_all add: mem_safe_def mem_ready_def frame_safe_def word_le_nat_alt)
  have "unat (ct_Gas (fr_contract fr2)) + budget (cur_op fr) fr2 + op_least ?oper \<le> unat (ct_Gas (fr_contract fr))"
    using charged_budget [OF assms(3,2) m] budget_resized [of "cur_op fr" ms fr1] by (simp add: fr2_def resized_def)
  moreover have "GetNonce (fr_db fr2) (self_Address fr2) = GetNonce (fr_db fr) (self_Address fr)"
    using fr1(2) by (simp add: fr2_def resized_def fr1(1) db_quiet_def self_Address_def)
  ultimately show "room B (budget (cur_op fr) fr2 + op_least ?oper) fr2"
    using assms(1) by (simp add: frame_safe_def room_def)
  show "unat (fr_pc fr) < length (ct_Code (fr_contract fr))" if "op_least ?oper = 1"
    using that table_all_JumpTable [OF zero_halts_table] assms(2)
    by (auto simp: admitted_def GetOp_def GetByte_def split: if_splits)
qed

lemma step_safe:
  assumes "frame_safe B fr"
  shows "wp False True (step interp fr) (\<lambda>r. case r of Next fr' \<Rightarrow> frame_safe B fr' | Halt fr' ret err \<Rightarrow> halt_safe B fr')"
proof (rule wp_stepI)
  fix ms assume adm: "admitted fr ms"
  let ?oper = "cur_oper fr"
  have gt: "std_gas_table (in_gasTable (fr_evm fr))"
    using assms by (simp add: frame_safe_def env_safe_def evm_safe_def metered_def std_evm_def)
  show "wp False True (exec_op interp ?oper ms fr) (\<lambda>r. case r of Next fr' \<Rightarrow> frame_safe B fr' | Halt fr' ret err \<Rightarrow> halt_safe B fr')"
  proof (rule wp_exec_opI [OF adm gt])
    fix fr1 assume ch: "charged ms fr fr1"
    let ?fr = "resized ms fr1"
    note safe = charged_safe [OF assms adm ch]
    have "op_pop ?oper \<le> length (stack_tops (fr_stack ?fr))"
      using validated_len [of ?oper "fr_stack fr"] adm by (simp add: admitted_def safe(2))
    moreover have "op_least ?oper = 1 \<longrightarrow> unat (fr_pc ?fr) < length (ct_Code (fr_contract ?fr))"
      using safe(3,7,8) by auto
    moreover have "stack_safe ?fr"
      using assms by (simp add: safe(2) frame_safe_def)
    ultimately have "wp False False (op_execute ?oper interp ?fr) (\<lambda>r. frame_safe B (fst r))"
      using table_all_JumpTable [OF op_safe_table] adm safe(1,4-6) unfolding op_safe_def by (simp add: admitted_def)
    then show "wp False True (op_execute ?oper interp ?fr) (\<lambda>r. case finish_step ?oper r of Next fr' \<Rightarrow> frame_safe B fr' | Halt fr' ret err \<Rightarrow> halt_safe B fr')"
      by (cases "op_execute ?oper interp ?fr")
        (auto simp: finish_step_def frame_safe_def halt_safe_def env_safe_def evm_safe_def metered_def std_evm_def room_def self_Address_def Let_def split: if_splits)
  next
    fix db t l assume db: "db_quiet (evm_StateDB (fr_evm fr)) db"
    have "db_safe db"
      using assms db by (auto simp: frame_safe_def env_safe_def evm_safe_def db_safe_def db_quiet_def intro: order_trans)
    then show "case Halt (fr\<lparr>fr_evm := (fr_evm fr)\<lparr>evm_StateDB := db, evm_callGasTemp := t\<rparr>, fr_mem := (fr_mem fr)\<lparr>mem_lastGasCost := l\<rparr>\<rparr>)
        [] (Some ErrOutOfGas) of Next fr' \<Rightarrow> frame_safe B fr' | Halt fr' ret err \<Rightarrow> halt_safe B fr'"
      using assms db by (simp add: halt_safe_def frame_safe_def room_def db_quiet_def self_Address_def)
  qed
qed (simp add: frame_halt_safe assms)

lemma Run_loop_halts: "frame_safe B fr \<Longrightarrow> wp False True (Run_loop n fr) (\<lambda>(fr', r). halt_safe B fr')"
proof (induction n arbitrary: fr)
  case (Suc n)
  have "wp False True (step (Interpreter_Run (Run_loop n)) fr) (\<lambda>r. wp False True
      (case r of Next fr \<Rightarrow> Run_loop n fr | Halt fr ret err \<Rightarrow> Done (fr, ret, err)) (\<lambda>(fr', r). halt_safe B fr'))"
    by (rule wp_mono [OF step_safe [OF Suc.prems]]) (use Suc.IH in \<open>auto split: step_res.splits\<close>)
  then show ?case using frame_halt_safe [OF Suc.prems] by simp
qed simp

lemma Run_loop_safe: "frame_safe B fr \<Longrightarrow> wp False True (Run_loop n fr) (\<lambda>_. True)"
  by (rule wp_mono [OF Run_loop_halts]) simp_all

text \<open>A run started from the top level, on a contract just loaded from the state.\<close>

lemma Run_safe:
  assumes "evm_safe e" "contract_safe c" "length inp < 2 ^ 62"
    "unat (GetNonce (evm_StateDB e) (ct_self c)) + unat (ct_Gas c) < 2 ^ 64 - 1"
  shows "wp False True (Run n e c inp) (\<lambda>_. True)"
proof -
  have "evm_safe (enter e)"
    using assms(1) by (simp add: evm_safe_def)
  then have "frame_safe (2 ^ 64 - 1) (init_frame (enter e) c inp)"
    using assms by (simp add: frame_safe_def env_safe_def init_frame_def contract_safe_def mem_safe_def NewMemory_def mem_Len_def
        newstack_of_tops room_def self_Address_def)
  then have "wp False True (Run_loop n (init_frame (enter e) c inp)) (\<lambda>_. True)"
    by (rule Run_loop_safe)
  then show ?thesis
    by (auto simp: Run_def Interpreter_Run_def Let_def split_beta)
qed

lemma fuzz_evm_simps [simp]:
  "NoRecursion (evm_vmConfig (fuzz_evm crypto now db))" "GasPrice (evm_ctx (fuzz_evm crypto now db)) = 100"
  "evm_isByzantium (fuzz_evm crypto now db)"
  by (simp add: fuzz_config_def, simp add: fuzz_evm_def NewEVM_def detector_context_def, rule detector_isByzantium)

lemma fresh_accounts [simp]:
  "balance_of NewStateDB a = 0" "GetCode NewStateDB a = []" "GetNonce NewStateDB a = 0"
  by (simp_all add: balance_of_def GetCode_def GetNonce_def ensure_def NewStateDB_def newState_def)

lemma SetCode_balance [simp]: "balance_of (SetCode db a c) b = balance_of db b"
  by (simp add: SetCode_def balance_of_def)

lemma getData_empty: "getData [] start sz = Some (RightPadBytes [] (sint sz))"
proof -
  have "(if 0 < w then 0 else w) = (0 :: u64)" for w
    by (simp add: word_gt_0)
  then show ?thesis by (simp add: getData_def Let_def slice_def word_gt_0)
qed

lemma precompiled_empty: "wp False False (RunPrecompiledContract cr p [] c) (\<lambda>_. True)"
proof -
  have r: "SetBytes (take 32 (drop 64 (RightPadBytes [] 128))) < 1"
    using SetBytes_replicate_zero [of _ "[]"] by (simp add: RightPadBytes_def)
  have "wp False False (precompiled_Run cr p []) Q" if "\<And>x. Q x" for Q
    using that r by (cases p) (auto simp: ecrecover_Run_def ValidateSignatureValues_def bigModExp_Run_def modexp_len_def modexp_body_def getData_empty
      bn256Add_Run_def bn256ScalarMul_Run_def bn256Pairing_Run_def Let_def pairing_points.simps ebind_def split: sum.splits prod.splits)
  moreover have "RequiredGas p [] \<noteq> None"
    by (cases p) (auto simp: bigModExp_RequiredGas_def modexp_len_def modexp_expHead_def modexp_body_def getData_empty Let_def)
  ultimately show ?thesis
    by (auto simp: RunPrecompiledContract_def split_beta)
qed

lemma run_empty_safe: "wp False True (run interp e c []) (\<lambda>_. True)" if "wp False True (interp e c []) (\<lambda>_. True)"
proof -
  have "wp False True (RunPrecompiledContract cr p [] c) (\<lambda>_. True)" for cr p
    using precompiled_empty [of cr p c] by (cases "RunPrecompiledContract cr p [] c") simp_all
  then show ?thesis
    using that by (auto simp: run_def split_beta)
qed

lemma end_create_safe: "wp False True m (\<lambda>_. True) \<Longrightarrow> wp False True (rbind m (end_create sn a)) (\<lambda>_. True)"
  by (auto simp: end_create_def Let_def split_beta)

section \<open>Properties\<close>

text \<open>
  C3. No program makes the fuzzer's interpreter panic: in the configuration the fuzzer runs contracts in (nested calls
  off, gas metering on), a call from an external account to an account that is no precompiled contract always returns
  a result or an error, whatever the code, the input and the storage are, and with at most the gas it was given.
\<close>

theorem fuzz_call_returns:
  assumes "metered evm" "NoRecursion (evm_vmConfig evm)" "0 \<le> GasPrice (evm_ctx evm)"
    and "\<forall>a. 0 \<le> balance_of (evm_StateDB evm) a \<and> length (GetCode (evm_StateDB evm) a) < 2 ^ 62"
    and "precompile_at evm addr = None" "length input < 2 ^ 62" "0 \<le> value"
    and "unat (GetNonce (evm_StateDB evm) addr) + unat gas < 2 ^ 64 - 1" "unat gas < n"
  shows "\<exists>evm' d ret left err. evm_Call n evm (AccountRef caller) addr input gas value = Done (evm', d, ret, left, err) \<and> left \<le> gas"
proof -
  let ?db = "Transfer (AddBalance (evm_StateDB evm) caller 100) caller addr value"
  let ?c = "callee (AccountRef caller) addr (Some value) gas (with_db evm ?db) addr"
  have std: "CanTransferFunc (evm_ctx evm) = CanTransfer" "TransferFunc (evm_ctx evm) = Transfer"
    using assms(1) by (simp_all add: metered_def std_evm_def)
  have "wp False True (Run n (with_db evm ?db) ?c input) (\<lambda>_. True)" if "value \<le> balance_of (evm_StateDB evm) caller + 100"
  proof (rule Run_safe)
    have "db_safe ?db"
      using assms(4,7) that by (auto simp: db_safe_def Transfer_def)
    then show "evm_safe (with_db evm ?db)"
      using assms(1-3) by (simp add: evm_safe_def)
    show "contract_safe ?c"
      using assms(4,7) by (simp add: contract_safe_def callee_def SetCallCode_def NewContract_def ref_jumpdests_def coherent_def Transfer_def)
    show "unat (GetNonce (evm_StateDB (with_db evm ?db)) (ct_self ?c)) + unat (ct_Gas ?c) < 2 ^ 64 - 1"
      using assms(8) by (simp add: callee_def SetCallCode_def NewContract_def Transfer_def)
  qed (rule assms(6))
  moreover have "precompile_at (with_db evm ?db) addr = None"
    using assms(5) by (simp add: precompile_at_def evm_isByzantium_def)
  ultimately have "wp False True (evm_Call n evm (AccountRef caller) addr input gas value) (\<lambda>_. True)"
    using std by (auto simp: evm_Call_def Call_def CanTransfer_eq Exist_def Let_def ref_Address_def run_def callee_def SetCallCode_def
        end_call_def split_beta)
  moreover have "wp True False (evm_Call n evm (AccountRef caller) addr input gas value) (\<lambda>(e', d, ret, g', err). unat g' \<le> unat gas)"
    using calls_bound(1) [OF run_bounded_Run assms(1) assms(9)] by (simp add: evm_Call_def)
  ultimately show ?thesis
    by (cases "evm_Call n evm (AccountRef caller) addr input gas value") (auto simp: word_le_nat_alt)
qed

theorem fuzz_call_returns_witness:
  "\<forall>crypto now. \<exists>evm' d ret left err.
    evm_Call 1001 (fuzz_evm crypto now sample_db) (AccountRef ContractCreater) ContractAttacker [1, 2, 3] 1000 7 =
      Done (evm', d, ret, left, err) \<and> left \<le> 1000"
  by (intro allI fuzz_call_returns)
    (simp_all add: sample_not_precompiled sample_db_def code.gt_st sample_code_def fuzz_config_def)

text \<open>
  C16. Deploying a contract in the same configuration always returns: whatever the init code, the creation ends with an
  address or an error, never with a panic, as long as the creator's nonce is not the largest 64-bit number.
\<close>

theorem fuzz_create_returns:
  assumes "metered evm" "NoRecursion (evm_vmConfig evm)" "0 \<le> GasPrice (evm_ctx evm)"
    and "\<forall>a. 0 \<le> balance_of (evm_StateDB evm) a \<and> length (GetCode (evm_StateDB evm) a) < 2 ^ 62"
    and "length code < 2 ^ 62" "0 \<le> value"
    and "GetNonce (evm_StateDB evm) caller \<noteq> - 1" "unat gas + 1 < 2 ^ 64 - 1" "unat gas < n"
  shows "\<exists>evm' d ret addr left err. evm_Create n evm (AccountRef caller) code gas value = Done (evm', d, ret, addr, left, err) \<and> left \<le> gas"
proof -
  let ?db = "evm_StateDB evm" and ?n = "GetNonce (evm_StateDB evm) caller"
  let ?db2 = "SetNonce (AddBalance ?db caller 100) caller (?n + 1)" and ?ca = "CreateAddress caller ?n"
  let ?c = "SetCallCode (NewContract (AccountRef caller) ?ca (Some value) gas) ?ca (Keccak256Hash code) code"
  have std: "CanTransferFunc (evm_ctx evm) = CanTransfer" "TransferFunc (evm_ctx evm) = Transfer" "db_safe ?db"
    using assms(1,4) by (simp_all add: metered_def std_evm_def db_safe_def)
  have run: "wp False True (Run n (with_db evm (Transfer db' caller ?ca value)) ?c []) (\<lambda>_. True)"
    if "value \<le> balance_of ?db caller + 100" "GetNonce ?db2 ?ca = 0" "db' = SetNonce (CreateAccount ?db2 ?ca) ?ca 1 \<or> db' = CreateAccount ?db2 ?ca" for db'
  proof (rule Run_safe)
    note safe = created_db_safe [OF std(3) assms(6) that(1) assms(7) that(2,3)]
    show "evm_safe (with_db evm (Transfer db' caller ?ca value))"
      using assms(1-3) safe(1) by (simp add: evm_safe_def)
    show "contract_safe ?c"
      using assms(5,6) by (simp add: contract_safe_def SetCallCode_def NewContract_def ref_jumpdests_def coherent_def)
    show "unat (GetNonce (evm_StateDB (with_db evm (Transfer db' caller ?ca value))) (ct_self ?c)) + unat (ct_Gas ?c) < 2 ^ 64 - 1"
      using assms(8) safe(3) by (simp add: SetCallCode_def NewContract_def)
  qed simp
  have "wp False True (evm_Create n evm (AccountRef caller) code gas value) (\<lambda>_. True)"
    using std
    by (auto simp: evm_Create_def Create_def CanTransfer_eq Let_def ref_Address_def simp del: wp_rbind
        intro!: end_create_safe run_empty_safe run)
  moreover have "wp True False (evm_Create n evm (AccountRef caller) code gas value) (\<lambda>(e', d, ret, a, g', err). unat g' \<le> unat gas)"
    using calls_bound(5) [OF run_bounded_Run assms(1) assms(9)] by (simp add: evm_Create_def)
  ultimately show ?thesis
    by (cases "evm_Create n evm (AccountRef caller) code gas value") (auto simp: word_le_nat_alt)
qed

theorem fuzz_create_returns_witness:
  "\<forall>crypto now. \<exists>evm' d ret addr left err.
    evm_Create 1001 (fuzz_evm crypto now NewStateDB) (AccountRef ContractCreater) sample_code 1000 0 =
      Done (evm', d, ret, addr, left, err) \<and> left \<le> 1000"
  by (intro allI fuzz_create_returns) (simp_all add: sample_code_def fuzz_config_def)

end
