(* ===== verification/Detection.thy ===== *)
theory Detection
  imports No_Panic
begin

text \<open>
  What the fuzzer detects. Every entry of the instruction table is shown to write at most one slot of the running
  contract: the marker of ADD, SUB, MUL or DIV on a result out of range, or the slot SSTORE names. Over the frames of a
  run this gives the history of each slot, and with it the meaning of the check the fuzzer
  (\<^verbatim>\<open>src/detectors/fuzzint.go\<close>) makes after a call.
\<close>

section \<open>The storage an instruction writes\<close>

text \<open>The result of ADD, SUB, MUL and DIV on exact integers; other instructions have none.\<close>

definition exact_result :: "OpCode \<Rightarrow> int \<Rightarrow> int \<Rightarrow> int option" where
  "exact_result op x y =
    (if op = ADD then Some (x + y) else if op = SUB then Some (x - y) else if op = MUL then Some (x * y)
     else if op = DIV \<and> y \<noteq> 0 then Some (big_Div x y) else None)"

definition marker_of :: "OpCode \<Rightarrow> string" where
  "marker_of op = (if op = ADD then marker_Add else if op = SUB then marker_Sub else if op = MUL then marker_Mul else marker_Div)"

text \<open>The instruction the frame is about to execute leaves the range of 256-bit words.\<close>

definition overflowing :: "OpCode \<Rightarrow> Frame \<Rightarrow> bool" where
  "overflowing op fr \<longleftrightarrow>
    (case stack_tops (fr_stack fr) of
       x # y # xs \<Rightarrow> (case exact_result op x y of None \<Rightarrow> False | Some r \<Rightarrow> r < 0 \<or> 2 ^ 256 \<le> r)
     | _ \<Rightarrow> False)"

definition slot_write :: "OpCode \<Rightarrow> Frame \<Rightarrow> (Hash \<times> Hash) option" where
  "slot_write op fr =
    (if overflowing op fr then Some (StringToHash (marker_of op), BigToHash (sint (fr_pc fr)))
     else if op = SSTORE then
       (case stack_tops (fr_stack fr) of x # y # xs \<Rightarrow> Some (BigToHash x, BigToHash y) | _ \<Rightarrow> None)
     else None)"

definition own_slot :: "Frame \<Rightarrow> Hash \<Rightarrow> Hash" where
  "own_slot fr k = storage_at (fr_db fr) (self_Address fr, k)"

definition after_write :: "(Hash \<times> Hash) option \<Rightarrow> (Hash \<Rightarrow> Hash) \<Rightarrow> Hash \<Rightarrow> Hash" where
  "after_write w s = (case w of None \<Rightarrow> s | Some (k, v) \<Rightarrow> s(k := v))"

definition op_stores :: "OpCode \<Rightarrow> operation \<Rightarrow> bool" where
  "op_stores op oper \<longleftrightarrow> (\<forall>interp fr B. env_safe fr \<longrightarrow> stack_safe fr \<longrightarrow> room B (op_least oper) fr \<longrightarrow>
     wp True True (op_execute oper interp fr) (\<lambda>r.
       self_Address (fst r) = self_Address fr \<and> ct_Code (fr_contract (fst r)) = ct_Code (fr_contract fr) \<and>
       own_slot (fst r) = after_write (slot_write op fr) (own_slot fr) \<and>
       (slot_write op fr \<noteq> None \<longrightarrow> snd (snd r) = None \<and> \<not> op_halts oper \<and> \<not> op_reverts oper)))"

lemma U256_same: "r = U256 r \<longleftrightarrow> \<not> (r < 0 \<or> 2 ^ 256 \<le> r)"
  using U256_id [of r] U256_nonneg [of r] U256_less [of r] by (metis linorder_not_less)

lemma slot_write_other [simp]:
  "op \<noteq> ADD \<Longrightarrow> op \<noteq> SUB \<Longrightarrow> op \<noteq> MUL \<Longrightarrow> op \<noteq> DIV \<Longrightarrow> op \<noteq> SSTORE \<Longrightarrow> slot_write op fr = None"
  by (simp add: slot_write_def overflowing_def exact_result_def split: list.split)

lemma slot_write_ops:
  "slot_write ADD fr = (if overflowing ADD fr then Some (StringToHash marker_Add, BigToHash (sint (fr_pc fr))) else None)"
  "slot_write SUB fr = (if overflowing SUB fr then Some (StringToHash marker_Sub, BigToHash (sint (fr_pc fr))) else None)"
  "slot_write MUL fr = (if overflowing MUL fr then Some (StringToHash marker_Mul, BigToHash (sint (fr_pc fr))) else None)"
  "slot_write DIV fr = (if overflowing DIV fr then Some (StringToHash marker_Div, BigToHash (sint (fr_pc fr))) else None)"
  "slot_write SSTORE fr = (case stack_tops (fr_stack fr) of x # y # xs \<Rightarrow> Some (BigToHash x, BigToHash y) | _ \<Rightarrow> None)"
  by (simp_all add: slot_write_def marker_of_def, simp add: overflowing_def exact_result_def split: list.split)

lemma storage_SetState: "storage_at (SetState db a k v) = (storage_at db)((a, k) := v)"
  using storage.gt_st [of db "(a, k)" v] by (auto simp: fun_eq_iff)

lemmas stores_simps = frontier_defs op_stores_def slot_write_ops overflowing_def exact_result_def Let_def split_beta
  storage_SetState own_slot_def after_write_def fun_eq_iff self_Address_def

lemma op_stores_arith: "list_all (\<lambda>(op, oper). op_stores op oper) frontier_arith"
  by (auto simp: stores_simps arith_ops flow_ops U256_same mark_def not_le)

lemma op_stores_logic: "list_all (\<lambda>(op, oper). op_stores op oper) frontier_logic"
  by (auto simp: stores_simps arith_ops env_ops AddPreimage_def)

lemma op_stores_env: "list_all (\<lambda>(op, oper). op_stores op oper) frontier_env"
  by (auto simp: stores_simps env_ops GetBalance_eq)

lemma op_stores_block: "list_all (\<lambda>(op, oper). op_stores op oper) frontier_block"
  by (auto simp: stores_simps env_ops flow_ops)

lemma op_stores_flow: "list_all (\<lambda>(op, oper). op_stores op oper) frontier_flow"
  by (auto simp: stores_simps flow_ops)

lemma slot_write_family: "96 \<le> unat op \<Longrightarrow> slot_write op fr = None"
  by (rule slot_write_other) auto

lemma op_stores_families:
  "list_all (\<lambda>(op, oper). op_stores op oper) frontier_push"
  "list_all (\<lambda>(op, oper). op_stores op oper) frontier_dup"
  "list_all (\<lambda>(op, oper). op_stores op oper) frontier_swap"
proof -
  note big = list_all_families [of "\<lambda>op oper. 96 \<le> unat op"]
  have "op_stores op (mkop (\<lambda>_. makePush sz n) g 0 1)" "op_stores op (mkop (\<lambda>_. makeDup n) g a b)" "op_stores op (mkop (\<lambda>_. makeSwap n) g a b)"
    if "96 \<le> unat op" for op sz n g a b
    using that by (auto simp: stores_simps slot_write_family family_ops)
  with big show "list_all (\<lambda>(op, oper). op_stores op oper) frontier_push"
    "list_all (\<lambda>(op, oper). op_stores op oper) frontier_dup"
    "list_all (\<lambda>(op, oper). op_stores op oper) frontier_swap"
    by (auto simp: frontier_push_def frontier_dup_def frontier_swap_def list_all_iff)
qed

lemma op_stores_log: "list_all (\<lambda>(op, oper). op_stores op oper) frontier_log"
  by (auto simp: stores_simps makeLog_def)

lemma finish_call_stores:
  "wp True True (finish_call ro rs puts fr (fr_evm fr, ct_jumpdests (fr_contract fr), [], g, None)) (\<lambda>r.
    ct_self (fr_contract (fst r)) = ct_self (fr_contract fr) \<and> ct_Code (fr_contract (fst r)) = ct_Code (fr_contract fr) \<and>
    fr_db (fst r) = fr_db fr)"
  by (auto simp: finish_call_def Let_def set_gas_def)

lemma op_stores_calls:
  "op_stores CALL ((mkop opCall gc n m)\<lparr>op_memorySize := ms, op_returns := True\<rparr>)"
  "op_stores CALLCODE ((mkop opCallCode gc n m)\<lparr>op_memorySize := ms, op_returns := True\<rparr>)"
  "op_stores DELEGATECALL ((mkop opDelegateCall gc n m)\<lparr>op_memorySize := ms, op_returns := True\<rparr>)"
  "op_stores STATICCALL ((mkop opStaticCall gc n m)\<lparr>op_memorySize := ms, op_returns := True\<rparr>)"
  by (auto simp: op_stores_def after_write_def own_slot_def self_Address_def opCall_def opCallCode_def opDelegateCall_def opStaticCall_def
    fput_def calls_NoRecursion env_safe_NoRecursion ref_jumpdests_def Let_def finish_call_def set_gas_def set_evm_jumps_def)

lemma op_stores_halts:
  "op_stores RETURN ((mkop (\<lambda>_. opReturn) gc 2 m)\<lparr>op_memorySize := Some memoryReturn, op_halts := True\<rparr>)"
  "op_stores SELFDESTRUCT ((mkop (\<lambda>_. opSuicide) gc 1 m)\<lparr>op_halts := True, op_writes := True\<rparr>)"
  "op_stores REVERT ((mkop (\<lambda>_. opRevert) gc 2 m)\<lparr>op_memorySize := Some memoryRevert, op_reverts := True, op_returns := True\<rparr>)"
  "op_stores RETURNDATASIZE (mkop (\<lambda>_. opReturnDataSize) gc 0 m)"
  "op_stores RETURNDATACOPY ((mkop (\<lambda>_. opReturnDataCopy) gc 3 m)\<lparr>op_memorySize := Some memoryReturnDataCopy\<rparr>)"
  by (auto simp: stores_simps flow_ops env_ops GetBalance_eq)

lemma storage_CreateAccount: "storage_at (CreateAccount db a) (b, k) = (if b = a then zeroHash else storage_at db (b, k))"
  by (simp add: storage_at_ensure CreateAccount_def newState_def)

lemma Create_stores:
  assumes "evm_safe e" "0 < evm_depth e" "GetNonce (evm_StateDB e) (ref_Address caller) \<noteq> - 1"
  shows "wp True True (Create interp e caller code g v) (\<lambda>r.
    \<forall>k. storage_at (evm_StateDB (fst r)) (ref_Address caller, k) = storage_at (evm_StateDB e) (ref_Address caller, k))"
proof -
  let ?a = "ref_Address caller" and ?db = "evm_StateDB e"
  have e: "CanTransferFunc (evm_ctx e) = CanTransfer" "TransferFunc (evm_ctx e) = Transfer" "NoRecursion (evm_vmConfig e)"
    using assms(1) by (simp_all add: evm_safe_def metered_def std_evm_def)
  have "GetNonce ?db ?a + 1 \<noteq> 0"
    using assms(3) by (metis add_eq_0_iff add.commute)
  then have "GetNonce (SetNonce db ?a (GetNonce ?db ?a + 1)) ?a \<noteq> 0" for db
    by (simp add: nonce.gt_st)
  then show ?thesis
    using assms(2) e by (auto simp: Create_def CanTransfer_eq Let_def storage_CreateAccount Transfer_def)
qed

lemma op_stores_create:
  "op_stores CREATE ((mkop opCreate gc n m)\<lparr>op_memorySize := ms, op_writes := True, op_returns := True\<rparr>)"
proof -
  have key: "wp True True (Create interp (fr_evm fr) (CallerContract c) input g v) (\<lambda>r.
    \<forall>k. storage_at (evm_StateDB (fst r)) (ct_self (fr_contract fr), k) = storage_at (fr_db fr) (ct_self (fr_contract fr), k))"
    if "env_safe fr" "\<exists>B. room B (Suc 0) fr" "ct_self c = ct_self (fr_contract fr)" for interp fr g c input v
  proof -
    have "unat (- 1 :: u64) = 2 ^ 64 - 1" by (simp add: unsigned_minus_1_eq_mask mask_eq_exp_minus_1)
    then have "GetNonce (fr_db fr) (self_Address fr) \<noteq> - 1"
      using that(2) by (auto simp: room_def)
    then show ?thesis
      using Create_stores [of "fr_evm fr" "CallerContract c" interp input g v] that(1,3)
      by (simp add: env_safe_def ref_Address_def self_Address_def)
  qed
  show ?thesis
    unfolding op_stores_def opCreate_def
    by (simp add: op_least_def Let_def UseGas_def after_write_def own_slot_def self_Address_def fun_eq_iff; intro allI impI conjI;
      rule wp_mono [OF key]; auto simp: set_gas_def set_evm_jumps_def)
qed

lemma op_stores_table: "table_all op_stores"
  unfolding table_all_def NewByzantiumInstructionSet_def NewHomesteadInstructionSet_def NewFrontierInstructionSet_def
    list_all_append frontier_call_def list_all_Cons list_all_Nil split_conv
  by (intro conjI TrueI op_stores_arith op_stores_logic op_stores_env op_stores_block op_stores_flow op_stores_families
      op_stores_log op_stores_create op_stores_calls op_stores_halts)

section \<open>The program counter\<close>

text \<open>An instruction moves the program counter forward by at most 33, or to a jump destination of the code.\<close>

definition op_moves :: "OpCode \<Rightarrow> operation \<Rightarrow> bool" where
  "op_moves op oper \<longleftrightarrow> (\<forall>interp fr. env_safe fr \<longrightarrow> stack_safe fr \<longrightarrow>
     wp True True (op_execute oper interp fr) (\<lambda>r. snd (snd r) = None \<longrightarrow>
       (if op_jumps oper then fr_pc (fst r) = fr_pc fr + 1 \<or> GetOp (fr_contract (fst r)) (fr_pc (fst r)) = JUMPDEST
        else \<exists>k\<le>32. fr_pc (fst r) = fr_pc fr + of_nat k)))"

lemma has_JUMPDEST:
  assumes "env_safe fr" "0 \<le> pos"
    "has (ct_jumpdests (fr_contract fr)) (ct_CodeHash (fr_contract fr)) (ct_Code (fr_contract fr)) pos = Some (True, d)"
  shows "GetOp ((fr_contract fr)\<lparr>ct_jumpdests := d\<rparr>) (Uint64 pos) = JUMPDEST"
  using assms has_spec [of "ct_jumpdests (fr_contract fr)" "ct_CodeHash (fr_contract fr)" "ct_Code (fr_contract fr)" pos]
  by (auto simp: env_safe_def contract_safe_def valid_jumpdest_def GetOp_def GetByte_def unat_Uint64)

lemma moves_zero: "\<exists>k\<le>32. (pc :: u64) = pc + of_nat k"
  by (rule exI [of _ 0]) simp

lemmas moves_simps = frontier_defs op_moves_def Let_def split_beta moves_zero

lemma op_moves_groups:
  "list_all (\<lambda>(op, oper). op_moves op oper) frontier_arith"
  "list_all (\<lambda>(op, oper). op_moves op oper) frontier_logic"
  "list_all (\<lambda>(op, oper). op_moves op oper) frontier_env"
  "list_all (\<lambda>(op, oper). op_moves op oper) frontier_block"
  by (auto simp: moves_simps arith_ops env_ops flow_ops)

lemma op_moves_flow: "list_all (\<lambda>(op, oper). op_moves op oper) frontier_flow"
  by (auto simp: moves_simps flow_ops has_JUMPDEST)

lemma moves_push: "n < 33 \<Longrightarrow> \<exists>k\<le>32. word_of_nat n = (word_of_nat k :: u64)"
  by (rule exI [of _ n]) simp

lemma op_moves_families:
  "list_all (\<lambda>(op, oper). op_moves op oper) frontier_push"
  "list_all (\<lambda>(op, oper). op_moves op oper) frontier_dup"
  "list_all (\<lambda>(op, oper). op_moves op oper) frontier_swap"
  "list_all (\<lambda>(op, oper). op_moves op oper) frontier_log"
  by (auto simp: moves_simps family_ops list_all_iff moves_push)

lemma op_moves_calls: "list_all (\<lambda>(op, oper). op_moves op oper) frontier_call"
  by (simp_all add: frontier_call_def op_moves_def call_ops flow_ops split_beta Let_def moves_zero)
    (auto intro!: wp_any simp: moves_zero)

lemma op_moves_rest:
  "op_moves op ((mkop opDelegateCall gc n m)\<lparr>op_memorySize := ms, op_returns := True\<rparr>)"
  "op_moves op ((mkop opStaticCall gc n m)\<lparr>op_memorySize := ms, op_returns := True\<rparr>)"
  "op_moves op (mkop (\<lambda>_. opReturnDataSize) gc n m)"
  "op_moves op ((mkop (\<lambda>_. opReturnDataCopy) gc n m)\<lparr>op_memorySize := ms\<rparr>)"
  "op_moves op ((mkop (\<lambda>_. opRevert) gc n m)\<lparr>op_memorySize := ms, op_reverts := True, op_returns := True\<rparr>)"
  by (auto simp: op_moves_def call_ops flow_ops env_ops split_beta Let_def moves_zero intro!: wp_any)

lemma op_moves_table: "table_all op_moves"
  unfolding table_all_def NewByzantiumInstructionSet_def NewHomesteadInstructionSet_def NewFrontierInstructionSet_def
    list_all_append list_all_Cons list_all_Nil split_conv
  by (intro conjI TrueI op_moves_groups op_moves_flow op_moves_families op_moves_calls op_moves_rest)

section \<open>Steps and runs\<close>

lemma own_slot_quiet:
  assumes "db_quiet (fr_db fr) db" "fr_db fr' = db" "self_Address fr' = self_Address fr"
  shows "own_slot fr' = own_slot fr"
  using assms by (simp add: own_slot_def db_quiet_def fun_eq_iff)

lemma pc_forward:
  assumes "unat pc < 2 ^ 62" "k \<le> 32"
  shows "pc + of_nat k + 1 \<noteq> (0 :: u64)"
proof -
  have "unat (pc + of_nat k + 1) = unat pc + k + 1"
    using assms by (simp add: unat_word_ariths unat_of_nat)
  then show ?thesis by (metis add_is_0 one_neq_zero unat_0)
qed

lemma op_storesD:
  assumes "op_stores op oper" "env_safe fr" "stack_safe fr" "room B (op_least oper) fr"
  shows "wp True True (op_execute oper interp fr) (\<lambda>r.
       self_Address (fst r) = self_Address fr \<and> ct_Code (fr_contract (fst r)) = ct_Code (fr_contract fr) \<and>
       own_slot (fst r) = after_write (slot_write op fr) (own_slot fr) \<and>
       (slot_write op fr \<noteq> None \<longrightarrow> snd (snd r) = None \<and> \<not> op_halts oper \<and> \<not> op_reverts oper))"
  using assms unfolding op_stores_def by blast

lemma op_movesD:
  assumes "op_moves op oper" "env_safe fr" "stack_safe fr"
  shows "wp True True (op_execute oper interp fr) (\<lambda>r. snd (snd r) = None \<longrightarrow>
       (if op_jumps oper then fr_pc (fst r) = fr_pc fr + 1 \<or> GetOp (fr_contract (fst r)) (fr_pc (fst r)) = JUMPDEST
        else \<exists>k\<le>32. fr_pc (fst r) = fr_pc fr + of_nat k))"
  using assms unfolding op_moves_def by blast

lemma own_slot_keep [simp]:
  "own_slot (fr\<lparr>fr_evm := (fr_evm fr)\<lparr>in_returnData := d\<rparr>\<rparr>) = own_slot fr" "own_slot (fr\<lparr>fr_pc := pc\<rparr>) = own_slot fr"
  "self_Address (fr\<lparr>fr_evm := e\<rparr>) = self_Address fr" "self_Address (fr\<lparr>fr_pc := pc\<rparr>) = self_Address fr"
  by (simp_all add: own_slot_def self_Address_def fun_eq_iff)

lemma finish_step_stores:
  assumes "(self_Address (fst r) = self_Address fr \<and> ct_Code (fr_contract (fst r)) = ct_Code (fr_contract fr) \<and> own_slot (fst r) = after_write w (own_slot fr) \<and>
       (w \<noteq> None \<longrightarrow> snd (snd r) = None \<and> \<not> op_halts oper \<and> \<not> op_reverts oper)) \<and>
       (snd (snd r) = None \<longrightarrow>
       (if op_jumps oper then fr_pc (fst r) = fr_pc fr + 1 \<or> GetOp (fr_contract (fst r)) (fr_pc (fst r)) = JUMPDEST
        else \<exists>k\<le>32. fr_pc (fst r) = fr_pc fr + of_nat k))"
    and fwd: "\<And>k. op_least oper = 1 \<Longrightarrow> k \<le> 32 \<Longrightarrow> fr_pc fr + of_nat k + 1 \<noteq> 0"
  shows "case finish_step oper r of
      Next fr' \<Rightarrow> self_Address fr' = self_Address fr \<and> ct_Code (fr_contract fr') = ct_Code (fr_contract fr) \<and> own_slot fr' = after_write w (own_slot fr) \<and>
        (fr_pc fr' = 0 \<longrightarrow> cur_op fr' = JUMPDEST)
    | Halt fr' ret err \<Rightarrow> self_Address fr' = self_Address fr \<and> own_slot fr' = own_slot fr"
proof -
  have "after_write None s = s" for s by (simp add: after_write_def)
  then show ?thesis
    using assms(1) fwd fwd [of 0]
    by (cases r; cases w) (auto simp: finish_step_def Let_def op_least_def split: if_splits)
qed

lemma step_stores:
  assumes "frame_safe B fr"
  shows "wp True True (step interp fr) (\<lambda>r. case r of
      Next fr' \<Rightarrow> self_Address fr' = self_Address fr \<and> ct_Code (fr_contract fr') = ct_Code (fr_contract fr) \<and> own_slot fr' = after_write (slot_write (cur_op fr) fr) (own_slot fr) \<and>
        (fr_pc fr' = 0 \<longrightarrow> cur_op fr' = JUMPDEST)
    | Halt fr' ret err \<Rightarrow> self_Address fr' = self_Address fr \<and> own_slot fr' = own_slot fr)"
    (is "wp True True _ ?Q")
proof (rule wp_stepI)
  fix ms assume adm: "admitted fr ms"
  let ?oper = "cur_oper fr"
  have gt: "std_gas_table (in_gasTable (fr_evm fr))"
    using assms by (simp add: frame_safe_def env_safe_def evm_safe_def metered_def std_evm_def)
  show "wp True True (exec_op interp ?oper ms fr) ?Q"
  proof (rule wp_exec_opI [OF adm gt])
    fix fr1 assume ch: "charged ms fr fr1"
    let ?fr = "resized ms fr1"
    note safe = charged_safe [OF assms adm ch]
    obtain db g where fr2: "db_quiet (fr_db fr) db" "fr_db ?fr = db" "fr_contract ?fr = (fr_contract fr)\<lparr>ct_Gas := g\<rparr>"
      using safe(8) by blast
    have self: "self_Address ?fr = self_Address fr"
      by (simp add: self_Address_def fr2(3))
    have code: "ct_Code (fr_contract ?fr) = ct_Code (fr_contract fr)"
      by (simp add: fr2(3))
    have slots: "own_slot ?fr = own_slot fr"
      by (rule own_slot_quiet [OF fr2(1,2) self])
    have same: "slot_write op ?fr = slot_write op fr" for op
      by (simp add: slot_write_def overflowing_def safe(2,3))
    have ctx: "stack_safe ?fr" "room B (op_least ?oper) ?fr"
      using assms roomI [OF safe(6)] by (simp_all add: safe(2) frame_safe_def)
    have op: "op_stores (cur_op fr) ?oper" "op_moves (cur_op fr) ?oper"
      using table_all_JumpTable [OF op_stores_table] table_all_JumpTable [OF op_moves_table] adm by (simp_all add: admitted_def)
    note st = op_storesD [OF op(1) safe(1) ctx, of interp, unfolded self code slots same]
      and pc = op_movesD [OF op(2) safe(1) ctx(1), of interp, unfolded safe(3)]
    have "unat (fr_pc fr) < 2 ^ 62" if "op_least ?oper = 1"
      using safe(7) [OF that] assms by (simp add: frame_safe_def env_safe_def contract_safe_def)
    then have fwd: "fr_pc fr + of_nat k + 1 \<noteq> 0" if "op_least ?oper = 1" "k \<le> 32" for k
      using that pc_forward by blast
    from wp_conj [OF st pc]
    show "wp True True (op_execute ?oper interp ?fr) (\<lambda>r. ?Q (finish_step ?oper r))"
      by (rule wp_mono) (erule finish_step_stores, erule (1) fwd)
  next
    fix db t l assume "db_quiet (evm_StateDB (fr_evm fr)) db"
    then show "?Q (Halt (fr\<lparr>fr_evm := (fr_evm fr)\<lparr>evm_StateDB := db, evm_callGasTemp := t\<rparr>,
        fr_mem := (fr_mem fr)\<lparr>mem_lastGasCost := l\<rparr>\<rparr>) [] (Some ErrOutOfGas))"
      by (simp add: own_slot_def self_Address_def db_quiet_def fun_eq_iff)
  qed
qed simp

lemma step_stores_Next:
  assumes "frame_safe B fr" "step interp fr = Done (Next fr')"
  shows "frame_safe B fr'" "self_Address fr' = self_Address fr"
    "own_slot fr' = after_write (slot_write (cur_op fr) fr) (own_slot fr)" "fr_pc fr' = 0 \<Longrightarrow> cur_op fr' = JUMPDEST"
    "ct_Code (fr_contract fr') = ct_Code (fr_contract fr)"
  using step_stores [OF assms(1), of interp] step_safe [OF assms(1), of interp] by (simp_all add: assms(2))

lemma steps_safe: "steps interp fr0 fr \<Longrightarrow> frame_safe B fr0 \<Longrightarrow> frame_safe B fr"
  by (erule steps_invariant) (auto dest: step_stores_Next)

lemma steps_self: "steps interp fr0 fr \<Longrightarrow> frame_safe B fr0 \<Longrightarrow> self_Address fr = self_Address fr0"
  by (induction rule: steps.induct) (auto simp: step_stores_Next(2) dest: steps_safe)

lemma step_stores_Halt:
  assumes "frame_safe B fr" "step interp fr = Done (Halt fr' ret err)"
  shows "self_Address fr' = self_Address fr" "own_slot fr' = own_slot fr"
  using step_stores [OF assms(1), of interp] by (simp_all add: assms(2))

text \<open>A slot that differs from the start has been written by an instruction of the run.\<close>

lemma slot_provenance:
  assumes "steps interp fr0 fr" "frame_safe B fr0" "own_slot fr k \<noteq> own_slot fr0 k"
  shows "\<exists>fr1 fr2 v. steps interp fr0 fr1 \<and> step interp fr1 = Done (Next fr2) \<and> slot_write (cur_op fr1) fr1 = Some (k, v)"
  using assms
proof (induction rule: steps.induct)
  case (steps_step fr0 fr fr')
  show ?case
  proof (cases "own_slot fr k = own_slot fr0 k")
    case True
    then have "slot_write (cur_op fr) fr \<noteq> None \<and> fst (the (slot_write (cur_op fr) fr)) = k"
      using steps_step.prems step_stores_Next(3) [OF steps_safe [OF steps_step.hyps(1) steps_step.prems(1)] steps_step.hyps(2)]
      by (auto simp: after_write_def split: option.splits if_splits)
    then show ?thesis
      using steps_step.hyps by fastforce
  qed (use steps_step in blast)
qed simp

lemma slot_stays:
  assumes "steps interp fr0 fr" "frame_safe B fr0" "own_slot fr0 k \<noteq> z"
    and "\<And>fr v. steps interp fr0 fr \<Longrightarrow> slot_write (cur_op fr) fr = Some (k, v) \<Longrightarrow> v \<noteq> z"
  shows "own_slot fr k \<noteq> z"
  using assms
proof (induction rule: steps.induct)
  case (steps_step fr0 fr fr')
  then show ?case
    using step_stores_Next(3) [OF steps_safe [OF steps_step.hyps(1) steps_step.prems(1)] steps_step.hyps(2)]
    by (auto simp: after_write_def split: option.splits)
qed simp

lemma steps_first_cases:
  "steps interp fr fr' \<Longrightarrow> fr' = fr \<or> (\<exists>fr1. step interp fr = Done (Next fr1) \<and> steps interp fr1 fr')"
  by (induction rule: steps.induct) (auto intro: steps.intros)

text \<open>Steps are deterministic: a frame on the way lies before the frame where the run halts.\<close>

lemma steps_before_halt:
  assumes "steps interp fr0 fr1" "steps interp fr0 fr2" "step interp fr2 = Done (Halt fr' ret err)"
  shows "steps interp fr1 fr2"
  using assms by (induction rule: steps.induct) (auto dest: steps_first_cases)

section \<open>Markers\<close>

definition stores_marker :: "Frame \<Rightarrow> bool" where
  "stores_marker fr \<longleftrightarrow>
    cur_op fr = SSTORE \<and>
    (case stack_tops (fr_stack fr) of
       x # xs \<Rightarrow> BigToHash x \<in> set (map StringToHash [marker_Add, marker_Sub, marker_Mul, marker_Div])
     | [] \<Rightarrow> False)"

lemma marker_write:
  assumes "slot_write (cur_op fr) fr = Some (StringToHash m, v)" "m \<in> markers" "\<not> stores_marker fr"
  shows "overflowing (cur_op fr) fr" "v = BigToHash (sint (fr_pc fr))"
  using assms
  by (auto simp: slot_write_def stores_marker_def markers_def split: if_splits list.splits)

lemma overflow_write:
  assumes "overflowing (cur_op fr) fr"
  shows "\<exists>m\<in>markers. slot_write (cur_op fr) fr = Some (StringToHash m, BigToHash (sint (fr_pc fr)))"
  using assms by (auto simp: slot_write_def marker_of_def markers_def)

lemma overflow_code:
  assumes "overflowing (cur_op fr) fr" "frame_safe B fr"
  shows "unat (fr_pc fr) < 2 ^ 62"
proof -
  have "cur_op fr \<noteq> 0"
    using assms(1) by (auto simp: overflowing_def exact_result_def split: list.splits)
  then show ?thesis
    using assms(2) by (auto simp: GetOp_def GetByte_def frame_safe_def env_safe_def contract_safe_def split: if_splits)
qed

lemma overflow_pc:
  assumes "steps interp fr0 fr" "frame_safe B fr0" "stack_tops (fr_stack fr0) = []" "overflowing (cur_op fr) fr"
  shows "BigToHash (sint (fr_pc fr)) \<noteq> zeroHash"
proof -
  have "fr_pc fr = 0 \<longrightarrow> cur_op fr = JUMPDEST \<or> stack_tops (fr_stack fr) = []"
    using assms(1)
  proof (cases rule: steps.cases)
    case (steps_step fr')
    then show ?thesis
      using step_stores_Next(4) [OF steps_safe [OF _ assms(2)]] by auto
  qed (use assms(3) in simp)
  then have "fr_pc fr \<noteq> 0"
    using assms(4) by (auto simp: overflowing_def exact_result_def split: list.splits)
  then have "0 < unat (fr_pc fr)" "unat (fr_pc fr) < 2 ^ 62"
    using overflow_code [OF assms(4) steps_safe [OF assms(1,2)]] by (simp_all add: unat_gt_0)
  moreover from this(2) have "sint (fr_pc fr) = int (unat (fr_pc fr))"
    by (intro sint_small) simp
  ultimately obtain k where "sint (fr_pc fr) = int k" "0 < k" "k < 2 ^ 62"
    by blast
  then show ?thesis
    using BigToHash_inject [of "int k" 0] by (simp add: BigToHash_zero)
qed

text \<open>
  The markers at the end of a run that started on an empty stack with all markers empty: one of them is set exactly
  when the run executed an overflowing instruction.
\<close>

lemma markers_exact:
  assumes "frame_safe B fr0" "stack_tops (fr_stack fr0) = []" "\<forall>m\<in>markers. own_slot fr0 (StringToHash m) = zeroHash"
    and "\<forall>fr. steps interp fr0 fr \<longrightarrow> \<not> stores_marker fr"
    and "steps interp fr0 fr1" "step interp fr1 = Done (Halt fr' ret err)"
  shows "(\<exists>m\<in>markers. own_slot fr' (StringToHash m) \<noteq> zeroHash) \<longleftrightarrow>
    (\<exists>fr fr2. steps interp fr0 fr \<and> step interp fr = Done (Next fr2) \<and> overflowing (cur_op fr) fr)"
proof -
  have safe1: "frame_safe B fr1"
    by (rule steps_safe [OF assms(5,1)])
  have slots: "own_slot fr' = own_slot fr1"
    using step_stores_Halt(2) [OF safe1 assms(6)] .
  show ?thesis
  proof
    assume "\<exists>m\<in>markers. own_slot fr' (StringToHash m) \<noteq> zeroHash"
    then obtain m where m: "m \<in> markers" "own_slot fr1 (StringToHash m) \<noteq> own_slot fr0 (StringToHash m)"
      using assms(3) slots by auto
    from slot_provenance [OF assms(5,1) m(2)] m(1) assms(4)
    show "\<exists>fr fr2. steps interp fr0 fr \<and> step interp fr = Done (Next fr2) \<and> overflowing (cur_op fr) fr"
      using marker_write(1) by blast
  next
    assume "\<exists>fr fr2. steps interp fr0 fr \<and> step interp fr = Done (Next fr2) \<and> overflowing (cur_op fr) fr"
    then obtain fr fr2 where fr: "steps interp fr0 fr" "step interp fr = Done (Next fr2)" "overflowing (cur_op fr) fr" by blast
    then obtain m where m: "m \<in> markers" "slot_write (cur_op fr) fr = Some (StringToHash m, BigToHash (sint (fr_pc fr)))"
      using overflow_write by blast
    note next_fr = step_stores_Next [OF steps_safe [OF fr(1) assms(1)] fr(2)]
    have fr2: "steps interp fr0 fr2"
      using fr(1,2) by (rule steps.steps_step)
    have "own_slot fr1 (StringToHash m) \<noteq> zeroHash"
    proof (rule slot_stays [OF steps_before_halt [OF fr2 assms(5,6)] next_fr(1)])
      show "own_slot fr2 (StringToHash m) \<noteq> zeroHash"
        using overflow_pc [OF fr(1) assms(1,2) fr(3)] by (simp add: next_fr(3) m(2) after_write_def)
      fix fr3 v assume w: "steps interp fr2 fr3" "slot_write (cur_op fr3) fr3 = Some (StringToHash m, v)"
      from w(1) fr2 have "steps interp fr0 fr3"
        by (induction rule: steps.induct) (auto intro: steps.intros)
      with assms(4) have o: "overflowing (cur_op fr3) fr3" "v = BigToHash (sint (fr_pc fr3))" "steps interp fr0 fr3"
        using marker_write [OF w(2) m(1)] by blast+
      then show "v \<noteq> zeroHash"
        using overflow_pc [OF o(3) assms(1,2) o(1)] by simp
    qed
    then show "\<exists>m\<in>markers. own_slot fr' (StringToHash m) \<noteq> zeroHash"
      using m(1) slots by auto
  qed
qed

section \<open>The check after a call\<close>

definition keyPrefix :: string where
  "keyPrefix = ''Nyanpass. Overflow detected: ''"

definition overflow_keys :: "string list" where
  "overflow_keys = [keyPrefix @ ''Add'', keyPrefix @ ''Sub'', keyPrefix @ ''Mul'', keyPrefix @ ''Div'']"

fun check_keys :: "string list \<Rightarrow> StateDB \<Rightarrow> Address \<Rightarrow> bool \<times> StateDB" where
  "check_keys [] db addr = (False, db)"
| "check_keys (op # ops) db addr =
    (case GetState db addr (StringToHash op) of
       (res, db') \<Rightarrow> if res \<noteq> zeroHash then (True, db') else check_keys ops db' addr)"

definition CheckOverflowStorage :: "StateDB \<Rightarrow> Address \<Rightarrow> bool \<times> StateDB" where
  "CheckOverflowStorage db addr = check_keys overflow_keys db addr"

text \<open>\<^verbatim>\<open>SimpleContract.Call\<close>: the gas is fixed and no value is sent.\<close>

definition call_gas :: u64 where
  "call_gas = 100000000000"

definition SimpleContract_Call :: "nat \<Rightarrow> EVM \<Rightarrow> Address \<Rightarrow> Address \<Rightarrow> bytes \<Rightarrow> (EVM \<times> bytes \<times> Error option) res" where
  "SimpleContract_Call n evm addr calleraddress calldata =
    rbind (evm_Call n evm (AccountRef calleraddress) addr calldata call_gas 0)
      (\<lambda>(evm', d, ret, left, err). Done (evm', ret, err))"

lemma GetState_storage: "fst (GetState db a k) = storage_at db (a, k)"
  by (simp add: storage_at_def)

lemma check_keys_storage:
  "fst (check_keys ops db addr) \<longleftrightarrow> (\<exists>op \<in> set ops. storage_at db (addr, StringToHash op) \<noteq> zeroHash)"
  "storage_at (snd (check_keys ops db addr)) = storage_at db"
proof (induction ops arbitrary: db)
  case (Cons op ops)
  { case 1 show ?case using Cons(1) by (simp add: split_beta GetState_storage) }
  { case 2 show ?case using Cons(2) by (simp add: split_beta) }
qed simp_all

lemma overflow_keys_markers: "set overflow_keys = markers"
  by (simp add: overflow_keys_def keyPrefix_def markers_def marker_Add_def marker_Sub_def marker_Mul_def marker_Div_def)

lemma CheckOverflowStorage_markers:
  "fst (CheckOverflowStorage db addr) \<longleftrightarrow> (\<exists>m\<in>markers. storage_at db (addr, StringToHash m) \<noteq> zeroHash)"
  by (simp add: CheckOverflowStorage_def check_keys_storage overflow_keys_markers)

text \<open>The fuzzer's world before a call: what \<^verbatim>\<open>fuzz_call_returns\<close> asks for, at the top level and not aborted.\<close>

definition fuzz_ready :: "EVM \<Rightarrow> Address \<Rightarrow> bytes \<Rightarrow> bool" where
  "fuzz_ready evm addr input \<longleftrightarrow> metered evm \<and> NoRecursion (evm_vmConfig evm) \<and> 0 \<le> GasPrice (evm_ctx evm) \<and>
    db_safe (evm_StateDB evm) \<and> evm_depth evm = 0 \<and> \<not> evm_abort evm \<and> precompile_at evm addr = None \<and>
    length input < 2 ^ 62 \<and> unat (GetNonce (evm_StateDB evm) addr) + unat call_gas < 2 ^ 64 - 1"

text \<open>The state after the transfer of nothing, and the frame in which the callee starts.\<close>

definition call_db :: "StateDB \<Rightarrow> Address \<Rightarrow> Address \<Rightarrow> StateDB" where
  "call_db db caller addr = Transfer (AddBalance db caller 100) caller addr 0"

definition call_contract :: "EVM \<Rightarrow> Address \<Rightarrow> Address \<Rightarrow> Contract" where
  "call_contract evm caller addr =
    callee (AccountRef caller) addr (Some 0) call_gas (with_db evm (call_db (evm_StateDB evm) caller addr)) addr"

definition call_frame :: "EVM \<Rightarrow> Address \<Rightarrow> Address \<Rightarrow> bytes \<Rightarrow> Frame" where
  "call_frame evm caller addr input =
    init_frame (enter (with_db evm (call_db (evm_StateDB evm) caller addr))) (call_contract evm caller addr) input"

lemma call_db_simps [simp]:
  "storage_at (call_db db caller addr) = storage_at db" "GetCode (call_db db caller addr) = GetCode db"
  "GetNonce (call_db db caller addr) = GetNonce db" "db_safe db \<Longrightarrow> db_safe (call_db db caller addr)"
  by (simp_all add: call_db_def Transfer_def db_safe_def)

lemma call_frame_simps [simp]:
  "self_Address (call_frame evm caller addr input) = addr"
  "fr_db (call_frame evm caller addr input) = call_db (evm_StateDB evm) caller addr"
  "stack_tops (fr_stack (call_frame evm caller addr input)) = []"
  "ct_Code (fr_contract (call_frame evm caller addr input)) = GetCode (evm_StateDB evm) addr"
  "evm_abort (fr_evm (call_frame evm caller addr input)) = evm_abort evm"
  "fr_pc (call_frame evm caller addr input) = 0"
  by (simp_all add: call_frame_def call_contract_def init_frame_def self_Address_def callee_def SetCallCode_def NewContract_def newstack_of_tops
    with_db_def)

lemma call_frame_below:
  assumes "fuzz_ready evm addr input" "unat (GetNonce (evm_StateDB evm) addr) + unat call_gas < B" "B < 2 ^ 64"
  shows "frame_safe B (call_frame evm caller addr input)"
proof -
  let ?e = "with_db evm (call_db (evm_StateDB evm) caller addr)"
  have "evm_safe (enter ?e)"
    using assms by (simp add: fuzz_ready_def evm_safe_def)
  moreover have "contract_safe ((call_contract evm caller addr)\<lparr>ct_Input := input\<rparr>)"
    using assms by (simp add: fuzz_ready_def contract_safe_def call_contract_def callee_def SetCallCode_def NewContract_def
      ref_jumpdests_def coherent_def db_safe_def)
  moreover have "room B 0 (call_frame evm caller addr input)"
    using assms unfolding room_def by (simp add: fuzz_ready_def) (simp add: call_frame_def call_contract_def init_frame_def callee_def SetCallCode_def NewContract_def)
  ultimately show ?thesis
    by (simp add: frame_safe_def env_safe_def)
      (simp add: call_frame_def init_frame_def mem_safe_def NewMemory_def mem_Len_def)
qed

lemma call_frame_safe: "fuzz_ready evm addr input \<Longrightarrow> frame_safe (2 ^ 64 - 1) (call_frame evm caller addr input)"
  by (rule call_frame_below) (simp_all add: fuzz_ready_def)

lemma SimpleContract_Call_run:
  assumes "fuzz_ready evm addr input" "GetCode (evm_StateDB evm) addr \<noteq> []"
    "Run_loop n (call_frame evm caller addr input) = Done (fr, ret, err)"
  shows "\<exists>evm'. SimpleContract_Call n evm addr caller input = Done (evm', ret, err) \<and> evm_StateDB evm' = fr_db fr"
proof -
  let ?e = "with_db evm (call_db (evm_StateDB evm) caller addr)"
  have c: "ct_CodeAddr (call_contract evm caller addr) = Some addr" "ct_Code (call_contract evm caller addr) \<noteq> []"
    using assms(2) by (simp_all add: call_contract_def callee_def SetCallCode_def NewContract_def)
  have p: "precompile_at ?e addr = None"
    using assms(1) by (simp add: fuzz_ready_def precompile_at_def evm_isByzantium_def)
  have r: "run (Run n) ?e (call_contract evm caller addr) input = Done (leave (fr_evm fr), fr_contract fr, ret, err)"
    using assms(3) by (simp add: run_def c p Run_def Interpreter_Run_def flip: call_frame_def)
  have e: "CanTransferFunc (evm_ctx evm) = CanTransfer" "TransferFunc (evm_ctx evm) = Transfer" "evm_depth evm = 0" "0 \<le> balance_of (evm_StateDB evm) caller"
    using assms(1) by (simp_all add: fuzz_ready_def metered_def std_evm_def db_safe_def)
  have "evm_Call n evm (AccountRef caller) addr input call_gas 0 = end_call 0 (leave (fr_evm fr), fr_contract fr, ret, err)"
    using r e by (simp add: evm_Call_def Call_def CanTransfer_eq Exist_def Let_def ref_Address_def call_db_def call_contract_def Snapshot_def)
  then show ?thesis
    by (simp add: SimpleContract_Call_def end_call_def Let_def RevertToSnapshot_def leave_def)
qed

lemma SimpleContract_Call_empty:
  assumes "fuzz_ready evm addr input" "GetCode (evm_StateDB evm) addr = []"
  shows "\<exists>evm'. SimpleContract_Call n evm addr caller input = Done (evm', [], None) \<and> evm_StateDB evm' = call_db (evm_StateDB evm) caller addr"
proof -
  let ?e = "with_db evm (call_db (evm_StateDB evm) caller addr)"
  have c: "ct_CodeAddr (call_contract evm caller addr) = Some addr" "ct_Code (call_contract evm caller addr) = []"
    using assms(2) by (simp_all add: call_contract_def callee_def SetCallCode_def NewContract_def)
  have p: "precompile_at ?e addr = None"
    using assms(1) by (simp add: fuzz_ready_def precompile_at_def evm_isByzantium_def)
  have r: "run (Run n) ?e (call_contract evm caller addr) input = Done (leave (enter ?e), call_contract evm caller addr, [], None)"
    by (simp add: run_def c p Run_def Interpreter_Run_def)
  have e: "CanTransferFunc (evm_ctx evm) = CanTransfer" "TransferFunc (evm_ctx evm) = Transfer" "evm_depth evm = 0" "0 \<le> balance_of (evm_StateDB evm) caller"
    using assms(1) by (simp_all add: fuzz_ready_def metered_def std_evm_def db_safe_def)
  have "evm_Call n evm (AccountRef caller) addr input call_gas 0 = end_call 0 (leave (enter ?e), call_contract evm caller addr, [], None)"
    using r e by (simp add: evm_Call_def Call_def CanTransfer_eq Exist_def Let_def ref_Address_def call_db_def call_contract_def Snapshot_def)
  then show ?thesis
    by (simp add: SimpleContract_Call_def end_call_def Let_def leave_def)
qed

lemma empty_code_quiet:
  assumes "steps interp fr0 fr" "frame_safe B fr0" "ct_Code (fr_contract fr0) = []"
  shows "\<not> overflowing (cur_op fr) fr"
proof -
  have "ct_Code (fr_contract fr) = []"
    using assms by (induction rule: steps.induct) (auto simp: step_stores_Next(5) dest: steps_safe)
  then have "cur_op fr = 0"
    by (simp add: GetOp_def GetByte_def)
  then show ?thesis
    by (simp add: overflowing_def exact_result_def split: list.split)
qed

lemma steps_static:
  assumes "steps (Run n) fr0 fr" "std_evm (fr_evm fr0)"
  shows "evm_static (fr_evm fr0) (fr_evm fr)"
  using assms
proof (induction rule: steps.induct)
  case (steps_step fr0 fr fr')
  then have "std_evm (fr_evm fr)"
    by (simp add: std_evm_static)
  from keep_static.step_keeps [OF keep_static.Run_n_keeps this, of n] steps_step.hyps(2)
  have "evm_static (fr_evm fr) (fr_evm fr')" by simp
  then show ?case
    using steps_step keep_static.trans by blast
qed (rule keep_static.refl)

lemma call_loop_returns:
  assumes "fuzz_ready evm addr input" "unat call_gas < n"
  shows "\<exists>fr ret err fr1. Run_loop n (call_frame evm caller addr input) = Done (fr, ret, err) \<and>
    steps (Run n) (call_frame evm caller addr input) fr1 \<and> step (Run n) fr1 = Done (Halt fr ret err)"
proof -
  let ?fr = "call_frame evm caller addr input"
  have "metered (fr_evm ?fr)" "unat (ct_Gas (fr_contract ?fr)) < n"
    using assms call_frame_safe [OF assms(1), of caller]
    by (simp_all add: frame_safe_def env_safe_def evm_safe_def)
      (simp add: call_frame_def init_frame_def call_contract_def callee_def SetCallCode_def NewContract_def)
  from Run_loop_bound [OF this] have "Run_loop n ?fr \<noteq> NoFuel" by auto
  moreover have "Run_loop n ?fr \<noteq> Panic"
    using Run_loop_safe [OF call_frame_safe [OF assms(1)], of n caller] by auto
  ultimately obtain fr ret err where r: "Run_loop n ?fr = Done (fr, ret, err)"
    by (cases "Run_loop n ?fr") auto
  have noabort: "\<not> evm_abort (fr_evm fr1)" if "steps (Run n) ?fr fr1" for fr1
  proof -
    have "std_evm (fr_evm ?fr)" "\<not> evm_abort (fr_evm ?fr)"
      using call_frame_safe [OF assms(1), of caller] assms(1)
      by (simp_all add: frame_safe_def env_safe_def evm_safe_def metered_def fuzz_ready_def)
    then show ?thesis
      using steps_static [OF that] by (simp add: evm_static_def)
  qed
  obtain fr1 where "steps (Run n) ?fr fr1" "step (Run n) fr1 = Done (Halt fr ret err)"
    using Run_loop_steps [OF r, of n] noabort by auto
  with r show ?thesis by blast
qed

section \<open>A program that underflows\<close>

definition underflow_db :: StateDB where
  "underflow_db = SetCode NewStateDB ContractAttacker [PUSH1, 1, PUSH1, 0, SUB]"

lemma lookup_SUB: "JumpTable byzantiumInstructionSet SUB = mkop (\<lambda>_. opSub) (constGasFunc GasFastestStep) 2 1"
  by (simp add: JumpTable_def NewByzantiumInstructionSet_def NewHomesteadInstructionSet_def NewFrontierInstructionSet_def frontier_defs
    map_of_append)

lemma lookup_STOP: "op_halts (JumpTable byzantiumInstructionSet 0)"
  by (simp add: JumpTable_def NewByzantiumInstructionSet_def NewHomesteadInstructionSet_def NewFrontierInstructionSet_def frontier_defs
    map_of_append)

lemma step_STOP:
  assumes "in_JumpTable (fr_evm fr) = byzantiumInstructionSet" "cur_op fr = 0"
  shows "step interp fr \<noteq> Done (Next fr')"
  using assms lookup_STOP
  by (auto simp: step_def exec_op_def finish_step_def Let_def rbind_eq_Done split: option.splits sum.splits if_splits)

lemma step_SUB:
  assumes "in_JumpTable (fr_evm fr) = byzantiumInstructionSet" "metered (fr_evm fr)" "cur_op fr = SUB"
    "stack_tops (fr_stack fr) = [x, y]" "3 \<le> ct_Gas (fr_contract fr)"
  shows "\<exists>fr'. step interp fr = Done (Next fr') \<and> fr_pc fr' = fr_pc fr + 1 \<and> ct_Code (fr_contract fr') = ct_Code (fr_contract fr) \<and>
    in_JumpTable (fr_evm fr') = byzantiumInstructionSet"
proof -
  let ?fr1 = "fr\<lparr>fr_contract := (fr_contract fr)\<lparr>ct_Gas := ct_Gas (fr_contract fr) - 3\<rparr>\<rparr>"
  have len: "stack_len (fr_stack fr) = 2" and st: "fr_stack fr = of_tops [x, y]"
    using assms(4) vmstack.of_tops_tops [of "fr_stack fr"] by (simp_all flip: length_tops)
  have enf: "enforceRestrictions (fr_evm fr) SUB (mkop e g n m) s = Done None" for e g n m s
    by (simp add: enforceRestrictions_def)
  have ch: "charge (mkop (\<lambda>_. opSub) (constGasFunc GasFastestStep) 2 1) 0 fr = Done (True, ?fr1)"
    using assms(2,5) by (simp add: charge_def metered_def constGasFunc_def GasFastestStep_def UseGas_def not_less [THEN iffD2])
  have "\<exists>fr'. opSub ?fr1 = Done (fr', [], None) \<and> fr_pc fr' = fr_pc fr \<and> ct_Code (fr_contract fr') = ct_Code (fr_contract fr) \<and>
    in_JumpTable (fr_evm fr') = in_JumpTable (fr_evm fr)"
    by (simp add: st opSub_def popk_def vmstack.pp_tops Let_def fok_def mark_def fdb_def fput_def fpush_def)
  then obtain fr' where op: "opSub ?fr1 = Done (fr', [], None)" "fr_pc fr' = fr_pc fr" "ct_Code (fr_contract fr') = ct_Code (fr_contract fr)"
    "in_JumpTable (fr_evm fr') = in_JumpTable (fr_evm fr)" by blast
  have "step interp fr = Done (Next (fr'\<lparr>fr_pc := fr_pc fr + 1\<rparr>))"
    using assms(1,3) len enf
    by (simp add: step_def lookup_SUB validateStack_def makeStackFunc_def require_def StackLimit_def memory_request_def
      exec_op_def ch [simplified] op finish_step_def Let_def)
  then show ?thesis
    using op assms(1) by simp
qed

lemma steps_chain:
  assumes "step interp fr0 = Done (Next fr1)" "step interp fr1 = Done (Next fr2)" "step interp fr2 = Done (Next fr3)"
    "\<And>fr'. step interp fr3 \<noteq> Done (Next fr')" "steps interp fr0 fr"
  shows "fr \<in> {fr0, fr1, fr2, fr3}"
  using assms(1-4) steps_first_cases [OF assms(5)] steps_first_cases [of interp fr1 fr] steps_first_cases [of interp fr2 fr]
    steps_first_cases [of interp fr3 fr] by auto

lemma underflow_code: "GetCode underflow_db ContractAttacker = [PUSH1, 1, PUSH1, 0, SUB]"
  by (simp add: underflow_db_def code.gt_st)

lemma underflow_clean: "storage_at underflow_db (a, k) = zeroHash"
  by (simp add: underflow_db_def) (simp add: storage_at_ensure ensure_def NewStateDB_def newState_def)

lemma underflow_ready: "fuzz_ready (fuzz_evm crypto now underflow_db) ContractAttacker []"
proof -
  have "length (GetCode underflow_db a) < 2 ^ 62" "0 \<le> balance_of underflow_db a" "GetNonce underflow_db a = 0" for a
    by (simp_all add: underflow_db_def code.gt_st)
  then show ?thesis
    by (simp add: fuzz_ready_def db_safe_def sample_not_precompiled fuzz_config_def call_gas_def)
qed

lemma underflow_steps:
  assumes "fr0 = call_frame (fuzz_evm crypto now underflow_db) ContractCreater ContractAttacker []"
  shows "\<exists>fr fr'. steps interp fr0 fr \<and> step interp fr = Done (Next fr') \<and> overflowing (cur_op fr) fr"
    "steps interp fr0 fr \<Longrightarrow> \<not> stores_marker fr"
proof -
  let ?evm = "fuzz_evm crypto now underflow_db"
  let ?e = "enter (with_db ?evm (call_db underflow_db ContractCreater ContractAttacker))"
  let ?c = "call_contract ?evm ContractCreater ContractAttacker"
  have f: "fr0 = init_frame ?e ?c []"
    by (simp add: assms call_frame_def)
  have e: "in_JumpTable ?e = byzantiumInstructionSet" "metered ?e"
    using fuzz_metered(1) [of crypto now underflow_db] by (simp_all add: metered_def std_evm_def with_db_def enter_def)
  have c: "ct_Code ?c = [PUSH1, 1, PUSH1, 0, SUB]" "ct_Gas ?c = call_gas"
    by (simp_all add: call_contract_def callee_def SetCallCode_def NewContract_def underflow_code)
  obtain fr1 fr2 st1 st2 where s: "\<And>interp. step interp fr0 = Done (Next fr1)" "\<And>interp. step interp fr1 = Done (Next fr2)"
    "cur_op fr1 = PUSH1" "fr_evm fr2 = ?e\<lparr>in_intPool := st2\<rparr>" "fr_pc fr2 = 4"
    "fr_contract fr2 = ?c\<lparr>ct_Input := [], ct_Gas := ct_Gas ?c - 6\<rparr>" "stack_tops (fr_stack fr2) = [0, 1]"
    using two_pushes [OF e c(1), of "[]"] unfolding f c(2) by (auto simp: call_gas_def)
  have op2: "cur_op fr2 = SUB"
    using s(5,6) c by (simp add: GetOp_def GetByte_def)
  obtain fr3 where t: "step interp fr2 = Done (Next fr3)" "fr_pc fr3 = 5" "ct_Code (fr_contract fr3) = [PUSH1, 1, PUSH1, 0, SUB]"
    "in_JumpTable (fr_evm fr3) = byzantiumInstructionSet"
    using step_SUB [of fr2 0 1 interp] s(4-7) e c op2 by (auto simp: metered_def std_evm_def call_gas_def)
  have op3: "cur_op fr3 = 0"
    using t(2,3) by (simp add: GetOp_def GetByte_def)
  have op0: "cur_op fr0 = PUSH1"
    using c(1) by (simp add: f init_frame_def GetOp_def GetByte_def)
  have "steps interp fr0 fr2"
    using s(1,2) by (blast intro: steps.intros)
  moreover have "overflowing (cur_op fr2) fr2"
    by (simp add: overflowing_def op2 s(7) exact_result_def)
  ultimately show "\<exists>fr fr'. steps interp fr0 fr \<and> step interp fr = Done (Next fr') \<and> overflowing (cur_op fr) fr"
    using t(1) by blast
  show "\<not> stores_marker fr" if "steps interp fr0 fr"
    using steps_chain [OF s(1,2) t(1) step_STOP [OF t(4) op3] that] op0 s(3) op2 op3 by (auto simp: stores_marker_def)
qed

section \<open>Properties\<close>

text \<open>
  C1. Detection is exact. Take the fuzzer's world with empty marker slots and a program that never stores to a marker
  slot by itself. Then a call by the fuzzer returns, with a result or an error, and the check of the marker slots
  afterwards reports an overflow if and only if the call executed an ADD, SUB, MUL or DIV whose exact result is not a
  256-bit number.
\<close>

theorem detection_exact:
  assumes "fuzz_ready evm addr input" "unat call_gas < n"
    and "\<forall>key. key \<in> set overflow_keys \<longrightarrow> storage_at (evm_StateDB evm) (addr, StringToHash key) = zeroHash"
    and "\<forall>fr. steps (Run n) (call_frame evm caller addr input) fr \<longrightarrow> \<not> stores_marker fr"
  shows "\<exists>evm' ret err. SimpleContract_Call n evm addr caller input = Done (evm', ret, err) \<and>
    (fst (CheckOverflowStorage (evm_StateDB evm') addr) \<longleftrightarrow>
      (\<exists>fr fr'. steps (Run n) (call_frame evm caller addr input) fr \<and> step (Run n) fr = Done (Next fr') \<and>
        overflowing (cur_op fr) fr))"
proof -
  let ?fr = "call_frame evm caller addr input"
  note safe = call_frame_safe [OF assms(1), of caller]
  have clean: "\<forall>m\<in>markers. own_slot ?fr (StringToHash m) = zeroHash"
    using assms(3) by (simp add: own_slot_def overflow_keys_markers)
  show ?thesis
  proof (cases "GetCode (evm_StateDB evm) addr = []")
    case True
    then have "\<not> overflowing (cur_op fr) fr" if "steps (Run n) ?fr fr" for fr
      by (intro empty_code_quiet [OF that safe]) simp
    then show ?thesis
      using SimpleContract_Call_empty [OF assms(1) True, of n caller] clean
      by (auto simp: CheckOverflowStorage_markers own_slot_def)
  next
    case False
    obtain fr ret err fr1 where r: "Run_loop n ?fr = Done (fr, ret, err)" "steps (Run n) ?fr fr1" "step (Run n) fr1 = Done (Halt fr ret err)"
      using call_loop_returns [OF assms(1,2)] by blast
    obtain evm' where call: "SimpleContract_Call n evm addr caller input = Done (evm', ret, err)" "evm_StateDB evm' = fr_db fr"
      using SimpleContract_Call_run [OF assms(1) False r(1)] by blast
    have "self_Address fr = addr"
      using step_stores_Halt(1) [OF steps_safe [OF r(2) safe] r(3)] steps_self [OF r(2) safe] by simp
    then have "fst (CheckOverflowStorage (evm_StateDB evm') addr) \<longleftrightarrow> (\<exists>m\<in>markers. own_slot fr (StringToHash m) \<noteq> zeroHash)"
      by (simp add: CheckOverflowStorage_markers own_slot_def call(2))
    also have "\<dots> \<longleftrightarrow> (\<exists>fr fr'. steps (Run n) ?fr fr \<and> step (Run n) fr = Done (Next fr') \<and> overflowing (cur_op fr) fr)"
      by (rule markers_exact [OF safe _ clean assms(4) r(2,3)]) simp
    finally show ?thesis
      using call(1) by blast
  qed
qed

theorem detection_exact_witness:
  "\<forall>crypto now. \<exists>evm' ret err.
    SimpleContract_Call 100000000001 (fuzz_evm crypto now underflow_db) ContractAttacker ContractCreater [] = Done (evm', ret, err) \<and>
    fst (CheckOverflowStorage (evm_StateDB evm') ContractAttacker)"
proof (intro allI)
  fix crypto now
  show "\<exists>evm' ret err. SimpleContract_Call 100000000001 (fuzz_evm crypto now underflow_db) ContractAttacker ContractCreater [] = Done (evm', ret, err) \<and>
    fst (CheckOverflowStorage (evm_StateDB evm') ContractAttacker)"
    using detection_exact [of "fuzz_evm crypto now underflow_db" ContractAttacker "[]" 100000000001 ContractCreater]
      underflow_ready underflow_steps [OF HOL.refl]
    by (simp add: underflow_clean call_gas_def)
qed

text \<open>
  C33. A marker that is set once is reported forever: if a marker slot of the contract is set before a call, by an overflow in the
  constructor or because a restored state keeps the marks of earlier calls, and the program does not store to marker slots by itself, the
  check after the call reports an overflow whatever the call executes.
\<close>

theorem stale_marker_reported:
  assumes "fuzz_ready evm addr input" "unat call_gas < n"
    and "key \<in> set overflow_keys" "storage_at (evm_StateDB evm) (addr, StringToHash key) \<noteq> zeroHash"
    and "\<forall>fr. steps (Run n) (call_frame evm caller addr input) fr \<longrightarrow> \<not> stores_marker fr"
  shows "\<exists>evm' ret err. SimpleContract_Call n evm addr caller input = Done (evm', ret, err) \<and>
    fst (CheckOverflowStorage (evm_StateDB evm') addr)"
proof (cases "GetCode (evm_StateDB evm) addr = []")
  case True
  then show ?thesis
    using SimpleContract_Call_empty [OF assms(1) True, of n caller] assms(3,4)
    by (auto simp: CheckOverflowStorage_markers overflow_keys_markers)
next
  case False
  let ?fr = "call_frame evm caller addr input"
  note safe = call_frame_safe [OF assms(1), of caller]
  obtain fr ret err fr1 where r: "Run_loop n ?fr = Done (fr, ret, err)" "steps (Run n) ?fr fr1" "step (Run n) fr1 = Done (Halt fr ret err)"
    using call_loop_returns [OF assms(1,2)] by blast
  obtain evm' where call: "SimpleContract_Call n evm addr caller input = Done (evm', ret, err)" "evm_StateDB evm' = fr_db fr"
    using SimpleContract_Call_run [OF assms(1) False r(1)] by blast
  have fr: "self_Address fr = addr" "own_slot fr = own_slot fr1"
    using step_stores_Halt [OF steps_safe [OF r(2) safe] r(3)] steps_self [OF r(2) safe] by simp_all
  have key: "key \<in> markers" using assms(3) by (simp add: overflow_keys_markers)
  have "own_slot fr1 (StringToHash key) \<noteq> zeroHash"
  proof (rule slot_stays [OF r(2) safe])
    show "own_slot ?fr (StringToHash key) \<noteq> zeroHash" using assms(4) by (simp add: own_slot_def)
    show "v \<noteq> zeroHash" if "steps (Run n) ?fr fr2" "slot_write (cur_op fr2) fr2 = Some (StringToHash key, v)" for fr2 v
      using marker_write [OF that(2) key] assms(5) that(1) overflow_pc [OF that(1) safe] by simp
  qed
  then have "own_slot fr (StringToHash key) \<noteq> zeroHash" unfolding fr(2) .
  then have "storage_at (evm_StateDB evm') (addr, StringToHash key) \<noteq> zeroHash"
    unfolding own_slot_def fr(1) call(2) .
  then have "fst (CheckOverflowStorage (evm_StateDB evm') addr)"
    using key unfolding CheckOverflowStorage_markers by blast
  then show ?thesis using call(1) by blast
qed

definition stale_db :: StateDB where
  "stale_db = SetState (SetCode NewStateDB ContractAttacker [STOP]) ContractAttacker (StringToHash marker_Add) (BigToHash 5)"

lemma stale_ready: "fuzz_ready (fuzz_evm crypto now stale_db) ContractAttacker []"
proof -
  have "length (GetCode stale_db a) < 2 ^ 62" "0 \<le> balance_of stale_db a" "GetNonce stale_db a = 0" for a
    by (simp_all add: stale_db_def code.gt_st)
  then show ?thesis
    by (simp add: fuzz_ready_def db_safe_def sample_not_precompiled fuzz_config_def call_gas_def)
qed

lemma stale_steps:
  assumes "steps interp (call_frame (fuzz_evm crypto now stale_db) ContractCreater ContractAttacker []) fr"
  shows "\<not> stores_marker fr"
proof -
  let ?fr = "call_frame (fuzz_evm crypto now stale_db) ContractCreater ContractAttacker []"
  have "GetCode stale_db ContractAttacker = [STOP]" by (simp add: stale_db_def code.gt_st)
  then have op: "cur_op ?fr = 0" by (simp add: GetOp_def GetByte_def)
  have "in_JumpTable (fr_evm ?fr) = byzantiumInstructionSet"
    by (simp add: call_frame_def init_frame_def enter_def with_db_def)
  then have "fr = ?fr" using steps_first_cases [OF assms] step_STOP [OF _ op, of interp] by blast
  then show ?thesis by (simp add: stores_marker_def op)
qed

theorem stale_marker_reported_witness:
  "\<forall>crypto now. \<exists>evm' ret err.
    SimpleContract_Call 100000000001 (fuzz_evm crypto now stale_db) ContractAttacker ContractCreater [] = Done (evm', ret, err) \<and>
    fst (CheckOverflowStorage (evm_StateDB evm') ContractAttacker)"
proof (intro allI, rule stale_marker_reported [OF stale_ready])
  fix crypto now
  show "unat call_gas < 100000000001" by (simp add: call_gas_def)
  show "marker_Add \<in> set overflow_keys" using overflow_keys_markers by (simp add: markers_def)
  have "BigToHash 5 \<noteq> zeroHash" using EmptyHash_BigToHash [of 5] by (simp add: EmptyHash_def)
  then show "storage_at (evm_StateDB (fuzz_evm crypto now stale_db)) (ContractAttacker, StringToHash marker_Add) \<noteq> zeroHash"
    using storage.gt_st [of _ "(ContractAttacker, StringToHash marker_Add)"] by (simp add: stale_db_def)
qed (use stale_steps in blast)

end
