(* ===== verification/Abi_Types.thy ===== *)
theory Abi_Types
  imports Sha3
begin

text \<open>
  Types of the contract interface: the Go types and values the codec works on, the ABI types of \<^verbatim>\<open>accounts/abi/type.go\<close>
  with the parser of their names, and the checks of \<^verbatim>\<open>error.go\<close>. The parser inverts the printing of canonical names.
\<close>

section \<open>Go types and values\<close>

text \<open>The kinds \<^verbatim>\<open>reflect\<close> distinguishes among the values that occur as arguments.\<close>

datatype Kind =
    Invalid_Kind | Bool_Kind
  | Int_Kind | Int8_Kind | Int16_Kind | Int32_Kind | Int64_Kind
  | Uint_Kind | Uint8_Kind | Uint16_Kind | Uint32_Kind | Uint64_Kind
  | Array_Kind | Slice_Kind | String_Kind | Ptr_Kind

text \<open>\<open>bigT\<close> is the type of pointers to \<^verbatim>\<open>big.Int\<close>; an address is an array of twenty bytes.\<close>

datatype GoType = numT Kind | bigT | boolT | stringT | sliceT GoType | arrayT int GoType

primrec kind_of_type :: "GoType \<Rightarrow> Kind" where
  "kind_of_type (numT k) = k"
| "kind_of_type bigT = Ptr_Kind"
| "kind_of_type boolT = Bool_Kind"
| "kind_of_type stringT = String_Kind"
| "kind_of_type (sliceT t) = Slice_Kind"
| "kind_of_type (arrayT n t) = Array_Kind"

text \<open>The bytes a value of a type takes in memory, on a 64-bit machine.\<close>

fun go_size :: "GoType \<Rightarrow> int" where
  "go_size (numT k) =
    (if k \<in> {Int8_Kind, Uint8_Kind} then 1 else if k \<in> {Int16_Kind, Uint16_Kind} then 2
     else if k \<in> {Int32_Kind, Uint32_Kind} then 4 else 8)"
| "go_size bigT = 8"
| "go_size boolT = 1"
| "go_size stringT = 16"
| "go_size (sliceT t) = 24"
| "go_size (arrayT n t) = n * go_size t"

abbreviation uint8T :: GoType where "uint8T \<equiv> numT Uint8_Kind"
abbreviation addressT :: GoType where "addressT \<equiv> arrayT 20 uint8T"

text \<open>\<^verbatim>\<open>reflect.ArrayOf\<close> panics if the array would exceed the address space.\<close>

definition ArrayOf :: "int \<Rightarrow> GoType \<Rightarrow> GoType option" where
  "ArrayOf n t = (if n * go_size t < 2 ^ 64 then Some (arrayT n t) else None)"

text \<open>A \<^verbatim>\<open>reflect.Value\<close>: slices and arrays carry the type of their elements.\<close>

datatype Val =
    VNum Kind int
  | VBig int
  | VBool bool
  | VString bytes
  | VSlice GoType "Val list"
  | VArray GoType "Val list"

primrec kind_of :: "Val \<Rightarrow> Kind" where
  "kind_of (VNum k x) = k"
| "kind_of (VBig x) = Ptr_Kind"
| "kind_of (VBool b) = Bool_Kind"
| "kind_of (VString s) = String_Kind"
| "kind_of (VSlice t vs) = Slice_Kind"
| "kind_of (VArray t vs) = Array_Kind"

text \<open>\<^verbatim>\<open>v.Len()\<close>, \<^verbatim>\<open>v.Index(i)\<close> and the kind of the elements, for the kinds that have them.\<close>

definition elems :: "Val \<Rightarrow> Val list" where
  "elems v = (case v of VSlice t vs \<Rightarrow> vs | VArray t vs \<Rightarrow> vs | _ \<Rightarrow> [])"

definition val_len :: "Val \<Rightarrow> nat" where
  "val_len v = (case v of VString s \<Rightarrow> length s | VSlice t vs \<Rightarrow> length vs | VArray t vs \<Rightarrow> length vs | _ \<Rightarrow> 0)"

definition elem_kind :: "Val \<Rightarrow> Kind" where
  "elem_kind v = (case v of VSlice t vs \<Rightarrow> kind_of_type t | VArray t vs \<Rightarrow> kind_of_type t | _ \<Rightarrow> Invalid_Kind)"

text \<open>The bytes of a slice or array of bytes; other element types panic.\<close>

definition byte_of :: "Val \<Rightarrow> u8 option" where
  "byte_of v = (case v of VNum k x \<Rightarrow> if k = Uint8_Kind then Some (word_of_int x) else None | _ \<Rightarrow> None)"

definition val_Bytes :: "Val \<Rightarrow> bytes option" where
  "val_Bytes v =
    (if kind_of v \<in> {Array_Kind, Slice_Kind} \<and> elem_kind v = Uint8_Kind
     then those (map byte_of (elems v)) else None)"

abbreviation VBytes :: "bytes \<Rightarrow> Val list" where
  "VBytes bs \<equiv> map (\<lambda>b. VNum Uint8_Kind (uint b)) bs"

section \<open>Errors\<close>

datatype AbiError =
    errBrackets | errArrayFormat | errVariableSize | errUnsupported string
  | errTypeMismatch | errArgumentCount nat nat | errBadBool | errFunctionType | errFixedBytes
  | errNegativeSize int | errSliceBoundary | errNotArray | errInsufficientLength | errOffsetRange
  | errLengthRange | errUnknownType | errMethodNotFound string | errEmptyOutput | errOutputFormat | errNoMethodId bytes

type_synonym 'a ares = "(AbiError, 'a) fallible"

section \<open>ABI types\<close>

datatype Ty =
    IntTy | UintTy | BoolTy | StringTy | SliceTy | ArrayTy | AddressTy | FixedBytesTy | BytesTy | HashTy
  | FixedPointTy | FunctionTy

datatype Type = Type (Elem: "Type option") (Kind_of: Kind) (Type_of: GoType) (Size: int) (T: Ty) (stringKind: string)

definition requiresLengthPrefix :: "Type \<Rightarrow> bool" where
  "requiresLengthPrefix t \<longleftrightarrow> T t = StringTy \<or> T t = BytesTy \<or> T t = SliceTy"

definition reflectIntKindAndType :: "bool \<Rightarrow> int \<Rightarrow> Kind \<times> GoType" where
  "reflectIntKindAndType uns sz =
    (if sz = 8 then (if uns then (Uint8_Kind, numT Uint8_Kind) else (Int8_Kind, numT Int8_Kind))
     else if sz = 16 then (if uns then (Uint16_Kind, numT Uint16_Kind) else (Int16_Kind, numT Int16_Kind))
     else if sz = 32 then (if uns then (Uint32_Kind, numT Uint32_Kind) else (Int32_Kind, numT Int32_Kind))
     else if sz = 64 then (if uns then (Uint64_Kind, numT Uint64_Kind) else (Int64_Kind, numT Int64_Kind))
     else (Ptr_Kind, bigT))"

section \<open>Parsing type names\<close>

definition is_digit :: "char \<Rightarrow> bool" where
  "is_digit c \<longleftrightarrow> c \<in> set ''0123456789''"

definition is_letter :: "char \<Rightarrow> bool" where
  "is_letter c \<longleftrightarrow> c \<in> set ''abcdefghijklmnopqrstuvwxyzABCDEFGHIJKLMNOPQRSTUVWXYZ''"

text \<open>\<^verbatim>\<open>strconv.Atoi\<close> on a string of the number regexps: digits only, and the value must be an \<^verbatim>\<open>int\<close>.\<close>

definition digits_value :: "string \<Rightarrow> int" where
  "digits_value s = foldl (\<lambda>acc c. acc * 10 + (of_char c - 48)) 0 s"

definition Atoi :: "string \<Rightarrow> int option" where
  "Atoi s =
    (if s = [] \<or> \<not> list_all is_digit s then None
     else if digits_value s < 2 ^ 63 then Some (digits_value s) else None)"

text \<open>All maximal runs of digits: \<^verbatim>\<open>FindAllString\<close> with \<^verbatim>\<open>[0-9]+\<close>.\<close>

function digit_runs :: "string \<Rightarrow> string list" where
  "digit_runs [] = []"
| "digit_runs (c # cs) =
    (if is_digit c then (c # takeWhile is_digit cs) # digit_runs (dropWhile is_digit cs) else digit_runs cs)"
  by pat_completeness auto
termination
  by (relation "measure length") (auto simp: le_imp_less_Suc length_dropWhile_le)

text \<open>
  The first match of \<^verbatim>\<open>typeRegex\<close>: letters, then optionally a number, then optionally an \<open>x\<close> and a number. The
  result holds the submatches 0 to 3; without a letter there is no match.
\<close>

definition typeRegex :: "string \<Rightarrow> (string \<times> string \<times> string \<times> string) option" where
  "typeRegex t =
    (let s = dropWhile (\<lambda>c. \<not> is_letter c) t;
         letters = takeWhile is_letter s;
         r = dropWhile is_letter s;
         digits = takeWhile is_digit r;
         r = dropWhile is_digit r;
         second = (if digits = [] then [] else
                    (case r of
                       c # r' \<Rightarrow> if c = CHR ''x'' \<and> takeWhile is_digit r' \<noteq> [] then CHR ''x'' # takeWhile is_digit r' else []
                     | [] \<Rightarrow> []))
     in if letters = [] then None else Some (letters @ digits @ second, letters, digits @ second, digits))"

definition last_bracket :: "string \<Rightarrow> nat" where
  "last_bracket t = length t - Suc (length (takeWhile (\<lambda>c. c \<noteq> CHR ''['') (rev t)))"

definition elementary_type :: "string \<Rightarrow> Type ares" where
  "elementary_type t =
    (case typeRegex t of
       None \<Rightarrow> Panic
     | Some (p0, varType, p2, p3) \<Rightarrow>
         ebind (if p3 \<noteq> [] then (case Atoi p2 of None \<Rightarrow> efail errVariableSize | Some n \<Rightarrow> eok n)
                else if p0 = ''uint'' \<or> p0 = ''int'' then efail (errUnsupported t)
                else eok 0)
           (\<lambda>varSize.
             if varType = ''int'' then
               (case reflectIntKindAndType False varSize of (k, g) \<Rightarrow> eok (Type None k g varSize IntTy t))
             else if varType = ''uint'' then
               (case reflectIntKindAndType True varSize of (k, g) \<Rightarrow> eok (Type None k g varSize UintTy t))
             else if varType = ''bool'' then eok (Type None Bool_Kind boolT 0 BoolTy t)
             else if varType = ''address'' then eok (Type None Array_Kind addressT 20 AddressTy t)
             else if varType = ''string'' then eok (Type None String_Kind stringT 0 StringTy t)
             else if varType = ''bytes'' then
               (if varSize = 0 then eok (Type None Slice_Kind (sliceT uint8T) 0 BytesTy t)
                else ebind (eopt (ArrayOf varSize uint8T)) (\<lambda>g. eok (Type None Array_Kind g varSize FixedBytesTy t)))
             else if varType = ''function'' then
               ebind (eopt (ArrayOf 24 uint8T)) (\<lambda>g. eok (Type None Array_Kind g 24 FunctionTy t))
             else efail (errUnsupported t)))"

function NewType :: "string \<Rightarrow> Type ares" where
  "NewType t =
    (if count_list t (CHR ''['') \<noteq> count_list t (CHR '']'') then efail errBrackets
     else if count_list t (CHR ''['') \<noteq> 0 then
       (let i = last_bracket t in
        ebind (NewType (take i t)) (\<lambda>embeddedType.
          case digit_runs (drop i t) of
            [] \<Rightarrow> eok (Type (Some embeddedType) Slice_Kind (sliceT (Type_of embeddedType)) 0 SliceTy t)
          | [n] \<Rightarrow>
              (case Atoi n of
                 None \<Rightarrow> efail errVariableSize
               | Some sz \<Rightarrow>
                   ebind (eopt (ArrayOf sz (Type_of embeddedType))) (\<lambda>g. eok (Type (Some embeddedType) Array_Kind g sz ArrayTy t)))
          | _ \<Rightarrow> efail errArrayFormat))
     else elementary_type t)"
  by pat_completeness auto
termination
proof (relation "measure length")
  fix t :: string and i
  assume "count_list t (CHR ''['') \<noteq> 0" "i = last_bracket t"
  then have "t \<noteq> []" by auto
  then show "(take i t, t) \<in> measure length"
    using \<open>i = last_bracket t\<close> by (simp add: last_bracket_def)
qed simp

section \<open>Checking values against types\<close>

fun sliceTypeCheck :: "Type \<Rightarrow> Val \<Rightarrow> unit ares" where
  "sliceTypeCheck (Type elem k g sz ty s) v =
    (if kind_of v \<noteq> Slice_Kind \<and> kind_of v \<noteq> Array_Kind then efail errTypeMismatch
     else if ty = ArrayTy \<and> int (val_len v) \<noteq> sz then efail errTypeMismatch
     else
       (case elem of
          None \<Rightarrow> Panic
        | Some e \<Rightarrow>
            if T e = SliceTy \<and> val_len v > 0 then sliceTypeCheck e (elems v ! 0)
            else if T e = ArrayTy then (if val_len v > 0 then sliceTypeCheck e (elems v ! 0) else Panic)
            else if elem_kind v \<noteq> Kind_of e then efail errTypeMismatch
            else eok ()))"

definition typeCheck :: "Type \<Rightarrow> Val \<Rightarrow> unit ares" where
  "typeCheck t v =
    (if T t = SliceTy \<or> T t = ArrayTy then sliceTypeCheck t v
     else if Kind_of t \<noteq> kind_of v then efail errTypeMismatch
     else if T t = FixedBytesTy \<and> Size t \<noteq> int (val_len v) then efail errTypeMismatch
     else eok ())"

section \<open>Canonical type names\<close>

text \<open>The types of Solidity with their canonical names, and the ABI type each of them stands for.\<close>

datatype SolType =
    SInt nat | SUint nat | SBool | SAddress | SString | SBytes | SFixedBytes nat | SFunction
  | SSlice SolType | SArray SolType nat

fun decimal :: "nat \<Rightarrow> string" where
  "decimal n = (if n < 10 then [char_of (48 + n)] else decimal (n div 10) @ [char_of (48 + n mod 10)])"

primrec sol_name :: "SolType \<Rightarrow> string" where
  "sol_name (SInt n) = ''int'' @ decimal n"
| "sol_name (SUint n) = ''uint'' @ decimal n"
| "sol_name SBool = ''bool''"
| "sol_name SAddress = ''address''"
| "sol_name SString = ''string''"
| "sol_name SBytes = ''bytes''"
| "sol_name (SFixedBytes n) = ''bytes'' @ decimal n"
| "sol_name SFunction = ''function''"
| "sol_name (SSlice s) = sol_name s @ ''[]''"
| "sol_name (SArray s n) = sol_name s @ ''['' @ decimal n @ '']''"

primrec sol_type :: "SolType \<Rightarrow> Type" where
  "sol_type (SInt n) =
    (case reflectIntKindAndType False (int n) of (k, g) \<Rightarrow> Type None k g (int n) IntTy (sol_name (SInt n)))"
| "sol_type (SUint n) =
    (case reflectIntKindAndType True (int n) of (k, g) \<Rightarrow> Type None k g (int n) UintTy (sol_name (SUint n)))"
| "sol_type SBool = Type None Bool_Kind boolT 0 BoolTy (sol_name SBool)"
| "sol_type SAddress = Type None Array_Kind addressT 20 AddressTy (sol_name SAddress)"
| "sol_type SString = Type None String_Kind stringT 0 StringTy (sol_name SString)"
| "sol_type SBytes = Type None Slice_Kind (sliceT uint8T) 0 BytesTy (sol_name SBytes)"
| "sol_type (SFixedBytes n) = Type None Array_Kind (arrayT (int n) uint8T) (int n) FixedBytesTy (sol_name (SFixedBytes n))"
| "sol_type SFunction = Type None Array_Kind (arrayT 24 uint8T) 24 FunctionTy (sol_name SFunction)"
| "sol_type (SSlice s) = Type (Some (sol_type s)) Slice_Kind (sliceT (Type_of (sol_type s))) 0 SliceTy (sol_name (SSlice s))"
| "sol_type (SArray s n) =
    Type (Some (sol_type s)) Array_Kind (arrayT (int n) (Type_of (sol_type s))) (int n) ArrayTy (sol_name (SArray s n))"

primrec sol_ok :: "SolType \<Rightarrow> bool" where
  "sol_ok (SInt n) \<longleftrightarrow> n < 2 ^ 63"
| "sol_ok (SUint n) \<longleftrightarrow> n < 2 ^ 63"
| "sol_ok SBool \<longleftrightarrow> True"
| "sol_ok SAddress \<longleftrightarrow> True"
| "sol_ok SString \<longleftrightarrow> True"
| "sol_ok SBytes \<longleftrightarrow> True"
| "sol_ok (SFixedBytes n) \<longleftrightarrow> 0 < n \<and> n < 2 ^ 63"
| "sol_ok SFunction \<longleftrightarrow> True"
| "sol_ok (SSlice s) \<longleftrightarrow> sol_ok s"
| "sol_ok (SArray s n) \<longleftrightarrow> sol_ok s \<and> n < 2 ^ 63 \<and> int n * go_size (Type_of (sol_type s)) < 2 ^ 64"

lemma digit_char: "n < 10 \<Longrightarrow> is_digit (char_of (48 + n)) \<and> \<not> is_letter (char_of (48 + n)) \<and> of_char (char_of (48 + n)) = int (48 + n) \<and>
  char_of (48 + n) \<noteq> CHR ''['' \<and> char_of (48 + n) \<noteq> CHR '']''"
proof -
  assume "n < 10"
  then have "n \<in> {0, 1, 2, 3, 4, 5, 6, 7, 8, 9}" by auto
  then show ?thesis
    by (elim insertE emptyE; simp; code_simp)
qed

declare decimal.simps [simp del] NewType.simps [simp del]

lemma decimal_digits: "list_all is_digit (decimal n)" "decimal n \<noteq> []" "list_all (\<lambda>c. \<not> is_letter c) (decimal n)"
  "list_all (\<lambda>c. c \<noteq> CHR ''['' \<and> c \<noteq> CHR '']'') (decimal n)"
  by (induction n rule: decimal.induct; subst decimal.simps; simp add: digit_char)+

lemma digits_value_decimal: "digits_value (decimal n) = int n"
proof (induction n rule: decimal.induct)
  case (1 n)
  show ?case
  proof (cases "n < 10")
    case True
    then show ?thesis by (subst decimal.simps) (simp add: digits_value_def digit_char)
  next
    case False
    moreover have "int (n div 10) * 10 + int (n mod 10) = int n"
      by (metis div_mult_mod_eq of_nat_add of_nat_mult of_nat_numeral)
    ultimately show ?thesis
      using 1 digit_char [of "n mod 10"] by (subst decimal.simps) (simp add: digits_value_def)
  qed
qed

lemma Atoi_decimal: "n < 2 ^ 63 \<Longrightarrow> Atoi (decimal n) = Some (int n)"
  by (simp add: Atoi_def decimal_digits digits_value_decimal)

section \<open>Parsing them\<close>

lemma takeWhile_decimal: "takeWhile is_digit (decimal n) = decimal n" "dropWhile is_digit (decimal n) = []"
  using decimal_digits(1) [of n] by (auto simp: takeWhile_append list_all_iff)

lemma letters_decimal:
  assumes "list_all is_letter ws" "ws \<noteq> []"
  shows "typeRegex (ws @ decimal n) = Some (ws @ decimal n, ws, decimal n, decimal n)" "typeRegex ws = Some (ws, ws, [], [])"
proof -
  obtain d ds where d: "decimal n = d # ds" "\<not> is_letter d"
    using decimal_digits(2,3) [of n] by (cases "decimal n") auto
  have w: "dropWhile (\<lambda>c. \<not> is_letter c) (ws @ r) = ws @ r" "takeWhile is_letter (ws @ decimal n) = ws" "dropWhile is_letter (ws @ decimal n) = decimal n"
    "takeWhile is_letter ws = ws" "dropWhile is_letter ws = []" for r
    using assms d by (cases ws; auto simp: list_all_iff takeWhile_append dropWhile_append)+
  show "typeRegex (ws @ decimal n) = Some (ws @ decimal n, ws, decimal n, decimal n)" "typeRegex ws = Some (ws, ws, [], [])"
    using assms(2) by (simp_all add: typeRegex_def Let_def w w(1) [of "[]", simplified] takeWhile_decimal decimal_digits(2))
qed

lemma no_brackets: "list_all is_letter ws \<Longrightarrow> count_list ws CHR ''['' = 0" "list_all is_letter ws \<Longrightarrow> count_list ws CHR '']'' = 0"
  "count_list (decimal n) CHR ''['' = 0" "count_list (decimal n) CHR '']'' = 0"
proof -
  have "\<not> is_letter CHR ''[''" "\<not> is_letter CHR '']''" by (simp_all add: is_letter_def)
  then show "list_all is_letter ws \<Longrightarrow> count_list ws CHR ''['' = 0" "list_all is_letter ws \<Longrightarrow> count_list ws CHR '']'' = 0"
    "count_list (decimal n) CHR ''['' = 0" "count_list (decimal n) CHR '']'' = 0"
    using decimal_digits(4) [of n] by (auto simp: count_list_0_iff list_all_iff)
qed

lemma last_bracket_append: "CHR ''['' \<notin> set r \<Longrightarrow> last_bracket (p @ ''['' @ r) = length p"
  by (simp add: last_bracket_def takeWhile_append)

lemma digit_runs_decimal: "digit_runs (''['' @ decimal n @ '']'') = [decimal n]"
proof -
  have "\<not> is_digit CHR ''[''" "\<not> is_digit CHR '']''" by (simp_all add: is_digit_def)
  moreover obtain d ds where "decimal n = d # ds" "is_digit d" "list_all is_digit ds"
    using decimal_digits(1,2) [of n] by (cases "decimal n") auto
  ultimately show ?thesis
    by (simp add: takeWhile_append dropWhile_append list_all_iff)
qed

lemma name_brackets: "count_list (sol_name s) CHR ''['' = count_list (sol_name s) CHR '']''"
  by (induction s) (simp_all add: no_brackets)

lemma is_letters: "list_all is_letter ''int''" "list_all is_letter ''uint''" "list_all is_letter ''bool''" "list_all is_letter ''address''"
  "list_all is_letter ''string''" "list_all is_letter ''bytes''" "list_all is_letter ''function''"
  by (simp_all add: is_letter_def)

lemmas regex_names = letters_decimal(1) [OF is_letters(1), simplified] letters_decimal(1) [OF is_letters(2), simplified]
  letters_decimal(1) [OF is_letters(6), simplified] letters_decimal(2) [OF is_letters(3), simplified]
  letters_decimal(2) [OF is_letters(4), simplified] letters_decimal(2) [OF is_letters(5), simplified]
  letters_decimal(2) [OF is_letters(6), simplified] letters_decimal(2) [OF is_letters(7), simplified]

lemma elementary_types:
  "n < 2 ^ 63 \<Longrightarrow> elementary_type (sol_name (SInt n)) = eok (sol_type (SInt n))"
  "n < 2 ^ 63 \<Longrightarrow> elementary_type (sol_name (SUint n)) = eok (sol_type (SUint n))"
  "elementary_type (sol_name SBool) = eok (sol_type SBool)"
  "elementary_type (sol_name SAddress) = eok (sol_type SAddress)"
  "elementary_type (sol_name SString) = eok (sol_type SString)"
  "elementary_type (sol_name SBytes) = eok (sol_type SBytes)"
  "0 < n \<Longrightarrow> n < 2 ^ 63 \<Longrightarrow> elementary_type (sol_name (SFixedBytes n)) = eok (sol_type (SFixedBytes n))"
  "elementary_type (sol_name SFunction) = eok (sol_type SFunction)"
  by (simp_all add: elementary_type_def regex_names Atoi_decimal decimal_digits(2) split_beta ArrayOf_def)

lemma NewType_elementary: "count_list t CHR ''['' = 0 \<Longrightarrow> count_list t CHR '']'' = 0 \<Longrightarrow> NewType t = elementary_type t"
  by (subst NewType.simps) simp

lemma NewType_composite:
  assumes "count_list p CHR ''['' = count_list p CHR '']''" "CHR ''['' \<notin> set r" "count_list r CHR '']'' = 1"
  shows "NewType (p @ ''['' @ r) =
    ebind (NewType p) (\<lambda>embeddedType.
          case digit_runs (''['' @ r) of
            [] \<Rightarrow> eok (Type (Some embeddedType) Slice_Kind (sliceT (Type_of embeddedType)) 0 SliceTy (p @ ''['' @ r))
          | [n] \<Rightarrow>
              (case Atoi n of
                 None \<Rightarrow> efail errVariableSize
               | Some sz \<Rightarrow>
                   ebind (eopt (ArrayOf sz (Type_of embeddedType))) (\<lambda>g. eok (Type (Some embeddedType) Array_Kind g sz ArrayTy (p @ ''['' @ r))))
          | _ \<Rightarrow> efail errArrayFormat)"
proof -
  have "count_list r CHR ''['' = 0" using assms(2) by (simp add: count_list_0_iff)
  moreover have "last_bracket (p @ ''['' @ r) = length p"
    by (rule last_bracket_append [OF assms(2)])
  ultimately show ?thesis
    using assms(1,3) by (subst NewType.simps) (simp add: Let_def)
qed

text \<open>
  C22. \<^verbatim>\<open>NewType\<close> reads every canonical type name: the name of a Solidity type, with any nesting of slices and arrays (as
  long as the arrays fit the address space), is parsed to exactly the ABI type it stands for.
\<close>

theorem NewType_parses:
  assumes "sol_ok s"
  shows "NewType (sol_name s) = eok (sol_type s)"
  using assms
proof (induction s)
  case (SSlice s)
  have "\<not> is_digit CHR ''[''" "\<not> is_digit CHR '']''" by (simp_all add: is_digit_def)
  then show ?case
    using SSlice NewType_composite [OF name_brackets, of "'']''" s] by simp
next
  case (SArray s n)
  have "CHR ''['' \<notin> set (decimal n @ '']'')" "count_list (decimal n @ '']'') CHR '']'' = 1"
    using no_brackets(3,4) [of n] by (simp_all add: count_list_0_iff)
  from NewType_composite [OF name_brackets this] show ?case
    using SArray digit_runs_decimal [of n] by (simp add: Atoi_decimal ArrayOf_def)
qed (simp_all add: NewType_elementary no_brackets elementary_types [unfolded sol_name.simps, simplified] is_letters)

theorem NewType_parses_witness:
  "sol_ok (SArray (SSlice (SUint 256)) 3) \<and> sol_name (SArray (SSlice (SUint 256)) 3) = ''uint256[][3]'' \<and>
   NewType ''uint256[][3]'' =
     eok (Type (Some (Type (Some (Type None Ptr_Kind bigT 256 UintTy ''uint256'')) Slice_Kind (sliceT bigT) 0 SliceTy ''uint256[]''))
       Array_Kind (arrayT 3 (sliceT bigT)) 3 ArrayTy ''uint256[][3]'')"
proof -
  have ok: "sol_ok (SArray (SSlice (SUint 256)) 3)" by simp
  have nm: "sol_name (SArray (SSlice (SUint 256)) 3) = ''uint256[][3]''" by code_simp
  have "sol_name (SUint 256) = ''uint256''" "sol_name (SSlice (SUint 256)) = ''uint256[]''" "char_of (51 :: nat) = CHR ''3''" by code_simp+
  then show ?thesis
    using NewType_parses [OF ok] ok by (simp only: nm) (simp add: reflectIntKindAndType_def decimal.simps)
qed

end
