(* ===== verification/Abi_Codec.thy ===== *)
theory Abi_Codec
  imports Abi_Types
begin

text \<open>
  Packing and unpacking of arguments: \<^verbatim>\<open>numbers.go\<close>, \<^verbatim>\<open>pack.go\<close>, \<^verbatim>\<open>unpack.go\<close> and \<^verbatim>\<open>argument.go\<close> of
  \<^verbatim>\<open>accounts/abi\<close>, the round trip between them, and that unpacking never panics.
\<close>

section \<open>Packing\<close>

definition abi_U256 :: "int \<Rightarrow> bytes" where
  "abi_U256 n = PaddedBigBytes (U256 n) 32"

text \<open>An unsigned number is read as \<^verbatim>\<open>uint64\<close>, a signed one as \<^verbatim>\<open>int64\<close>.\<close>

definition packNum :: "Val \<Rightarrow> bytes option" where
  "packNum v =
    (case v of
       VNum k x \<Rightarrow>
         if k \<in> {Uint_Kind, Uint8_Kind, Uint16_Kind, Uint32_Kind, Uint64_Kind} then Some (abi_U256 x)
         else if k \<in> {Int_Kind, Int8_Kind, Int16_Kind, Int32_Kind, Int64_Kind} then Some (abi_U256 x)
         else None
     | VBig x \<Rightarrow> Some (abi_U256 x)
     | _ \<Rightarrow> None)"

definition packBytesSlice :: "bytes \<Rightarrow> nat \<Rightarrow> bytes" where
  "packBytesSlice bs l = abi_U256 (int l) @ RightPadBytes bs (int ((l + 31) div 32 * 32))"

definition packElement :: "Type \<Rightarrow> Val \<Rightarrow> bytes option" where
  "packElement t v =
    (case T t of
       IntTy \<Rightarrow> packNum v
     | UintTy \<Rightarrow> packNum v
     | StringTy \<Rightarrow> (case v of VString s \<Rightarrow> Some (packBytesSlice s (length s)) | _ \<Rightarrow> None)
     | AddressTy \<Rightarrow> map_option (\<lambda>bs. LeftPadBytes bs 32) (val_Bytes v)
     | BoolTy \<Rightarrow> (case v of VBool b \<Rightarrow> Some (PaddedBigBytes (if b then 1 else 0) 32) | _ \<Rightarrow> None)
     | BytesTy \<Rightarrow> map_option (\<lambda>bs. packBytesSlice bs (val_len v)) (val_Bytes v)
     | FixedBytesTy \<Rightarrow> map_option (\<lambda>bs. RightPadBytes bs 32) (val_Bytes v)
     | FunctionTy \<Rightarrow> map_option (\<lambda>bs. RightPadBytes bs 32) (val_Bytes v)
     | _ \<Rightarrow> None)"

text \<open>
  \<^verbatim>\<open>Type.pack\<close>. The values of the model are no pointers except to big integers, on which \<^verbatim>\<open>indirect\<close> does nothing.
\<close>

fun pack :: "Type \<Rightarrow> Val \<Rightarrow> bytes ares" where
  "pack (Type elem k g sz ty s) v =
    ebind (typeCheck (Type elem k g sz ty s) v) (\<lambda>_.
      if ty = SliceTy \<or> ty = ArrayTy then
        (case elem of
           None \<Rightarrow> Panic
         | Some e \<Rightarrow>
             ebind (foldl (\<lambda>acc x. ebind acc (\<lambda>packed. ebind (pack e x) (\<lambda>val. eok (packed @ val)))) (eok []) (elems v))
               (\<lambda>packed. eok (if ty = SliceTy then packBytesSlice packed (val_len v) else packed)))
      else eopt (packElement (Type elem k g sz ty s) v))"

section \<open>Unpacking\<close>

text \<open>The integer in the last bytes of a word, in the width and signedness of the kind.\<close>

definition last_bytes :: "nat \<Rightarrow> bytes \<Rightarrow> int" where
  "last_bytes n b = SetBytes (drop (length b - n) b)"

definition readInteger :: "Kind \<Rightarrow> bytes \<Rightarrow> Val" where
  "readInteger k b =
    (case k of
       Uint8_Kind \<Rightarrow> VNum k (last_bytes 1 b)
     | Uint16_Kind \<Rightarrow> VNum k (last_bytes 2 b)
     | Uint32_Kind \<Rightarrow> VNum k (last_bytes 4 b)
     | Uint64_Kind \<Rightarrow> VNum k (last_bytes 8 b)
     | Int8_Kind \<Rightarrow> VNum k (sint (word_of_int (last_bytes 1 b) :: 8 word))
     | Int16_Kind \<Rightarrow> VNum k (sint (word_of_int (last_bytes 2 b) :: 16 word))
     | Int32_Kind \<Rightarrow> VNum k (sint (word_of_int (last_bytes 4 b) :: 32 word))
     | Int64_Kind \<Rightarrow> VNum k (sint (word_of_int (last_bytes 8 b) :: 64 word))
     | _ \<Rightarrow> VBig (SetBytes b))"

definition readBool :: "bytes \<Rightarrow> Val ares" where
  "readBool word =
    (if \<exists>b \<in> set (take 31 word). b \<noteq> 0 then efail errBadBool
     else if word ! 31 = 0 then eok (VBool False)
     else if word ! 31 = 1 then eok (VBool True)
     else efail errBadBool)"

definition readFunctionType :: "Type \<Rightarrow> bytes \<Rightarrow> Val ares" where
  "readFunctionType t word =
    (if T t \<noteq> FunctionTy then efail errFunctionType
     else if SetBytes (take 8 (drop 24 word)) \<noteq> 0 then efail errFunctionType
     else eok (VArray uint8T (VBytes (take 24 word))))"

text \<open>The slice \<^verbatim>\<open>word[0:t.Size]\<close> may reach beyond the word into the rest of the data, which is its capacity.\<close>

definition readFixedBytes :: "Type \<Rightarrow> bytes \<Rightarrow> Val ares" where
  "readFixedBytes t rest =
    (if T t \<noteq> FixedBytesTy then efail errFixedBytes
     else if Size t \<le> int (length rest) then eok (VArray uint8T (VBytes (take (nat (Size t)) rest)))
     else Panic)"

fun getFullElemSize :: "Type \<Rightarrow> int" where
  "getFullElemSize (Type elem k g sz ty s) =
    (if ty = ArrayTy then (case elem of Some e \<Rightarrow> sz * getFullElemSize e | None \<Rightarrow> 32) else 32)"

definition lengthPrefixPointsTo :: "nat \<Rightarrow> bytes \<Rightarrow> (nat \<times> nat) ares" where
  "lengthPrefixPointsTo index output =
    (let bigOffsetEnd = SetBytes (take 32 (drop index output)) + 32;
         outputLength = int (length output)
     in if bigOffsetEnd > outputLength then efail errSliceBoundary
        else if BitLen bigOffsetEnd > 63 then efail errOffsetRange
        else
          (let offsetEnd = nat bigOffsetEnd;
               lengthBig = SetBytes (take 32 (drop (offsetEnd - 32) output));
               totalSize = bigOffsetEnd + lengthBig
           in if BitLen totalSize > 63 then efail errLengthRange
              else if totalSize > outputLength then efail errInsufficientLength
              else eok (offsetEnd, nat lengthBig)))"

text \<open>The elements of a slice or an array, read one after the other at a fixed distance.\<close>

definition unpack_elems :: "(nat \<Rightarrow> Val ares) \<Rightarrow> nat \<Rightarrow> nat \<Rightarrow> nat \<Rightarrow> Val list ares" where
  "unpack_elems f start elemSize n =
    foldl (\<lambda>acc j. ebind acc (\<lambda>vs. ebind (f (start + j * elemSize)) (\<lambda>v. eok (vs @ [v])))) (eok []) [0..<n]"

text \<open>
  The boundary check is computed in a 64-bit \<^verbatim>\<open>int\<close> and wraps for sizes from \<open>2^58\<close> on. The allocation of the result is not
  modelled: an array of such a size does not fit into memory.
\<close>

definition go_int :: "int \<Rightarrow> int" where
  "go_int x = sint (word_of_int x :: 64 word)"

definition forEachUnpack :: "(nat \<Rightarrow> Val ares) \<Rightarrow> Type \<Rightarrow> Type \<Rightarrow> bytes \<Rightarrow> nat \<Rightarrow> int \<Rightarrow> Val ares" where
  "forEachUnpack f t e output start sz =
    (if sz < 0 then efail (errNegativeSize sz)
     else if go_int (int start + 32 * sz) > int (length output) then efail errSliceBoundary
     else if T t = SliceTy then
       ebind (unpack_elems f start 32 (nat sz)) (\<lambda>vs. eok (VSlice (Type_of e) vs))
     else if T t = ArrayTy then
       ebind (unpack_elems f start (nat (getFullElemSize e)) (nat sz)) (\<lambda>vs. eok (VArray (Type_of e) vs))
     else efail errNotArray)"

fun toGoType :: "nat \<Rightarrow> Type \<Rightarrow> bytes \<Rightarrow> Val ares" where
  "toGoType index (Type elem k g sz ty s) output =
    (let t = Type elem k g sz ty s in
     if index + 32 > length output then efail errInsufficientLength
     else
       ebind (if requiresLengthPrefix t then lengthPrefixPointsTo index output else eok (0, 0)) (\<lambda>(begin, len).
         let returnOutput = take 32 (drop index output) in
         case ty of
           SliceTy \<Rightarrow>
             (case elem of
                None \<Rightarrow> Panic
              | Some e \<Rightarrow> forEachUnpack (\<lambda>i. toGoType i e output) t e output begin (int len))
         | ArrayTy \<Rightarrow>
             (case elem of
                None \<Rightarrow> Panic
              | Some e \<Rightarrow> forEachUnpack (\<lambda>i. toGoType i e output) t e output index sz)
         | StringTy \<Rightarrow> eok (VString (take len (drop begin output)))
         | IntTy \<Rightarrow> eok (readInteger k returnOutput)
         | UintTy \<Rightarrow> eok (readInteger k returnOutput)
         | BoolTy \<Rightarrow> readBool returnOutput
         | AddressTy \<Rightarrow> eok (VArray uint8T (VBytes (BytesToAddress returnOutput)))
         | HashTy \<Rightarrow> eok (VArray uint8T (VBytes (BytesToHash returnOutput)))
         | BytesTy \<Rightarrow> eok (VSlice uint8T (VBytes (take len (drop begin output))))
         | FixedBytesTy \<Rightarrow> readFixedBytes t (drop index output)
         | FunctionTy \<Rightarrow> readFunctionType t returnOutput
         | FixedPointTy \<Rightarrow> efail errUnknownType))"

section \<open>Arguments\<close>

record Argument =
  arg_Name :: string
  arg_Type :: Type
  arg_Indexed :: bool

definition NonIndexed :: "Argument list \<Rightarrow> Argument list" where
  "NonIndexed arguments = filter (\<lambda>arg. \<not> arg_Indexed arg) arguments"

definition LengthNonIndexed :: "Argument list \<Rightarrow> nat" where
  "LengthNonIndexed arguments = foldl (\<lambda>out arg. if \<not> arg_Indexed arg then out + 1 else out) 0 arguments"

definition isTuple :: "Argument list \<Rightarrow> bool" where
  "isTuple arguments \<longleftrightarrow> length arguments > 1"

fun nested_size :: "Type \<Rightarrow> int" where
  "nested_size (Type elem k g sz ty s) =
    (if ty = ArrayTy then (case elem of Some e \<Rightarrow> sz * nested_size e | None \<Rightarrow> sz) else 1)"

definition getArraySize :: "Type \<Rightarrow> int" where
  "getArraySize arr = Size arr * (case Elem arr of Some e \<Rightarrow> nested_size e | None \<Rightarrow> 1)"

fun unpack_args :: "Argument list \<Rightarrow> int \<Rightarrow> int \<Rightarrow> bytes \<Rightarrow> Val list ares" where
  "unpack_args [] index virtualArgs data = eok []"
| "unpack_args (arg # args) index virtualArgs data =
    ebind (toGoType (nat ((index + virtualArgs) * 32)) (arg_Type arg) data) (\<lambda>v.
      ebind (unpack_args args (index + 1)
              (if T (arg_Type arg) = ArrayTy then virtualArgs + (getArraySize (arg_Type arg) - 1) else virtualArgs) data)
        (\<lambda>vs. eok (v # vs)))"

definition UnpackValues :: "Argument list \<Rightarrow> bytes \<Rightarrow> Val list ares" where
  "UnpackValues arguments data = unpack_args (NonIndexed arguments) 0 0 data"

definition inputOffset :: "Argument list \<Rightarrow> int" where
  "inputOffset arguments =
    foldl (\<lambda>off arg. if T (arg_Type arg) = ArrayTy then off + 32 * Size (arg_Type arg) else off + 32) 0 arguments"

text \<open>The loop over the arguments, with the bytes written so far and the variable part.\<close>

fun pack_args :: "int \<Rightarrow> (Argument \<times> Val) list \<Rightarrow> bytes \<Rightarrow> bytes \<Rightarrow> bytes ares" where
  "pack_args off [] ret variableInput = eok (ret @ variableInput)"
| "pack_args off ((input, a) # rest) ret variableInput =
    ebind (pack (arg_Type input) a) (\<lambda>packed.
      if requiresLengthPrefix (arg_Type input)
      then pack_args off rest (ret @ abi_U256 (off + int (length variableInput))) (variableInput @ packed)
      else pack_args off rest (ret @ packed) variableInput)"

definition Pack :: "Argument list \<Rightarrow> Val list \<Rightarrow> bytes ares" where
  "Pack arguments args =
    (if length args \<noteq> length arguments then efail (errArgumentCount (length args) (length arguments))
     else pack_args (inputOffset arguments) (zip arguments args) [] [])"

section \<open>Words\<close>

lemma abi_U256_length [simp]: "length (abi_U256 n) = 32"
  using PaddedBigBytes_spec [of "U256 n" 32] by (simp add: abi_U256_def)

lemma abi_U256_value: "SetBytes (abi_U256 n) = n mod 2 ^ 256"
  using PaddedBigBytes_spec [of "U256 n" 32] by (simp add: abi_U256_def SetBytes_be_bytes U256_mod)

lemma last_bytes_U256: "k \<le> 32 \<Longrightarrow> last_bytes k (abi_U256 n) = n mod 256 ^ k"
proof -
  assume "k \<le> 32"
  then have "(256 :: int) ^ k dvd 256 ^ 32" by (rule le_imp_power_dvd)
  then show ?thesis
    unfolding last_bytes_def crop_value abi_U256_value by (intro mod_mod_cancel) simp
qed

lemma sint_mod:
  assumes "- (2 ^ (LENGTH('a) - 1)) \<le> x" "x < 2 ^ (LENGTH('a) - 1)"
  shows "sint (word_of_int (x mod 2 ^ LENGTH('a)) :: 'a::len word) = x"
proof -
  have "sint (word_of_int (take_bit LENGTH('a) x) :: 'a::len word) = signed_take_bit (LENGTH('a) - 1) x"
    by transfer (simp add: signed_take_bit_take_bit)
  then show ?thesis
    using assms by (simp add: take_bit_eq_mod signed_take_bit_int_eq_self)
qed

lemmas sint_mods = sint_mod [where 'a = 8, simplified] sint_mod [where 'a = 16, simplified] sint_mod [where 'a = 32, simplified]
  sint_mod [where 'a = 64, simplified]

section \<open>Values that fit their type\<close>

text \<open>The values a scalar type stands for. A signed integer wider than 64 bits has to be nonnegative: see below.\<close>

definition int_ok :: "Kind \<Rightarrow> Val \<Rightarrow> bool" where
  "int_ok k v =
    (case v of
       VNum k' x \<Rightarrow> k' = k \<and>
         (case k of
            Uint8_Kind \<Rightarrow> 0 \<le> x \<and> x < 2 ^ 8 | Uint16_Kind \<Rightarrow> 0 \<le> x \<and> x < 2 ^ 16
          | Uint32_Kind \<Rightarrow> 0 \<le> x \<and> x < 2 ^ 32 | Uint64_Kind \<Rightarrow> 0 \<le> x \<and> x < 2 ^ 64
          | Int8_Kind \<Rightarrow> - (2 ^ 7) \<le> x \<and> x < 2 ^ 7 | Int16_Kind \<Rightarrow> - (2 ^ 15) \<le> x \<and> x < 2 ^ 15
          | Int32_Kind \<Rightarrow> - (2 ^ 31) \<le> x \<and> x < 2 ^ 31 | Int64_Kind \<Rightarrow> - (2 ^ 63) \<le> x \<and> x < 2 ^ 63
          | _ \<Rightarrow> False)
     | VBig x \<Rightarrow> k = Ptr_Kind \<and> 0 \<le> x \<and> x < 2 ^ 256
     | _ \<Rightarrow> False)"

definition bytes_ok :: "nat \<Rightarrow> Val \<Rightarrow> bool" where
  "bytes_ok n v = (case v of VArray g vs \<Rightarrow> g = uint8T \<and> length vs = n \<and> list_all (int_ok Uint8_Kind) vs | _ \<Rightarrow> False)"

definition scalar_ok :: "Type \<Rightarrow> Val \<Rightarrow> bool" where
  "scalar_ok t v =
    (case T t of
       IntTy \<Rightarrow> int_ok (Kind_of t) v
     | UintTy \<Rightarrow> int_ok (Kind_of t) v
     | BoolTy \<Rightarrow> Kind_of t = Bool_Kind \<and> kind_of v = Bool_Kind \<and> (case v of VBool b \<Rightarrow> True | _ \<Rightarrow> False)
     | AddressTy \<Rightarrow> Kind_of t = Array_Kind \<and> bytes_ok 20 v
     | FixedBytesTy \<Rightarrow> Kind_of t = Array_Kind \<and> 0 \<le> Size t \<and> Size t \<le> 32 \<and> bytes_ok (nat (Size t)) v
     | FunctionTy \<Rightarrow> Kind_of t = Array_Kind \<and> bytes_ok 24 v
     | _ \<Rightarrow> False)"

lemma int_ok_kind: "int_ok k v \<Longrightarrow> kind_of v = k"
  by (cases v) (auto simp: int_ok_def)

lemma int_ok_roundtrip:
  assumes "int_ok k v"
  shows "\<exists>w. packNum v = Some w \<and> length w = 32 \<and> readInteger k w = v"
proof (cases v)
  case (VNum k' x)
  show ?thesis
    using assms VNum
    by (cases k) (auto simp: int_ok_def packNum_def readInteger_def last_bytes_U256 sint_mods)
next
  case (VBig x)
  then show ?thesis
    using assms by (auto simp: int_ok_def packNum_def readInteger_def abi_U256_value)
qed (use assms in \<open>simp_all add: int_ok_def\<close>)

lemma int_ok_byte: "int_ok Uint8_Kind v \<Longrightarrow> \<exists>b. v = VNum Uint8_Kind (uint (b :: u8))"
proof (cases v)
  case (VNum k x)
  assume "int_ok Uint8_Kind v"
  with VNum have "v = VNum Uint8_Kind (uint (word_of_int x :: u8))"
    by (simp add: int_ok_def uint_word_of_int)
  then show ?thesis ..
qed (simp_all add: int_ok_def)

lemma bytes_list: "list_all (int_ok Uint8_Kind) vs \<Longrightarrow> \<exists>bs. vs = VBytes bs"
proof (induction vs)
  case (Cons v vs)
  then obtain bs b where "vs = VBytes bs" "v = VNum Uint8_Kind (uint (b :: u8))"
    using int_ok_byte [of v] by auto
  then show ?case by (intro exI [of _ "b # bs"]) simp
qed simp

lemma those_bytes: "those (map byte_of (VBytes bs)) = Some bs"
  by (induction bs) (simp_all add: byte_of_def)

lemma val_Bytes_VBytes [simp]:
  "val_Bytes (VArray uint8T (VBytes bs)) = Some bs" "val_Bytes (VSlice uint8T (VBytes bs)) = Some bs"
  using those_bytes [of bs] by (simp_all add: val_Bytes_def elem_kind_def elems_def)

lemma bytes_okE:
  assumes "bytes_ok n v"
  obtains bs where "v = VArray uint8T (VBytes bs)" "length bs = n"
proof (cases v)
  case (VArray g vs)
  with assms obtain bs where "vs = VBytes bs"
    using bytes_list [of vs] by (auto simp: bytes_ok_def)
  with VArray assms show ?thesis
    by (intro that) (auto simp: bytes_ok_def)
qed (use assms in \<open>simp_all add: bytes_ok_def\<close>)

section \<open>Scalars\<close>

lemma at_word: "length w = 32 \<Longrightarrow> take 32 (drop (length pre) (pre @ w @ post)) = w"
  by simp

lemma pad_bool: "PaddedBigBytes (if b then 1 else 0) 32 = replicate 31 0 @ [if b then 1 else 0]"
proof -
  have "SetBytes (replicate 31 0 @ [if b then 1 else 0]) = (if b then 1 else 0)"
    by (simp only: SetBytes_replicate_zero) (simp add: SetBytes_Cons)
  then have "replicate 31 0 @ [if b then 1 else 0] = be_bytes 32 (if b then 1 else 0)"
    by (intro be_bytes_unique) simp_all
  then show ?thesis
    by (cases b) (simp_all add: PaddedBigBytes_spec)
qed

lemma scalar_roundtrip:
  assumes "scalar_ok t v"
  shows "\<exists>w. length w = 32 \<and> pack t v = eok w \<and> (\<forall>pre post. toGoType (length pre) t (pre @ w @ post) = eok v)"
proof (cases t)
  case (Type el k g sz ty s)
  show ?thesis
  proof (cases ty)
    case IntTy
    then obtain w where "packNum v = Some w" "length w = 32" "readInteger k w = v"
      using assms Type int_ok_roundtrip [of k v] by (auto simp: scalar_ok_def)
    then show ?thesis
      using assms Type IntTy by (auto simp: scalar_ok_def typeCheck_def packElement_def int_ok_kind requiresLengthPrefix_def Let_def)
  next
    case UintTy
    then obtain w where "packNum v = Some w" "length w = 32" "readInteger k w = v"
      using assms Type int_ok_roundtrip [of k v] by (auto simp: scalar_ok_def)
    then show ?thesis
      using assms Type UintTy by (auto simp: scalar_ok_def typeCheck_def packElement_def int_ok_kind requiresLengthPrefix_def Let_def)
  next
    case BoolTy
    then obtain b where "v = VBool b"
      using assms Type by (cases v) (auto simp: scalar_ok_def)
    then show ?thesis
      using assms Type BoolTy by (auto simp: scalar_ok_def typeCheck_def packElement_def requiresLengthPrefix_def Let_def pad_bool readBool_def nth_append)
  next
    case AddressTy
    then obtain bs where "v = VArray uint8T (VBytes bs)" "length bs = 20"
      using assms Type by (auto simp: scalar_ok_def elim: bytes_okE)
    then show ?thesis
      using assms Type AddressTy
      by (auto simp: scalar_ok_def typeCheck_def packElement_def requiresLengthPrefix_def Let_def LeftPadBytes_def BytesToAddress_unfold AddressLength_def)
  next
    case FixedBytesTy
    then obtain bs where "v = VArray uint8T (VBytes bs)" "length bs = nat sz" "0 \<le> sz" "sz \<le> 32"
      using assms Type by (auto simp: scalar_ok_def elim: bytes_okE)
    then show ?thesis
      using assms Type FixedBytesTy
      by (auto simp: scalar_ok_def typeCheck_def packElement_def requiresLengthPrefix_def Let_def RightPadBytes_def readFixedBytes_def val_len_def)
  next
    case FunctionTy
    then obtain bs where "v = VArray uint8T (VBytes bs)" "length bs = 24"
      using assms Type by (auto simp: scalar_ok_def elim: bytes_okE)
    then show ?thesis
      using assms Type FunctionTy SetBytes_replicate_zero [of 8 "[]"]
      by (auto simp: scalar_ok_def typeCheck_def packElement_def requiresLengthPrefix_def Let_def RightPadBytes_def readFunctionType_def)
  qed (use assms Type in \<open>simp_all add: scalar_ok_def\<close>)
qed

section \<open>Encodings\<close>

text \<open>The bytes an argument takes in the head of the data.\<close>

definition head_len :: "Type \<Rightarrow> nat" where
  "head_len t = (if T t = ArrayTy then 32 * nat (Size t) else 32)"

text \<open>
  \<open>decodes_at t w v\<close>: the bytes \<open>w\<close> decode to the value \<open>v\<close> in place. \<open>encodes t w v\<close>: they do so as an argument, in place
  in the head, or through an offset if the type has a length prefix.
\<close>

definition decodes_at :: "Type \<Rightarrow> bytes \<Rightarrow> Val \<Rightarrow> bool" where
  "decodes_at t w v \<longleftrightarrow> (\<forall>pre post. toGoType (length pre) t (pre @ w @ post) = eok v)"

definition encodes :: "Type \<Rightarrow> bytes \<Rightarrow> Val \<Rightarrow> bool" where
  "encodes t w v \<longleftrightarrow>
    (if requiresLengthPrefix t then
       (\<forall>data a b c d. data = a @ abi_U256 (int (length b)) @ c \<longrightarrow> data = b @ w @ d \<longrightarrow> length data < 2 ^ 62 \<longrightarrow>
          toGoType (length a) t data = eok v)
     else length w = head_len t \<and> (T t = ArrayTy \<longrightarrow> 0 \<le> Size t \<and> getArraySize t = Size t) \<and> decodes_at t w v)"

lemma encodes_prefixI:
  assumes "requiresLengthPrefix t"
    and "\<And>data a b c d. data = a @ abi_U256 (int (length b)) @ c \<Longrightarrow> data = b @ w @ d \<Longrightarrow> length data < 2 ^ 62 \<Longrightarrow> toGoType (length a) t data = eok v"
  shows "encodes t w v"
  using assms unfolding encodes_def by presburger

section \<open>Sequences of scalars\<close>

lemma elems_decode:
  assumes "list_all2 (\<lambda>w v. length w = 32 \<and> decodes_at e w v) ws vs"
  shows "length (concat ws) = 32 * length vs"
    "unpack_elems (\<lambda>i. toGoType i e (pre @ concat ws @ post)) (length pre) 32 (length vs) = eok vs"
proof -
  have "length (concat ws) = 32 * length vs \<and>
    (\<forall>pre post. unpack_elems (\<lambda>i. toGoType i e (pre @ concat ws @ post)) (length pre) 32 (length vs) = eok vs)"
    using assms
  proof (induction ws arbitrary: vs rule: rev_induct)
    case (snoc w ws)
    then obtain vs' v where vs: "vs = vs' @ [v]" "list_all2 (\<lambda>w v. length w = 32 \<and> decodes_at e w v) ws vs'" "length w = 32" "decodes_at e w v"
      by (auto simp: list_all2_append1 list_all2_Cons1)
    have ih: "length (concat ws) = 32 * length vs'"
      "\<And>pre post. unpack_elems (\<lambda>i. toGoType i e (pre @ concat ws @ post)) (length pre) 32 (length vs') = eok vs'"
      using snoc.IH [OF vs(2)] by blast+
    have "unpack_elems (\<lambda>i. toGoType i e (pre @ concat (ws @ [w]) @ post)) (length pre) 32 (length vs) = eok vs" for pre post
      using ih(2) [of pre "w @ post"] vs(4) [unfolded decodes_at_def, rule_format, of "pre @ concat ws" post] ih(1)
      by (simp add: vs(1) unpack_elems_def mult.commute)
    then show ?case using ih(1) vs(1,3) by simp
  qed (simp add: unpack_elems_def)
  then show "length (concat ws) = 32 * length vs"
    "unpack_elems (\<lambda>i. toGoType i e (pre @ concat ws @ post)) (length pre) 32 (length vs) = eok vs" by blast+
qed

lemma in_bounds [simp]: "0 \<le> x \<Longrightarrow> x \<le> n \<Longrightarrow> (n < go_int x) = False"
  using signed_take_bit_int_less_eq_self_iff [of 63 x] by (simp add: go_int_def signed_of_int)

lemma pack_elems:
  assumes "list_all (scalar_ok e) vs"
  shows "\<exists>ws. list_all2 (\<lambda>w v. length w = 32 \<and> decodes_at e w v) ws vs \<and>
    foldl (\<lambda>acc x. ebind acc (\<lambda>packed. ebind (pack e x) (\<lambda>val. eok (packed @ val)))) (eok []) vs = eok (concat ws)"
  using assms
proof (induction vs rule: rev_induct)
  case (snoc v vs)
  then obtain ws w where "list_all2 (\<lambda>w v. length w = 32 \<and> decodes_at e w v) ws vs" "length w = 32" "decodes_at e w v" "pack e v = eok w"
    "foldl (\<lambda>acc x. ebind acc (\<lambda>packed. ebind (pack e x) (\<lambda>val. eok (packed @ val)))) (eok []) vs = eok (concat ws)"
    using scalar_roundtrip [of e v] by (auto simp: decodes_at_def)
  then show ?case
    by (intro exI [of _ "ws @ [w]"]) (simp add: list_all2_appendI)
qed simp

section \<open>Arguments\<close>

text \<open>
  The argument types the codec handles: scalars, strings, byte strings, and slices and arrays of scalars. The type of
  the elements agrees with their kind, as it does for every type \<^verbatim>\<open>NewType\<close> builds.
\<close>

definition arg_ok :: "Type \<Rightarrow> Val \<Rightarrow> bool" where
  "arg_ok t v =
    (case T t of
       StringTy \<Rightarrow> Kind_of t = String_Kind \<and> (case v of VString s \<Rightarrow> True | _ \<Rightarrow> False)
     | BytesTy \<Rightarrow> Kind_of t = Slice_Kind \<and>
         (case v of VSlice g vs \<Rightarrow> g = uint8T \<and> list_all (int_ok Uint8_Kind) vs | _ \<Rightarrow> False)
     | SliceTy \<Rightarrow>
         (case (Elem t, v) of
            (Some e, VSlice g vs) \<Rightarrow> g = Type_of e \<and> kind_of_type g = Kind_of e \<and> T e \<noteq> SliceTy \<and> T e \<noteq> ArrayTy \<and> list_all (scalar_ok e) vs
          | _ \<Rightarrow> False)
     | ArrayTy \<Rightarrow>
         (case (Elem t, v) of
            (Some e, VArray g vs) \<Rightarrow> g = Type_of e \<and> kind_of_type g = Kind_of e \<and> T e \<noteq> SliceTy \<and> T e \<noteq> ArrayTy \<and>
              Size t = int (length vs) \<and> vs \<noteq> [] \<and> list_all (scalar_ok e) vs
          | _ \<Rightarrow> False)
     | _ \<Rightarrow> scalar_ok t v)"

lemma at_slice: "length a = i \<Longrightarrow> length b = n \<Longrightarrow> take n (drop i (a @ b @ c)) = b"
  by simp

text \<open>A value with a length prefix, found through its offset.\<close>

lemma prefix_points:
  assumes "data = a @ abi_U256 (int (length b)) @ c" "data = b @ abi_U256 (int l) @ d" "l \<le> length d" "length data < 2 ^ 62"
  shows "lengthPrefixPointsTo (length a) data = eok (length b + 32, l)"
proof -
  have "length b < 2 ^ 62" "l < 2 ^ 62" "length b + 32 + l \<le> length data"
    using assms(2-4) by simp_all
  moreover have "take 32 (drop (length a) data) = abi_U256 (int (length b))"
    unfolding assms(1) by simp
  moreover have "take 32 (drop (length b) data) = abi_U256 (int l)"
    unfolding assms(2) by simp
  ultimately show ?thesis
    using assms(4) by (simp add: lengthPrefixPointsTo_def Let_def abi_U256_value BitLen_gt not_less nat_add_distrib)
qed

lemma full_elem_scalar: "T e \<noteq> ArrayTy \<Longrightarrow> getFullElemSize e = 32"
  by (cases e) simp

lemma packBytesSlice_bytes: "packBytesSlice bs (length bs) = abi_U256 (int (length bs)) @ bs @ replicate (nat (int ((length bs + 31) div 32 * 32)) - length bs) 0"
  by (simp add: packBytesSlice_def RightPadBytes_def)

lemma packBytesSlice_elems: "length w = 32 * n \<Longrightarrow> packBytesSlice w n = abi_U256 (int n) @ w"
  by (simp add: packBytesSlice_def RightPadBytes_def)

lemma bytes_found:
  assumes "data = a @ abi_U256 (int (length b)) @ c" "data = b @ packBytesSlice bs (length bs) @ d" "length data < 2 ^ 62"
  shows "lengthPrefixPointsTo (length a) data = eok (length b + 32, length bs)" "take (length bs) (drop (length b + 32) data) = bs"
    "length a + 32 \<le> length data"
proof -
  obtain r where r: "data = b @ abi_U256 (int (length bs)) @ bs @ r"
    using assms(2) by (simp add: packBytesSlice_bytes)
  show "lengthPrefixPointsTo (length a) data = eok (length b + 32, length bs)"
    by (rule prefix_points [OF assms(1) r _ assms(3)]) simp
  show "take (length bs) (drop (length b + 32) data) = bs"
    by (simp add: r)
qed (simp add: assms(1))

lemma string_encodes: "encodes (Type el k g sz StringTy s) (packBytesSlice bs (length bs)) (VString bs)"
proof -
  have "toGoType (length a) (Type el k g sz StringTy s) data = eok (VString bs)"
    if "data = a @ abi_U256 (int (length b)) @ c" "data = b @ packBytesSlice bs (length bs) @ d" "length data < 2 ^ 62" for data a b c d
    using bytes_found [OF that] by (simp add: requiresLengthPrefix_def Let_def)
  moreover have "requiresLengthPrefix (Type el k g sz StringTy s)" by (simp add: requiresLengthPrefix_def)
  ultimately show ?thesis by (intro encodes_prefixI) blast+
qed

lemma bytes_encodes: "encodes (Type el k g sz BytesTy s) (packBytesSlice bs (length bs)) (VSlice uint8T (VBytes bs))"
proof -
  have "toGoType (length a) (Type el k g sz BytesTy s) data = eok (VSlice uint8T (VBytes bs))"
    if "data = a @ abi_U256 (int (length b)) @ c" "data = b @ packBytesSlice bs (length bs) @ d" "length data < 2 ^ 62" for data a b c d
    using bytes_found [OF that] by (simp add: requiresLengthPrefix_def Let_def)
  moreover have "requiresLengthPrefix (Type el k g sz BytesTy s)" by (simp add: requiresLengthPrefix_def)
  ultimately show ?thesis by (intro encodes_prefixI) blast+
qed

lemma slice_encodes:
  assumes "list_all2 (\<lambda>w v. length w = 32 \<and> decodes_at e w v) ws vs"
  shows "encodes (Type (Some e) k g sz SliceTy s) (abi_U256 (int (length vs)) @ concat ws) (VSlice (Type_of e) vs)"
proof -
  have "toGoType (length a) (Type (Some e) k g sz SliceTy s) data = eok (VSlice (Type_of e) vs)"
    if "data = a @ abi_U256 (int (length b)) @ c" "data = b @ (abi_U256 (int (length vs)) @ concat ws) @ d" "length data < 2 ^ 62" for data a b c d
  proof -
    have "lengthPrefixPointsTo (length a) data = eok (length b + 32, length vs)"
      by (rule prefix_points [OF that(1) that(2) [unfolded append_assoc] _ that(3)]) (use elems_decode(1) [OF assms] in simp)
    moreover have "unpack_elems (\<lambda>i. toGoType i e data) (length b + 32) 32 (length vs) = eok vs"
      using elems_decode(2) [OF assms, of "b @ abi_U256 (int (length vs))" d] that(2) by simp
    moreover have "length a + 32 \<le> length data" by (simp add: that(1))
    moreover have "length b + 32 + 32 * length vs \<le> length data"
      using elems_decode(1) [OF assms] unfolding that(2) by (simp only: length_append abi_U256_length)
    ultimately show ?thesis by (simp add: requiresLengthPrefix_def Let_def forEachUnpack_def)
  qed
  moreover have "requiresLengthPrefix (Type (Some e) k g sz SliceTy s)" by (simp add: requiresLengthPrefix_def)
  ultimately show ?thesis by (intro encodes_prefixI) blast+
qed

lemma array_encodes:
  assumes "list_all2 (\<lambda>w v. length w = 32 \<and> decodes_at e w v) ws vs" "vs \<noteq> []" "T e \<noteq> ArrayTy"
  shows "encodes (Type (Some e) k g (int (length vs)) ArrayTy s) (concat ws) (VArray (Type_of e) vs)"
proof -
  have n: "nested_size e = 1" using assms(3) by (cases e) simp
  have "\<not> 32 * length vs + n < 32" for n using assms(2) by (cases vs) simp_all
  then show ?thesis
    using elems_decode [OF assms(1)] assms(3) n
    by (auto simp: encodes_def decodes_at_def head_len_def requiresLengthPrefix_def Let_def forEachUnpack_def full_elem_scalar getArraySize_def)
qed

lemma arg_encodes:
  assumes "arg_ok t v"
  shows "\<exists>w. pack t v = eok w \<and> encodes t w v"
proof (cases t)
  case (Type el k g sz ty s)
  have scalar: "\<exists>w. pack t v = eok w \<and> encodes t w v" if "scalar_ok t v" "ty \<notin> {StringTy, BytesTy, SliceTy, ArrayTy}"
    using scalar_roundtrip [OF that(1)] that(2) Type by (auto simp: encodes_def decodes_at_def head_len_def requiresLengthPrefix_def)
  show ?thesis
  proof (cases ty)
    case StringTy
    then obtain bs where "k = String_Kind" "v = VString bs"
      using assms Type by (cases v) (simp_all add: arg_ok_def)
    then show ?thesis
      using string_encodes StringTy Type by (auto simp: typeCheck_def packElement_def)
  next
    case BytesTy
    then obtain bs where "k = Slice_Kind" "v = VSlice uint8T (VBytes bs)"
      using assms Type bytes_list by (cases v) (auto simp: arg_ok_def)
    then show ?thesis
      using bytes_encodes BytesTy Type by (auto simp: typeCheck_def packElement_def val_len_def)
  next
    case SliceTy
    then obtain e vs where v: "el = Some e" "v = VSlice (Type_of e) vs" "kind_of_type (Type_of e) = Kind_of e" "T e \<noteq> SliceTy" "T e \<noteq> ArrayTy"
      "list_all (scalar_ok e) vs"
      using assms Type by (cases v; cases el) (simp_all add: arg_ok_def)
    obtain ws where ws: "list_all2 (\<lambda>w v. length w = 32 \<and> decodes_at e w v) ws vs"
      "foldl (\<lambda>acc x. ebind acc (\<lambda>packed. ebind (pack e x) (\<lambda>val. eok (packed @ val)))) (eok []) vs = eok (concat ws)"
      using pack_elems [OF v(6)] by blast
    have "pack t v = eok (abi_U256 (int (length vs)) @ concat ws)"
      using SliceTy v Type ws(2) elems_decode(1) [OF ws(1)] by (simp add: typeCheck_def elems_def val_len_def elem_kind_def packBytesSlice_elems)
    then show ?thesis
      using slice_encodes [OF ws(1)] SliceTy v(1,2) Type by blast
  next
    case ArrayTy
    then obtain e vs where v: "el = Some e" "v = VArray (Type_of e) vs" "kind_of_type (Type_of e) = Kind_of e" "T e \<noteq> SliceTy" "T e \<noteq> ArrayTy"
      "list_all (scalar_ok e) vs" "sz = int (length vs)" "vs \<noteq> []"
      using assms Type by (cases v; cases el) (simp_all add: arg_ok_def)
    obtain ws where ws: "list_all2 (\<lambda>w v. length w = 32 \<and> decodes_at e w v) ws vs"
      "foldl (\<lambda>acc x. ebind acc (\<lambda>packed. ebind (pack e x) (\<lambda>val. eok (packed @ val)))) (eok []) vs = eok (concat ws)"
      using pack_elems [OF v(6)] by blast
    have "pack t v = eok (concat ws)"
      using ArrayTy v Type ws(2) by (simp add: typeCheck_def elems_def val_len_def elem_kind_def)
    then show ?thesis
      using array_encodes [OF ws(1) v(8,5)] ArrayTy v(1,2,7) Type by blast
  qed (use assms Type scalar in \<open>simp_all add: arg_ok_def\<close>)
qed

section \<open>The layout of arguments\<close>

text \<open>The loop that \<^verbatim>\<open>Pack\<close> and \<^verbatim>\<open>Fuzz\<close> share, once every argument has been packed.\<close>

fun layout :: "int \<Rightarrow> (Type \<times> bytes) list \<Rightarrow> bytes \<Rightarrow> bytes \<Rightarrow> bytes" where
  "layout off [] ret var = ret @ var"
| "layout off ((t, w) # rest) ret var =
    (if requiresLengthPrefix t then layout off rest (ret @ abi_U256 (off + int (length var))) (var @ w)
     else layout off rest (ret @ w) var)"

lemma pack_args_layout:
  assumes "list_all2 (\<lambda>(arg, v) w. pack (arg_Type arg) v = eok w) avs ws"
  shows "pack_args off avs ret var = eok (layout off (zip (map (arg_Type \<circ> fst) avs) ws) ret var)"
  using assms by (induction avs ws arbitrary: ret var rule: list_all2_induct) auto

lemma layout_decodes:
  assumes "list_all2 (\<lambda>(arg, w) v. encodes (arg_Type arg) w v) aws vals"
  shows "\<exists>h tail. layout off (map (\<lambda>(arg, w). (arg_Type arg, w)) aws) ret var = ret @ h @ var @ tail \<and>
    length h = sum_list (map (head_len \<circ> arg_Type \<circ> fst) aws) \<and>
    (\<forall>data idx virt. data = ret @ h @ var @ tail \<longrightarrow> off = int (length ret + length h) \<longrightarrow> length data < 2 ^ 62 \<longrightarrow>
       (idx + virt) * 32 = int (length ret) \<longrightarrow> unpack_args (map fst aws) idx virt data = eok vals)"
  using assms
proof (induction aws vals arbitrary: ret var rule: list_all2_induct)
  case (Cons aw aws v vals)
  obtain arg w where aw: "aw = (arg, w)" by (cases aw)
  let ?t = "arg_Type arg" and ?layout = "\<lambda>r v. layout off (map (\<lambda>(arg, w). (arg_Type arg, w)) aws) r v"
  have enc: "encodes ?t w v" using Cons(1) aw by simp
  show ?case
  proof (cases "requiresLengthPrefix ?t")
    case True
    let ?u = "abi_U256 (off + int (length var))"
    obtain h tail where ih: "?layout (ret @ ?u) (var @ w) = (ret @ ?u) @ h @ (var @ w) @ tail"
      "length h = sum_list (map (head_len \<circ> arg_Type \<circ> fst) aws)"
      "\<And>data idx virt. data = (ret @ ?u) @ h @ (var @ w) @ tail \<Longrightarrow> off = int (length (ret @ ?u) + length h) \<Longrightarrow> length data < 2 ^ 62 \<Longrightarrow>
       (idx + virt) * 32 = int (length (ret @ ?u)) \<Longrightarrow> unpack_args (map fst aws) idx virt data = eok vals"
      using Cons.IH [of "ret @ ?u" "var @ w"] by blast
    have "unpack_args (map fst (aw # aws)) idx virt data = eok (v # vals)"
      if d: "data = ret @ (?u @ h) @ var @ (w @ tail)" "off = int (length ret + length (?u @ h))" "length data < 2 ^ 62" "(idx + virt) * 32 = int (length ret)"
      for data idx virt
    proof -
      have "off + int (length var) = int (length (ret @ ?u @ h @ var))" using d(2) by simp
      then have "data = ret @ abi_U256 (int (length (ret @ ?u @ h @ var))) @ (h @ var @ w @ tail)"
        using d(1) by (simp only: append_assoc)
      moreover have "data = (ret @ ?u @ h @ var) @ w @ tail"
        by (simp add: d(1))
      ultimately have "toGoType (length ret) ?t data = eok v"
        using enc True d(3) unfolding encodes_def by presburger
      moreover have "T ?t \<noteq> ArrayTy" using True by (auto simp: requiresLengthPrefix_def)
      moreover have "unpack_args (map fst aws) (idx + 1) virt data = eok vals"
        by (rule ih(3)) (use d in simp_all)
      ultimately show ?thesis using d(4) aw by simp
    qed
    moreover have "layout off (map (\<lambda>(arg, w). (arg_Type arg, w)) (aw # aws)) ret var = ret @ (?u @ h) @ var @ (w @ tail)"
      using True ih(1) aw by simp
    moreover have "length (?u @ h) = sum_list (map (head_len \<circ> arg_Type \<circ> fst) (aw # aws))"
      using True ih(2) aw by (auto simp: head_len_def requiresLengthPrefix_def)
    ultimately show ?thesis by blast
  next
    case False
    have w: "length w = head_len ?t" "T ?t = ArrayTy \<Longrightarrow> 0 \<le> Size ?t \<and> getArraySize ?t = Size ?t" "\<And>pre post. toGoType (length pre) ?t (pre @ w @ post) = eok v"
      using enc False by (auto simp: encodes_def decodes_at_def)
    obtain h tail where ih: "?layout (ret @ w) var = (ret @ w) @ h @ var @ tail"
      "length h = sum_list (map (head_len \<circ> arg_Type \<circ> fst) aws)"
      "\<And>data idx virt. data = (ret @ w) @ h @ var @ tail \<Longrightarrow> off = int (length (ret @ w) + length h) \<Longrightarrow> length data < 2 ^ 62 \<Longrightarrow>
       (idx + virt) * 32 = int (length (ret @ w)) \<Longrightarrow> unpack_args (map fst aws) idx virt data = eok vals"
      using Cons.IH [of "ret @ w" var] by blast
    have "unpack_args (map fst (aw # aws)) idx virt data = eok (v # vals)"
      if d: "data = ret @ (w @ h) @ var @ tail" "off = int (length ret + length (w @ h))" "length data < 2 ^ 62" "(idx + virt) * 32 = int (length ret)"
      for data idx virt
    proof -
      have "toGoType (length ret) ?t data = eok v"
        using w(3) [of ret "h @ var @ tail"] d(1) by simp
      moreover have "unpack_args (map fst aws) (idx + 1) (if T ?t = ArrayTy then virt + (getArraySize ?t - 1) else virt) data = eok vals"
        by (rule ih(3)) (use d w(1,2) in \<open>auto simp: head_len_def\<close>)
      ultimately show ?thesis using d(4) aw by simp
    qed
    moreover have "layout off (map (\<lambda>(arg, w). (arg_Type arg, w)) (aw # aws)) ret var = ret @ (w @ h) @ var @ tail"
      using False ih(1) aw by simp
    moreover have "length (w @ h) = sum_list (map (head_len \<circ> arg_Type \<circ> fst) (aw # aws))"
      using ih(2) w(1) aw by simp
    ultimately show ?thesis by blast
  qed
qed simp

lemma inputOffset_heads:
  assumes "\<forall>arg\<in>set args. T (arg_Type arg) = ArrayTy \<longrightarrow> 0 \<le> Size (arg_Type arg)"
  shows "inputOffset args = int (sum_list (map (head_len \<circ> arg_Type) args))"
proof -
  have "foldl (\<lambda>off arg. if T (arg_Type arg) = ArrayTy then off + 32 * Size (arg_Type arg) else off + 32) off args =
    off + int (sum_list (map (head_len \<circ> arg_Type) args))" for off
    using assms by (induction args arbitrary: off) (auto simp: head_len_def)
  from this [of 0] show ?thesis by (simp add: inputOffset_def)
qed

text \<open>Laid out arguments decode.\<close>

lemma layout_unpack:
  assumes "list_all2 (\<lambda>(arg, w) v. encodes (arg_Type arg) w v) aws vals" "list_all (\<lambda>arg. \<not> arg_Indexed arg) (map fst aws)"
    and "data = layout (inputOffset (map fst aws)) (map (\<lambda>(arg, w). (arg_Type arg, w)) aws) [] []" "length data < 2 ^ 62"
  shows "UnpackValues (map fst aws) data = eok vals"
proof -
  have "\<forall>aw\<in>set aws. \<exists>v. encodes (arg_Type (fst aw)) (snd aw) v"
    using assms(1) by (induction rule: list_all2_induct) auto
  then have "\<forall>arg\<in>set (map fst aws). T (arg_Type arg) = ArrayTy \<longrightarrow> 0 \<le> Size (arg_Type arg)"
    by (auto simp: encodes_def requiresLengthPrefix_def split: if_splits)
  note off = inputOffset_heads [OF this]
  obtain h tail where r: "data = h @ tail" "length h = sum_list (map (head_len \<circ> arg_Type \<circ> fst) aws)"
    "inputOffset (map fst aws) = int (length h) \<Longrightarrow> length (h @ tail) < 2 ^ 62 \<Longrightarrow> unpack_args (map fst aws) 0 0 (h @ tail) = eok vals"
    using layout_decodes [OF assms(1), of "inputOffset (map fst aws)" "[]" "[]"] assms(3) by auto
  have "NonIndexed (map fst aws) = map fst aws"
    using assms(2) by (simp add: NonIndexed_def filter_id_conv list_all_iff)
  then show ?thesis
    using r off assms(4) by (simp add: UnpackValues_def comp_def)
qed

text \<open>Packing the values of arguments and unpacking them again.\<close>

lemma pack_roundtrip:
  assumes "list_all2 (\<lambda>arg v. arg_ok (arg_Type arg) v) args vals" "list_all (\<lambda>arg. \<not> arg_Indexed arg) args"
  shows "\<exists>data. Pack args vals = eok data \<and> (length data < 2 ^ 62 \<longrightarrow> UnpackValues args data = eok vals)"
proof -
  have len: "length args = length vals"
    using assms(1) by (rule list_all2_lengthD)
  have "\<exists>ws. list_all2 (\<lambda>(arg, v) w. pack (arg_Type arg) v = eok w) (zip args vals) ws \<and>
      list_all2 (\<lambda>(arg, w) v. encodes (arg_Type arg) w v) (zip args ws) vals \<and> length ws = length args"
    using assms(1)
  proof (induction args vals rule: list_all2_induct)
    case (Cons arg args v vals)
    then obtain ws w where "list_all2 (\<lambda>(arg, v) w. pack (arg_Type arg) v = eok w) (zip args vals) ws"
      "list_all2 (\<lambda>(arg, w) v. encodes (arg_Type arg) w v) (zip args ws) vals" "length ws = length args"
      "pack (arg_Type arg) v = eok w" "encodes (arg_Type arg) w v"
      using arg_encodes by blast
    then show ?case by (intro exI [of _ "w # ws"]) simp
  qed simp
  then obtain ws where ws: "list_all2 (\<lambda>(arg, v) w. pack (arg_Type arg) v = eok w) (zip args vals) ws"
    "list_all2 (\<lambda>(arg, w) v. encodes (arg_Type arg) w v) (zip args ws) vals" "length ws = length args"
    by blast
  have "map fst (zip args ws) = args" "map (arg_Type \<circ> fst) (zip args vals) = map arg_Type args"
    "map (\<lambda>(arg, w). (arg_Type arg, w)) (zip args ws) = zip (map arg_Type args) ws"
    using len ws(3) by (simp_all add: zip_map1 flip: map_map)
  then show ?thesis
    using layout_unpack [OF ws(2)] pack_args_layout [OF ws(1), of "inputOffset args" "[]" "[]"] assms(2) len by (auto simp: Pack_def)
qed

section \<open>Unpacking never panics\<close>

text \<open>Types as \<^verbatim>\<open>NewType\<close> builds them, with byte strings that fit a word and arrays whose sizes do not overflow an \<^verbatim>\<open>int\<close>.\<close>

fun type_ok :: "Type \<Rightarrow> bool" where
  "type_ok (Type elem k g sz ty s) =
    ((ty = SliceTy \<or> ty = ArrayTy \<longrightarrow> (case elem of Some e \<Rightarrow> type_ok e | None \<Rightarrow> False)) \<and>
     (ty = ArrayTy \<longrightarrow> 0 \<le> sz \<and> sz < 2 ^ 31) \<and> (ty = FixedBytesTy \<longrightarrow> sz \<le> 32))"

definition returns :: "'a res \<Rightarrow> bool" where
  "returns m \<longleftrightarrow> (\<exists>r. m = Done r)"

lemma returns_Done [simp]: "returns (Done r)"
  by (simp add: returns_def)

lemma returns_ebind: "returns m \<Longrightarrow> (\<And>x. returns (f x)) \<Longrightarrow> returns (ebind m f)"
proof -
  assume "returns m" and f: "\<And>x. returns (f x)"
  then obtain r where "m = Done r" by (auto simp: returns_def)
  then show "returns (ebind m f)" by (cases r) (simp_all add: f)
qed

lemma returns_unpack_elems: "(\<And>i. returns (f i)) \<Longrightarrow> returns (unpack_elems f start n k)"
proof -
  assume f: "\<And>i. returns (f i)"
  have "returns acc \<Longrightarrow> returns (foldl (\<lambda>acc j. ebind acc (\<lambda>vs. ebind (f (start + j * n)) (\<lambda>v. eok (vs @ [v])))) acc js)" for acc js
  proof (induction js arbitrary: acc)
    case (Cons j js)
    from Cons.prems have "returns (ebind acc (\<lambda>vs. ebind (f (start + j * n)) (\<lambda>v. eok (vs @ [v]))))"
      by (intro returns_ebind f) simp_all
    then show ?case using Cons.IH by simp
  qed simp
  then show ?thesis
    by (simp add: unpack_elems_def)
qed

lemma toGoType_returns: "type_ok t \<Longrightarrow> returns (toGoType i t data)"
proof (induction i t data rule: toGoType.induct)
  case (1 i elem k g sz ty s data)
  have each: "returns (forEachUnpack f t e data b n)" if "\<And>i. returns (f i)" for f t e b n
    using that by (auto simp: forEachUnpack_def intro!: returns_ebind returns_unpack_elems)
  have pre: "returns (if requiresLengthPrefix t then lengthPrefixPointsTo i data else eok (0, 0))" for t
    by (simp add: lengthPrefixPointsTo_def Let_def)
  show ?case
  proof (cases "i + 32 > length data")
    case False
    have el: "returns (toGoType j e data)" if "elem = Some e" "ty = SliceTy \<or> ty = ArrayTy" for j e
      using 1 that False by (cases "ty = SliceTy") auto
    show ?thesis
      unfolding toGoType.simps Let_def if_not_P [OF False]
      by (rule returns_ebind [OF pre])
        (use False 1(3) el in \<open>cases ty; cases elem; auto intro!: each simp: readBool_def readFixedBytes_def readFunctionType_def split: prod.split\<close>)
  qed simp
qed

lemma unpack_args_returns: "list_all (type_ok \<circ> arg_Type) args \<Longrightarrow> returns (unpack_args args idx virt data)"
  by (induction args arbitrary: idx virt) (auto intro!: returns_ebind toGoType_returns)

text \<open>
  The bound on fixed byte strings is needed: \<^verbatim>\<open>NewType\<close> accepts \<open>bytes33\<close> and above, and unpacking such a type from data that
  ends before its last byte slices out of range.
\<close>

lemma oversized_fixed_bytes_panic:
  assumes "sol_ok (SFixedBytes n)" "32 \<le> length data" "length data < n"
  shows "NewType (sol_name (SFixedBytes n)) = eok (sol_type (SFixedBytes n)) \<and>
    UnpackValues [\<lparr>arg_Name = name, arg_Type = sol_type (SFixedBytes n), arg_Indexed = False\<rparr>] data = Panic"
  using assms no_brackets elementary_types(7) [of n]
  by (simp add: NewType_elementary UnpackValues_def NonIndexed_def requiresLengthPrefix_def Let_def readFixedBytes_def)



text \<open>
  C35. Negative wide integers do not survive the codec: a negative value of a signed type wider than 64 bits packs to its
  two's complement word, but unpacking reads the word as unsigned and returns the value plus \<open>2^256\<close>.
\<close>

theorem negative_int256_lost:
  assumes "T t = IntTy" "Kind_of t = Ptr_Kind" "- (2 ^ 255) \<le> x" "x < 0"
  shows "\<exists>w. pack t (VBig x) = eok w \<and> (\<forall>pre post. toGoType (length pre) t (pre @ w @ post) = eok (VBig (2 ^ 256 + x)))"
proof (cases t)
  case (Type el k g sz ty s)
  have "x mod 2 ^ 256 = 2 ^ 256 + x"
    using mod_pos_pos_trivial [of "2 ^ 256 + x" "2 ^ 256"] assms(3,4) by simp
  then have "SetBytes (abi_U256 x) = 2 ^ 256 + x" by (simp only: abi_U256_value)
  then show ?thesis
    using Type assms(1,2) by (auto simp: typeCheck_def packElement_def packNum_def readInteger_def requiresLengthPrefix_def Let_def)
qed

theorem negative_int256_lost_witness:
  "\<exists>w. pack (Type None Ptr_Kind bigT 256 IntTy ''int256'') (VBig (-1)) = eok w \<and>
    toGoType 0 (Type None Ptr_Kind bigT 256 IntTy ''int256'') w = eok (VBig (2 ^ 256 - 1))"
proof -
  obtain w where "pack (Type None Ptr_Kind bigT 256 IntTy ''int256'') (VBig (-1)) = eok w"
    "\<forall>pre post. toGoType (length pre) (Type None Ptr_Kind bigT 256 IntTy ''int256'') (pre @ w @ post) = eok (VBig (2 ^ 256 + -1))"
    using negative_int256_lost [of "Type None Ptr_Kind bigT 256 IntTy ''int256''" "-1"] by auto
  moreover from this(2) have "toGoType 0 (Type None Ptr_Kind bigT 256 IntTy ''int256'') w = eok (VBig (2 ^ 256 + -1))"
    by (metis append_Nil append_Nil2 list.size(3))
  moreover have "(2 :: int) ^ 256 + -1 = 2 ^ 256 - 1" by simp
  ultimately show ?thesis by metis
qed

text \<open>
  Packing an empty slice of arrays panics: the type check looks at the first element of the slice without asking whether
  there is one.
\<close>

lemma pack_empty_slice_panics:
  assumes "T e = ArrayTy"
  shows "pack (Type (Some e) k g sz SliceTy s) (VSlice g' []) = Panic"
  using assms by (simp add: typeCheck_def val_len_def)

end
