(* ===== verification/Abi_Typing.thy ===== *)
theory Abi_Typing
  imports Abi_Codec
begin

text \<open>
  Type soundness of unpacking: the values that \<^verbatim>\<open>toGoType\<close> (\<^verbatim>\<open>src/accounts/abi/unpack.go\<close>) returns have the Go type that
  \<^verbatim>\<open>NewType\<close> recorded for the type name.
\<close>

section \<open>The types of unpacked values\<close>

text \<open>A value of a Go type, with its numbers in the range of their kind.\<close>

fun has_type :: "GoType \<Rightarrow> Val \<Rightarrow> bool" where
  "has_type (numT k) v = (case v of VNum k' x \<Rightarrow> int_ok k v | _ \<Rightarrow> False)"
| "has_type bigT v = (case v of VBig x \<Rightarrow> True | _ \<Rightarrow> False)"
| "has_type boolT v = (case v of VBool b \<Rightarrow> True | _ \<Rightarrow> False)"
| "has_type stringT v = (case v of VString s \<Rightarrow> True | _ \<Rightarrow> False)"
| "has_type (sliceT g) v = (case v of VSlice g' vs \<Rightarrow> g' = g \<and> list_all (has_type g) vs | _ \<Rightarrow> False)"
| "has_type (arrayT n g) v = (case v of VArray g' vs \<Rightarrow> g' = g \<and> int (length vs) = n \<and> list_all (has_type g) vs | _ \<Rightarrow> False)"

text \<open>The Go type of an ABI type agrees with its other fields.\<close>

fun go_typed :: "Type \<Rightarrow> bool" where
  "go_typed (Type elem k g sz ty s) =
    (case ty of
       IntTy \<Rightarrow> (k, g) = reflectIntKindAndType False sz
     | UintTy \<Rightarrow> (k, g) = reflectIntKindAndType True sz
     | BoolTy \<Rightarrow> g = boolT
     | StringTy \<Rightarrow> g = stringT
     | SliceTy \<Rightarrow> (case elem of Some e \<Rightarrow> go_typed e \<and> g = sliceT (Type_of e) | None \<Rightarrow> False)
     | ArrayTy \<Rightarrow> (case elem of Some e \<Rightarrow> go_typed e \<and> 0 \<le> sz \<and> g = arrayT sz (Type_of e) | None \<Rightarrow> False)
     | AddressTy \<Rightarrow> g = addressT
     | FixedBytesTy \<Rightarrow> 0 \<le> sz \<and> g = arrayT sz uint8T
     | BytesTy \<Rightarrow> g = sliceT uint8T
     | FunctionTy \<Rightarrow> g = arrayT 24 uint8T
     | _ \<Rightarrow> False)"

lemma digits_value_nonneg: "list_all is_digit s \<Longrightarrow> 0 \<le> digits_value s"
proof -
  have d: "(48 :: int) \<le> of_char c" if "is_digit c" for c
    using that unfolding is_digit_def by (simp; elim disjE; simp)
  have "0 \<le> foldl (\<lambda>acc c. acc * 10 + (of_char c - 48)) (a :: int) s" if "list_all is_digit s" "0 \<le> a" for a
    using that
  proof (induction s arbitrary: a)
    case (Cons c s)
    then have "0 \<le> a * 10 + (of_char c - 48)" using d [of c] by simp
    with Cons show ?case by simp
  qed simp
  then show "list_all is_digit s \<Longrightarrow> 0 \<le> digits_value s" by (simp add: digits_value_def)
qed

lemma Atoi_nonneg: "Atoi s = Some n \<Longrightarrow> 0 \<le> n"
  by (auto simp: Atoi_def digits_value_nonneg split: if_splits)

lemma int_typed:
  "(case reflectIntKindAndType u n of (k, g) \<Rightarrow> eok (Type None k g n (if u then UintTy else IntTy) s)) = eok r \<Longrightarrow> go_typed r"
  by (cases u; cases "reflectIntKindAndType u n") auto

lemma elementary_typed:
  assumes "elementary_type t = eok r"
  shows "go_typed r"
proof -
  obtain p0 w p2 p3 where re: "typeRegex t = Some (p0, w, p2, p3)"
    using assms by (cases "typeRegex t") (auto simp: elementary_type_def)
  from assms obtain n where n: "(if p3 \<noteq> [] then (case Atoi p2 of None \<Rightarrow> efail errVariableSize | Some n \<Rightarrow> eok n)
      else if p0 = ''uint'' \<or> p0 = ''int'' then efail (errUnsupported t) else eok 0) = eok n"
    and r: "(if w = ''int'' then (case reflectIntKindAndType False n of (k, g) \<Rightarrow> eok (Type None k g n IntTy t))
      else if w = ''uint'' then (case reflectIntKindAndType True n of (k, g) \<Rightarrow> eok (Type None k g n UintTy t))
      else if w = ''bool'' then eok (Type None Bool_Kind boolT 0 BoolTy t)
      else if w = ''address'' then eok (Type None Array_Kind addressT 20 AddressTy t)
      else if w = ''string'' then eok (Type None String_Kind stringT 0 StringTy t)
      else if w = ''bytes'' then
        (if n = 0 then eok (Type None Slice_Kind (sliceT uint8T) 0 BytesTy t)
         else ebind (eopt (ArrayOf n uint8T)) (\<lambda>g. eok (Type None Array_Kind g n FixedBytesTy t)))
      else if w = ''function'' then ebind (eopt (ArrayOf 24 uint8T)) (\<lambda>g. eok (Type None Array_Kind g 24 FunctionTy t))
      else efail (errUnsupported t)) = eok r"
    unfolding elementary_type_def re option.case prod.case ebind_eq_ok by blast
  have "0 \<le> n" using n Atoi_nonneg by (auto split: if_splits option.splits)
  with r show ?thesis
    using int_typed [where u = False and n = n and s = t and r = r] int_typed [where u = True and n = n and s = t and r = r]
    by (auto simp: ArrayOf_def split: if_splits simp del: go_typed.simps) (simp_all)
qed

lemma NewType_typed: "NewType t = eok r \<Longrightarrow> go_typed r"
proof (induction t arbitrary: r rule: NewType.induct)
  case (1 t)
  show ?case
  proof (cases "count_list t CHR ''['' = count_list t CHR '']'' \<and> count_list t CHR ''['' \<noteq> 0")
    case True
    let ?i = "last_bracket t"
    have "eok r = ebind (NewType (take ?i t)) (\<lambda>e.
        case digit_runs (drop ?i t) of
            [] \<Rightarrow> eok (Type (Some e) Slice_Kind (sliceT (Type_of e)) 0 SliceTy t)
          | [n] \<Rightarrow>
              (case Atoi n of
                 None \<Rightarrow> efail errVariableSize
               | Some sz \<Rightarrow> ebind (eopt (ArrayOf sz (Type_of e))) (\<lambda>g. eok (Type (Some e) Array_Kind g sz ArrayTy t)))
          | _ \<Rightarrow> efail errArrayFormat)"
      using True 1(2) by (simp add: NewType.simps [of t] Let_def)
    from this [symmetric] obtain e where e: "NewType (take ?i t) = eok e"
      "(case digit_runs (drop ?i t) of
            [] \<Rightarrow> eok (Type (Some e) Slice_Kind (sliceT (Type_of e)) 0 SliceTy t)
          | [n] \<Rightarrow>
              (case Atoi n of
                 None \<Rightarrow> efail errVariableSize
               | Some sz \<Rightarrow> ebind (eopt (ArrayOf sz (Type_of e))) (\<lambda>g. eok (Type (Some e) Array_Kind g sz ArrayTy t)))
          | _ \<Rightarrow> efail errArrayFormat) = eok r"
      unfolding ebind_eq_ok [of "NewType (take (last_bracket t) t)"] by blast
    have "go_typed e" using 1(1) [OF _ _ HOL.refl e(1)] True by simp
    then show ?thesis
      using e(2) by (auto simp: ArrayOf_def split: list.splits option.splits if_splits dest: Atoi_nonneg)
  next
    case False
    then have "NewType t = efail errBrackets \<or> NewType t = elementary_type t" by (subst NewType.simps, subst (2) NewType.simps) simp
    then show ?thesis using 1(2) elementary_typed by auto
  qed
qed

lemma unpack_elems_all:
  assumes "unpack_elems f start n k = eok vs" "\<And>i v. f i = eok v \<Longrightarrow> P v"
  shows "length vs = k \<and> list_all P vs"
  using assms(1)
proof (induction k arbitrary: vs)
  case (Suc k)
  then obtain us v where "unpack_elems f start n k = eok us" "f (start + k * n) = eok v" "vs = us @ [v]"
    by (auto simp: unpack_elems_def ebind_eq_ok)
  then show ?case using Suc.IH [of us] assms(2) by simp
qed (simp add: unpack_elems_def)

lemma last_bytes_range: "0 \<le> last_bytes n b" "last_bytes n b < 256 ^ n"
  by (simp_all add: last_bytes_def crop_value)

lemmas sint_ranges = sint_ge [where 'a = 8, simplified] sint_less [where 'a = 8, simplified] sint_ge [where 'a = 16, simplified]
  sint_less [where 'a = 16, simplified] sint_ge [where 'a = 32, simplified] sint_less [where 'a = 32, simplified]
  sint_ge [where 'a = 64, simplified] sint_less [where 'a = 64, simplified]

lemma readInteger_typed: "(k, g) = reflectIntKindAndType u n \<Longrightarrow> has_type g (readInteger k b)"
  using last_bytes_range [of 1 b] last_bytes_range [of 2 b] last_bytes_range [of 4 b] last_bytes_range [of 8 b]
  by (auto simp: reflectIntKindAndType_def readInteger_def int_ok_def sint_ranges split: if_splits)

lemma VBytes_typed: "list_all (has_type uint8T) (VBytes bs)"
  using uint_lt2p [where ?'a = 8] by (auto simp: list_all_iff int_ok_def)

lemma forEachUnpack_typed:
  assumes "forEachUnpack f t e out start n = eok v" "\<And>i v. f i = eok v \<Longrightarrow> has_type (Type_of e) v"
  shows "T t = SliceTy \<Longrightarrow> has_type (sliceT (Type_of e)) v" "T t = ArrayTy \<Longrightarrow> has_type (arrayT n (Type_of e)) v"
  using assms(1) unpack_elems_all [of f start _ "nat n" _ "has_type (Type_of e)", OF _ assms(2)]
  by (fastforce simp: forEachUnpack_def ebind_eq_ok split: if_splits)+

lemma toGoType_typed: "go_typed t \<Longrightarrow> toGoType i t data = eok v \<Longrightarrow> has_type (Type_of t) v"
proof (induction i t data arbitrary: v rule: toGoType.induct)
  case (1 i elem k g sz ty s data)
  let ?t = "Type elem k g sz ty s" and ?w = "take 32 (drop i data)"
  have len: "\<not> i + 32 > length data" using 1(4) by (auto split: if_splits)
  then have w: "length ?w = 32" by simp
  from 1(4) len obtain b l where body: "(case ty of
           SliceTy \<Rightarrow> (case elem of None \<Rightarrow> Panic | Some e \<Rightarrow> forEachUnpack (\<lambda>i. toGoType i e data) ?t e data b (int l))
         | ArrayTy \<Rightarrow> (case elem of None \<Rightarrow> Panic | Some e \<Rightarrow> forEachUnpack (\<lambda>i. toGoType i e data) ?t e data i sz)
         | StringTy \<Rightarrow> eok (VString (take l (drop b data)))
         | IntTy \<Rightarrow> eok (readInteger k ?w)
         | UintTy \<Rightarrow> eok (readInteger k ?w)
         | BoolTy \<Rightarrow> readBool ?w
         | AddressTy \<Rightarrow> eok (VArray uint8T (VBytes (BytesToAddress ?w)))
         | HashTy \<Rightarrow> eok (VArray uint8T (VBytes (BytesToHash ?w)))
         | BytesTy \<Rightarrow> eok (VSlice uint8T (VBytes (take l (drop b data))))
         | FixedBytesTy \<Rightarrow> readFixedBytes ?t (drop i data)
         | FunctionTy \<Rightarrow> readFunctionType ?t ?w
         | FixedPointTy \<Rightarrow> efail errUnknownType) = eok v"
    unfolding toGoType.simps Let_def if_not_P [OF len] ebind_eq_ok split_paired_Ex prod.case by blast
  have ih: "has_type (Type_of e) u" if "elem = Some e" "ty = SliceTy \<or> ty = ArrayTy" "go_typed e" "toGoType j e data = eok u" for e j u
    using 1(1) [OF HOL.refl len HOL.refl _ that(1) that(3,4)] 1(2) [OF HOL.refl len HOL.refl _ that(1) that(3,4)] that(2) by blast
  show ?case
  proof (cases ty)
    case SliceTy
    then obtain e where e: "elem = Some e" "go_typed e" "g = sliceT (Type_of e)" using 1(3) by (cases elem) auto
    with body SliceTy show ?thesis using forEachUnpack_typed(1) [of "\<lambda>i. toGoType i e data" ?t e] ih by simp
  next
    case ArrayTy
    then obtain e where e: "elem = Some e" "go_typed e" "g = arrayT sz (Type_of e)" using 1(3) by (cases elem) auto
    with body ArrayTy show ?thesis using forEachUnpack_typed(2) [of "\<lambda>i. toGoType i e data" ?t e] ih by simp
  next
    case FixedBytesTy
    then show ?thesis using body 1(3) VBytes_typed by (auto simp: readFixedBytes_def split: if_splits)
  next
    case FunctionTy
    then show ?thesis using body 1(3) VBytes_typed w by (auto simp: readFunctionType_def split: if_splits)
  next
    case BoolTy
    then show ?thesis using body 1(3) by (auto simp: readBool_def split: if_splits)
  qed (use body 1(3) VBytes_typed readInteger_typed in auto)
qed

text \<open>
  C14. Unpacked values have the type their name announces: for every type name that \<^verbatim>\<open>NewType\<close> accepts, every value that unpacking produces
  from any data has the Go type recorded for that name, with array lengths and integer ranges included. The assignment of elements
  into the slice or array allocated for them therefore never meets a value of another type.
\<close>

theorem unpack_typed:
  assumes "NewType name = eok t" "toGoType i t data = eok v"
  shows "has_type (Type_of t) v"
  using toGoType_typed [OF NewType_typed [OF assms(1)] assms(2)] .

theorem unpack_typed_witness:
  "NewType ''bool'' = eok (sol_type SBool) \<and> has_type boolT (VBool True) \<and>
   toGoType 0 (sol_type SBool) (replicate 31 0 @ [1]) = eok (VBool True)"
proof -
  have n: "NewType ''bool'' = eok (sol_type SBool)"
    by (simp add: NewType_elementary elementary_types [simplified])
  have v: "toGoType 0 (sol_type SBool) (replicate 31 0 @ [1]) = eok (VBool True)"
    by (simp add: requiresLengthPrefix_def Let_def readBool_def nth_append)
  from unpack_typed [OF n v] n v show ?thesis by simp
qed

end
