(* ===== verification/Abi_Methods.thy ===== *)
theory Abi_Methods
  imports Abi_Typing
begin

text \<open>
  Methods, events and interfaces (\<^verbatim>\<open>method.go\<close>, \<^verbatim>\<open>event.go\<close>, \<^verbatim>\<open>abi.go\<close>) and the fuzzing of arguments
  (\<^verbatim>\<open>fuzz.go\<close>, \<^verbatim>\<open>Type.fuzz\<close>, \<^verbatim>\<open>Arguments.Fuzz\<close>): call data finds its method and arguments again, and
  fuzzed call data decodes.
\<close>

section \<open>Methods and events\<close>

text \<open>\<^verbatim>\<open>strings.Join\<close>.\<close>

fun strings_Join :: "string list \<Rightarrow> string \<Rightarrow> string" where
  "strings_Join [] sep = []"
| "strings_Join [a] sep = a"
| "strings_Join (a # b # as) sep = a @ sep @ strings_Join (b # as) sep"

record Method =
  me_Name :: string
  me_Const :: bool
  me_Inputs :: "Argument list"
  me_Outputs :: "Argument list"

record Event =
  ev_Name :: string
  ev_Anonymous :: bool
  ev_Inputs :: "Argument list"

definition Method_Sig :: "Method \<Rightarrow> string" where
  "Method_Sig m = me_Name m @ ''('' @ strings_Join (map (stringKind \<circ> arg_Type) (me_Inputs m)) '','' @ '')''"

definition Method_String :: "Method \<Rightarrow> string" where
  "Method_String m =
    (let inputs = map (\<lambda>input. arg_Name input @ '' '' @ stringKind (arg_Type input)) (me_Inputs m);
         outputs = map (\<lambda>out. (if length (arg_Name out) > 0 then arg_Name out @ '' '' else []) @ stringKind (arg_Type out)) (me_Outputs m);
         constant = (if me_Const m then ''constant '' else [])
     in ''function '' @ me_Name m @ ''('' @ strings_Join inputs '', '' @ '') '' @ constant @ ''returns('' @ strings_Join outputs '', '' @ '')'')"

definition Method_Id :: "Method \<Rightarrow> bytes" where
  "Method_Id m = take 4 (Keccak256 (bytes_of_string (Method_Sig m)))"

definition Event_String :: "Event \<Rightarrow> string" where
  "Event_String e =
    (let inputs = map (\<lambda>input. if arg_Indexed input then arg_Name input @ '' indexed '' @ stringKind (arg_Type input)
                               else arg_Name input @ '' '' @ stringKind (arg_Type input)) (ev_Inputs e)
     in ''e '' @ ev_Name e @ ''('' @ strings_Join inputs '', '' @ '')'')"

definition Event_Id :: "Event \<Rightarrow> bytes" where
  "Event_Id e =
    BytesToHash (Keccak256 (bytes_of_string (ev_Name e @ ''('' @ strings_Join (map (stringKind \<circ> arg_Type) (ev_Inputs e)) '','' @ '')'')))"

section \<open>Interfaces\<close>

record ABI =
  abi_Constructor :: Method
  abi_Methods :: "string \<rightharpoonup> Method"
  abi_Events :: "string \<rightharpoonup> Event"

definition ABI_Pack :: "ABI \<Rightarrow> string \<Rightarrow> Val list \<Rightarrow> bytes ares" where
  "ABI_Pack abi name args =
    (if name = [] then Pack (me_Inputs (abi_Constructor abi)) args
     else
       (case abi_Methods abi name of
          None \<Rightarrow> efail (errMethodNotFound name)
        | Some m \<Rightarrow> ebind (Pack (me_Inputs m) args) (\<lambda>arguments. eok (Method_Id m @ arguments))))"

text \<open>The arguments that \<^verbatim>\<open>Unpack\<close> decodes the output with; storing the values through the pointer is left to the caller.\<close>

definition ABI_Unpack :: "ABI \<Rightarrow> string \<Rightarrow> bytes \<Rightarrow> Val list ares" where
  "ABI_Unpack abi name out =
    (if length out = 0 then efail errEmptyOutput
     else
       (case abi_Methods abi name of
          Some m \<Rightarrow> if length out mod 32 \<noteq> 0 then efail errOutputFormat else UnpackValues (me_Outputs m) out
        | None \<Rightarrow>
            (case abi_Events abi name of
               Some e \<Rightarrow> UnpackValues (ev_Inputs e) out
             | None \<Rightarrow> efail (errMethodNotFound name))))"

text \<open>The entries of a JSON interface after decoding, and the loop of \<^verbatim>\<open>UnmarshalJSON\<close> over them.\<close>

record Field =
  fi_Type :: string
  fi_Name :: string
  fi_Constant :: bool
  fi_Anonymous :: bool
  fi_Inputs :: "Argument list"
  fi_Outputs :: "Argument list"

text \<open>\<^verbatim>\<open>strconv.Itoa\<close> of a counter is \<^const>\<open>decimal\<close>.\<close>

fun unmarshal_fields :: "Field list \<Rightarrow> ABI \<Rightarrow> nat \<Rightarrow> nat \<Rightarrow> ABI" where
  "unmarshal_fields [] abi functionCnt eventCnt = abi"
| "unmarshal_fields (field # rest) abi functionCnt eventCnt =
    (if fi_Type field = ''constructor'' then
       unmarshal_fields rest
         (abi\<lparr>abi_Constructor := \<lparr>me_Name = [], me_Const = False, me_Inputs = fi_Inputs field, me_Outputs = []\<rparr>\<rparr>) functionCnt eventCnt
     else if fi_Type field = ''function'' \<or> fi_Type field = [] then
       (let name = fi_Name field;
            ms = abi_Methods abi;
            ms = (case ms name of None \<Rightarrow> ms | Some old \<Rightarrow> ms(name @ decimal functionCnt \<mapsto> old));
            m = \<lparr>me_Name = name, me_Const = fi_Constant field, me_Inputs = fi_Inputs field, me_Outputs = fi_Outputs field\<rparr>
        in unmarshal_fields rest (abi\<lparr>abi_Methods := ms(name \<mapsto> m)\<rparr>) (functionCnt + 1) eventCnt)
     else if fi_Type field = ''event'' then
       (let name = fi_Name field;
            es = abi_Events abi;
            es = (case es name of None \<Rightarrow> es | Some old \<Rightarrow> es(name @ decimal eventCnt \<mapsto> old));
            e = \<lparr>ev_Name = name, ev_Anonymous = fi_Anonymous field, ev_Inputs = fi_Inputs field\<rparr>
        in unmarshal_fields rest (abi\<lparr>abi_Events := es(name \<mapsto> e)\<rparr>) functionCnt (eventCnt + 1))
     else unmarshal_fields rest abi functionCnt eventCnt)"

definition UnmarshalJSON :: "ABI \<Rightarrow> Field list \<Rightarrow> ABI" where
  "UnmarshalJSON abi decoded = unmarshal_fields decoded (abi\<lparr>abi_Methods := Map.empty, abi_Events := Map.empty\<rparr>) 0 0"

text \<open>
  \<^verbatim>\<open>MethodById\<close> tries the methods in the order in which the map is iterated, which Go leaves open: \<open>names\<close> is that order.
  Data of fewer than four bytes panics, unless the map is empty: then the message does.
\<close>

definition MethodById :: "string list \<Rightarrow> ABI \<Rightarrow> bytes \<Rightarrow> Method ares" where
  "MethodById names abi sigdata =
    (if length sigdata < 4 then Panic
     else
       (case find (\<lambda>m. Method_Id m = take 4 sigdata) (List.map_filter (abi_Methods abi) names) of
          Some m \<Rightarrow> eok m
        | None \<Rightarrow> efail (errNoMethodId (take 4 sigdata))))"

section \<open>Fuzzing arguments\<close>

text \<open>
  The sources of randomness: the values \<^verbatim>\<open>gofuzz\<close> fills in for each Go type, and \<^verbatim>\<open>rand.Int\<close> below a bound, which is nil when
  reading from the source fails. Both draw from a hidden state.
\<close>

record 's Fuzzer =
  fz_uint64 :: "'s \<Rightarrow> u64 \<times> 's"
  fz_int64 :: "'s \<Rightarrow> 64 word \<times> 's"
  fz_bool :: "'s \<Rightarrow> bool \<times> 's"
  fz_string :: "'s \<Rightarrow> bytes \<times> 's"
  fz_bytes :: "'s \<Rightarrow> bytes \<times> 's"
  fz_address :: "'s \<Rightarrow> bytes \<times> 's"
  rand_Int :: "int \<Rightarrow> 's \<Rightarrow> int option \<times> 's"

text \<open>
  The documented behaviour: an array of twenty bytes has twenty bytes, and a random number, which a working source always delivers, is
  below its bound.
\<close>

definition fuzzer_ok :: "'s Fuzzer \<Rightarrow> bool" where
  "fuzzer_ok fz \<longleftrightarrow>
    (\<forall>s. length (fst (fz_address fz s)) = 20) \<and> (\<forall>m s. 0 < m \<longrightarrow> (\<exists>n. fst (rand_Int fz m s) = Some n \<and> 0 \<le> n \<and> n < m))"

lemma rand_IntE:
  assumes "fuzzer_ok fz" "0 < m"
  obtains n s' where "rand_Int fz m s = (Some n, s')" "0 \<le> n" "n < m"
  using assms unfolding fuzzer_ok_def by (metis prod.collapse)

definition packFuzzedBytesSlice :: "bytes \<Rightarrow> bytes" where
  "packFuzzedBytesSlice fuzzed =
    (let l = length fuzzed div 32 in abi_U256 (int l) @ RightPadBytes fuzzed (int ((l + 31) div 32 * 32)))"

definition fuzzBytesSlice :: "'s Fuzzer \<Rightarrow> Type \<Rightarrow> 's \<Rightarrow> bytes \<times> 's" where
  "fuzzBytesSlice fz t s =
    (case T t of
       StringTy \<Rightarrow> (let (str, s) = fz_string fz s in (packBytesSlice str (length str), s))
     | BytesTy \<Rightarrow> (let (byteslice, s) = fz_bytes fz s in (packBytesSlice byteslice (length byteslice), s))
     | _ \<Rightarrow> ([], s))"

definition fuzzAddress :: "'s Fuzzer \<Rightarrow> Type \<Rightarrow> 's \<Rightarrow> (bytes \<times> 's) ares" where
  "fuzzAddress fz t s =
    (let (address, s) = fz_address fz s
     in ebind (eopt (packElement t (VArray uint8T (VBytes address)))) (\<lambda>bs. eok (bs, s)))"

definition fuzzBool :: "'s Fuzzer \<Rightarrow> Type \<Rightarrow> 's \<Rightarrow> bytes \<times> 's" where
  "fuzzBool fz t s =
    (let (val, s) = fz_bool fz s in if val then (PaddedBigBytes 1 32, s) else (PaddedBigBytes 0 32, s))"

text \<open>The errors of \<^verbatim>\<open>rand.Int\<close> are ignored: comparing or adding to a nil number panics.\<close>

definition genRandomInSpecialDist :: "'s Fuzzer \<Rightarrow> 's \<Rightarrow> (int option \<times> 's) res" where
  "genRandomInSpecialDist fz s =
    (let maxrange = 16;
         (chooseRange, s) = rand_Int fz 4 s;
         (n, s) = rand_Int fz maxrange s;
         add = (\<lambda>offset. case n of None \<Rightarrow> Panic | Some n \<Rightarrow> Done (Some (offset + n), s))
     in case chooseRange of
          None \<Rightarrow> Panic
        | Some c \<Rightarrow>
            if c = 0 then Done (n, s)
            else if c = 1 then add (2 ^ 255 - maxrange)
            else if c = 2 then add (2 ^ 255)
            else if c = 3 then add (2 ^ 256 - maxrange)
            else Done (n, s))"

definition fuzzNum :: "'s Fuzzer \<Rightarrow> Type \<Rightarrow> 's \<Rightarrow> (bytes \<times> 's) ares" where
  "fuzzNum fz t s =
    (if Kind_of t \<in> {Uint_Kind, Uint8_Kind, Uint16_Kind, Uint32_Kind, Uint64_Kind} then
       (let (v, s) = fz_uint64 fz s in eok (abi_U256 (uint v), s))
     else if Kind_of t \<in> {Int_Kind, Int8_Kind, Int16_Kind, Int32_Kind, Int64_Kind} then
       (let (v, s) = fz_int64 fz s in eok (abi_U256 (sint v), s))
     else if Kind_of t = Ptr_Kind then
       rbind (genRandomInSpecialDist fz s) (\<lambda>(n, s). case n of None \<Rightarrow> Panic | Some n \<Rightarrow> eok (abi_U256 n, s))
     else Panic)"

definition fuzzElement :: "'s Fuzzer \<Rightarrow> Type \<Rightarrow> 's \<Rightarrow> (bytes \<times> 's) ares" where
  "fuzzElement fz t s =
    (case T t of
       IntTy \<Rightarrow> fuzzNum fz t s
     | UintTy \<Rightarrow> fuzzNum fz t s
     | StringTy \<Rightarrow> eok (fuzzBytesSlice fz t s)
     | AddressTy \<Rightarrow> ebind (fuzzAddress fz t s) (\<lambda>(bs, s). eok (LeftPadBytes bs 32, s))
     | BoolTy \<Rightarrow> eok (fuzzBool fz t s)
     | BytesTy \<Rightarrow> eok (fuzzBytesSlice fz t s)
     | FixedBytesTy \<Rightarrow> eok (fuzzBytesSlice fz t s)
     | FunctionTy \<Rightarrow> eok (fuzzBytesSlice fz t s)
     | _ \<Rightarrow> Panic)"

text \<open>The loop over the elements of a slice or an array.\<close>

primrec fuzz_elems :: "('s \<Rightarrow> (bytes \<times> 's) ares) \<Rightarrow> nat \<Rightarrow> bytes \<Rightarrow> 's \<Rightarrow> (bytes \<times> 's) ares" where
  "fuzz_elems f 0 fuzzed s = eok (fuzzed, s)"
| "fuzz_elems f (Suc n) fuzzed s = ebind (f s) (\<lambda>(val, s). fuzz_elems f n (fuzzed @ val) s)"

fun Type_fuzz :: "'s Fuzzer \<Rightarrow> Type \<Rightarrow> 's \<Rightarrow> (bytes \<times> 's) ares" where
  "Type_fuzz fz (Type elem k g sz ty str) s =
    (if ty = SliceTy \<or> ty = ArrayTy then
       (case rand_Int fz 16 s of
          (None, s) \<Rightarrow> Panic
        | (Some n, s) \<Rightarrow>
            ebind (fuzz_elems (case elem of None \<Rightarrow> (\<lambda>s. Panic) | Some e \<Rightarrow> Type_fuzz fz e) (nat n) [] s)
              (\<lambda>(fuzzed, s). eok (if ty = SliceTy then packFuzzedBytesSlice fuzzed else fuzzed, s)))
     else fuzzElement fz (Type elem k g sz ty str) s)"

fun fuzz_args :: "'s Fuzzer \<Rightarrow> int \<Rightarrow> Argument list \<Rightarrow> bytes \<Rightarrow> bytes \<Rightarrow> 's \<Rightarrow> (bytes \<times> 's) ares" where
  "fuzz_args fz off [] ret variableInput s = eok (ret @ variableInput, s)"
| "fuzz_args fz off (input # rest) ret variableInput s =
    ebind (Type_fuzz fz (arg_Type input) s) (\<lambda>(fuzzed, s).
      if requiresLengthPrefix (arg_Type input)
      then fuzz_args fz off rest (ret @ abi_U256 (off + int (length variableInput))) (variableInput @ fuzzed) s
      else fuzz_args fz off rest (ret @ fuzzed) variableInput s)"

definition Arguments_Fuzz :: "'s Fuzzer \<Rightarrow> Argument list \<Rightarrow> 's \<Rightarrow> (bytes \<times> 's) ares" where
  "Arguments_Fuzz fz arguments s = fuzz_args fz (inputOffset arguments) arguments [] [] s"

definition Method_Fuzz :: "'s Fuzzer \<Rightarrow> Method \<Rightarrow> 's \<Rightarrow> (bytes \<times> 's) ares" where
  "Method_Fuzz fz m s =
    ebind (Arguments_Fuzz fz (me_Inputs m) s) (\<lambda>(inputs, s). eok (Method_Id m @ inputs, s))"

section \<open>Fuzzed arguments\<close>

text \<open>The types for which fuzzing produces a complete encoding.\<close>

definition fuzz_scalar :: "Type \<Rightarrow> bool" where
  "fuzz_scalar t \<longleftrightarrow>
    T t \<in> {IntTy, UintTy} \<and> Kind_of t \<in> {Int8_Kind, Int16_Kind, Int32_Kind, Int64_Kind, Uint8_Kind, Uint16_Kind, Uint32_Kind, Uint64_Kind, Ptr_Kind} \<or>
    T t \<in> {BoolTy, AddressTy}"

definition fuzzable :: "Type \<Rightarrow> bool" where
  "fuzzable t \<longleftrightarrow>
    fuzz_scalar t \<or> T t \<in> {StringTy, BytesTy} \<or> T t = SliceTy \<and> (case Elem t of Some e \<Rightarrow> fuzz_scalar e | None \<Rightarrow> False)"

lemma word_decodes:
  assumes "length w = 32" "ty \<in> {IntTy, UintTy}"
  shows "decodes_at (Type el k g sz ty s) w (readInteger k w)"
  using assms by (auto simp: decodes_at_def requiresLengthPrefix_def Let_def)

lemma bool_decodes: "decodes_at (Type el k g sz BoolTy s) (PaddedBigBytes (if b then 1 else 0) 32) (VBool b)"
  by (auto simp: decodes_at_def requiresLengthPrefix_def Let_def pad_bool readBool_def nth_append)

lemma address_decodes: "length bs = 20 \<Longrightarrow> decodes_at (Type el k g sz AddressTy s) (LeftPadBytes bs 32) (VArray uint8T (VBytes bs))"
  by (auto simp: decodes_at_def requiresLengthPrefix_def Let_def LeftPadBytes_def BytesToAddress_unfold AddressLength_def)

text \<open>
  The distribution of fuzzed integers: every number drawn for a 256-bit parameter lies within sixteen of one of the
  boundaries 0, \<open>2^255\<close> and \<open>2^256\<close>, inside the 256-bit range, so no draw is altered by the truncation to 256 bits.
\<close>

lemma special_dist_boundaries:
  assumes "fuzzer_ok fz"
  shows "\<exists>n s'. genRandomInSpecialDist fz s = Done (Some n, s') \<and> U256 n = n \<and>
    n \<in> {0..<16} \<union> {2 ^ 255 - 16..<2 ^ 255 + 16} \<union> {2 ^ 256 - 16..<2 ^ 256}"
proof -
  obtain c s1 where c: "rand_Int fz 4 s = (Some c, s1)" "0 \<le> c" "c < 4" by (rule rand_IntE [OF assms, of 4 s]) simp_all
  obtain n s2 where n: "rand_Int fz 16 s1 = (Some n, s2)" "0 \<le> n" "n < 16" by (rule rand_IntE [OF assms, of 16 s1]) simp_all
  define k where "k = (if c = 1 then 2 ^ 255 - 16 + n else if c = 2 then 2 ^ 255 + n else if c = 3 then 2 ^ 256 - 16 + n else n)"
  have k: "genRandomInSpecialDist fz s = Done (Some k, s2)" "k \<in> {0..<16} \<union> {2 ^ 255 - 16..<2 ^ 255 + 16} \<union> {2 ^ 256 - 16..<2 ^ 256}"
    using n(2,3) by (simp_all add: genRandomInSpecialDist_def c(1) n(1) k_def)
  then have "0 \<le> k" "k < 2 ^ 256" by auto
  then have "U256 k = k" by (simp only: U256_mod mod_pos_pos_trivial)
  with k show ?thesis by blast
qed

lemma fuzz_scalar_decodes:
  assumes "fuzzer_ok fz" "fuzz_scalar t"
  shows "\<exists>w v s'. Type_fuzz fz t s = eok (w, s') \<and> length w = 32 \<and> decodes_at t w v"
proof (cases t)
  case (Type el k g sz ty str)
  consider (num) "ty \<in> {IntTy, UintTy}" | (bool) "ty = BoolTy" | (address) "ty = AddressTy"
    using assms(2) Type by (auto simp: fuzz_scalar_def)
  then show ?thesis
  proof cases
    case num
    then obtain n s' where "Type_fuzz fz t s = eok (abi_U256 n, s')"
      using assms(2) Type special_dist_boundaries [OF assms(1), of s]
      by (cases "fz_int64 fz s"; cases "fz_uint64 fz s") (auto simp: fuzz_scalar_def fuzzElement_def fuzzNum_def)
    then show ?thesis
      using word_decodes [OF abi_U256_length num, of el k g sz str n] Type by (metis abi_U256_length)
  next
    case bool
    obtain b s' where "fz_bool fz s = (b, s')" by fastforce
    then have "Type_fuzz fz t s = eok (PaddedBigBytes (if b then 1 else 0) 32, s')"
      using bool Type by (auto simp: fuzzElement_def fuzzBool_def)
    moreover have "length (PaddedBigBytes (if b then 1 else 0) 32) = 32" by (simp add: pad_bool)
    moreover have "decodes_at t (PaddedBigBytes (if b then 1 else 0) 32) (VBool b)" using bool_decodes bool Type by simp
    ultimately show ?thesis by blast
  next
    case address
    obtain bs s' where bs: "fz_address fz s = (bs, s')" by fastforce
    then have len: "length bs = 20" using assms(1) by (metis fuzzer_ok_def fst_conv)
    then have "Type_fuzz fz t s = eok (LeftPadBytes bs 32, s')" "length (LeftPadBytes bs 32) = 32"
      using address Type bs by (simp_all add: fuzzElement_def fuzzAddress_def packElement_def LeftPadBytes_def)
    then show ?thesis
      using address_decodes [OF len] address Type by blast
  qed
qed

lemma fuzz_elems_decode:
  assumes "fuzzer_ok fz" "fuzz_scalar e"
  shows "\<exists>ws vs s'. fuzz_elems (Type_fuzz fz e) n acc s = eok (acc @ concat ws, s') \<and> length vs = n \<and>
    list_all2 (\<lambda>w v. length w = 32 \<and> decodes_at e w v) ws vs"
proof (induction n arbitrary: acc s)
  case (Suc n)
  obtain w v s1 where w: "Type_fuzz fz e s = eok (w, s1)" "length w = 32" "decodes_at e w v"
    using fuzz_scalar_decodes [OF assms] by blast
  obtain ws vs s' where "fuzz_elems (Type_fuzz fz e) n (acc @ w) s1 = eok ((acc @ w) @ concat ws, s')" "length vs = n"
    "list_all2 (\<lambda>w v. length w = 32 \<and> decodes_at e w v) ws vs"
    using Suc.IH [of "acc @ w" s1] by blast
  then show ?case
    using w by (intro exI [of _ "w # ws"] exI [of _ "v # vs"] exI [of _ s']) simp
qed simp

lemma packFuzzed_words: "length w = 32 * n \<Longrightarrow> packFuzzedBytesSlice w = abi_U256 (int n) @ w"
  by (simp add: packFuzzedBytesSlice_def RightPadBytes_def)

lemma Type_fuzz_encodes:
  assumes "fuzzer_ok fz" "fuzzable t"
  shows "\<exists>w v s'. Type_fuzz fz t s = eok (w, s') \<and> encodes t w v"
proof (cases t)
  case (Type el k g sz ty str)
  consider (scalar) "fuzz_scalar t" | (string) "ty = StringTy" | (bytes) "ty = BytesTy" | (slice) e where "ty = SliceTy" "el = Some e" "fuzz_scalar e"
    using assms(2) Type by (auto simp: fuzzable_def split: option.splits)
  then show ?thesis
  proof cases
    case scalar
    then show ?thesis
      using fuzz_scalar_decodes [OF assms(1) scalar, of s] by (auto simp: encodes_def head_len_def fuzz_scalar_def requiresLengthPrefix_def)
  next
    case string
    then show ?thesis
      using string_encodes Type by (cases "fz_string fz s") (fastforce simp: fuzzElement_def fuzzBytesSlice_def)
  next
    case bytes
    then show ?thesis
      using bytes_encodes Type by (cases "fz_bytes fz s") (fastforce simp: fuzzElement_def fuzzBytesSlice_def)
  next
    case slice
    obtain n s1 where n: "rand_Int fz 16 s = (Some n, s1)" by (rule rand_IntE [OF assms(1), of 16 s]) simp_all
    obtain ws vs s' where ws: "fuzz_elems (Type_fuzz fz e) (nat n) [] s1 = eok (concat ws, s')"
      "list_all2 (\<lambda>w v. length w = 32 \<and> decodes_at e w v) ws vs"
      using fuzz_elems_decode [OF assms(1) slice(3), of "nat n" "[]" s1] by auto
    then have "Type_fuzz fz t s = eok (abi_U256 (int (length vs)) @ concat ws, s')"
      using slice Type n packFuzzed_words [OF elems_decode(1) [OF ws(2)]] by simp
    then show ?thesis
      using slice_encodes [OF ws(2)] slice Type by blast
  qed
qed

lemma fuzz_args_layout:
  assumes "fuzzer_ok fz" "list_all (fuzzable \<circ> arg_Type) args"
  shows "\<exists>ws vals s'. fuzz_args fz off args ret var s = eok (layout off (zip (map arg_Type args) ws) ret var, s') \<and>
    list_all2 (\<lambda>(arg, w) v. encodes (arg_Type arg) w v) (zip args ws) vals \<and> length ws = length args"
  using assms(2)
proof (induction args arbitrary: ret var s)
  case (Cons arg args)
  obtain w v s1 where w: "Type_fuzz fz (arg_Type arg) s = eok (w, s1)" "encodes (arg_Type arg) w v"
    using Type_fuzz_encodes [OF assms(1)] Cons.prems by (metis comp_apply list.pred_inject(2))
  let ?ret = "if requiresLengthPrefix (arg_Type arg) then ret @ abi_U256 (off + int (length var)) else ret @ w"
    and ?var = "if requiresLengthPrefix (arg_Type arg) then var @ w else var"
  obtain ws vals s' where "fuzz_args fz off args ?ret ?var s1 = eok (layout off (zip (map arg_Type args) ws) ?ret ?var, s')"
    "list_all2 (\<lambda>(arg, w) v. encodes (arg_Type arg) w v) (zip args ws) vals" "length ws = length args"
    using Cons.IH [of ?ret ?var s1] Cons.prems by auto
  then show ?case
    using w by (intro exI [of _ "w # ws"] exI [of _ "v # vals"] exI [of _ s']) (auto split: if_splits)
qed simp

section \<open>Properties\<close>

lemma find_unique: "x \<in> set xs \<Longrightarrow> P x \<Longrightarrow> (\<And>y. y \<in> set xs \<Longrightarrow> P y \<Longrightarrow> y = x) \<Longrightarrow> find P xs = Some x"
  by (metis find_None_iff find_Some_iff nth_mem not_None_eq)

lemma Keccak256_length: "length (Keccak256 x) = 32"
  using Keccak256_res_total [of "[x]"] unfolding Keccak256_res_concat by simp

lemma Method_Id_length [simp]: "length (Method_Id m) = 4"
  unfolding Method_Id_def length_take Keccak256_length by simp


definition uint256_type :: Type where
  "uint256_type = Type None Ptr_Kind bigT 256 UintTy ''uint256''"

definition string_type :: Type where
  "string_type = Type None String_Kind stringT 0 StringTy ''string''"

definition sample_method :: Method where
  "sample_method = \<lparr>me_Name = ''f'', me_Const = False,
    me_Inputs = [\<lparr>arg_Name = ''n'', arg_Type = uint256_type, arg_Indexed = False\<rparr>, \<lparr>arg_Name = ''s'', arg_Type = string_type, arg_Indexed = False\<rparr>],
    me_Outputs = []\<rparr>"

definition sample_abi :: ABI where
  "sample_abi = \<lparr>abi_Constructor = sample_method, abi_Methods = [''f'' \<mapsto> sample_method], abi_Events = Map.empty\<rparr>"


text \<open>
  C21. Fuzzed call data is well formed: for every method whose parameters are integers, booleans, addresses, strings, byte
  strings or slices of integers, booleans and addresses, none of them indexed, and whatever working random sources deliver, \<^verbatim>\<open>Fuzz\<close>
  returns the selector followed by data that \<^verbatim>\<open>UnpackValues\<close> decodes without an error if it has less than \<open>2^62\<close> bytes. Fixed byte
  strings, function references, arrays and nested slices are left out.
\<close>

theorem fuzz_decodes:
  assumes "fuzzer_ok fz" "list_all (fuzzable \<circ> arg_Type) (me_Inputs m)" "list_all (\<lambda>arg. \<not> arg_Indexed arg) (me_Inputs m)"
  shows "\<exists>data vals s'. Method_Fuzz fz m s = eok (Method_Id m @ data, s') \<and>
    (length data < 2 ^ 62 \<longrightarrow> UnpackValues (me_Inputs m) data = eok vals)"
proof -
  let ?args = "me_Inputs m"
  obtain ws vals s' where ws: "Arguments_Fuzz fz ?args s = eok (layout (inputOffset ?args) (zip (map arg_Type ?args) ws) [] [], s')"
    "list_all2 (\<lambda>(arg, w) v. encodes (arg_Type arg) w v) (zip ?args ws) vals" "length ws = length ?args"
    using fuzz_args_layout [OF assms(1,2), of "inputOffset ?args" "[]" "[]" s] unfolding Arguments_Fuzz_def by blast
  have "map fst (zip ?args ws) = ?args" "map (\<lambda>(arg, w). (arg_Type arg, w)) (zip ?args ws) = zip (map arg_Type ?args) ws"
    using ws(3) by (simp_all add: zip_map1)
  then show ?thesis
    using ws(1) layout_unpack [OF ws(2)] assms(3) by (auto simp: Method_Fuzz_def)
qed

text \<open>A source of randomness that counts.\<close>

definition counting_fuzzer :: "nat Fuzzer" where
  "counting_fuzzer =
    \<lparr>fz_uint64 = (\<lambda>s. (of_nat s, s + 1)), fz_int64 = (\<lambda>s. (of_nat s, s + 1)), fz_bool = (\<lambda>s. (s mod 2 = 0, s + 1)),
     fz_string = (\<lambda>s. (replicate (s mod 4) 97, s + 1)), fz_bytes = (\<lambda>s. (replicate (s mod 4) 1, s + 1)),
     fz_address = (\<lambda>s. (replicate 20 (of_nat s), s + 1)), rand_Int = (\<lambda>m s. (Some (int s mod m), s + 1))\<rparr>"

lemma counting_fuzzer_ok: "fuzzer_ok counting_fuzzer"
  by (simp add: fuzzer_ok_def counting_fuzzer_def)

theorem fuzz_decodes_witness:
  "\<exists>data vals s'. Method_Fuzz counting_fuzzer sample_method 0 = eok (Method_Id sample_method @ data, s') \<and>
    UnpackValues (me_Inputs sample_method) data = eok vals"
proof -
  have "list_all (fuzzable \<circ> arg_Type) (me_Inputs sample_method)" "list_all (\<lambda>arg. \<not> arg_Indexed arg) (me_Inputs sample_method)"
    by (simp_all add: sample_method_def uint256_type_def string_type_def fuzzable_def fuzz_scalar_def)
  from fuzz_decodes [OF counting_fuzzer_ok this, of 0] obtain data vals s' where
    d: "Method_Fuzz counting_fuzzer sample_method 0 = eok (Method_Id sample_method @ data, s')"
    "length data < 2 ^ 62 \<longrightarrow> UnpackValues (me_Inputs sample_method) data = eok vals" by blast
  moreover have "length data < 2 ^ 62"
    using d(1) by (auto simp: Method_Fuzz_def Arguments_Fuzz_def sample_method_def uint256_type_def string_type_def fuzzElement_def fuzzNum_def
        genRandomInSpecialDist_def counting_fuzzer_def fuzzBytesSlice_def packBytesSlice_def RightPadBytes_def requiresLengthPrefix_def)
  ultimately show ?thesis by blast
qed

lemma Type_fuzz_fixed:
  assumes "T t \<in> {FixedBytesTy, FunctionTy}"
  shows "Type_fuzz fz t s = eok ([], s)" "\<not> requiresLengthPrefix t"
  using assms by (cases t, auto simp: fuzzElement_def fuzzBytesSlice_def requiresLengthPrefix_def)+

lemma fuzz_args_fixed:
  assumes "T (arg_Type arg) \<in> {FixedBytesTy, FunctionTy}"
  shows "fuzz_args fz off (as @ arg # bs) ret var s = fuzz_args fz off (as @ bs) ret var s"
proof (induction as arbitrary: ret var s)
  case (Cons a as)
  then show ?case by (cases "Type_fuzz fz (arg_Type a) s") (auto simp: ebind_def split: sum.splits)
qed (simp add: Type_fuzz_fixed [OF assms])

text \<open>
  C36. Fixed byte strings and function references are never fuzzed: wherever such a parameter stands in the list of a method, \<^verbatim>\<open>Fuzz\<close>
  writes the same bytes as if it were not there. For a method that has only such parameters, and at least one that is not indexed, the
  call data is the bare selector, and decoding it fails.
\<close>

theorem fuzz_fixed_bytes_missing:
  assumes "T (arg_Type arg) \<in> {FixedBytesTy, FunctionTy}"
  shows "fuzz_args fz off (as @ arg # bs) ret var s = fuzz_args fz off (as @ bs) ret var s \<and>
    (me_Inputs m = as @ arg # bs \<longrightarrow> \<not> arg_Indexed arg \<longrightarrow> list_all (\<lambda>a. T (arg_Type a) \<in> {FixedBytesTy, FunctionTy}) (as @ bs) \<longrightarrow>
      Method_Fuzz fz m s = eok (Method_Id m, s) \<and> UnpackValues (me_Inputs m) [] = efail errInsufficientLength)"
proof -
  have none: "fuzz_args fz off xs [] [] s = eok ([], s)" if "list_all (\<lambda>a. T (arg_Type a) \<in> {FixedBytesTy, FunctionTy}) xs" for off xs
    using that by (induction xs) (simp_all add: Type_fuzz_fixed)
  have fails: "unpack_args xs 0 0 [] = efail errInsufficientLength"
    if "xs \<noteq> []" "list_all (\<lambda>a. T (arg_Type a) \<in> {FixedBytesTy, FunctionTy}) xs" for xs
    using that by (cases xs; cases "arg_Type (hd xs)") auto
  have "NonIndexed (as @ arg # bs) \<noteq> []" if "\<not> arg_Indexed arg" using that by (simp add: NonIndexed_def)
  moreover have "list_all P (NonIndexed xs)" if "list_all P xs" for P xs using that by (auto simp: NonIndexed_def list_all_iff)
  ultimately show ?thesis
    using fuzz_args_fixed [OF assms] none [of "as @ arg # bs"] fails [of "NonIndexed (as @ arg # bs)"] assms
    by (auto simp: Method_Fuzz_def Arguments_Fuzz_def UnpackValues_def)
qed

definition bytes32_arg :: Argument where
  "bytes32_arg = \<lparr>arg_Name = [], arg_Type = sol_type (SFixedBytes 32), arg_Indexed = False\<rparr>"

definition bytes32_method :: Method where
  "bytes32_method = \<lparr>me_Name = ''f'', me_Const = False, me_Inputs = [bytes32_arg], me_Outputs = []\<rparr>"

theorem fuzz_fixed_bytes_missing_witness:
  "fuzz_args counting_fuzzer 64 [bytes32_arg, bytes32_arg] [] [] 0 = fuzz_args counting_fuzzer 64 [bytes32_arg] [] [] 0 \<and>
   Method_Fuzz counting_fuzzer bytes32_method 0 = eok (Method_Id bytes32_method, 0) \<and>
   UnpackValues (me_Inputs bytes32_method) [] = efail errInsufficientLength"
proof -
  have "T (arg_Type bytes32_arg) \<in> {FixedBytesTy, FunctionTy}" "\<not> arg_Indexed bytes32_arg" by (simp_all add: bytes32_arg_def)
  then show ?thesis
    using fuzz_fixed_bytes_missing [of bytes32_arg counting_fuzzer 64 "[]" "[bytes32_arg]" "[]" "[]" 0 bytes32_method]
      fuzz_fixed_bytes_missing [of bytes32_arg counting_fuzzer 64 "[]" "[]" "[]" "[]" 0 bytes32_method]
    by (simp add: bytes32_method_def)
qed

section \<open>Reading an interface\<close>

definition is_function :: "Field \<Rightarrow> bool" where
  "is_function f \<longleftrightarrow> fi_Type f = ''function'' \<or> fi_Type f = []"

abbreviation is_event :: "Field \<Rightarrow> bool" where
  "is_event f \<equiv> fi_Type f = ''event''"

definition method_of :: "Field \<Rightarrow> Method" where
  "method_of f = \<lparr>me_Name = fi_Name f, me_Const = fi_Constant f, me_Inputs = fi_Inputs f, me_Outputs = fi_Outputs f\<rparr>"

definition event_of :: "Field \<Rightarrow> Event" where
  "event_of f = \<lparr>ev_Name = fi_Name f, ev_Anonymous = fi_Anonymous f, ev_Inputs = fi_Inputs f\<rparr>"

lemma unmarshal_function:
  "is_function f \<Longrightarrow> abi_Methods abi (fi_Name f) = None \<Longrightarrow>
    unmarshal_fields (f # fs) abi i j = unmarshal_fields fs (abi\<lparr>abi_Methods := (abi_Methods abi)(fi_Name f \<mapsto> method_of f)\<rparr>) (i + 1) j"
  by (auto simp: method_of_def Let_def is_function_def)

lemma unmarshal_other:
  "\<not> is_function f \<Longrightarrow> \<exists>abi' j'. unmarshal_fields (f # fs) abi i j = unmarshal_fields fs abi' i j' \<and> abi_Methods abi' = abi_Methods abi"
proof -
  assume "\<not> is_function f"
  then have n: "\<not> (fi_Type f = ''function'' \<or> fi_Type f = [])" by (simp add: is_function_def)
  show "\<exists>abi' j'. unmarshal_fields (f # fs) abi i j = unmarshal_fields fs abi' i j' \<and> abi_Methods abi' = abi_Methods abi"
    unfolding unmarshal_fields.simps Let_def if_not_P [OF n]
    by (cases "fi_Type f = ''constructor''"; cases "is_event f"; simp only: if_True if_False simp_thms;
        rule exI; rule exI; rule conjI, rule refl, simp)
qed

lemma map_add_upd_new: "k \<notin> dom n \<Longrightarrow> m(k \<mapsto> v) ++ n = m ++ n(k \<mapsto> v)"
  by (auto simp: fun_eq_iff map_add_def split: option.splits)

lemma unmarshal_methods:
  assumes "distinct (map fi_Name (filter is_function fs))" "\<forall>f\<in>set (filter is_function fs). abi_Methods abi (fi_Name f) = None"
  shows "abi_Methods (unmarshal_fields fs abi i j) = abi_Methods abi ++ map_of (map (\<lambda>f. (fi_Name f, method_of f)) (filter is_function fs))"
  using assms
proof (induction fs arbitrary: abi i j)
  case (Cons f fs)
  show ?case
  proof (cases "is_function f")
    case True
    let ?abi = "abi\<lparr>abi_Methods := (abi_Methods abi)(fi_Name f \<mapsto> method_of f)\<rparr>"
    have f: "abi_Methods abi (fi_Name f) = None" "\<forall>f'\<in>set (filter is_function fs). fi_Name f' \<noteq> fi_Name f"
      using Cons.prems True by (simp, auto simp: image_iff)
    then have "\<forall>f'\<in>set (filter is_function fs). abi_Methods ?abi (fi_Name f') = None"
      using Cons.prems(2) by auto
    then have "abi_Methods (unmarshal_fields fs ?abi (i + 1) j) =
      (abi_Methods abi)(fi_Name f \<mapsto> method_of f) ++ map_of (map (\<lambda>f. (fi_Name f, method_of f)) (filter is_function fs))"
      using Cons.IH [of ?abi "i + 1" j] Cons.prems(1) True by (simp del: fun_upd_apply)
    moreover have "fi_Name f \<notin> dom (map_of (map (\<lambda>f. (fi_Name f, method_of f)) (filter is_function fs)))"
      unfolding dom_map_of_conv_image_fst using f(2) by force
    ultimately show ?thesis
      unfolding unmarshal_function [OF True f(1)] using True by (simp add: map_add_upd_new del: fun_upd_apply)
  next
    case False
    with unmarshal_other [OF False, of fs abi i j] Cons show ?thesis by auto
  qed
qed simp

text \<open>
  C27. Reading an interface keeps every function: if the functions of a JSON interface have distinct names, the method table
  holds exactly one method for each of them, with its name, parameters and results, whatever constructors, events and other
  entries stand between them.
\<close>

theorem UnmarshalJSON_methods:
  assumes "distinct (map fi_Name (filter is_function fs))"
  shows "abi_Methods (UnmarshalJSON abi fs) = map_of (map (\<lambda>f. (fi_Name f, method_of f)) (filter is_function fs))"
  unfolding UnmarshalJSON_def by (subst unmarshal_methods [OF assms]) simp_all

definition sample_field :: "string \<Rightarrow> bool \<Rightarrow> Field" where
  "sample_field n c = \<lparr>fi_Type = ''function'', fi_Name = n, fi_Constant = c, fi_Anonymous = False, fi_Inputs = [], fi_Outputs = []\<rparr>"

theorem UnmarshalJSON_methods_witness:
  "abi_Methods (UnmarshalJSON sample_abi [sample_field ''a'' True, sample_field ''b'' False]) ''b'' = Some (method_of (sample_field ''b'' False))"
  by (subst UnmarshalJSON_methods) (simp_all add: sample_field_def is_function_def)

text \<open>
  C38. Overloading can lose a function: an overloaded name is kept under the name with the number of functions read so far
  appended, without a check that this name is free. Reading \<open>foo\<close>, \<open>foo2\<close> and an overloaded \<open>foo\<close> overwrites the method \<open>foo2\<close>
  with the first \<open>foo\<close>: no key leads to \<open>foo2\<close> any more.
\<close>

theorem overload_loses_method:
  "method_of (sample_field ''foo2'' True) \<notin>
     ran (abi_Methods (UnmarshalJSON abi [sample_field ''foo'' False, sample_field ''foo2'' True, sample_field ''foo'' True]))"
proof -
  have "decimal (Suc (Suc 0)) = ''2''" by code_simp
  then have tab: "abi_Methods (UnmarshalJSON abi [sample_field ''foo'' False, sample_field ''foo2'' True, sample_field ''foo'' True]) =
    [''foo'' \<mapsto> method_of (sample_field ''foo'' True), ''foo2'' \<mapsto> method_of (sample_field ''foo'' False)]"
    by (simp add: UnmarshalJSON_def sample_field_def method_of_def Let_def fun_upd_twist)
  have "method_of (sample_field ''foo'' c) \<noteq> method_of (sample_field ''foo2'' True)" for c
    by (simp add: method_of_def sample_field_def)
  then show ?thesis
    unfolding tab by (simp add: ran_def)
qed

end
