(* ===== verification/Hex_Text.thy ===== *)
theory Hex_Text
  imports Common_Types
begin

text \<open>
  Hexadecimal text: the conversions of \<^verbatim>\<open>src/common/bytes.go\<close> and the prefixed encodings of
  \<^verbatim>\<open>src/common/hexutil/hexutil.go\<close>, with the parts of Go's \<^verbatim>\<open>encoding/hex\<close> and \<^verbatim>\<open>strconv\<close> they use, and that decoding
  inverts encoding.
\<close>

section \<open>Hexadecimal digits\<close>

text \<open>The table of \<^verbatim>\<open>encoding/hex\<close> and the value of a digit in either case.\<close>

definition hextable :: string where
  "hextable = ''0123456789abcdef''"

definition hex_digit :: "nat \<Rightarrow> char" where
  "hex_digit n = hextable ! n"

definition isHexCharacter :: "char \<Rightarrow> bool" where
  "isHexCharacter c \<longleftrightarrow>
    (48 \<le> (of_char c :: nat) \<and> (of_char c :: nat) \<le> 57) \<or> (97 \<le> (of_char c :: nat) \<and> (of_char c :: nat) \<le> 102) \<or>
    (65 \<le> (of_char c :: nat) \<and> (of_char c :: nat) \<le> 70)"

definition decodeNibble :: "char \<Rightarrow> nat option" where
  "decodeNibble c =
    (let v = (of_char c :: nat) in
     if 48 \<le> v \<and> v \<le> 57 then Some (v - 48)
     else if 65 \<le> v \<and> v \<le> 70 then Some (v - 65 + 10)
     else if 97 \<le> v \<and> v \<le> 102 then Some (v - 97 + 10)
     else None)"

section \<open>Byte strings\<close>

datatype HexError =
    ErrEmptyString | ErrSyntax | ErrMissingPrefix | ErrOddLength | ErrEmptyNumber | ErrLeadingZero | ErrUint64Range | ErrBig256Range

text \<open>\<^verbatim>\<open>hex.EncodeToString\<close>, and \<^verbatim>\<open>hex.DecodeString\<close>, which returns the bytes decoded before an error together with it.\<close>

definition EncodeToString :: "bytes \<Rightarrow> string" where
  "EncodeToString d = concat (map (\<lambda>b. [hex_digit (unat b div 16), hex_digit (unat b mod 16)]) d)"

fun DecodeString :: "string \<Rightarrow> bytes \<times> HexError option" where
  "DecodeString [] = ([], None)"
| "DecodeString [c] = ([], Some (if isHexCharacter c then ErrOddLength else ErrSyntax))"
| "DecodeString (a # b # cs) =
    (case (decodeNibble a, decodeNibble b) of
       (Some h, Some l) \<Rightarrow> (let (bs, err) = DecodeString cs in (of_nat (16 * h + l) # bs, err))
     | _ \<Rightarrow> ([], Some ErrSyntax))"

definition Bytes2Hex :: "bytes \<Rightarrow> string" where
  "Bytes2Hex d = EncodeToString d"

definition Hex2Bytes :: "string \<Rightarrow> bytes" where
  "Hex2Bytes str = fst (DecodeString str)"

definition ToHex :: "bytes \<Rightarrow> string" where
  "ToHex b = (let h = Bytes2Hex b; h = (if length h = 0 then ''0'' else h) in ''0x'' @ h)"

definition FromHex :: "string \<Rightarrow> bytes" where
  "FromHex s =
    (let s = (if length s > 1 \<and> (take 2 s = ''0x'' \<or> take 2 s = ''0X'') then drop 2 s else s);
         s = (if length s mod 2 = 1 then ''0'' @ s else s)
     in Hex2Bytes s)"

definition Hex2BytesFixed :: "string \<Rightarrow> nat \<Rightarrow> bytes" where
  "Hex2BytesFixed str flen =
    (let h = fst (DecodeString str) in
     if length h = flen then h
     else if length h > flen then drop (length h - flen) h
     else replicate (flen - length h) 0 @ h)"

definition hasHexPrefix :: "string \<Rightarrow> bool" where
  "hasHexPrefix str \<longleftrightarrow> length str \<ge> 2 \<and> str ! 0 = CHR ''0'' \<and> (str ! 1 = CHR ''x'' \<or> str ! 1 = CHR ''X'')"

definition isHex :: "string \<Rightarrow> bool" where
  "isHex str \<longleftrightarrow> length str mod 2 = 0 \<and> list_all isHexCharacter str"

section \<open>Prefixed hexadecimal: \<^verbatim>\<open>hexutil\<close>\<close>

definition has0xPrefix :: "string \<Rightarrow> bool" where
  "has0xPrefix s \<longleftrightarrow> length s \<ge> 2 \<and> s ! 0 = CHR ''0'' \<and> (s ! 1 = CHR ''x'' \<or> s ! 1 = CHR ''X'')"

definition Hex_Encode :: "bytes \<Rightarrow> string" where
  "Hex_Encode b = ''0x'' @ EncodeToString b"

definition Hex_Decode :: "string \<Rightarrow> bytes \<times> HexError option" where
  "Hex_Decode s =
    (if length s = 0 then ([], Some ErrEmptyString)
     else if \<not> has0xPrefix s then ([], Some ErrMissingPrefix)
     else DecodeString (drop 2 s))"

definition checkNumber :: "string \<Rightarrow> HexError + string" where
  "checkNumber s =
    (if length s = 0 then Inl ErrEmptyString
     else if \<not> has0xPrefix s then Inl ErrMissingPrefix
     else
       (let raw = drop 2 s in
        if length raw = 0 then Inl ErrEmptyNumber
        else if length raw > 1 \<and> raw ! 0 = CHR ''0'' then Inl ErrLeadingZero
        else Inr raw))"

text \<open>\<^verbatim>\<open>strconv.ParseUint\<close> in base 16 for 64 bits: the first bad digit or overflow ends the scan.\<close>

fun ParseUint16 :: "nat \<Rightarrow> string \<Rightarrow> HexError + nat" where
  "ParseUint16 n [] = Inr n"
| "ParseUint16 n (c # cs) =
    (case decodeNibble c of
       None \<Rightarrow> Inl ErrSyntax
     | Some d \<Rightarrow> if n \<ge> 2 ^ 60 then Inl ErrUint64Range else ParseUint16 (n * 16 + d) cs)"

definition DecodeUint64 :: "string \<Rightarrow> HexError + u64" where
  "DecodeUint64 s =
    (case checkNumber s of
       Inl e \<Rightarrow> Inl e
     | Inr raw \<Rightarrow> (case ParseUint16 0 raw of Inl e \<Rightarrow> Inl e | Inr n \<Rightarrow> Inr (of_nat n)))"

text \<open>A number in base 16: \<^verbatim>\<open>strconv.AppendUint\<close> and the verb \<^verbatim>\<open>%x\<close>.\<close>

fun hexnum :: "nat \<Rightarrow> string" where
  "hexnum n = (if n < 16 then [hex_digit n] else hexnum (n div 16) @ [hex_digit (n mod 16)])"

definition EncodeUint64 :: "u64 \<Rightarrow> string" where
  "EncodeUint64 i = ''0x'' @ hexnum (unat i)"

definition EncodeBig :: "int \<Rightarrow> string" where
  "EncodeBig x = (if x = 0 then ''0x0'' else (if x < 0 then ''-'' else []) @ ''0x'' @ hexnum (nat \<bar>x\<bar>))"

text \<open>One machine word of the number, and the words from the least significant one.\<close>

fun decode_word :: "u64 \<Rightarrow> string \<Rightarrow> u64 option" where
  "decode_word w [] = Some w"
| "decode_word w (c # cs) = (case decodeNibble c of None \<Rightarrow> None | Some nib \<Rightarrow> decode_word (w * 16 + of_nat nib) cs)"

fun decode_words :: "nat \<Rightarrow> nat \<Rightarrow> string \<Rightarrow> u64 list option" where
  "decode_words 0 en raw = Some []"
| "decode_words (Suc n) en raw =
    (let start = en - 16 in
     case decode_word 0 (take (en - start) (drop start raw)) of
       None \<Rightarrow> None
     | Some w \<Rightarrow> (case decode_words n start raw of None \<Rightarrow> None | Some ws \<Rightarrow> Some (w # ws)))"

definition SetBits :: "u64 list \<Rightarrow> int" where
  "SetBits ws = foldr (\<lambda>w acc. uint w + 2 ^ 64 * acc) ws 0"

definition DecodeBig :: "string \<Rightarrow> HexError + int" where
  "DecodeBig s =
    (case checkNumber s of
       Inl e \<Rightarrow> Inl e
     | Inr raw \<Rightarrow>
         if length raw > 64 then Inl ErrBig256Range
         else
           (case decode_words (length raw div 16 + 1) (length raw) raw of
              None \<Rightarrow> Inl ErrSyntax
            | Some ws \<Rightarrow> Inr (SetBits ws)))"

section \<open>Round trips\<close>

lemma nibble_digit [simp]: "n < 16 \<Longrightarrow> decodeNibble (hex_digit n) = Some n"
proof -
  assume "n < 16"
  then have "n \<in> {0, 1, 2, 3, 4, 5, 6, 7, 8, 9, 10, 11, 12, 13, 14, 15}" by (simp; presburger)
  then show ?thesis by (elim insertE emptyE; simp; code_simp)
qed

lemma hex_digit_zero: "n < 16 \<Longrightarrow> hex_digit n = CHR ''0'' \<longleftrightarrow> n = 0"
proof
  assume n: "n < 16" "hex_digit n = CHR ''0''"
  have "decodeNibble (CHR ''0'') = Some 0" by code_simp
  with n show "n = 0" using nibble_digit [OF n(1)] by simp
qed (simp add: hex_digit_def hextable_def)

lemma Decode_EncodeToString: "DecodeString (EncodeToString d) = (d, None)"
proof (induction d)
  case (Cons b d)
  have "unat b < 256" using unsigned_less [of b] by simp
  then have "unat b div 16 < 16" by (simp add: less_mult_imp_div_less)
  moreover have "of_nat (16 * (unat b div 16) + unat b mod 16) = b"
    by (simp only: mult_div_mod_eq) simp
  ultimately show ?case
    using Cons by (simp add: EncodeToString_def split_beta)
qed (simp add: EncodeToString_def)

text \<open>The value of a string of digits, continuing from \<open>n\<close>.\<close>

definition hexval :: "nat \<Rightarrow> string \<Rightarrow> nat" where
  "hexval n s = foldl (\<lambda>a c. a * 16 + (case decodeNibble c of Some d \<Rightarrow> d | None \<Rightarrow> 0)) n s"

abbreviation is_nibble :: "char \<Rightarrow> bool" where
  "is_nibble c \<equiv> decodeNibble c \<noteq> None"

lemma nibble_less: "decodeNibble c = Some d \<Longrightarrow> d < 16"
  by (auto simp: decodeNibble_def Let_def split: if_splits)

lemma hexval_shift: "hexval n s = n * 16 ^ length s + hexval 0 s"
proof (induction s arbitrary: n)
  case (Cons c s)
  let ?d = "case decodeNibble c of Some d \<Rightarrow> d | None \<Rightarrow> 0"
  have "hexval n (c # s) = (n * 16 + ?d) * 16 ^ length s + hexval 0 s"
    using Cons [of "n * 16 + ?d"] by (simp add: hexval_def)
  moreover have "hexval 0 (c # s) = ?d * 16 ^ length s + hexval 0 s"
    using Cons [of ?d] by (simp add: hexval_def)
  ultimately show ?case by (simp add: algebra_simps)
qed (simp add: hexval_def)

lemma hexval_append: "hexval n (s @ t) = hexval (hexval n s) t"
  by (simp add: hexval_def)

lemma hexval_bound: "hexval 0 s < 16 ^ length s"
proof (induction s)
  case (Cons c s)
  have "(case decodeNibble c of Some d \<Rightarrow> d | None \<Rightarrow> 0) \<le> 15" (is "?d \<le> 15")
    by (auto split: option.split dest: nibble_less)
  then have "?d * 16 ^ length s \<le> 15 * 16 ^ length s" by simp
  moreover have "hexval 0 (c # s) = ?d * 16 ^ length s + hexval 0 s"
    using hexval_shift [of ?d s] by (simp add: hexval_def)
  ultimately have "hexval 0 (c # s) < 15 * 16 ^ length s + 16 ^ length s"
    using Cons by linarith
  then show ?case by simp
qed (simp add: hexval_def)

declare hexnum.simps [simp del]

lemma hexnum_digits: "list_all is_nibble (hexnum n)" "hexnum n \<noteq> []" "hexval 0 (hexnum n) = n"
proof (induction n rule: hexnum.induct)
  case (1 n)
  {
    case 1 show ?case by (cases "n < 16"; subst hexnum.simps) (simp_all add: "1.IH" del: not_None_eq)
  next
    case 2 show ?case by (subst hexnum.simps) simp
  next
    case 3 show ?case by (cases "n < 16"; subst hexnum.simps) (simp_all add: hexval_append "1.IH", simp_all add: hexval_def)
  }
qed

lemma hexnum_length: "n < 16 ^ Suc k \<Longrightarrow> length (hexnum n) \<le> Suc k"
proof (induction k arbitrary: n)
  case (Suc k)
  then have "n div 16 < 16 ^ Suc k" by (simp add: less_mult_imp_div_less)
  with Suc.IH show ?case by (subst hexnum.simps) simp
qed (subst hexnum.simps, simp)

lemma hexnum_leading: "16 \<le> n \<Longrightarrow> hexnum n ! 0 \<noteq> CHR ''0''"
proof (induction n rule: hexnum.induct)
  case (1 n)
  have h: "hexnum n = hexnum (n div 16) @ [hex_digit (n mod 16)]" using 1(2) by (subst hexnum.simps) simp
  show ?case
  proof (cases "n div 16 < 16")
    case True
    then have "hexnum (n div 16) = [hex_digit (n div 16)]" by (subst hexnum.simps) simp
    moreover have "n div 16 \<noteq> 0" using 1(2) by (simp add: div_eq_0_iff)
    ultimately show ?thesis using h hex_digit_zero [OF True] by simp
  next
    case False
    then show ?thesis using 1 h hexnum_digits(2) [of "n div 16"] by (simp add: nth_append)
  qed
qed

lemma checkNumber_hexnum: "checkNumber (''0x'' @ hexnum n) = Inr (hexnum n)"
proof -
  have "hexnum n ! 0 \<noteq> CHR ''0''" if "length (hexnum n) > 1"
  proof (rule hexnum_leading)
    show "16 \<le> n" using that by (rule_tac ccontr) (simp add: hexnum.simps)
  qed
  then show ?thesis
    using hexnum_digits(2) [of n] by (simp add: checkNumber_def has0xPrefix_def Let_def)
qed

lemma ParseUint16_digits: "list_all is_nibble s \<Longrightarrow> hexval n s < 2 ^ 64 \<Longrightarrow> ParseUint16 n s = Inr (hexval n s)"
proof (induction s arbitrary: n)
  case (Cons c s)
  obtain d where d: "decodeNibble c = Some d" using Cons.prems(1) by auto
  have v: "hexval n (c # s) = hexval (n * 16 + d) s" by (simp add: hexval_def d)
  have "n * 16 + d \<le> hexval (n * 16 + d) s"
    unfolding hexval_shift [of "n * 16 + d" s] by (rule trans_le_add1) simp
  then have "n < 2 ^ 60" using Cons.prems(2) v by simp
  then show ?case using Cons d v by simp
qed (simp add: hexval_def)

lemma decode_word_digits: "list_all is_nibble s \<Longrightarrow> decode_word (of_nat n) s = Some (of_nat (hexval n s))"
proof (induction s arbitrary: n)
  case (Cons c s)
  obtain d where d: "decodeNibble c = Some d" using Cons.prems by auto
  show ?case using Cons.IH [of "n * 16 + d"] Cons.prems d by (simp add: hexval_def)
qed (simp add: hexval_def)

lemma decode_words_digits:
  assumes "list_all is_nibble raw" "en \<le> length raw" "en \<le> 16 * n"
  shows "\<exists>ws. decode_words n en raw = Some ws \<and> SetBits ws = int (hexval 0 (take en raw))"
  using assms(2,3)
proof (induction n arbitrary: en)
  case (Suc n)
  let ?start = "en - 16" and ?seg = "take (en - (en - 16)) (drop (en - 16) raw)"
  obtain ws where ws: "decode_words n ?start raw = Some ws" "SetBits ws = int (hexval 0 (take ?start raw))"
    using Suc.IH [of ?start] Suc.prems by fastforce
  have seg: "list_all is_nibble ?seg" "length ?seg = en - ?start"
    using assms(1) Suc.prems by (auto simp: list_all_iff dest: in_set_takeD in_set_dropD)
  have w: "decode_word 0 ?seg = Some (of_nat (hexval 0 ?seg))"
    using decode_word_digits [OF seg(1), of 0] by simp
  have "hexval 0 ?seg < 16 ^ (en - ?start)" using hexval_bound [of ?seg] seg(2) by simp
  also have "\<dots> \<le> 16 ^ 16" by (rule power_increasing) simp_all
  finally have u: "uint (of_nat (hexval 0 ?seg) :: u64) = int (hexval 0 ?seg)"
    by (simp add: unsigned_of_nat take_bit_nat_eq_self)
  have "take en raw = take ?start raw @ ?seg"
    by (metis le_add_diff_inverse diff_le_self take_add)
  then have "hexval 0 (take en raw) = hexval 0 (take ?start raw) * 16 ^ (en - ?start) + hexval 0 ?seg"
    using hexval_shift [of "hexval 0 (take ?start raw)" ?seg] seg(2) by (simp add: hexval_append)
  also have "\<dots> = hexval 0 (take ?start raw) * 2 ^ 64 + hexval 0 ?seg"
    by (cases "en \<ge> 16") (simp_all add: hexval_def)
  finally show ?case
    using ws w u by (simp add: Let_def SetBits_def)
qed (simp add: SetBits_def hexval_def)

section \<open>Properties\<close>

text \<open>
  C28. Hexadecimal text is read back exactly: the prefixed encodings of byte strings, of 64-bit numbers and of the numbers below
  \<open>2^256\<close> decode to what was encoded, and so does \<^verbatim>\<open>common.ToHex\<close> for every non-empty byte string (the empty one is
  printed as \<open>0x0\<close> and read back as one zero byte).
\<close>

theorem hex_roundtrips:
  assumes "0 \<le> x" "x < 2 ^ 256"
  shows "Hex_Decode (Hex_Encode b) = (b, None) \<and> DecodeUint64 (EncodeUint64 i) = Inr i \<and> DecodeBig (EncodeBig x) = Inr x \<and>
    FromHex (ToHex b) = (if b = [] then [0] else b)"
proof (intro conjI)
  show "Hex_Decode (Hex_Encode b) = (b, None)"
    by (simp add: Hex_Decode_def Hex_Encode_def has0xPrefix_def Decode_EncodeToString)
  have "hexval 0 (hexnum (unat i)) < 2 ^ 64" using unat_less_2p64 [of i] by (simp add: hexnum_digits)
  from ParseUint16_digits [OF hexnum_digits(1) this] show "DecodeUint64 (EncodeUint64 i) = Inr i"
    unfolding DecodeUint64_def EncodeUint64_def checkNumber_hexnum by (simp add: hexnum_digits)
  let ?s = "hexnum (nat x)"
  have e: "EncodeBig x = ''0x'' @ ?s"
    using assms(1) by (auto simp: EncodeBig_def hexnum.simps hex_digit_def hextable_def)
  have "length ?s \<le> 64"
    by (rule hexnum_length [of _ 63, simplified]) (use assms in simp)
  moreover obtain ws where "decode_words (length ?s div 16 + 1) (length ?s) ?s = Some ws" "SetBits ws = int (hexval 0 (take (length ?s) ?s))"
    using decode_words_digits [OF hexnum_digits(1) order_refl, of "nat x" "length ?s div 16 + 1"] dividend_less_times_div [of 16 "length ?s"] by fastforce
  ultimately show "DecodeBig (EncodeBig x) = Inr x"
    unfolding DecodeBig_def e checkNumber_hexnum using assms(1) by (simp add: hexnum_digits(3) del: decode_words.simps)
  show "FromHex (ToHex b) = (if b = [] then [0] else b)"
  proof (cases "b = []")
    case True
    then show ?thesis by (simp add: ToHex_def FromHex_def Bytes2Hex_def EncodeToString_def Hex2Bytes_def decodeNibble_def Let_def)
  next
    case False
    have "length (EncodeToString b) mod 2 = 0" by (induction b) (auto simp: EncodeToString_def)
    moreover have "EncodeToString b \<noteq> []" using False by (cases b) (simp_all add: EncodeToString_def)
    ultimately show ?thesis
      using False Decode_EncodeToString [of b] by (simp add: ToHex_def FromHex_def Bytes2Hex_def Hex2Bytes_def)
  qed
qed

theorem hex_roundtrips_witness:
  "DecodeBig (EncodeBig 255) = Inr 255 \<and> EncodeBig 255 = ''0xff'' \<and> FromHex (ToHex [1, 255]) = [1, 255]"
proof -
  have "EncodeBig 255 = ''0xff''" by code_simp
  then show ?thesis using hex_roundtrips [of 255 "[1, 255]"] by simp
qed

end
