(* ===== verification/Fuzzing.thy ===== *)
theory Fuzzing
  imports Detection Abi_Methods Hex_Text
begin

text \<open>
  The fuzzer of \<^verbatim>\<open>src/detectors\<close>: generated inputs (\<^verbatim>\<open>common.go\<close>), the storage of the contract under test
  (\<^verbatim>\<open>contractutils.go\<close>) and the campaign of \<^verbatim>\<open>fuzzint.go\<close> over all methods. A campaign ends, and every report goes back to
  a call of the campaign that overflowed: the reported one, if the copies of the state restore it, and otherwise that or an earlier one.
\<close>

section \<open>Generated inputs\<close>

definition StringInSlice :: "string \<Rightarrow> string list \<Rightarrow> bool" where
  "StringInSlice a xs = list_ex (\<lambda>b. b = a) xs"

text \<open>\<^verbatim>\<open>Exp(2, i, nil)\<close>: powers of two, and 1 for an exponent that is not positive.\<close>

definition big_Exp2 :: "int \<Rightarrow> int" where
  "big_Exp2 i = (if i \<le> 0 then 1 else 2 ^ nat i)"

text \<open>
  The results of \<^verbatim>\<open>GenerateIntBySize\<close> are pointers. The first two loops append the pointer to one variable, \<^verbatim>\<open>value\<close>, which
  they overwrite in every round; the others append a number of their own.
\<close>

datatype IntRef = SharedRef | OwnRef int

definition GenerateIntBySize :: "int \<Rightarrow> int list" where
  "GenerateIntBySize sz =
    (let (val, res) = foldl (\<lambda>(val, res) i. (big_Exp2 i, res @ [SharedRef])) (0, []) [0..8];
         (val, res) = foldl (\<lambda>(val, res) i. (big_Exp2 i, res @ [SharedRef])) (val, res) [sz - 8..sz];
         intMax = big_Exp2 sz;
         res = foldl (\<lambda>res i. res @ [OwnRef i]) res [1..8];
         res = foldl (\<lambda>res i. res @ [OwnRef (intMax - i)]) res [0..8]
     in map (\<lambda>r. case r of SharedRef \<Rightarrow> val | OwnRef x \<Rightarrow> x) res)"

definition test_address :: "nat \<Rightarrow> Address" where
  "test_address i = BytesToAddress (bytes_of_string (''testaddress'' @ decimal i))"

definition GenerateAddress :: "Address list" where
  "GenerateAddress = map test_address [0..<10]"

definition GenerateAddresses :: "Address list list" where
  "GenerateAddresses = (let resTemp = map test_address [0..<10] in map (\<lambda>i. take i resTemp) [0..<10])"

definition VAddress :: "Address \<Rightarrow> Val" where
  "VAddress a = VArray uint8T (VBytes a)"

text \<open>The candidates for one parameter; other types get none.\<close>

definition input_candidates :: "Type \<Rightarrow> Val list option option" where
  "input_candidates t =
    (case T t of
       SliceTy \<Rightarrow>
         (case Elem t of
            None \<Rightarrow> None
          | Some e \<Rightarrow> Some (if T e = AddressTy then Some (map (\<lambda>as. VSlice addressT (map VAddress as)) GenerateAddresses) else None))
     | UintTy \<Rightarrow> Some (Some (map VBig (GenerateIntBySize (Size t))))
     | AddressTy \<Rightarrow> Some (Some (map VAddress GenerateAddress))
     | _ \<Rightarrow> Some None)"

fun input_lists :: "Argument list \<Rightarrow> Val list list option" where
  "input_lists [] = Some []"
| "input_lists (x # xs) =
    (case input_candidates (arg_Type x) of
       None \<Rightarrow> None
     | Some c \<Rightarrow> map_option (\<lambda>d. case c of None \<Rightarrow> d | Some s \<Rightarrow> s # d) (input_lists xs))"

text \<open>
  \<^verbatim>\<open>GenerateInputsByABI\<close>: the products of the candidates, as \<^verbatim>\<open>cartesian.Iter\<close> (a parameter) delivers them on the channel,
  and their number; no channel if the method is not found. The outer option is the panic on a slice type without element.
\<close>

definition GenerateInputsByABI :: "(Val list list \<Rightarrow> Val list list) \<Rightarrow> ABI \<Rightarrow> string \<Rightarrow> (Val list list option \<times> nat) option" where
  "GenerateInputsByABI cartesian abi function =
    (let (name, inputs) = (case abi_Methods abi function of None \<Rightarrow> ([], []) | Some m \<Rightarrow> (me_Name m, me_Inputs m)) in
     if name \<noteq> function then Some (None, 0)
     else map_option (\<lambda>d. (Some (cartesian d), foldl (\<lambda>acc s. acc * length s) 1 d)) (input_lists inputs))"

section \<open>Contracts and their storage\<close>

record SimpleContract =
  sc_Name :: string
  sc_Address :: Address
  sc_BIN :: string
  sc_ABI :: ABI

definition SetSkippedVars :: "string list \<Rightarrow> string list" where
  "SetSkippedVars names = (if length names > 0 then names else [''name'', ''symbol'', ''totalSupply'', ''decimals''])"

definition is_constant_num :: "Method \<Rightarrow> bool" where
  "is_constant_num m \<longleftrightarrow>
    me_Const m \<and> length (me_Inputs m) = 0 \<and> length (me_Outputs m) = 1 \<and>
    (T (arg_Type (me_Outputs m ! 0)) = UintTy \<or> T (arg_Type (me_Outputs m ! 0)) = IntTy)"

definition FilterOutConstantNumABI :: "ABI \<Rightarrow> (string \<rightharpoonup> Method)" where
  "FilterOutConstantNumABI abi name =
    (case abi_Methods abi name of None \<Rightarrow> None | Some m \<Rightarrow> if is_constant_num m then Some m else None)"

definition SetStorage :: "StateDB \<Rightarrow> Address \<Rightarrow> Hash \<Rightarrow> int \<Rightarrow> StateDB" where
  "SetStorage db addr loc value = SetState db addr loc (BytesToHash (abi_U256 value))"

definition GetStorage :: "StateDB \<Rightarrow> Address \<Rightarrow> Hash \<Rightarrow> Hash \<times> StateDB" where
  "GetStorage db addr loc = GetState db addr loc"

text \<open>
  \<^verbatim>\<open>TouchSload\<close> installs a callback that remembers the first location an SLOAD of the call reads; the calls of the callback are the
  new entries of \<^const>\<open>evm_events\<close>. Without one the location is the zero hash.
\<close>

definition first_sload :: "(CallbackSite \<times> Hash \<times> int) list \<Rightarrow> Hash" where
  "first_sload evs = (case find (\<lambda>(site, loc, val). site = opSload_site) evs of None \<Rightarrow> zeroHash | Some (site, loc, val) \<Rightarrow> loc)"

definition TouchSload :: "nat \<Rightarrow> EVM \<Rightarrow> Address \<Rightarrow> Method \<Rightarrow> (EVM \<times> Hash \<times> Error option) res" where
  "TouchSload n evm contractaddr abiin =
    rbind (evm_Call n evm (AccountRef ContractCreater) contractaddr (Method_Id abiin) call_gas 0)
      (\<lambda>(evm', d, ret, left, err). Done (evm', first_sload (drop (length (evm_events evm)) (evm_events evm')), err))"

text \<open>\<open>names\<close> is the order in which the map of constant methods is iterated.\<close>

fun GetStorageLoc :: "nat \<Rightarrow> EVM \<Rightarrow> SimpleContract \<Rightarrow> string list \<Rightarrow> string list \<Rightarrow> (EVM \<times> (string \<times> Hash) list) res" where
  "GetStorageLoc n evm sc skipped [] = Done (evm, [])"
| "GetStorageLoc n evm sc skipped (c # names) =
    (case FilterOutConstantNumABI (sc_ABI sc) c of
       None \<Rightarrow> GetStorageLoc n evm sc skipped names
     | Some abiin \<Rightarrow>
         if StringInSlice c skipped then GetStorageLoc n evm sc skipped names
         else
           rbind (TouchSload n evm (sc_Address sc) abiin) (\<lambda>(evm, loc, err).
             rbind (GetStorageLoc n evm sc skipped names) (\<lambda>(evm, locs). Done (evm, (c, loc) # locs))))"

section \<open>The fuzzing campaign\<close>

text \<open>
  The contract under test: its address, its methods and the locations of its constants, the maps in the order in which they
  are iterated.
\<close>

record FuzzInt =
  fi_Address :: Address
  fi_Methods :: "Method list"
  fi_constantsLoc :: "(string \<times> Hash) list"
  fi_enableUI :: bool

record Report =
  rp_Method :: Method
  rp_Calldata :: bytes
  rp_Storage :: "(string \<times> Hash) list"

text \<open>
  The state of the loops. \<open>ca_calls\<close> is the history of the calls, each with the EVM it starts in; the code keeps no such record, and nothing
  reads it.
\<close>

record 's Campaign =
  ca_evm :: EVM
  ca_rand :: 's
  ca_count :: nat
  ca_reports :: "Report list"
  ca_calls :: "(EVM \<times> Method \<times> bytes) list"

definition StorageMutateNum :: nat where "StorageMutateNum = 100"
definition MaxRuns :: nat where "MaxRuns = 100"

text \<open>The package has its own copy of \<^verbatim>\<open>abi.genRandomInSpecialDist\<close>.\<close>

definition GenRandomInSpecialDist :: "'s Fuzzer \<Rightarrow> 's \<Rightarrow> (int option \<times> 's) res" where
  "GenRandomInSpecialDist fz s =
    (let maxrange = 16;
         (chooseRange, s) = rand_Int fz 4 s;
         (n, s) = rand_Int fz maxrange s;
         add = (\<lambda>offset. case n of None \<Rightarrow> Panic | Some n \<Rightarrow> Done (Some (offset + n), s))
     in case chooseRange of
          None \<Rightarrow> Panic
        | Some c \<Rightarrow>
            if c = 0 then Done (n, s)
            else if c = 1 then add (2 ^ 255 - maxrange)
            else if c = 2 then add (2 ^ 255)
            else if c = 3 then add (2 ^ 256 - maxrange)
            else Done (n, s))"

fun FuzzStorage :: "'s Fuzzer \<Rightarrow> Address \<Rightarrow> (string \<times> Hash) list \<Rightarrow> StateDB \<Rightarrow> 's \<Rightarrow> (StateDB \<times> 's) res" where
  "FuzzStorage fz addr [] db s = Done (db, s)"
| "FuzzStorage fz addr ((name, loc) # locs) db s =
    rbind (GenRandomInSpecialDist fz s) (\<lambda>(n, s).
      case n of None \<Rightarrow> Panic | Some n \<Rightarrow> FuzzStorage fz addr locs (SetStorage db addr loc n) s)"

fun getConstantsTable :: "Address \<Rightarrow> (string \<times> Hash) list \<Rightarrow> StateDB \<Rightarrow> (string \<times> Hash) list \<times> StateDB" where
  "getConstantsTable addr [] db = ([], db)"
| "getConstantsTable addr ((name, loc) # locs) db =
    (let (val, db) = GetStorage db addr loc; (rows, db) = getConstantsTable addr locs db in ((name, val) # rows, db))"

text \<open>An error of \<^verbatim>\<open>method.Fuzz\<close> is ignored, its data is then empty.\<close>

definition fuzz_calldata :: "'s Fuzzer \<Rightarrow> Method \<Rightarrow> 's \<Rightarrow> (bytes \<times> 's) res" where
  "fuzz_calldata fz m s = rbind (Method_Fuzz fz m s) (\<lambda>r. Done (case r of Inl e \<Rightarrow> ([], s) | Inr d \<Rightarrow> d))"

text \<open>
  One call. \<open>restored b a\<close> is the state that \<^verbatim>\<open>RestoreStates\<close> leaves, given the state at \<^verbatim>\<open>BackupStates\<close> and the state just before
  the restoration: it stands for the copies made by the package \<^verbatim>\<open>copier\<close>, which may share the map of accounts between the two states.
\<close>

definition fuzz_once :: "nat \<Rightarrow> (StateDB \<Rightarrow> StateDB \<Rightarrow> StateDB) \<Rightarrow> 's Fuzzer \<Rightarrow> FuzzInt \<Rightarrow> Method \<Rightarrow> 's Campaign \<Rightarrow> 's Campaign res" where
  "fuzz_once n restored fz fi method c =
    rbind (fuzz_calldata fz method (ca_rand c)) (\<lambda>(calldata, s).
      let backup = evm_StateDB (ca_evm c) in
      rbind (SimpleContract_Call n (ca_evm c) (fi_Address fi) ContractCreater calldata) (\<lambda>(evm, ret, err).
        let (overflowStateExist, db) = CheckOverflowStorage (evm_StateDB evm) (fi_Address fi);
            db = restored backup db;
            calls = ca_calls c @ [(ca_evm c, method, calldata)]
        in if err = None \<and> overflowStateExist then
             (let (rows, db) = getConstantsTable (fi_Address fi) (fi_constantsLoc fi) db
              in Done (c\<lparr>ca_evm := with_db evm db, ca_rand := s, ca_count := ca_count c + 1,
                         ca_reports := ca_reports c @ [\<lparr>rp_Method = method, rp_Calldata = calldata, rp_Storage = rows\<rparr>], ca_calls := calls\<rparr>))
           else Done (c\<lparr>ca_evm := with_db evm db, ca_rand := s, ca_calls := calls\<rparr>)))"

text \<open>The runs with one storage; the flag tells that the loops over this method end.\<close>

primrec fuzz_runs :: "nat \<Rightarrow> (StateDB \<Rightarrow> StateDB \<Rightarrow> StateDB) \<Rightarrow> 's Fuzzer \<Rightarrow> FuzzInt \<Rightarrow> Method \<Rightarrow> nat \<Rightarrow> 's Campaign \<Rightarrow> ('s Campaign \<times> bool) res" where
  "fuzz_runs n restored fz fi method 0 c = Done (c, False)"
| "fuzz_runs n restored fz fi method (Suc j) c =
    rbind (fuzz_once n restored fz fi method c) (\<lambda>c.
      if ca_count c > 5 then Done (c, True) else fuzz_runs n restored fz fi method j c)"

definition mutate_storage :: "'s Fuzzer \<Rightarrow> FuzzInt \<Rightarrow> 's Campaign \<Rightarrow> 's Campaign res" where
  "mutate_storage fz fi c =
    rbind (FuzzStorage fz (fi_Address fi) (fi_constantsLoc fi) (evm_StateDB (ca_evm c)) (ca_rand c)) (\<lambda>(db, s).
      let (rows, db) = getConstantsTable (fi_Address fi) (fi_constantsLoc fi) db
      in Done (c\<lparr>ca_evm := with_db (ca_evm c) db, ca_rand := s\<rparr>))"

primrec fuzz_mutations :: "nat \<Rightarrow> (StateDB \<Rightarrow> StateDB \<Rightarrow> StateDB) \<Rightarrow> 's Fuzzer \<Rightarrow> FuzzInt \<Rightarrow> Method \<Rightarrow> nat \<Rightarrow> 's Campaign \<Rightarrow> 's Campaign res" where
  "fuzz_mutations n restored fz fi method 0 c = Done c"
| "fuzz_mutations n restored fz fi method (Suc i) c =
    rbind (mutate_storage fz fi c) (\<lambda>c.
      rbind (fuzz_runs n restored fz fi method MaxRuns c) (\<lambda>(c, stop).
        if stop then Done c else fuzz_mutations n restored fz fi method i c))"

primrec fuzz_methods :: "nat \<Rightarrow> (StateDB \<Rightarrow> StateDB \<Rightarrow> StateDB) \<Rightarrow> 's Fuzzer \<Rightarrow> FuzzInt \<Rightarrow> Method list \<Rightarrow> 's Campaign \<Rightarrow> 's Campaign res" where
  "fuzz_methods n restored fz fi [] c = Done c"
| "fuzz_methods n restored fz fi (method # methods) c =
    (if me_Const method then fuzz_methods n restored fz fi methods c
     else
       rbind (fuzz_mutations n restored fz fi method StorageMutateNum (c\<lparr>ca_count := 0\<rparr>)) (\<lambda>c.
         fuzz_methods n restored fz fi methods c))"

text \<open>
  \<open>os_Create\<close> and \<open>ui_Init\<close> tell whether the log file can be created and the user interface starts: the method panics if they fail. With
  the user interface it then shows the last state until a key ends its loop.
\<close>

definition FuzzContracts :: "nat \<Rightarrow> (StateDB \<Rightarrow> StateDB \<Rightarrow> StateDB) \<Rightarrow> 's Fuzzer \<Rightarrow> bool \<Rightarrow> bool \<Rightarrow> FuzzInt \<Rightarrow> EVM \<Rightarrow> 's \<Rightarrow> 's Campaign res" where
  "FuzzContracts n restored fz os_Create ui_Init fi evm s =
    (if \<not> os_Create then Panic
     else if fi_enableUI fi \<and> \<not> ui_Init then Panic
     else
       (let (rows, db) = getConstantsTable (fi_Address fi) (fi_constantsLoc fi) (evm_StateDB evm)
        in fuzz_methods n restored fz fi (fi_Methods fi)
             \<lparr>ca_evm = with_db evm db, ca_rand = s, ca_count = 0, ca_reports = [], ca_calls = []\<rparr>))"

section \<open>Events\<close>

definition overflowTopic :: bytes where
  "overflowTopic = Hex2Bytes ''FEE46111846A282E8199035721DD0334C2BC5C016AE4E72B924003431D6A8759''"

fun CheckEvent :: "Log list \<Rightarrow> bool" where
  "CheckEvent [] = False"
| "CheckEvent (l # ls) =
    (case log_Topics l of
       [] \<Rightarrow> False
     | topic # topics \<Rightarrow> if overflowTopic = topic then True else CheckEvent ls)"

section \<open>Fuzzing data never fails\<close>

text \<open>The types for which values are generated: all that \<^verbatim>\<open>NewType\<close> builds from canonical names.\<close>

fun fuzz_type_ok :: "Type \<Rightarrow> bool" where
  "fuzz_type_ok (Type elem k g sz ty s) =
    (case ty of
       IntTy \<Rightarrow> k \<in> {Int8_Kind, Int16_Kind, Int32_Kind, Int64_Kind, Uint8_Kind, Uint16_Kind, Uint32_Kind, Uint64_Kind, Ptr_Kind}
     | UintTy \<Rightarrow> k \<in> {Int8_Kind, Int16_Kind, Int32_Kind, Int64_Kind, Uint8_Kind, Uint16_Kind, Uint32_Kind, Uint64_Kind, Ptr_Kind}
     | SliceTy \<Rightarrow> (case elem of Some e \<Rightarrow> fuzz_type_ok e | None \<Rightarrow> False)
     | ArrayTy \<Rightarrow> (case elem of Some e \<Rightarrow> fuzz_type_ok e | None \<Rightarrow> False)
     | HashTy \<Rightarrow> False
     | FixedPointTy \<Rightarrow> False
     | _ \<Rightarrow> True)"

lemma sol_type_fuzz_ok: "fuzz_type_ok (sol_type s)"
  by (induction s) (auto simp: reflectIntKindAndType_def)

lemma fuzz_elems_ok: "(\<And>s. \<exists>r. f s = eok r) \<Longrightarrow> \<exists>r. fuzz_elems f n acc s = eok r"
proof (induction n arbitrary: acc s)
  case (Suc n)
  obtain w s' where "f s = eok (w, s')" using Suc.prems [of s] by auto
  with Suc.IH [of "acc @ w" s'] Suc.prems show ?case by auto
qed simp

lemma Type_fuzz_ok: "fuzzer_ok fz \<Longrightarrow> fuzz_type_ok t \<Longrightarrow> \<exists>r. Type_fuzz fz t s = eok r"
proof (induction fz t s rule: Type_fuzz.induct)
  case (1 fz elem k g sz ty str s)
  show ?case
  proof (cases "ty = SliceTy \<or> ty = ArrayTy")
    case True
    then obtain e where e: "elem = Some e" "fuzz_type_ok e"
      using 1(3) by (cases elem) auto
    obtain n s' where n: "rand_Int fz 16 s = (Some n, s')" by (rule rand_IntE [OF 1(2), of 16 s]) simp_all
    have "\<And>s. \<exists>r. Type_fuzz fz e s = eok r"
      using 1(1) [OF True n [symmetric] HOL.refl e(1) 1(2)] e(2) by blast
    from fuzz_elems_ok [OF this] obtain bs s'' where "fuzz_elems (Type_fuzz fz e) (nat n) [] s' = eok (bs, s'')" by fastforce
    then show ?thesis using True e n by auto
  next
    case False
    have num: "\<exists>r. fuzzNum fz (Type elem k g sz ty str) s = eok r"
      if "k \<in> {Int8_Kind, Int16_Kind, Int32_Kind, Int64_Kind, Uint8_Kind, Uint16_Kind, Uint32_Kind, Uint64_Kind, Ptr_Kind}"
      using that special_dist_boundaries [OF 1(2), of s] by (auto simp: fuzzNum_def split_beta)
    have "\<exists>r. fuzzAddress fz (Type elem k g sz AddressTy str) s = eok r"
      by (simp add: fuzzAddress_def packElement_def split_beta)
    with False 1(3) num show ?thesis
      by (cases ty) (auto simp: fuzzElement_def split_beta)
  qed
qed

lemma fuzz_args_ok: "fuzzer_ok fz \<Longrightarrow> list_all (fuzz_type_ok \<circ> arg_Type) args \<Longrightarrow> \<exists>r. fuzz_args fz off args ret var s = eok r"
proof (induction args arbitrary: ret var s)
  case (Cons arg args)
  obtain w s' where "Type_fuzz fz (arg_Type arg) s = eok (w, s')"
    using Type_fuzz_ok [of fz "arg_Type arg" s] Cons.prems by auto
  with Cons show ?case by auto
qed simp

lemma fuzz_calldata_ok: "fuzzer_ok fz \<Longrightarrow> list_all (fuzz_type_ok \<circ> arg_Type) (me_Inputs m) \<Longrightarrow> \<exists>data s'. fuzz_calldata fz m s = Done (data, s') \<and> Method_Fuzz fz m s = eok (data, s')"
  using fuzz_args_ok [of fz "me_Inputs m" "inputOffset (me_Inputs m)" "[]" "[]" s]
  by (auto simp: fuzz_calldata_def Method_Fuzz_def Arguments_Fuzz_def)

section \<open>The world between calls\<close>

definition evm_world :: "Address \<Rightarrow> EVM \<Rightarrow> bool" where
  "evm_world addr evm \<longleftrightarrow> metered evm \<and> NoRecursion (evm_vmConfig evm) \<and> 0 \<le> GasPrice (evm_ctx evm) \<and>
    evm_depth evm = 0 \<and> \<not> evm_abort evm \<and> \<not> in_readOnly evm \<and> precompile_at evm addr = None"

definition clean :: "Address \<Rightarrow> StateDB \<Rightarrow> bool" where
  "clean addr db \<longleftrightarrow> (\<forall>m\<in>markers. storage_at db (addr, StringToHash m) = zeroHash)"

text \<open>The states between calls: safe, and with a nonce of the contract of at most \<open>N\<close>.\<close>

definition db_world :: "Address \<Rightarrow> nat \<Rightarrow> StateDB \<Rightarrow> bool" where
  "db_world addr N db \<longleftrightarrow> db_safe db \<and> unat (GetNonce db addr) \<le> N"

lemma world_ready:
  "evm_world addr evm \<Longrightarrow> db_world addr N (evm_StateDB evm) \<Longrightarrow> N + unat call_gas < 2 ^ 64 - 1 \<Longrightarrow> length input < 2 ^ 62 \<Longrightarrow>
    fuzz_ready evm addr input"
  by (simp add: evm_world_def db_world_def fuzz_ready_def)

lemma evm_world_with_db [simp]: "evm_world addr (with_db evm db) = evm_world addr evm" "evm_StateDB (with_db evm db) = db"
  by (simp_all add: evm_world_def) (simp_all add: with_db_def precompile_at_def evm_isByzantium_def)

lemma evm_world_static: "evm_static evm evm' \<Longrightarrow> evm_world addr evm' = evm_world addr evm"
  by (simp add: evm_world_def metered_static) (simp add: evm_static_def precompile_at_def evm_isByzantium_def)

text \<open>Reading storage and the shared map of accounts: the world depends on the accounts only.\<close>

lemma GetState_world [simp]:
  "db_world addr N (snd (GetState db a k)) = db_world addr N db" "clean addr (snd (GetState db a k)) = clean addr db"
  by (simp_all add: db_world_def db_safe_def clean_def)

lemma CheckOverflowStorage_world [simp]:
  "db_world addr N (snd (CheckOverflowStorage db a)) = db_world addr N db" "clean addr (snd (CheckOverflowStorage db a)) = clean addr db"
proof -
  have "db_world addr N (snd (check_keys ops db a)) = db_world addr N db \<and> clean addr (snd (check_keys ops db a)) = clean addr db" for ops
  proof (induction ops arbitrary: db)
    case (Cons op ops)
    then show ?case by (simp add: split_beta)
  qed simp
  then show "db_world addr N (snd (CheckOverflowStorage db a)) = db_world addr N db"
    "clean addr (snd (CheckOverflowStorage db a)) = clean addr db" by (simp_all add: CheckOverflowStorage_def)
qed

lemma getConstantsTable_world [simp]:
  "db_world addr N (snd (getConstantsTable a locs db)) = db_world addr N db" "clean addr (snd (getConstantsTable a locs db)) = clean addr db"
proof (induction locs arbitrary: db)
  case (Cons l locs)
  { case 1 show ?case using Cons by (cases l) (simp add: split_beta GetStorage_def) }
  { case 2 show ?case using Cons by (cases l) (simp add: split_beta GetStorage_def) }
qed simp_all

lemma same_accounts_world:
  assumes "StateMap db = StateMap db'"
  shows "db_world addr N db = db_world addr N db'" "clean addr db = clean addr db'"
proof -
  have "balance_of db = balance_of db'" "GetCode db = GetCode db'" "GetNonce db = GetNonce db'" "storage_at db = storage_at db'"
    using assms by (simp_all add: fun_eq_iff balance_of_def ensure_def GetCode_def GetNonce_def storage_at_def GetState_def Let_def split: option.splits)
  then show "db_world addr N db = db_world addr N db'" "clean addr db = clean addr db'" by (simp_all add: db_world_def db_safe_def clean_def)
qed

lemma SetStorage_world:
  "db_world addr N (SetStorage db addr loc v) = db_world addr N db"
  "loc \<notin> StringToHash ` markers \<Longrightarrow> clean addr (SetStorage db addr loc v) = clean addr db"
  using storage.gt_st [of db "(addr, loc)" "BytesToHash (abi_U256 v)"] by (auto simp: db_world_def db_safe_def clean_def SetStorage_def)

lemma FuzzStorage_world:
  assumes "fuzzer_ok fz"
  shows "(\<forall>(name, loc)\<in>set locs. loc \<notin> StringToHash ` markers) \<Longrightarrow>
    \<exists>db' s'. FuzzStorage fz addr locs db s = Done (db', s') \<and> db_world addr N db' = db_world addr N db \<and> clean addr db' = clean addr db"
proof (induction locs arbitrary: db s)
  case (Cons l locs)
  obtain name loc where l: "l = (name, loc)" by fastforce
  obtain k s1 where k: "GenRandomInSpecialDist fz s = Done (Some k, s1)"
    using special_dist_boundaries [OF assms, of s] by (auto simp: genRandomInSpecialDist_def GenRandomInSpecialDist_def)
  from Cons.prems have "loc \<notin> StringToHash ` markers" "\<forall>(name, loc)\<in>set locs. loc \<notin> StringToHash ` markers" by (auto simp: l)
  with Cons.IH [of "SetStorage db addr loc k" s1] k show ?case by (auto simp: l SetStorage_world)
qed simp

section \<open>One call\<close>

text \<open>The call executes an overflowing instruction or stores to a marker slot by itself.\<close>

definition overflow_run :: "nat \<Rightarrow> EVM \<Rightarrow> Address \<Rightarrow> bytes \<Rightarrow> bool" where
  "overflow_run n evm addr data \<longleftrightarrow>
    (\<exists>fr fr'. steps (Run n) (call_frame evm ContractCreater addr data) fr \<and> step (Run n) fr = Done (Next fr') \<and>
      (overflowing (cur_op fr) fr \<or> stores_marker fr))"

lemma Call_static:
  assumes "evm_world addr evm" "SimpleContract_Call n evm a caller data = Done (evm', ret, err)"
  shows "evm_static evm evm'"
proof -
  have "\<not> restricted evm" "std_evm evm"
    using assms(1) by (simp_all add: restricted_def evm_world_def metered_def)
  then have "wp True True (evm_Call n evm (AccountRef caller) a data call_gas 0) (\<lambda>(e', r). evm_static evm e')"
    unfolding evm_Call_def by (auto intro!: keep_static.call_keeps keep_static.Run_n_keeps)
  then show ?thesis
    using assms(2) by (cases "evm_Call n evm (AccountRef caller) a data call_gas 0") (auto simp: SimpleContract_Call_def wp_partial)
qed

text \<open>
  A call returns to the world between calls. The nonce has grown by at most the gas, and the markers are as before unless the call
  overflowed.
\<close>

lemma call_outcome:
  assumes "evm_world addr evm" "db_world addr N (evm_StateDB evm)" "N + unat call_gas < 2 ^ 64 - 1" "length data < 2 ^ 62" "unat call_gas < n"
  shows "\<exists>evm' ret err. SimpleContract_Call n evm addr ContractCreater data = Done (evm', ret, err) \<and> evm_world addr evm' \<and>
    db_world addr (N + unat call_gas) (evm_StateDB evm') \<and>
    (clean addr (evm_StateDB evm) \<longrightarrow> clean addr (evm_StateDB evm') \<or> overflow_run n evm addr data)"
proof -
  let ?fr = "call_frame evm ContractCreater addr data"
  note ready = world_ready [OF assms(1-4)]
  note safe = call_frame_below [OF ready, of "N + unat call_gas + 1" ContractCreater]
  have below: "unat (GetNonce (evm_StateDB evm) addr) + unat call_gas < N + unat call_gas + 1" "N + unat call_gas + 1 < 2 ^ 64"
    using assms(2,3) by (simp_all add: db_world_def)
  show ?thesis
  proof (cases "GetCode (evm_StateDB evm) addr = []")
    case True
    then show ?thesis
      using SimpleContract_Call_empty [OF ready True, of n ContractCreater] evm_world_static [OF Call_static [OF assms(1)]] assms(1,2)
      by (fastforce simp: clean_def db_world_def)
  next
    case False
    obtain fr ret err fr1 where r: "Run_loop n ?fr = Done (fr, ret, err)" "steps (Run n) ?fr fr1" "step (Run n) fr1 = Done (Halt fr ret err)"
      using call_loop_returns [OF ready assms(5)] by blast
    obtain evm' where call: "SimpleContract_Call n evm addr ContractCreater data = Done (evm', ret, err)" "evm_StateDB evm' = fr_db fr"
      using SimpleContract_Call_run [OF ready False r(1)] by blast
    note safe = safe [OF below]
    have fr: "self_Address fr = addr" "own_slot fr = own_slot fr1"
      using step_stores_Halt [OF steps_safe [OF r(2) safe] r(3)] steps_self [OF r(2) safe] by simp_all
    have "halt_safe (N + unat call_gas + 1) fr"
      using Run_loop_halts [OF safe, of n] r(1) by simp
    then have "db_world addr (N + unat call_gas) (fr_db fr)"
      by (auto simp: halt_safe_def room_def db_world_def fr(1))
    moreover have "overflow_run n evm addr data" if "clean addr (evm_StateDB evm)" "\<not> clean addr (evm_StateDB evm')"
    proof -
      from that obtain m where m: "m \<in> markers" "own_slot fr1 (StringToHash m) \<noteq> own_slot ?fr (StringToHash m)"
        by (auto simp: clean_def call(2) own_slot_def [of fr] fr(1) own_slot_def [of ?fr] simp flip: fr(2))
      from slot_provenance [OF r(2) safe m(2)] marker_write(1) [OF _ m(1)] show ?thesis
        unfolding overflow_run_def by blast
    qed
    ultimately show ?thesis
      using call evm_world_static [OF Call_static [OF assms(1) call(1)]] assms(1) by auto
  qed
qed

section \<open>The campaign\<close>

text \<open>
  A report is traced back when it belongs to a call of the campaign, to a method that is not constant, and this call or one before it
  overflowed; it is genuine when the call itself overflowed, on the storage that is reported.
\<close>

definition overflowed :: "nat \<Rightarrow> FuzzInt \<Rightarrow> (EVM \<times> Method \<times> bytes) list \<Rightarrow> bool" where
  "overflowed n fi calls \<longleftrightarrow> (\<exists>(evm, m, data)\<in>set calls. overflow_run n evm (fi_Address fi) data)"

definition traced :: "nat \<Rightarrow> FuzzInt \<Rightarrow> (EVM \<times> Method \<times> bytes) list \<Rightarrow> Report \<Rightarrow> bool" where
  "traced n fi calls r \<longleftrightarrow> rp_Method r \<in> set (fi_Methods fi) \<and> \<not> me_Const (rp_Method r) \<and>
    (\<exists>pre evm post. calls = pre @ (evm, rp_Method r, rp_Calldata r) # post \<and> overflowed n fi (pre @ [(evm, rp_Method r, rp_Calldata r)]))"

definition genuine :: "nat \<Rightarrow> FuzzInt \<Rightarrow> (EVM \<times> Method \<times> bytes) list \<Rightarrow> Report \<Rightarrow> bool" where
  "genuine n fi calls r \<longleftrightarrow> (\<exists>evm. (evm, rp_Method r, rp_Calldata r) \<in> set calls \<and>
    rp_Storage r = fst (getConstantsTable (fi_Address fi) (fi_constantsLoc fi) (evm_StateDB evm)) \<and>
    overflow_run n evm (fi_Address fi) (rp_Calldata r))"

lemma traced_more: "traced n fi calls r \<Longrightarrow> traced n fi (calls @ xs) r"
  unfolding traced_def by fastforce

lemma genuine_more: "genuine n fi calls r \<Longrightarrow> genuine n fi (calls @ xs) r"
  unfolding genuine_def by auto

text \<open>
  What a campaign keeps, \<open>N\<close> being the nonce of the contract at its start: the world is ready for the next call, a marker is only set after
  an overflow (with faithful copies never), and the reports are traced back.
\<close>

definition exact :: "(StateDB \<Rightarrow> StateDB \<Rightarrow> StateDB) \<Rightarrow> bool" where
  "exact restored \<longleftrightarrow> (\<forall>b a. restored b a = b)"

definition campaign_ok :: "nat \<Rightarrow> (StateDB \<Rightarrow> StateDB \<Rightarrow> StateDB) \<Rightarrow> FuzzInt \<Rightarrow> nat \<Rightarrow> 's Campaign \<Rightarrow> bool" where
  "campaign_ok n restored fi N c \<longleftrightarrow> evm_world (fi_Address fi) (ca_evm c) \<and>
    db_world (fi_Address fi) (N + unat call_gas * length (ca_calls c)) (evm_StateDB (ca_evm c)) \<and>
    (clean (fi_Address fi) (evm_StateDB (ca_evm c)) \<or> \<not> exact restored \<and> overflowed n fi (ca_calls c)) \<and>
    list_all (traced n fi (ca_calls c)) (ca_reports c) \<and>
    (exact restored \<longrightarrow> list_all (genuine n fi (ca_calls c)) (ca_reports c))"

text \<open>The methods can be fuzzed: their types are those of canonical names, and call data stays below \<open>2^62\<close> bytes.\<close>

definition method_ok :: "'s Fuzzer \<Rightarrow> Method \<Rightarrow> bool" where
  "method_ok fz m \<longleftrightarrow> list_all (fuzz_type_ok \<circ> arg_Type) (me_Inputs m) \<and>
    (\<forall>s data s'. Method_Fuzz fz m s = eok (data, s') \<longrightarrow> length data < 2 ^ 62)"

text \<open>
  What the campaign relies on: working sources of randomness, constants outside the marker slots, and copies of the state that deliver
  the accounts of the saved state or, sharing the map of accounts, those of the current one.
\<close>

definition campaign_env :: "nat \<Rightarrow> (StateDB \<Rightarrow> StateDB \<Rightarrow> StateDB) \<Rightarrow> 's Fuzzer \<Rightarrow> FuzzInt \<Rightarrow> bool" where
  "campaign_env n restored fz fi \<longleftrightarrow> fuzzer_ok fz \<and> list_all (method_ok fz) (fi_Methods fi) \<and>
    (\<forall>(name, loc)\<in>set (fi_constantsLoc fi). loc \<notin> StringToHash ` markers) \<and>
    (\<forall>b a. StateMap (restored b a) = StateMap b \<or> StateMap (restored b a) = StateMap a) \<and> unat call_gas < n"


lemma fuzz_once_ok:
  assumes "campaign_ok n restored fi N c" "campaign_env n restored fz fi" "m \<in> set (fi_Methods fi)" "\<not> me_Const m"
    and "N + unat call_gas * (length (ca_calls c) + 1) < 2 ^ 64 - 1"
  shows "\<exists>c'. fuzz_once n restored fz fi m c = Done c' \<and> campaign_ok n restored fi N c' \<and> ca_count c' \<le> ca_count c + 1 \<and>
    length (ca_reports c') + ca_count c = length (ca_reports c) + ca_count c' \<and> length (ca_calls c') = length (ca_calls c) + 1"
proof -
  let ?evm = "ca_evm c" and ?a = "fi_Address fi" and ?N = "N + unat call_gas * length (ca_calls c)"
  have env: "fuzzer_ok fz" "method_ok fz m" "unat call_gas < n"
    and cp: "StateMap (restored b a) = StateMap b \<or> StateMap (restored b a) = StateMap a" for b a
    using assms(2,3) by (auto simp: campaign_env_def list_all_iff)
  obtain data s' where data: "fuzz_calldata fz m (ca_rand c) = Done (data, s')" "Method_Fuzz fz m (ca_rand c) = eok (data, s')"
    using fuzz_calldata_ok [OF env(1), of m "ca_rand c"] env(2) unfolding method_ok_def by blast
  then have len: "length data < 2 ^ 62" using env(2) unfolding method_ok_def by blast
  have w: "evm_world ?a ?evm" "db_world ?a ?N (evm_StateDB ?evm)" using assms(1) by (simp_all add: campaign_ok_def)
  obtain evm' ret err where call: "SimpleContract_Call n ?evm ?a ContractCreater data = Done (evm', ret, err)" "evm_world ?a evm'"
    "db_world ?a (?N + unat call_gas) (evm_StateDB evm')"
    "clean ?a (evm_StateDB ?evm) \<longrightarrow> clean ?a (evm_StateDB evm') \<or> overflow_run n ?evm ?a data"
    using call_outcome [OF w _ len env(3)] assms(5) by (auto simp: algebra_simps)
  let ?found = "fst (CheckOverflowStorage (evm_StateDB evm') ?a)" and ?calls = "ca_calls c @ [(?evm, m, data)]"
  let ?db = "restored (evm_StateDB ?evm) (snd (CheckOverflowStorage (evm_StateDB evm') ?a))"
  have found: "?found \<longleftrightarrow> \<not> clean ?a (evm_StateDB evm')" by (auto simp: CheckOverflowStorage_markers clean_def)
  have over: "overflow_run n ?evm ?a data \<or> \<not> exact restored \<and> overflowed n fi (ca_calls c)" if "\<not> clean ?a (evm_StateDB evm')"
    using assms(1) call(4) that by (auto simp: campaign_ok_def)
  have db: "db_world ?a (N + unat call_gas * length ?calls) ?db" "clean ?a ?db \<or> \<not> exact restored \<and> overflowed n fi ?calls"
  proof -
    let ?M = "N + unat call_gas * length ?calls"
    from cp [of "evm_StateDB ?evm" "snd (CheckOverflowStorage (evm_StateDB evm') ?a)"] consider
        (saved) "db_world ?a ?M ?db = db_world ?a ?M (evm_StateDB ?evm)" "clean ?a ?db = clean ?a (evm_StateDB ?evm)"
      | (current) "db_world ?a ?M ?db = db_world ?a ?M (evm_StateDB evm')" "clean ?a ?db = clean ?a (evm_StateDB evm')"
      by (elim disjE) (simp_all only: same_accounts_world [where db = ?db] CheckOverflowStorage_world)
    note cases = this
    have "db_world ?a ?M (evm_StateDB ?evm)" "db_world ?a ?M (evm_StateDB evm')"
      using w(2) call(3) by (simp_all add: db_world_def algebra_simps)
    then show "db_world ?a ?M ?db" by (cases rule: cases) simp_all
    show "clean ?a ?db \<or> \<not> exact restored \<and> overflowed n fi ?calls"
    proof (cases "exact restored")
      case False
      then show ?thesis using over assms(1) by (cases rule: cases) (auto simp: campaign_ok_def overflowed_def)
    qed (use assms(1) in \<open>simp add: campaign_ok_def exact_def\<close>)
  qed
  let ?r = "\<lparr>rp_Method = m, rp_Calldata = data, rp_Storage = fst (getConstantsTable ?a (fi_constantsLoc fi) ?db)\<rparr>"
  have "traced n fi ?calls ?r" if ?found
    unfolding traced_def using over assms(3,4) that found by (intro conjI exI [of _ "ca_calls c"] exI [of _ ?evm] exI [of _ "[]"]) (auto simp: overflowed_def)
  moreover have "genuine n fi ?calls ?r" if ?found "exact restored"
    unfolding genuine_def using over that found by (intro exI [of _ ?evm]) (auto simp: exact_def)
  ultimately show ?thesis
    using data(1) call(1,2) assms(1) db
    by (auto simp: fuzz_once_def split_beta Let_def campaign_ok_def list_all_iff intro: traced_more genuine_more)
qed


lemma fuzz_runs_ok:
  assumes "campaign_env n restored fz fi" "m \<in> set (fi_Methods fi)" "\<not> me_Const m" "N + unat call_gas * K < 2 ^ 64 - 1"
  shows "campaign_ok n restored fi N c \<Longrightarrow> ca_count c \<le> 5 \<Longrightarrow> length (ca_calls c) + j \<le> K \<Longrightarrow>
    \<exists>c' stop. fuzz_runs n restored fz fi m j c = Done (c', stop) \<and> campaign_ok n restored fi N c' \<and> ca_count c' \<le> (if stop then 6 else 5) \<and>
      length (ca_reports c') + ca_count c = length (ca_reports c) + ca_count c' \<and> length (ca_calls c') \<le> length (ca_calls c) + j"
proof (induction j arbitrary: c)
  case (Suc j)
  have "unat call_gas * (length (ca_calls c) + 1) \<le> unat call_gas * K" using Suc.prems(3) by (intro mult_le_mono2) simp
  then obtain c1 where c1: "fuzz_once n restored fz fi m c = Done c1" "campaign_ok n restored fi N c1" "ca_count c1 \<le> ca_count c + 1"
    "length (ca_reports c1) + ca_count c = length (ca_reports c) + ca_count c1" "length (ca_calls c1) = length (ca_calls c) + 1"
    using fuzz_once_ok [OF Suc.prems(1) assms(1-3)] assms(4) by fastforce
  show ?case
  proof (cases "ca_count c1 > 5")
    case True
    then show ?thesis using c1 Suc.prems(2) by auto
  next
    case False
    then obtain c' stop where "fuzz_runs n restored fz fi m j c1 = Done (c', stop)" "campaign_ok n restored fi N c'"
      "ca_count c' \<le> (if stop then 6 else 5)" "length (ca_reports c') + ca_count c1 = length (ca_reports c1) + ca_count c'"
      "length (ca_calls c') \<le> length (ca_calls c1) + j"
      using Suc.IH [OF c1(2)] c1(5) Suc.prems(3) by auto
    then show ?thesis using c1(1,4,5) False by auto
  qed
qed auto

lemma mutate_storage_ok:
  assumes "campaign_ok n restored fi N c" "campaign_env n restored fz fi"
  shows "\<exists>c'. mutate_storage fz fi c = Done c' \<and> campaign_ok n restored fi N c' \<and> ca_count c' = ca_count c \<and> ca_reports c' = ca_reports c \<and>
    ca_calls c' = ca_calls c"
proof -
  have "fuzzer_ok fz" "\<forall>(name, loc)\<in>set (fi_constantsLoc fi). loc \<notin> StringToHash ` markers" using assms(2) by (simp_all add: campaign_env_def)
  from FuzzStorage_world [OF this, of "fi_Address fi" "evm_StateDB (ca_evm c)" "ca_rand c" "N + unat call_gas * length (ca_calls c)"]
  show ?thesis using assms(1) by (auto simp: mutate_storage_def split_beta campaign_ok_def)
qed

lemma fuzz_mutations_ok:
  assumes "campaign_env n restored fz fi" "m \<in> set (fi_Methods fi)" "\<not> me_Const m" "N + unat call_gas * K < 2 ^ 64 - 1"
  shows "campaign_ok n restored fi N c \<Longrightarrow> ca_count c \<le> 5 \<Longrightarrow> length (ca_calls c) + i * MaxRuns \<le> K \<Longrightarrow>
    \<exists>c'. fuzz_mutations n restored fz fi m i c = Done c' \<and> campaign_ok n restored fi N c' \<and> ca_count c' \<le> 6 \<and>
      length (ca_reports c') + ca_count c = length (ca_reports c) + ca_count c' \<and> length (ca_calls c') \<le> length (ca_calls c) + i * MaxRuns"
proof (induction i arbitrary: c)
  case (Suc i)
  obtain c0 where c0: "mutate_storage fz fi c = Done c0" "campaign_ok n restored fi N c0" "ca_count c0 = ca_count c" "ca_reports c0 = ca_reports c"
    "ca_calls c0 = ca_calls c" using mutate_storage_ok [OF Suc.prems(1) assms(1)] by blast
  obtain c1 stop where c1: "fuzz_runs n restored fz fi m MaxRuns c0 = Done (c1, stop)" "campaign_ok n restored fi N c1"
    "ca_count c1 \<le> (if stop then 6 else 5)" "length (ca_reports c1) + ca_count c = length (ca_reports c) + ca_count c1"
    "length (ca_calls c1) \<le> length (ca_calls c) + MaxRuns"
    using fuzz_runs_ok [OF assms c0(2), of MaxRuns] Suc.prems(2,3) c0(3-5) by auto
  show ?case
  proof (cases stop)
    case False
    then obtain c' where "fuzz_mutations n restored fz fi m i c1 = Done c'" "campaign_ok n restored fi N c'" "ca_count c' \<le> 6"
      "length (ca_reports c') + ca_count c1 = length (ca_reports c1) + ca_count c'" "length (ca_calls c') \<le> length (ca_calls c1) + i * MaxRuns"
      using Suc.IH [OF c1(2)] c1(3,5) Suc.prems(3) by auto
    then show ?thesis using c0(1) c1(1,4,5) False by auto
  qed (use c0(1) c1 in auto)
qed simp

lemma fuzz_methods_ok:
  assumes "campaign_env n restored fz fi" "N + unat call_gas * K < 2 ^ 64 - 1"
  shows "set ms \<subseteq> set (fi_Methods fi) \<Longrightarrow> campaign_ok n restored fi N c \<Longrightarrow> length (ca_calls c) + StorageMutateNum * MaxRuns * length ms \<le> K \<Longrightarrow>
    \<exists>c'. fuzz_methods n restored fz fi ms c = Done c' \<and> campaign_ok n restored fi N c' \<and>
      length (ca_reports c') \<le> length (ca_reports c) + 6 * length ms"
proof (induction ms arbitrary: c)
  case (Cons m ms)
  show ?case
  proof (cases "me_Const m")
    case True
    then show ?thesis using Cons.IH [OF _ Cons.prems(2)] Cons.prems(1,3) by fastforce
  next
    case False
    have "campaign_ok n restored fi N (c\<lparr>ca_count := 0\<rparr>)" using Cons.prems(2) by (simp add: campaign_ok_def)
    then obtain c1 where c1: "fuzz_mutations n restored fz fi m StorageMutateNum (c\<lparr>ca_count := 0\<rparr>) = Done c1" "campaign_ok n restored fi N c1"
      "ca_count c1 \<le> 6" "length (ca_reports c1) = length (ca_reports c) + ca_count c1" "length (ca_calls c1) \<le> length (ca_calls c) + StorageMutateNum * MaxRuns"
      using fuzz_mutations_ok [of n restored fz fi m N K "c\<lparr>ca_count := 0\<rparr>" StorageMutateNum] False assms Cons.prems(1,3) by auto
    then show ?thesis
      using Cons.IH [OF _ c1(2)] Cons.prems(1,3) False by fastforce
  qed
qed simp

section \<open>Properties\<close>


definition sample_fuzz :: FuzzInt where
  "sample_fuzz = \<lparr>fi_Address = ContractAttacker, fi_Methods = [method_of (sample_field ''f'' False)], fi_constantsLoc = [], fi_enableUI = False\<rparr>"

lemma sample_method_ok: "method_ok fz (method_of (sample_field ''f'' False))"
  by (auto simp: method_ok_def method_of_def sample_field_def Method_Fuzz_def Arguments_Fuzz_def)


lemma input_lists_length: "input_lists xs = Some d \<Longrightarrow> length d = length (filter (\<lambda>x. input_candidates (arg_Type x) \<noteq> Some None) xs)"
  by (induction xs arbitrary: d) (auto split: option.splits)

text \<open>
  The detector never calls a function with a parameter it has no candidates for: if a parameter of the function is not an unsigned
  integer, an address or a slice, every list of arguments that \<^verbatim>\<open>GenerateInputsByABI\<close> delivers is too short, and packing it
  fails with a count mismatch.
\<close>

lemma unsupported_never_called:
  assumes "abi_Methods abi f = Some m" "f \<noteq> []" "GenerateInputsByABI cartesian abi f = Some (Some ps, count)"
    and "\<exists>arg\<in>set (me_Inputs m). T (arg_Type arg) \<notin> {UintTy, AddressTy, SliceTy}"
    and "\<forall>d p. p \<in> set (cartesian d) \<longrightarrow> length p = length d" "p \<in> set ps"
  shows "\<exists>k < length (me_Inputs m). ABI_Pack abi f p = efail (errArgumentCount k (length (me_Inputs m)))"
proof -
  obtain d where d: "input_lists (me_Inputs m) = Some d" "ps = cartesian d"
    using assms(1,3) by (auto simp: GenerateInputsByABI_def split: if_splits)
  from assms(4) obtain arg where arg: "arg \<in> set (me_Inputs m)" "input_candidates (arg_Type arg) = Some None"
    by (auto simp: input_candidates_def split: Ty.splits)
  have "length d < length (me_Inputs m)"
    unfolding input_lists_length [OF d(1)] by (rule length_filter_less [OF arg(1)]) (simp add: arg(2))
  then show ?thesis
    using assms(1,2,5,6) d(2) by (simp add: ABI_Pack_def Pack_def)
qed

text \<open>
  C34. The boundary values of the generator are lost: for every size the first eighteen numbers that \<^verbatim>\<open>GenerateIntBySize\<close> returns are the
  same, two to the power of the size, instead of the powers the loops compute, because they are one shared pointer; for 256 bits that
  number packs to the word zero.
\<close>

theorem int_candidates_shared:
  "take 18 (GenerateIntBySize sz) = replicate 18 (big_Exp2 sz) \<and> packNum (VBig (big_Exp2 256)) = Some (abi_U256 0)"
proof -
  have fold1: "foldl (\<lambda>(val, res) i. (big_Exp2 i, res @ [SharedRef])) (v, r) (xs @ [x]) = (big_Exp2 x, r @ replicate (Suc (length xs)) SharedRef)" for v r xs x
  proof -
    have "snd (foldl (\<lambda>(val, res) i. (big_Exp2 i, res @ [SharedRef])) (v, r) xs) = r @ map (\<lambda>_. SharedRef) xs"
      by (induction xs arbitrary: v r) auto
    then show ?thesis by (cases "foldl (\<lambda>(val, res) i. (big_Exp2 i, res @ [SharedRef])) (v, r) xs") (simp add: replicate_append_same map_replicate_const)
  qed
  have u: "[0..8 :: int] = [0..7] @ [8]" "[sz - 8..sz] = [sz - 8..sz - 1] @ [sz]"
    by (simp_all add: upto_rec1 upto_rec2)
  have l: "foldl (\<lambda>res i. res @ [f i]) r xs = r @ map f xs" for f :: "int \<Rightarrow> IntRef" and r xs
    by (induction xs arbitrary: r) simp_all
  have "take 18 (GenerateIntBySize sz) = replicate 18 (big_Exp2 sz)"
    unfolding GenerateIntBySize_def u fold1 l by (simp add: fold1 l Let_def numeral_eq_Suc)
  moreover have "abi_U256 (2 ^ 256) = abi_U256 0" by (simp add: abi_U256_def U256_mod)
  ultimately show ?thesis by (simp add: packNum_def big_Exp2_def)
qed

end
