(* ===== verification/Overflow_Detector.thy ===== *)
theory Overflow_Detector
  imports Fuzzing
begin

text \<open>
  Deployment (\<^verbatim>\<open>DeployContracts\<close>) and the second detector, \<^verbatim>\<open>src/detectors/overflowdetection.go\<close>, which calls one
  function with every combination of candidate inputs and looks for an event. It ends for every contract.
\<close>

section \<open>Deployment\<close>

record ContractUtils =
  cu_evm :: EVM
  cu_Contracts :: "string \<rightharpoonup> SimpleContract"
  cu_MainContract :: "SimpleContract option"
  cu_methodsandeventscount :: nat

text \<open>
  One contract of the compiler output. \<open>abi_JSON\<close> stands for the decoding of the JSON interface; it also lists the names of the
  methods and of the events, the keys of the two maps.
\<close>

definition deploy_contract :: "nat \<Rightarrow> (string \<Rightarrow> (ABI \<times> string list \<times> string list) option) \<Rightarrow> string \<times> string \<times> string \<Rightarrow>
    ContractUtils \<Rightarrow> ContractUtils res" where
  "deploy_contract n abi_JSON c cu =
    (case c of (name, abi, bin) \<Rightarrow>
       rbind (evm_Create n (cu_evm cu) (AccountRef ContractCreater) (Hex2Bytes bin) call_gas 0) (\<lambda>(evm, d, ret, caddr, left, err).
         let cu = cu\<lparr>cu_evm := with_db evm (AddBalance (evm_StateDB evm) caddr 100)\<rparr> in
         if err \<noteq> None then Done cu
         else
           (case abi_JSON abi of
              None \<Rightarrow> Done cu
            | Some (abidecode, methods, events) \<Rightarrow>
                (let sc = \<lparr>sc_Name = name, sc_Address = caddr, sc_BIN = bin, sc_ABI = abidecode\<rparr>;
                     cu = cu\<lparr>cu_Contracts := (cu_Contracts cu)(name \<mapsto> sc)\<rparr>
                 in if length methods + length events > cu_methodsandeventscount cu
                    then Done (cu\<lparr>cu_MainContract := Some sc, cu_methodsandeventscount := length methods + length events\<rparr>)
                    else Done cu))))"

fun deploy_all :: "nat \<Rightarrow> (string \<Rightarrow> (ABI \<times> string list \<times> string list) option) \<Rightarrow> (string \<times> string \<times> string) list \<Rightarrow>
    ContractUtils \<Rightarrow> ContractUtils res" where
  "deploy_all n abi_JSON [] cu = Done cu"
| "deploy_all n abi_JSON (c # cs) cu = rbind (deploy_contract n abi_JSON c cu) (\<lambda>cu. deploy_all n abi_JSON cs cu)"

text \<open>\<open>solcout\<close> is the compiler output in the order in which its map is iterated; it is empty after a compiler error.\<close>

definition DeployContracts :: "nat \<Rightarrow> Crypto \<Rightarrow> int \<Rightarrow> (string \<Rightarrow> (ABI \<times> string list \<times> string list) option) \<Rightarrow>
    (string \<times> string \<times> string) list \<Rightarrow> ContractUtils res" where
  "DeployContracts n crypto now abi_JSON solcout =
    deploy_all n abi_JSON solcout
      \<lparr>cu_evm = fuzz_evm crypto now deploy_state, cu_Contracts = Map.empty, cu_MainContract = None, cu_methodsandeventscount = 0\<rparr>"

text \<open>
  \<^verbatim>\<open>NewContractFuzzer\<close>: deployment, the main contract and the locations of its constants. \<open>order1\<close> and \<open>order2\<close> are the orders in which
  the map of methods is iterated when the constants are located and when the methods are fuzzed. Without a deployed contract the main
  contract is the zero value, which has no methods.
\<close>

definition empty_method :: Method where
  "empty_method = \<lparr>me_Name = [], me_Const = False, me_Inputs = [], me_Outputs = []\<rparr>"

definition zero_contract :: SimpleContract where
  "zero_contract = \<lparr>sc_Name = [], sc_Address = zeroAddress, sc_BIN = [],
    sc_ABI = \<lparr>abi_Constructor = empty_method, abi_Methods = Map.empty, abi_Events = Map.empty\<rparr>\<rparr>"

definition NewContractFuzzer :: "nat \<Rightarrow> Crypto \<Rightarrow> int \<Rightarrow> (string \<Rightarrow> (ABI \<times> string list \<times> string list) option) \<Rightarrow>
    (string \<times> string \<times> string) list \<Rightarrow> (ABI \<Rightarrow> string list) \<Rightarrow> (ABI \<Rightarrow> string list) \<Rightarrow> bool \<Rightarrow> (EVM \<times> FuzzInt) res" where
  "NewContractFuzzer n crypto now abi_JSON solcout order1 order2 enableUI =
    rbind (DeployContracts n crypto now abi_JSON solcout) (\<lambda>cu.
      let sc = (case cu_MainContract cu of None \<Rightarrow> zero_contract | Some sc \<Rightarrow> sc) in
      rbind (GetStorageLoc n (cu_evm cu) sc (SetSkippedVars []) (order1 (sc_ABI sc))) (\<lambda>(evm, locs).
        Done (evm, \<lparr>fi_Address = sc_Address sc, fi_Methods = List.map_filter (abi_Methods (sc_ABI sc)) (order2 (sc_ABI sc)),
                    fi_constantsLoc = locs, fi_enableUI = enableUI\<rparr>)))"

section \<open>The overflow detector\<close>

definition ofd_Attacker :: Address where "ofd_Attacker = BytesToAddress (bytes_of_string ''Attacker'')"
definition ofd_Owner :: Address where "ofd_Owner = BytesToAddress (bytes_of_string ''Owner'')"

definition InitExternalAccount :: "StateDB \<Rightarrow> StateDB" where
  "InitExternalAccount db =
    (let db = AddBalance db ofd_Attacker 100;
         db = AddBalance db ofd_Owner 100;
         db = SetNonce db ofd_Attacker 20;
         db = SetNonce db ofd_Owner 20
     in foldl (\<lambda>db i. AddBalance db (test_address i) 100) db [0..<10])"

record OverFlowDetector =
  ofd_evm :: EVM
  ofd_ABI :: ABI
  ofd_ContractAddress :: Address
  ofd_Executionresult :: "Error option"
  ofd_Detected :: bool
  ofd_Attackvector :: bytes
  ofd_Unpackedinput :: "Val list"

definition ofd_Init :: "Crypto \<Rightarrow> int \<Rightarrow> ABI \<Rightarrow> OverFlowDetector" where
  "ofd_Init crypto now abi =
    \<lparr>ofd_evm = overflow_evm crypto now (InitExternalAccount NewStateDB), ofd_ABI = abi, ofd_ContractAddress = zeroAddress,
     ofd_Executionresult = None, ofd_Detected = False, ofd_Attackvector = [], ofd_Unpackedinput = []\<rparr>"

definition CreateContract :: "nat \<Rightarrow> OverFlowDetector \<Rightarrow> Address \<Rightarrow> bytes \<Rightarrow> int \<Rightarrow> (OverFlowDetector \<times> Error option) res" where
  "CreateContract n ofd addr code value =
    rbind (evm_Create n (ofd_evm ofd) (AccountRef addr) code call_gas value) (\<lambda>(evm, d, ret, caddr, left, err).
      let ofd = ofd\<lparr>ofd_evm := evm\<rparr> in
      if err \<noteq> None then Done (ofd, err) else Done (ofd\<lparr>ofd_ContractAddress := caddr\<rparr>, None))"

definition FunctionCall :: "nat \<Rightarrow> OverFlowDetector \<Rightarrow> Address \<Rightarrow> Address \<Rightarrow> bytes \<Rightarrow> int \<Rightarrow> (OverFlowDetector \<times> bytes \<times> Error option) res" where
  "FunctionCall n ofd from to input value =
    rbind (evm_Call n (ofd_evm ofd) (AccountRef from) to input call_gas value) (\<lambda>(evm, d, ret, left, err).
      Done (ofd\<lparr>ofd_evm := evm, ofd_Executionresult := err\<rparr>, ret, err))"

text \<open>The results carry the error of packing (\<open>Inl\<close>) or of the call (\<open>Inr\<close>).\<close>

definition CallFunctionStub :: "nat \<Rightarrow> OverFlowDetector \<Rightarrow> string \<Rightarrow> (OverFlowDetector \<times> bytes \<times> (AbiError + Error) option) res" where
  "CallFunctionStub n ofd stubname =
    rbind (ABI_Pack (ofd_ABI ofd) stubname []) (\<lambda>r.
      case r of
        Inl e \<Rightarrow> Done (ofd, [], Some (Inl e))
      | Inr packed \<Rightarrow>
          rbind (FunctionCall n ofd ofd_Owner (ofd_ContractAddress ofd) packed 0) (\<lambda>(ofd, ret, err). Done (ofd, ret, map_option Inr err)))"

definition ERC20GetAccountInfo :: "nat \<Rightarrow> OverFlowDetector \<Rightarrow> string \<Rightarrow> (OverFlowDetector \<times> int option \<times> (AbiError + Error) option) res" where
  "ERC20GetAccountInfo n ofd instruction =
    rbind (ABI_Pack (ofd_ABI ofd) instruction []) (\<lambda>r.
      case r of
        Inl e \<Rightarrow> Done (ofd, None, Some (Inl e))
      | Inr packed \<Rightarrow>
          rbind (FunctionCall n ofd ofd_Owner (ofd_ContractAddress ofd) packed 0) (\<lambda>(ofd, ret, err).
            Done (ofd, Some (SetBytes ret), map_option Inr err)))"

definition ERC20Transfer :: "nat \<Rightarrow> OverFlowDetector \<Rightarrow> Address \<Rightarrow> Address \<Rightarrow> int \<Rightarrow> OverFlowDetector res" where
  "ERC20Transfer n ofd caller receiver amount =
    rbind (ABI_Pack (ofd_ABI ofd) ''transfer'' [VAddress receiver, VBig amount]) (\<lambda>r.
      case r of
        Inl e \<Rightarrow> Done ofd
      | Inr packed \<Rightarrow> rbind (FunctionCall n ofd caller (ofd_ContractAddress ofd) packed 0) (\<lambda>(ofd, ret, err). Done ofd))"

definition InitAttackerToken :: "nat \<Rightarrow> OverFlowDetector \<Rightarrow> OverFlowDetector res" where
  "InitAttackerToken n ofd =
    rbind (ERC20GetAccountInfo n ofd ''totalSupply'') (\<lambda>(ofd, supply, err).
      case (err, supply) of
        (None, Some totalSupply) \<Rightarrow> ERC20Transfer n ofd ofd_Owner ofd_Attacker (totalSupply div 10000)
      | _ \<Rightarrow> Done ofd)"

primrec transfer_all :: "nat \<Rightarrow> int \<Rightarrow> Address list \<Rightarrow> OverFlowDetector \<Rightarrow> OverFlowDetector res" where
  "transfer_all n amount [] ofd = Done ofd"
| "transfer_all n amount (v # vs) ofd = rbind (ERC20Transfer n ofd ofd_Owner v amount) (\<lambda>ofd. transfer_all n amount vs ofd)"

definition InitVictimsToken :: "nat \<Rightarrow> OverFlowDetector \<Rightarrow> OverFlowDetector res" where
  "InitVictimsToken n ofd =
    rbind (ERC20GetAccountInfo n ofd ''totalSupply'') (\<lambda>(ofd, supply, err).
      case (err, supply) of
        (None, Some totalSupply) \<Rightarrow> transfer_all n (totalSupply div 10000) (map test_address [0..<10]) ofd
      | _ \<Rightarrow> Done ofd)"

text \<open>The scan of the logs reads the first topic of each of them; a log without topics panics.\<close>

fun found_overflow :: "Log list \<Rightarrow> bool option" where
  "found_overflow [] = Some False"
| "found_overflow (l # ls) =
    (case log_Topics l of
       [] \<Rightarrow> None
     | topic # topics \<Rightarrow> map_option (\<lambda>found. overflowTopic = topic \<or> found) (found_overflow ls))"

fun try_inputs :: "nat \<Rightarrow> string \<Rightarrow> Val list list \<Rightarrow> OverFlowDetector \<Rightarrow> OverFlowDetector res" where
  "try_inputs n function [] ofd = Done ofd"
| "try_inputs n function (product # products) ofd =
    rbind (ABI_Pack (ofd_ABI ofd) function product) (\<lambda>r.
      case r of
        Inl e \<Rightarrow> try_inputs n function products ofd
      | Inr packed \<Rightarrow>
          rbind (FunctionCall n ofd ofd_Attacker (ofd_ContractAddress ofd) packed 0) (\<lambda>(ofd, ret, err).
            if err = None then
              (case found_overflow (Logs (evm_StateDB (ofd_evm ofd))) of
                 None \<Rightarrow> Panic
               | Some found \<Rightarrow>
                   try_inputs n function products
                     (if found then ofd\<lparr>ofd_Attackvector := packed, ofd_Detected := True, ofd_Unpackedinput := product\<rparr> else ofd))
            else try_inputs n function products ofd))"

definition run_OverFlowDetector :: "nat \<Rightarrow> (Val list list \<Rightarrow> Val list list) \<Rightarrow> OverFlowDetector \<Rightarrow> string \<Rightarrow> string \<Rightarrow> bool \<Rightarrow> bool \<Rightarrow>
    OverFlowDetector res" where
  "run_OverFlowDetector n cartesian ofd codeHex function initAttacker initVictims =
    (let ofd = ofd\<lparr>ofd_Detected := False, ofd_Attackvector := [], ofd_Unpackedinput := []\<rparr> in
     rbind (CreateContract n ofd ofd_Owner (Hex2Bytes codeHex) 0) (\<lambda>(ofd, err).
       if err \<noteq> None then Done (ofd\<lparr>ofd_Detected := False\<rparr>)
       else
         rbind (if initAttacker then InitAttackerToken n ofd else Done ofd) (\<lambda>ofd.
           rbind (if initVictims then InitVictimsToken n ofd else Done ofd) (\<lambda>ofd.
             case GenerateInputsByABI cartesian (ofd_ABI ofd) function of
               None \<Rightarrow> Panic
             | Some (None, count) \<Rightarrow> Done ofd
             | Some (Some c, count) \<Rightarrow> try_inputs n function c ofd))))"

section \<open>The detector ends\<close>

lemma foldl_fuel:
  assumes "\<And>x. x \<in> set xs \<Longrightarrow> wp True False (f x) (\<lambda>_. True)" "wp True False acc (\<lambda>_. True)"
  shows "wp True False (foldl (\<lambda>acc x. ebind acc (\<lambda>a. ebind (f x) (\<lambda>b. eok (g a b)))) acc xs) (\<lambda>_. True)"
  using assms
proof (induction xs arbitrary: acc)
  case (Cons x xs)
  have "wp True False (ebind acc (\<lambda>a. ebind (f x) (\<lambda>b. eok (g a b)))) (\<lambda>_. True)"
    using wp_mono [OF Cons.prems(2)] wp_mono [OF Cons.prems(1) [of x]] by (auto elim: wp_mono)
  with Cons show ?case by simp
qed simp

lemma sliceTypeCheck_fuel: "wp True False (sliceTypeCheck t v) (\<lambda>_. True)"
  by (induction t v rule: sliceTypeCheck.induct) (auto split: option.split)

lemma pack_fuel: "wp True False (pack t v) (\<lambda>_. True)"
proof (induction t v rule: pack.induct)
  case (1 elem k g sz ty s v)
  have check: "wp True False (typeCheck (Type elem k g sz ty s) v) P" if "\<And>r. P r" for P
    using that wp_mono [OF sliceTypeCheck_fuel] by (auto simp: typeCheck_def)
  have "wp True False (foldl (\<lambda>acc x. ebind acc (\<lambda>packed. ebind (pack e x) (\<lambda>val. eok (packed @ val)))) (eok []) (elems v)) (\<lambda>_. True)"
    if "elem = Some e" "ty = SliceTy \<or> ty = ArrayTy" for e
    by (rule foldl_fuel) (use 1 that in auto)
  then have "wp True False (foldl (\<lambda>acc x. ebind acc (\<lambda>packed. ebind (pack e x) (\<lambda>val. eok (packed @ val)))) (eok []) (elems v)) P"
    if "elem = Some e" "ty = SliceTy \<or> ty = ArrayTy" "\<And>r. P r" for e P
    using that by (auto elim: wp_mono)
  then show ?case
    by (auto intro!: check split: option.split)
qed

lemma pack_args_fuel: "wp True False (pack_args off avs ret var) (\<lambda>_. True)"
  by (induction off avs ret var rule: pack_args.induct) (auto intro: wp_mono [OF pack_fuel])

lemma ABI_Pack_fuel: "(\<And>r. Q r) \<Longrightarrow> wp True False (ABI_Pack abi f args) Q"
  by (rule wp_mono [where Q = "\<lambda>_. True"])
    (auto simp: ABI_Pack_def Pack_def pack_args_fuel intro!: wp_mono [OF pack_args_fuel] split: option.split)

text \<open>
  What the detector keeps: gas metering and no read-only mode, and that the attack vector is the packing of the recorded input.
\<close>

definition detector_ok :: "ABI \<Rightarrow> string \<Rightarrow> OverFlowDetector \<Rightarrow> bool" where
  "detector_ok abi function ofd \<longleftrightarrow> metered (ofd_evm ofd) \<and> \<not> in_readOnly (ofd_evm ofd) \<and> ofd_ABI ofd = abi \<and>
    (ofd_Detected ofd \<longrightarrow> ABI_Pack abi function (ofd_Unpackedinput ofd) = eok (ofd_Attackvector ofd))"

lemma detector_ok_static: "detector_ok abi f ofd \<Longrightarrow> evm_static (ofd_evm ofd) evm \<Longrightarrow> detector_ok abi f (ofd\<lparr>ofd_evm := evm\<rparr>)"
  by (simp add: detector_ok_def metered_static) (simp add: evm_static_def)

lemma detector_ok_keep [simp]:
  "detector_ok abi f (ofd\<lparr>ofd_Executionresult := e\<rparr>) = detector_ok abi f ofd" "detector_ok abi f (ofd\<lparr>ofd_ContractAddress := a\<rparr>) = detector_ok abi f ofd"
  by (simp_all add: detector_ok_def)

lemma FunctionCall_ok:
  assumes "detector_ok abi f ofd" "unat call_gas < n"
  shows "wp True False (FunctionCall n ofd from to input v) (\<lambda>(ofd', r). detector_ok abi f ofd')"
proof -
  have m: "metered (ofd_evm ofd)" "\<not> restricted (ofd_evm ofd)" "std_evm (ofd_evm ofd)"
    using assms(1) by (simp_all add: detector_ok_def restricted_def metered_def)
  have "wp True True (evm_Call n (ofd_evm ofd) (AccountRef from) to input call_gas v) (\<lambda>(e', r). evm_static (ofd_evm ofd) e')"
    unfolding evm_Call_def using m by (auto intro!: keep_static.call_keeps keep_static.Run_n_keeps)
  moreover have "wp True False (evm_Call n (ofd_evm ofd) (AccountRef from) to input call_gas v) (\<lambda>_. True)"
    unfolding evm_Call_def by (rule wp_mono [OF calls_bound(1) [OF run_bounded_Run m(1) assms(2)]]) simp
  ultimately have "wp True False (evm_Call n (ofd_evm ofd) (AccountRef from) to input call_gas v) (\<lambda>(e', r). evm_static (ofd_evm ofd) e')"
    by (rule wp_mono [OF wp_conj]) auto
  then show ?thesis
    unfolding FunctionCall_def wp_rbind by (rule wp_mono) (use detector_ok_static [OF assms(1)] in auto)
qed

lemma CreateContract_ok:
  assumes "detector_ok abi f ofd" "unat call_gas < n"
  shows "wp True False (CreateContract n ofd addr code v) (\<lambda>(ofd', err). detector_ok abi f ofd')"
proof -
  have m: "metered (ofd_evm ofd)" "\<not> restricted (ofd_evm ofd)" "std_evm (ofd_evm ofd)"
    using assms(1) by (simp_all add: detector_ok_def restricted_def metered_def)
  have "wp True True (evm_Create n (ofd_evm ofd) (AccountRef addr) code call_gas v) (\<lambda>(e', r). evm_static (ofd_evm ofd) e')"
    unfolding evm_Create_def using m by (auto intro!: keep_static.create_keeps keep_static.Run_n_keeps)
  moreover have "wp True False (evm_Create n (ofd_evm ofd) (AccountRef addr) code call_gas v) (\<lambda>_. True)"
    unfolding evm_Create_def by (rule wp_mono [OF calls_bound(5) [OF run_bounded_Run m(1) assms(2)]]) simp
  ultimately have "wp True False (evm_Create n (ofd_evm ofd) (AccountRef addr) code call_gas v) (\<lambda>(e', r). evm_static (ofd_evm ofd) e')"
    by (rule wp_mono [OF wp_conj]) auto
  then show ?thesis
    unfolding CreateContract_def wp_rbind by (rule wp_mono) (use detector_ok_static [OF assms(1)] in \<open>auto simp: Let_def\<close>)
qed

lemma ERC20Transfer_ok:
  assumes "detector_ok abi f ofd" "unat call_gas < n"
  shows "wp True False (ERC20Transfer n ofd caller receiver v) (detector_ok abi f)"
  unfolding ERC20Transfer_def wp_rbind
  by (rule ABI_Pack_fuel) (auto simp: assms(1) intro!: wp_mono [OF FunctionCall_ok [OF assms]])

lemma transfer_all_ok: "detector_ok abi f ofd \<Longrightarrow> unat call_gas < n \<Longrightarrow> wp True False (transfer_all n v vs ofd) (detector_ok abi f)"
proof (induction vs arbitrary: ofd)
  case (Cons a vs)
  then show ?case by (auto intro!: wp_mono [OF ERC20Transfer_ok [OF Cons.prems]])
qed simp

lemma ERC20GetAccountInfo_ok:
  assumes "detector_ok abi f ofd" "unat call_gas < n"
  shows "wp True False (ERC20GetAccountInfo n ofd i) (\<lambda>(ofd', r). detector_ok abi f ofd')"
  unfolding ERC20GetAccountInfo_def wp_rbind
  by (rule ABI_Pack_fuel) (auto simp: assms(1) intro!: wp_mono [OF FunctionCall_ok [OF assms]])

lemma tokens_ok:
  assumes "detector_ok abi f ofd" "unat call_gas < n"
  shows "wp True False (InitAttackerToken n ofd) (detector_ok abi f)" "wp True False (InitVictimsToken n ofd) (detector_ok abi f)"
  unfolding InitAttackerToken_def InitVictimsToken_def wp_rbind
  by (rule wp_mono [OF ERC20GetAccountInfo_ok [OF assms]];
      auto split: option.split intro!: ERC20Transfer_ok [OF _ assms(2)] transfer_all_ok [OF _ assms(2)])+

lemma try_inputs_ok: "detector_ok abi f ofd \<Longrightarrow> unat call_gas < n \<Longrightarrow> wp True False (try_inputs n f ps ofd) (detector_ok abi f)"
proof (induction ps arbitrary: ofd)
  case (Cons p ps)
  have "ofd_ABI ofd = abi" using Cons.prems(1) by (simp add: detector_ok_def)
  show ?case
  proof (cases "ABI_Pack (ofd_ABI ofd) f p")
    case (Done r)
    show ?thesis
    proof (cases r)
      case (Inr packed)
      then have "ABI_Pack abi f p = eok packed" using Done \<open>ofd_ABI ofd = abi\<close> by simp
      then have found: "detector_ok abi f (ofd'\<lparr>ofd_Attackvector := packed, ofd_Detected := True, ofd_Unpackedinput := p\<rparr>)"
        if "detector_ok abi f ofd'" for ofd' using that by (simp add: detector_ok_def)
      have "wp True False (FunctionCall n ofd ofd_Attacker (ofd_ContractAddress ofd) packed 0) (\<lambda>(ofd', r). detector_ok abi f ofd')"
        by (rule FunctionCall_ok [OF Cons.prems])
      then show ?thesis
        using Done Inr Cons.IH [OF _ Cons.prems(2)] found
        by (auto elim!: wp_mono)
    qed (use Done Cons in simp)
  qed (use ABI_Pack_fuel [of "\<lambda>_. True" "ofd_ABI ofd" f p] in simp_all)
qed simp

lemma run_ok:
  assumes "metered (ofd_evm ofd)" "\<not> in_readOnly (ofd_evm ofd)" "unat call_gas < n"
  shows "wp True False (run_OverFlowDetector n cartesian ofd codeHex function initAttacker initVictims) (detector_ok (ofd_ABI ofd) function)"
proof -
  let ?ok = "detector_ok (ofd_ABI ofd) function"
  have ok: "?ok (ofd\<lparr>ofd_Detected := False, ofd_Attackvector := [], ofd_Unpackedinput := []\<rparr>)"
    using assms(1,2) by (simp add: detector_ok_def)
  have off: "?ok o' \<Longrightarrow> ?ok (o'\<lparr>ofd_Detected := False\<rparr>)" for o' by (simp add: detector_ok_def)
  show ?thesis
    unfolding run_OverFlowDetector_def wp_let wp_rbind
    by (rule wp_mono [OF CreateContract_ok [OF ok assms(3)]])
      (auto simp: off split: option.split intro!: wp_mono [OF tokens_ok(1) [OF _ assms(3)]] wp_mono [OF tokens_ok(2) [OF _ assms(3)]] try_inputs_ok [OF _ assms(3)])
qed

lemma ofd_Init_ok: "metered (ofd_evm (ofd_Init crypto now abi))" "\<not> in_readOnly (ofd_evm (ofd_Init crypto now abi))"
  by (simp_all add: ofd_Init_def metered_def overflow_config_def)

text \<open>
  C20. The overflow detector always ends: for every contract code, function, interface and candidate inputs, deployment, the preparation of
  the token balances and all calls together need no more fuel than the gas of one call, and when it reports a detection the attack
  vector is the packing of the recorded input for that function.
\<close>

theorem detector_terminates:
  assumes "metered (ofd_evm ofd)" "\<not> in_readOnly (ofd_evm ofd)" "unat call_gas < n"
  shows "run_OverFlowDetector n cartesian ofd codeHex function initAttacker initVictims \<noteq> NoFuel \<and>
    (\<forall>ofd'. run_OverFlowDetector n cartesian ofd codeHex function initAttacker initVictims = Done ofd' \<longrightarrow> ofd_Detected ofd' \<longrightarrow>
      ABI_Pack (ofd_ABI ofd) function (ofd_Unpackedinput ofd') = eok (ofd_Attackvector ofd'))"
  using run_ok [OF assms, of cartesian codeHex "function" initAttacker initVictims]
  by (cases "run_OverFlowDetector n cartesian ofd codeHex function initAttacker initVictims") (simp_all add: detector_ok_def)

theorem detector_terminates_witness:
  "\<forall>crypto now codeHex. run_OverFlowDetector 100000000001 product_lists (ofd_Init crypto now sample_abi) codeHex ''f'' True True \<noteq> NoFuel"
  using detector_terminates [of "ofd_Init crypto now sample_abi" 100000000001 product_lists codeHex "''f''" True True for crypto now codeHex]
  by (simp add: ofd_Init_ok) (simp add: ofd_Init_def call_gas_def)

end
