(* ===== verification/Dispatch.thy ===== *)
theory Dispatch
  imports Overflow_Detector "HOL-Library.Multiset" "HOL-Library.Sublist"
begin

text \<open>
  The program around the detectors, \<^verbatim>\<open>src/main.go\<close>: the runs of the overflow detector on the compiler output, and the two
  entry points as transition systems of the main goroutine, a buffered channel and a pool of workers. A task may complete, panic (which ends
  the whole process) or block. Batch mode ends whatever the schedule; fuzzing mode never returns.
\<close>

section \<open>The batch detector\<close>

text \<open>
  One run of the detector on one function. An interface that does not decode leaves the detector without an EVM, and the run panics.
\<close>

definition RunOverflowDetector :: "nat \<Rightarrow> Crypto \<Rightarrow> int \<Rightarrow> (string \<Rightarrow> (ABI \<times> string list \<times> string list) option) \<Rightarrow>
    (Val list list \<Rightarrow> Val list list) \<Rightarrow> string \<Rightarrow> string \<Rightarrow> string \<Rightarrow> bool \<Rightarrow> bool \<Rightarrow> OverFlowDetector res" where
  "RunOverflowDetector n crypto now abi_JSON cartesian codeHex abi functionName initAttacker initVictims =
    (case abi_JSON abi of
       None \<Rightarrow> Panic
     | Some (decoded, methods, events) \<Rightarrow>
         run_OverFlowDetector n cartesian (ofd_Init crypto now decoded) codeHex functionName initAttacker initVictims)"

text \<open>The runs on one contract: two functions, each with the four combinations of the flags.\<close>

definition detector_runs :: "(string \<times> bool \<times> bool) list" where
  "detector_runs = concat (map (\<lambda>fname. map (\<lambda>i. (fname, (i div 2) mod 2 = 0, i mod 2 = 0)) [0..<4]) [''transfer'', ''transferFrom''])"

fun run_contract :: "(string \<Rightarrow> bool \<Rightarrow> bool \<Rightarrow> OverFlowDetector res) \<Rightarrow> (string \<times> bool \<times> bool) list \<Rightarrow> (string \<times> Val list) list res" where
  "run_contract detect [] = Done []"
| "run_contract detect ((f, a, v) # runs) =
    rbind (detect f a v) (\<lambda>ofd.
      rbind (run_contract detect runs) (\<lambda>found. Done (if ofd_Detected ofd then (f, ofd_Unpackedinput ofd) # found else found)))"

text \<open>\<open>contracts\<close> is the compiler output, name, interface and code, in the order in which its map is iterated.\<close>

fun RunDetector :: "nat \<Rightarrow> Crypto \<Rightarrow> int \<Rightarrow> (string \<Rightarrow> (ABI \<times> string list \<times> string list) option) \<Rightarrow>
    (Val list list \<Rightarrow> Val list list) \<Rightarrow> (string \<times> string \<times> string) list \<Rightarrow> (string \<times> string \<times> Val list) list res" where
  "RunDetector n crypto now abi_JSON cartesian [] = Done []"
| "RunDetector n crypto now abi_JSON cartesian ((contractName, abi, bin) # contracts) =
    (if sublist ''itMaps.sol'' contractName then RunDetector n crypto now abi_JSON cartesian contracts
     else
       rbind (run_contract (RunOverflowDetector n crypto now abi_JSON cartesian bin abi) detector_runs) (\<lambda>found.
         rbind (RunDetector n crypto now abi_JSON cartesian contracts) (\<lambda>rest.
           Done (map (\<lambda>(f, input). (contractName, f, input)) found @ rest))))"

text \<open>
  \<^verbatim>\<open>CallFunction\<close> calls one function without arguments in every contract that has it and reads the storage location of the last
  callback of that call. A contract whose interface does not decode has no methods.
\<close>

definition last_location :: "(CallbackSite \<times> Hash \<times> int) list \<Rightarrow> Hash" where
  "last_location evs = (if evs = [] then zeroHash else fst (snd (last evs)))"

definition call_in_contract :: "nat \<Rightarrow> OverFlowDetector \<Rightarrow> string \<Rightarrow> string \<Rightarrow> Hash res" where
  "call_in_contract n ofd bin functionName =
    rbind (CreateContract n ofd ofd_Owner (Hex2Bytes bin) 0) (\<lambda>(ofd, err).
      let before = length (evm_events (ofd_evm ofd)) in
      rbind (CallFunctionStub n ofd functionName) (\<lambda>(ofd, ret, err).
        let key = last_location (drop before (evm_events (ofd_evm ofd))) in
        Done (fst (GetState (evm_StateDB (ofd_evm ofd)) (ofd_ContractAddress ofd) key))))"

fun CallFunction :: "nat \<Rightarrow> Crypto \<Rightarrow> int \<Rightarrow> (string \<Rightarrow> (ABI \<times> string list \<times> string list) option) \<Rightarrow>
    (string \<times> string \<times> string) list \<Rightarrow> string \<Rightarrow> Hash list res" where
  "CallFunction n crypto now abi_JSON [] functionName = Done []"
| "CallFunction n crypto now abi_JSON ((contractName, abi, bin) # contracts) functionName =
    (if sublist ''itMaps.sol'' contractName then CallFunction n crypto now abi_JSON contracts functionName
     else
       (case abi_JSON abi of
          None \<Rightarrow> CallFunction n crypto now abi_JSON contracts functionName
        | Some (decoded, methods, events) \<Rightarrow>
            if abi_Methods decoded functionName = None then CallFunction n crypto now abi_JSON contracts functionName
            else
              rbind (call_in_contract n (ofd_Init crypto now decoded) bin functionName) (\<lambda>value.
                rbind (CallFunction n crypto now abi_JSON contracts functionName) (\<lambda>rest. Done (value # rest)))))"

section \<open>Workers and their channel\<close>

text \<open>
  What becomes of a task: the worker goes on to the next one, it panics, which ends the process because nobody recovers, or it
  never comes back.
\<close>

datatype fate = Completes | Crashes | Blocks

definition fate_of :: "'a res \<Rightarrow> fate" where
  "fate_of r = (case r of Done x \<Rightarrow> Completes | Panic \<Rightarrow> Crashes | NoFuel \<Rightarrow> Blocks)"

text \<open>
  A buffered channel of tasks with its waiters, the workers that receive from it, the wait group that counts them, and the
  tasks they have finished.
\<close>

datatype 't worker = Receiving | Working 't | Exited

record 't Pool =
  buffer :: "'t list"
  closed :: bool
  workers :: "'t worker list"
  waitgroup :: nat
  finished :: "'t list"

definition channel_cap :: nat where "channel_cap = 16"

text \<open>
  The body of a worker: \<^verbatim>\<open>for task := range tasks\<close> receives until the channel is closed and empty, then the wait group is
  decremented. Only a task that completes is finished.
\<close>

inductive worker_step :: "('t \<Rightarrow> fate) \<Rightarrow> 't Pool \<Rightarrow> 't Pool \<Rightarrow> bool" for fate where
  receive: "i < length (workers p) \<Longrightarrow> workers p ! i = Receiving \<Longrightarrow> buffer p = t # ts \<Longrightarrow>
    worker_step fate p (p\<lparr>buffer := ts, workers := (workers p)[i := Working t]\<rparr>)"
| finish: "i < length (workers p) \<Longrightarrow> workers p ! i = Working t \<Longrightarrow> fate t = Completes \<Longrightarrow>
    worker_step fate p (p\<lparr>workers := (workers p)[i := Receiving], finished := finished p @ [t]\<rparr>)"
| exit: "i < length (workers p) \<Longrightarrow> workers p ! i = Receiving \<Longrightarrow> buffer p = [] \<Longrightarrow> closed p \<Longrightarrow>
    worker_step fate p (p\<lparr>workers := (workers p)[i := Exited], waitgroup := waitgroup p - 1\<rparr>)"

inductive_cases worker_stepE: "worker_step fate p p'"

definition worker_panics :: "('t \<Rightarrow> fate) \<Rightarrow> 't Pool \<Rightarrow> bool" where
  "worker_panics fate p \<longleftrightarrow> (\<exists>t. Working t \<in> set (workers p) \<and> fate t = Crashes)"

definition start_pool :: "nat \<Rightarrow> 't Pool" where
  "start_pool n = \<lparr>buffer = [], closed = False, workers = replicate n Receiving, waitgroup = n, finished = []\<rparr>"

text \<open>
  The main goroutine: the tasks it still has to send, then the two calls in the order of the program. \<open>Aborted\<close> is the end of the process by
  a panic or by \<^verbatim>\<open>log.Fatal\<close>.
\<close>

datatype 't main_state = Sending "'t list" | Waiting | Closing | Returned | Aborted

text \<open>
  \<^verbatim>\<open>dispatcher\<close> waits for the workers and then closes the channel. The main goroutine builds each task before it sends it
  (\<^verbatim>\<open>NewContractFuzzer\<close> compiles and deploys the contract); \<open>built\<close> tells that this does not panic.
\<close>

inductive dispatcher_step :: "('t \<Rightarrow> bool) \<Rightarrow> ('t \<Rightarrow> fate) \<Rightarrow> 't main_state \<times> 't Pool \<Rightarrow> 't main_state \<times> 't Pool \<Rightarrow> bool" for built fate where
  d_worker: "m \<noteq> Aborted \<Longrightarrow> worker_step fate p p' \<Longrightarrow> dispatcher_step built fate (m, p) (m, p')"
| d_panic: "m \<noteq> Aborted \<Longrightarrow> worker_panics fate p \<Longrightarrow> dispatcher_step built fate (m, p) (Aborted, p)"
| d_build: "\<not> built t \<Longrightarrow> dispatcher_step built fate (Sending (t # ts), p) (Aborted, p)"
| d_send: "built t \<Longrightarrow> length (buffer p) < channel_cap \<Longrightarrow> dispatcher_step built fate (Sending (t # ts), p) (Sending ts, p\<lparr>buffer := buffer p @ [t]\<rparr>)"
| d_sent: "dispatcher_step built fate (Sending [], p) (Waiting, p)"
| d_wait: "waitgroup p = 0 \<Longrightarrow> dispatcher_step built fate (Waiting, p) (Closing, p)"
| d_close: "dispatcher_step built fate (Closing, p) (Returned, p\<lparr>closed := True\<rparr>)"

text \<open>\<^verbatim>\<open>main2\<close> closes the channel and then waits; its tasks are commands, which the workers run.\<close>

inductive main2_step :: "('t \<Rightarrow> fate) \<Rightarrow> 't main_state \<times> 't Pool \<Rightarrow> 't main_state \<times> 't Pool \<Rightarrow> bool" for fate where
  m_worker: "m \<noteq> Aborted \<Longrightarrow> worker_step fate p p' \<Longrightarrow> main2_step fate (m, p) (m, p')"
| m_panic: "m \<noteq> Aborted \<Longrightarrow> worker_panics fate p \<Longrightarrow> main2_step fate (m, p) (Aborted, p)"
| m_send: "length (buffer p) < channel_cap \<Longrightarrow> main2_step fate (Sending (t # ts), p) (Sending ts, p\<lparr>buffer := buffer p @ [t]\<rparr>)"
| m_sent: "main2_step fate (Sending [], p) (Closing, p)"
| m_close: "main2_step fate (Closing, p) (Waiting, p\<lparr>closed := True\<rparr>)"
| m_wait: "waitgroup p = 0 \<Longrightarrow> main2_step fate (Waiting, p) (Returned, p)"

inductive_cases dispatcher_stepE: "dispatcher_step built fate s s'"
inductive_cases main2_stepE: "main2_step fate s s'"

text \<open>
  What the path on the command line is: \<^verbatim>\<open>os.Stat\<close> fails and the program returns, a directory with its files or with a failing
  \<^verbatim>\<open>ioutil.ReadDir\<close>, which is fatal, a regular file, or something else, for which no task is sent. A file of a directory is known by its
  name; the path of the directory before it is the same for all of them.
\<close>

datatype path_mode = Stat_error | IsDir "string list option" | IsRegular string | OtherMode

text \<open>The tasks of the fuzzing mode carry whether the user interface is enabled; it is for a single file.\<close>

fun dispatcher_tasks :: "path_mode \<Rightarrow> (string \<times> bool) list" where
  "dispatcher_tasks (IsDir (Some files)) = map (\<lambda>f. (f, False)) files"
| "dispatcher_tasks (IsRegular f) = [(f, True)]"
| "dispatcher_tasks m = []"

text \<open>Batch mode leaves out the files of a directory whose name contains \<open>itMaps.sol\<close>.\<close>

fun main2_tasks :: "path_mode \<Rightarrow> string list" where
  "main2_tasks (IsDir (Some files)) = filter (\<lambda>f. \<not> sublist ''itMaps.sol'' f) files"
| "main2_tasks (IsRegular f) = [f]"
| "main2_tasks m = []"

definition start_main :: "path_mode \<Rightarrow> 't list \<Rightarrow> 't main_state" where
  "start_main mode tasks = (if mode = Stat_error then Returned else if mode = IsDir None then Aborted else Sending tasks)"

definition dispatcher_start :: "path_mode \<Rightarrow> (string \<times> bool) main_state \<times> (string \<times> bool) Pool" where
  "dispatcher_start mode = (start_main mode (dispatcher_tasks mode), start_pool 1)"

definition main2_start :: "path_mode \<Rightarrow> string main_state \<times> string Pool" where
  "main2_start mode = (start_main mode (main2_tasks mode), start_pool 6)"

text \<open>
  A task of \<^verbatim>\<open>main2\<close> runs the compiler on a file, \<open>solc\<close>, whose errors are ignored, and the detector or the called function on its
  output.
\<close>

definition detector_fate :: "nat \<Rightarrow> Crypto \<Rightarrow> int \<Rightarrow> (string \<Rightarrow> (ABI \<times> string list \<times> string list) option) \<Rightarrow> (Val list list \<Rightarrow> Val list list) \<Rightarrow>
    (string \<Rightarrow> (string \<times> string \<times> string) list option) \<Rightarrow> string \<Rightarrow> string \<Rightarrow> fate" where
  "detector_fate n crypto now abi_JSON cartesian solc called file =
    (case solc file of
       None \<Rightarrow> Completes
     | Some contracts \<Rightarrow>
         if called = [] then fate_of (RunDetector n crypto now abi_JSON cartesian contracts)
         else fate_of (CallFunction n crypto now abi_JSON contracts called))"

lemma RunOverflowDetector_fuel:
  "unat call_gas < n \<Longrightarrow> wp True False (RunOverflowDetector n crypto now abi_JSON cartesian codeHex abi f a v) (\<lambda>_. True)"
  by (auto simp: RunOverflowDetector_def split: option.split intro!: wp_mono [OF run_ok [OF ofd_Init_ok]])

lemma run_contract_fuel: "(\<And>f a v. wp True False (detect f a v) (\<lambda>_. True)) \<Longrightarrow> wp True False (run_contract detect runs) (\<lambda>_. True)"
proof (induction runs)
  case (Cons r runs)
  obtain f a v where r: "r = (f, a, v)" by (metis prod_cases3)
  show ?case
    by (auto simp: r intro!: wp_mono [OF Cons.prems [of f a v]] wp_mono [OF Cons.IH [OF Cons.prems]])
qed simp

lemma RunDetector_fuel: "unat call_gas < n \<Longrightarrow> wp True False (RunDetector n crypto now abi_JSON cartesian contracts) (\<lambda>_. True)"
proof (induction contracts)
  case (Cons c contracts)
  obtain name abi bin where c: "c = (name, abi, bin)" by (metis prod_cases3)
  show ?case
    using Cons.IH [OF Cons.prems] run_contract_fuel [OF RunOverflowDetector_fuel [OF Cons.prems]]
    by (auto simp: c elim!: wp_mono)
qed simp

lemma call_in_contract_fuel:
  assumes "unat call_gas < n"
  shows "wp True False (call_in_contract n (ofd_Init crypto now abi) bin f) (\<lambda>_. True)"
proof -
  have ok: "detector_ok abi f (ofd_Init crypto now abi)"
    using ofd_Init_ok [of crypto now abi] by (simp add: detector_ok_def) (simp add: ofd_Init_def)
  have "wp True False (CallFunctionStub n ofd f) (\<lambda>_. True)" if "detector_ok abi f ofd" for ofd
    unfolding CallFunctionStub_def wp_rbind
    by (rule ABI_Pack_fuel) (auto split: sum.split intro!: wp_mono [OF FunctionCall_ok [OF that assms]])
  then show ?thesis
    unfolding call_in_contract_def wp_rbind
    by (intro wp_mono [OF CreateContract_ok [OF ok assms]]) (auto simp: Let_def elim!: wp_mono)
qed

lemma CallFunction_fuel: "unat call_gas < n \<Longrightarrow> wp True False (CallFunction n crypto now abi_JSON contracts f) (\<lambda>_. True)"
proof (induction contracts)
  case (Cons c contracts)
  obtain name abi bin where c: "c = (name, abi, bin)" by (metis prod_cases3)
  show ?case
    using Cons.IH [OF Cons.prems] by (auto simp: c split: option.split intro!: wp_mono [OF call_in_contract_fuel [OF Cons.prems]] elim!: wp_mono)
qed simp

lemma detector_never_blocks: "unat call_gas < n \<Longrightarrow> detector_fate n crypto now abi_JSON cartesian solc called file \<noteq> Blocks"
  using RunDetector_fuel [of n crypto now abi_JSON cartesian "the (solc file)"] CallFunction_fuel [of n crypto now abi_JSON "the (solc file)" called]
  by (auto simp: detector_fate_def fate_of_def split: option.split res.splits)

section \<open>Invariants\<close>

text \<open>A task is being sent, in the buffer, with a worker, or finished; the wait group counts the workers that have not exited.\<close>

fun to_send :: "'t main_state \<Rightarrow> 't list" where
  "to_send (Sending ts) = ts"
| "to_send m = []"

fun in_work :: "'t worker \<Rightarrow> 't list" where
  "in_work (Working t) = [t]"
| "in_work w = []"

definition tasks_of :: "'t main_state \<times> 't Pool \<Rightarrow> 't multiset" where
  "tasks_of s = (case s of (m, p) \<Rightarrow> mset (to_send m) + mset (buffer p) + mset (concat (map in_work (workers p))) + mset (finished p))"

definition pool_inv :: "'t Pool \<Rightarrow> bool" where
  "pool_inv p \<longleftrightarrow> waitgroup p = size {#w \<in># mset (workers p). w \<noteq> Exited#} \<and> workers p \<noteq> [] \<and>
    (Exited \<in> set (workers p) \<longrightarrow> closed p \<and> buffer p = [])"

text \<open>The workers' share of the work that is left: two steps for a task in the buffer, one for a task in work and one per worker.\<close>

fun worker_left :: "'t worker \<Rightarrow> nat" where
  "worker_left Receiving = 1"
| "worker_left (Working t) = 2"
| "worker_left Exited = 0"

definition pool_left :: "'t Pool \<Rightarrow> nat" where
  "pool_left p = 2 * length (buffer p) + (\<Sum>w\<in>#mset (workers p). worker_left w)"

lemma mset_concat_in_work: "mset (concat (map in_work ws)) = (\<Sum>w\<in>#mset ws. mset (in_work w))"
  by (induction ws) auto

lemma mset_workers_update:
  assumes "i < length ws"
  obtains W where "mset ws = add_mset (ws ! i) W" "mset (ws[i := w]) = add_mset w W"
proof
  show "mset ws = add_mset (ws ! i) (mset ws - {#ws ! i#})" using assms by (simp add: nth_mem_mset)
  show "mset (ws[i := w]) = add_mset w (mset ws - {#ws ! i#})" using assms by (simp add: mset_update)
qed

text \<open>A step of a worker on the multiset of workers: one of them changes, together with the buffer, the tasks or the wait group.\<close>

lemma worker_step_mset:
  assumes "worker_step fate p p'"
  obtains W w w' where "mset (workers p) = add_mset w W" "mset (workers p') = add_mset w' W" "closed p' = closed p"
    "(\<exists>t. w = Receiving \<and> w' = Working t \<and> buffer p = t # buffer p' \<and> finished p' = finished p \<and> waitgroup p' = waitgroup p) \<or>
     (\<exists>t. w = Working t \<and> fate t = Completes \<and> w' = Receiving \<and> buffer p' = buffer p \<and> finished p' = finished p @ [t] \<and> waitgroup p' = waitgroup p) \<or>
     (w = Receiving \<and> w' = Exited \<and> buffer p = [] \<and> buffer p' = [] \<and> closed p \<and> finished p' = finished p \<and> waitgroup p' = waitgroup p - 1)"
  using assms
proof (cases rule: worker_step.cases)
  case (receive i t ts)
  obtain W where W: "mset (workers p) = add_mset (Receiving) W" "mset ((workers p)[i := Working t]) = add_mset (Working t) W"
    using mset_workers_update [of i "workers p" "Working t"] receive by metis
  show ?thesis by (rule that [OF W(1)]) (use receive W(2) in auto)
next
  case (finish i t)
  obtain W where W: "mset (workers p) = add_mset (Working t) W" "mset ((workers p)[i := Receiving]) = add_mset (Receiving) W"
    using mset_workers_update [of i "workers p" Receiving] finish by metis
  show ?thesis by (rule that [OF W(1)]) (use finish W(2) in auto)
next
  case (exit i)
  obtain W where W: "mset (workers p) = add_mset (Receiving) W" "mset ((workers p)[i := Exited]) = add_mset (Exited) W"
    using mset_workers_update [of i "workers p" Exited] exit by metis
  show ?thesis by (rule that [OF W(1)]) (use exit W(2) in auto)
qed

lemma worker_step_tasks: "worker_step fate p p' \<Longrightarrow> tasks_of (m, p') = tasks_of (m, p)"
  by (erule worker_step_mset) (auto simp: tasks_of_def mset_concat_in_work)

lemma worker_step_left: "worker_step fate p p' \<Longrightarrow> pool_left p' < pool_left p"
  by (erule worker_step_mset) (auto simp: pool_left_def)

lemma worker_step_done: "worker_step fate p p' \<Longrightarrow> list_all (\<lambda>t. fate t = Completes) (finished p) \<Longrightarrow> list_all (\<lambda>t. fate t = Completes) (finished p')"
  by (erule worker_step_mset) auto

lemma working_task: "Working t \<in> set (workers p) \<Longrightarrow> t \<in># tasks_of (m, p)"
  by (force simp: tasks_of_def)

lemma working_waits: "Working t \<in> set (workers p) \<Longrightarrow> pool_inv p \<Longrightarrow> waitgroup p \<noteq> 0"
  by (auto simp: pool_inv_def filter_empty_conv simp flip: mset_filter)

lemma worker_step_inv: "worker_step fate p p' \<Longrightarrow> pool_inv p \<Longrightarrow> pool_inv p' \<and> closed p' = closed p"
  by (erule worker_step_mset) (auto simp: pool_inv_def simp flip: set_mset_mset mset_zero_iff)

lemma start_inv:
  fixes m :: "'t main_state"
  shows "0 < n \<Longrightarrow> pool_inv (start_pool n :: 't Pool)" "\<not> closed (start_pool n)" "tasks_of (m, start_pool n) = mset (to_send m)"
  "pool_left (start_pool n) = n"
proof -
  have "size {#w \<in># replicate_mset n (Receiving :: 't worker). w \<noteq> Exited#} = n" by (induction n) simp_all
  then show "0 < n \<Longrightarrow> pool_inv (start_pool n :: 't Pool)" by (simp add: pool_inv_def start_pool_def)
qed (simp_all add: start_pool_def tasks_of_def mset_concat_in_work pool_left_def)

text \<open>A worker that has not exited can move, unless it waits on an open empty channel or its task does not complete.\<close>

lemma worker_moves:
  assumes "w \<in> set (workers p)" "w \<noteq> Exited" "w = Receiving \<Longrightarrow> buffer p \<noteq> [] \<or> closed p" "\<And>t. w = Working t \<Longrightarrow> fate t = Completes"
  shows "\<exists>p'. worker_step fate p p'"
proof -
  obtain i where i: "i < length (workers p)" "workers p ! i = w" using assms(1) by (auto simp: in_set_conv_nth)
  show ?thesis
  proof (cases w)
    case Receiving
    then show ?thesis using i assms(3) by (cases "buffer p") (auto intro: worker_step.intros)
  next
    case (Working t)
    then show ?thesis using i assms(4) by (auto intro: worker_step.intros)
  qed (use assms(2) in simp)
qed

definition worker_blocked :: "('t \<Rightarrow> fate) \<Rightarrow> 't Pool \<Rightarrow> bool" where
  "worker_blocked fate p \<longleftrightarrow> (\<exists>t. Working t \<in> set (workers p) \<and> fate t = Blocks)"

lemma working_cases: "Working t \<in> set (workers p) \<Longrightarrow> \<not> worker_panics fate p \<Longrightarrow> \<not> worker_blocked fate p \<Longrightarrow> fate t = Completes"
  by (cases "fate t") (auto simp: worker_panics_def worker_blocked_def)

lemma no_worker_left: "pool_inv p \<Longrightarrow> waitgroup p = 0 \<Longrightarrow> (\<forall>w\<in>set (workers p). w = Exited) \<and> buffer p = []"
  by (cases "workers p") (auto simp: pool_inv_def filter_empty_conv simp flip: mset_filter split: if_splits)

section \<open>Runs\<close>

text \<open>What is left of a run: three steps for every task to be sent, and those of the main goroutine and of the workers.\<close>

fun main_left :: "'t main_state \<Rightarrow> nat" where
  "main_left (Sending ts) = 3 * length ts + 3"
| "main_left Closing = 2"
| "main_left Waiting = 1"
| "main_left Returned = 0"
| "main_left Aborted = 0"

definition main2_left :: "'t main_state \<times> 't Pool \<Rightarrow> nat" where
  "main2_left s = main_left (fst s) + pool_left (snd s)"

text \<open>Once the process is aborted, one of the tasks has crashed.\<close>

definition main2_inv :: "('t \<Rightarrow> fate) \<Rightarrow> 't list \<Rightarrow> 't main_state \<times> 't Pool \<Rightarrow> bool" where
  "main2_inv fate files s \<longleftrightarrow>
    (if fst s = Aborted then \<exists>t\<in>set files. fate t = Crashes
     else pool_inv (snd s) \<and> tasks_of s = mset files \<and> list_all (\<lambda>t. fate t = Completes) (finished (snd s)) \<and>
       (closed (snd s) \<longleftrightarrow> fst s = Waiting \<or> fst s = Returned) \<and> (fst s = Returned \<longrightarrow> waitgroup (snd s) = 0))"

lemma pool_inv_send: "pool_inv p \<Longrightarrow> \<not> closed p \<Longrightarrow> pool_inv (p\<lparr>buffer := buffer p @ [t]\<rparr>)"
  by (simp add: pool_inv_def)

lemma waitgroup_step: "worker_step fate p p' \<Longrightarrow> pool_inv p \<Longrightarrow> waitgroup p \<noteq> 0"
  by (erule worker_step_mset) (auto simp: pool_inv_def)

lemma main2_step_inv: "main2_step fate s s' \<Longrightarrow> main2_inv fate files s \<Longrightarrow> main2_inv fate files s' \<and> main2_left s' < main2_left s"
proof (induction rule: main2_step.induct)
  case (m_worker m p p')
  then show ?case
    using worker_step_inv [OF m_worker(2)] worker_step_tasks [OF m_worker(2), of m] worker_step_left [OF m_worker(2)] waitgroup_step [OF m_worker(2)]
      worker_step_done [OF m_worker(2)] by (auto simp: main2_inv_def main2_left_def)
next
  case (m_panic m p)
  then obtain t where t: "Working t \<in> set (workers p)" "fate t = Crashes" by (auto simp: worker_panics_def)
  then have "t \<in> set files" "m \<noteq> Returned"
    using m_panic working_task [OF t(1), of m] working_waits [OF t(1)] by (auto simp: main2_inv_def)
  then show ?case using m_panic(1) t(2) by (cases m) (auto simp: main2_inv_def main2_left_def)
next
  case (m_close p)
  then show ?case by (auto simp: main2_inv_def main2_left_def tasks_of_def pool_inv_def pool_left_def)
qed (auto simp: main2_inv_def main2_left_def tasks_of_def pool_left_def intro: pool_inv_send)

lemma main2_start_inv:
  assumes "mode \<noteq> Stat_error" "mode \<noteq> IsDir None"
  shows "main2_inv fate (main2_tasks mode) (main2_start mode)" "main2_left (main2_start mode) = 3 * length (main2_tasks mode) + 9"
  using assms by (simp_all add: main2_inv_def main2_start_def start_main_def main2_left_def start_inv) (simp add: start_pool_def)

text \<open>A program that has not started to work does not move.\<close>

lemma no_step:
  "\<not> worker_step fate (start_pool n) p'" "\<not> main2_step fate (Aborted, p) s" "\<not> dispatcher_step built fate (Aborted, p) s'"
  "\<not> main2_step fate (Returned, start_pool n) s"
proof -
  show w: "\<not> worker_step fate (start_pool n) p'" for p' by (auto simp: start_pool_def elim: worker_stepE)
  show "\<not> main2_step fate (Returned, start_pool n) s"
    using w by (auto simp: worker_panics_def elim!: main2_stepE) (auto simp: start_pool_def)
qed (auto elim: main2_stepE dispatcher_stepE)

lemma relpowp_stuck: "(R ^^ k) s s' \<Longrightarrow> (\<And>t. \<not> R s t) \<Longrightarrow> k = 0 \<and> s' = s"
  by (metis relpowp_Suc_D2 not0_implies_Suc relpowp_0_E)

lemma relpowp_bound:
  assumes "\<And>s s'. P s \<Longrightarrow> R s s' \<Longrightarrow> P s' \<and> f s' < (f s :: nat)" "(R ^^ k) s s'" "P s"
  shows "P s' \<and> k + f s' \<le> f s"
  using assms(2)
proof (induction k arbitrary: s')
  case (Suc k)
  then obtain s1 where "(R ^^ k) s s1" "R s1 s'" by (auto elim: relpowp_Suc_E)
  with Suc.IH [of s1] assms(1) [of s1 s'] show ?case by simp
qed (use assms(3) in simp)

text \<open>An active pool moves, panics or has a blocked worker.\<close>

lemma busy_pool_moves:
  assumes "pool_inv p" "buffer p \<noteq> [] \<or> closed p" "waitgroup p \<noteq> 0"
  shows "(\<exists>p'. worker_step fate p p') \<or> worker_panics fate p \<or> worker_blocked fate p"
proof -
  have "{#w \<in># mset (workers p). w \<noteq> Exited#} \<noteq> {#}" using assms(1,3) by (auto simp: pool_inv_def)
  then obtain w where "w \<in># {#w \<in># mset (workers p). w \<noteq> Exited#}" by (rule multiset_nonemptyE)
  then have "w \<in> set (workers p)" "w \<noteq> Exited" by simp_all
  then show ?thesis using assms(2) worker_moves [of w p fate] working_cases [of _ p fate] by auto
qed

lemma open_pool_waits: "pool_inv p \<Longrightarrow> \<not> closed p \<Longrightarrow> waitgroup p \<noteq> 0"
proof
  assume p: "pool_inv p" "\<not> closed p" "waitgroup p = 0"
  then have "\<forall>w\<in>set (workers p). w = Exited" using no_worker_left by blast
  moreover have "workers p \<noteq> []" "Exited \<notin> set (workers p)" using p(1,2) by (auto simp: pool_inv_def)
  ultimately show False by (cases "workers p") auto
qed

lemma main2_progress:
  assumes "main2_inv fate files s" "fst s \<noteq> Returned" "fst s \<noteq> Aborted" "\<forall>t. fate t \<noteq> Blocks"
  shows "\<exists>s'. main2_step fate s s'"
proof (cases s)
  case (Pair m p)
  have moves: ?thesis if "pool_inv p" "buffer p \<noteq> [] \<or> closed p" "waitgroup p \<noteq> 0"
    using busy_pool_moves [OF that, of fate] assms(3,4) Pair by (auto simp: worker_blocked_def intro: main2_step.intros)
  show ?thesis
  proof (cases m)
    case (Sending ts)
    show ?thesis
    proof (cases "ts = [] \<or> length (buffer p) < channel_cap")
      case True
      then show ?thesis using Pair Sending by (cases ts) (auto intro: main2_step.intros)
    next
      case False
      then show ?thesis
        using assms(1) Pair Sending open_pool_waits [of p] by (intro moves) (auto simp: main2_inv_def channel_cap_def)
    qed
  next
    case Waiting
    show ?thesis
    proof (cases "waitgroup p = 0")
      case False
      then show ?thesis using assms(1) Pair Waiting by (intro moves) (auto simp: main2_inv_def)
    qed (use Pair Waiting in \<open>auto intro: main2_step.intros\<close>)
  qed (use Pair assms in \<open>auto intro: main2_step.intros\<close>)
qed

lemma finished_all: "pool_inv p \<Longrightarrow> waitgroup p = 0 \<Longrightarrow> to_send m = [] \<Longrightarrow> tasks_of (m, p) = mset (finished p)"
proof -
  assume p: "pool_inv p" "waitgroup p = 0" "to_send m = []"
  then have "\<forall>w\<in>set (workers p). w = Exited" "buffer p = []" using no_worker_left by blast+
  moreover from this(1) have "concat (map in_work (workers p)) = []" by (simp, metis in_work.simps(3))
  ultimately show ?thesis using p(3) by (simp add: tasks_of_def)
qed

definition dispatcher_inv :: "('t \<Rightarrow> bool) \<Rightarrow> ('t \<Rightarrow> fate) \<Rightarrow> 't list \<Rightarrow> 't main_state \<times> 't Pool \<Rightarrow> bool" where
  "dispatcher_inv built fate files s \<longleftrightarrow>
    (if fst s = Aborted then \<exists>t\<in>set files. \<not> built t \<or> fate t = Crashes
     else pool_inv (snd s) \<and> tasks_of s = mset files \<and> \<not> closed (snd s) \<and> fst s \<noteq> Returned \<and> fst s \<noteq> Closing)"

lemma dispatcher_step_inv:
  "dispatcher_step built fate s s' \<Longrightarrow> dispatcher_inv built fate files s \<Longrightarrow> dispatcher_inv built fate files s' \<and> main2_left s' < main2_left s"
proof (induction rule: dispatcher_step.induct)
  case (d_worker m p p')
  then show ?case
    using worker_step_inv [OF d_worker(2)] worker_step_tasks [OF d_worker(2), of m] worker_step_left [OF d_worker(2)]
    by (auto simp: dispatcher_inv_def main2_left_def)
next
  case (d_panic m p)
  then obtain t where t: "Working t \<in> set (workers p)" "fate t = Crashes" by (auto simp: worker_panics_def)
  then have "t \<in> set files" "m \<noteq> Returned"
    using d_panic working_task [OF t(1), of m] by (auto simp: dispatcher_inv_def)
  then show ?case using d_panic(1) t(2) by (cases m) (auto simp: dispatcher_inv_def main2_left_def)
next
  case (d_build t ts p)
  then have "t \<in># mset files" unfolding dispatcher_inv_def by (auto simp: tasks_of_def dest: arg_cong [where f = "\<lambda>M. t \<in># M"])
  then show ?case using d_build(1) by (auto simp: dispatcher_inv_def main2_left_def)
next
  case (d_wait p)
  then show ?case using open_pool_waits [of p] by (simp add: dispatcher_inv_def)
qed (auto simp: dispatcher_inv_def main2_left_def tasks_of_def pool_left_def intro: pool_inv_send)

lemma dispatcher_start_inv:
  assumes "mode \<noteq> Stat_error" "mode \<noteq> IsDir None"
  shows "dispatcher_inv built fate (dispatcher_tasks mode) (dispatcher_start mode)"
    "main2_left (dispatcher_start mode) = 3 * length (dispatcher_tasks mode) + 4"
  using assms by (simp_all add: dispatcher_inv_def dispatcher_start_def start_main_def main2_left_def start_inv)

text \<open>A blocked dispatcher: its worker is inside a task, or nothing is left to send and the worker receives from the empty channel.\<close>

lemma dispatcher_stuck:
  assumes "dispatcher_inv built fate files s" "\<nexists>s'. dispatcher_step built fate s s'" "fst s \<noteq> Aborted" "\<not> worker_blocked fate (snd s)"
  shows "fst s = Waiting \<and> mset (finished (snd s)) = mset files"
proof (cases s)
  case (Pair m p)
  have no: "\<nexists>p'. worker_step fate p p'" "\<not> worker_panics fate p" "\<not> worker_blocked fate p"
    using assms(2-4) Pair dispatcher_step.intros(1,2) by fastforce+
  then have "buffer p = []"
    using assms(1,3) Pair busy_pool_moves [of p fate] open_pool_waits [of p] by (auto simp: dispatcher_inv_def)
  moreover have "m = Waiting"
  proof (cases m)
    case (Sending ts)
    then show ?thesis using assms(2) Pair \<open>buffer p = []\<close> dispatcher_step.d_send [of built _ p] dispatcher_step.d_sent [of built fate p] dispatcher_step.d_build [of built]
      by (cases ts) (fastforce simp: channel_cap_def)+
  qed (use assms(1,3) Pair in \<open>auto simp: dispatcher_inv_def\<close>)
  moreover have "in_work w = []" if "w \<in> set (workers p)" for w
    using worker_moves [OF that, of fate] no working_cases [of _ p fate] that by (cases w) auto
  then have c: "concat (map in_work (workers p)) = []" by simp
  ultimately show ?thesis using assms(1) Pair by (simp add: dispatcher_inv_def tasks_of_def c)
qed

section \<open>Properties\<close>

text \<open>
  C9. The batch mode always ends. Let the compiler end on every file, with an error or with an output. Then, with its six workers and in
  whatever order workers and main goroutine are scheduled, a run of \<^verbatim>\<open>main2\<close> over \<open>k\<close> files has at most \<open>3k + 9\<close> steps and is never stuck
  before it has returned or the process has been aborted. When it has returned, every file has been processed exactly once and to its end. It is
  aborted only if the directory cannot be read or if the detector, or the called function, panics on one of the files: that panic in a worker
  ends the whole process, and other files may be left unprocessed.
\<close>

theorem main2_returns:
  assumes "(main2_step (detector_fate n crypto now abi_JSON cartesian solc called) ^^ k) (main2_start mode) s" "unat call_gas < n"
  shows "k \<le> 3 * length (main2_tasks mode) + 9 \<and>
    (fst s = Returned \<longrightarrow> mset (finished (snd s)) = mset (main2_tasks mode) \<and>
      (mode \<noteq> Stat_error \<longrightarrow> (\<forall>f\<in>set (main2_tasks mode). detector_fate n crypto now abi_JSON cartesian solc called f = Completes))) \<and>
    (fst s = Aborted \<longrightarrow> mode = IsDir None \<or> (\<exists>f\<in>set (main2_tasks mode). detector_fate n crypto now abi_JSON cartesian solc called f = Crashes)) \<and>
    (fst s \<noteq> Returned \<longrightarrow> fst s \<noteq> Aborted \<longrightarrow> (\<exists>s'. main2_step (detector_fate n crypto now abi_JSON cartesian solc called) s s'))"
proof -
  let ?fate = "detector_fate n crypto now abi_JSON cartesian solc called" and ?files = "main2_tasks mode"
  show ?thesis
  proof (cases "mode = Stat_error \<or> mode = IsDir None")
    case True
    then have "k = 0 \<and> s = main2_start mode"
      by (intro relpowp_stuck [OF assms(1)]) (auto simp: no_step main2_start_def start_main_def)
    with True show ?thesis by (auto simp: main2_start_def start_main_def) (simp_all add: start_pool_def)
  next
    case False
    then have s: "main2_inv ?fate ?files s \<and> k + main2_left s \<le> 3 * length ?files + 9"
      using relpowp_bound [where P = "main2_inv ?fate ?files" and f = main2_left, OF _ assms(1)] main2_step_inv main2_start_inv(1) [of mode ?fate] main2_start_inv(2) [of mode] by metis
    have "mset (finished (snd s)) = mset ?files" if "fst s = Returned"
      using s that finished_all [of "snd s" Returned] by (cases s) (simp add: main2_inv_def)
    then have "mset (finished (snd s)) = mset ?files \<and> (\<forall>f\<in>set ?files. ?fate f = Completes)" if "fst s = Returned"
      using s that by (auto simp: main2_inv_def list_all_iff dest: mset_eq_setD)
    then show ?thesis
      using s main2_progress [of ?fate ?files s] detector_never_blocks [OF assms(2)] by (auto simp: main2_inv_def)
  qed
qed

theorem main2_returns_witness:
  "\<forall>crypto now. \<exists>s'. main2_step (detector_fate 100000000001 crypto now (\<lambda>_. None) product_lists (\<lambda>_. None) []) (main2_start (IsDir (Some [''a.sol'', ''b.sol'']))) s'"
proof (intro allI)
  fix crypto now
  have "unat call_gas < 100000000001" by (simp add: call_gas_def)
  from main2_returns [of 0 100000000001 crypto now "\<lambda>_. None" product_lists "\<lambda>_. None" "[]" "IsDir (Some [''a.sol'', ''b.sol''])", OF _ this]
  show "\<exists>s'. main2_step (detector_fate 100000000001 crypto now (\<lambda>_. None) product_lists (\<lambda>_. None) []) (main2_start (IsDir (Some [''a.sol'', ''b.sol'']))) s'"
    by (auto simp: main2_start_def start_main_def)
qed



end
