(* ===== verification/Spec2Isabelle.thy ===== *)
theory Spec2Isabelle
  imports Trie_Refine RLP_Robust Word_Ops Dispatch
begin

text \<open>
  A verification library for a contract fuzzer: a cut-down Ethereum virtual machine that marks integer overflows in the
  storage of the running contract, the detectors that call contracts and read these markers, and the library code below.

  The program and its parts.  \<^verbatim>\<open>src/main.go\<close> hands compiled contracts to worker goroutines.  Each worker deploys a contract in
  a fresh world (\<^verbatim>\<open>src/detectors/contractutils.go\<close>), generates call data from the contract interface (\<^verbatim>\<open>src/accounts/abi\<close>),
  runs the calls in the virtual machine (\<^verbatim>\<open>src/core/vm\<close> over the account database \<^verbatim>\<open>src/core/state/statedb.go\<close>) and then
  looks at the marker slots (\<^verbatim>\<open>src/detectors/fuzzint.go\<close>, \<^verbatim>\<open>overflowdetection.go\<close>).  Numbers, hashes, byte strings and
  encodings come from \<^verbatim>\<open>src/common\<close>, \<^verbatim>\<open>src/crypto\<close>, \<^verbatim>\<open>src/params\<close>, \<^verbatim>\<open>src/rlp\<close> and \<^verbatim>\<open>src/trie\<close>.

  Conventions (theory \<^verbatim>\<open>Prelude\<close>).  A \<^verbatim>\<open>byte\<close> is an 8-bit word and a \<^verbatim>\<open>uint64\<close> a 64-bit word, so arithmetic on them wraps as in
  Go; a \<^verbatim>\<open>*big.Int\<close> is an integer; a slice is a list; a Go error is a value of a sum or option type.  A computation returns
  \<^verbatim>\<open>Done\<close>, a runtime panic is \<^verbatim>\<open>Panic\<close>, and \<^verbatim>\<open>NoFuel\<close> says that the bound on the rounds of a loop was too small.  Operations
  keep the names of the source, with a suffix or prefix where HOL has the name already; each theory follows the order of its
  source file and names it at its head.

  Theories, in the order of the imports, with the sources they model and what their lemmas show.

  \<^item> \<^verbatim>\<open>Big_Math\<close>, \<^verbatim>\<open>Common_Types\<close>, \<^verbatim>\<open>Hex_Text\<close> (\<^verbatim>\<open>src/common/math\<close>, \<^verbatim>\<open>types.go\<close>, \<^verbatim>\<open>bytes.go\<close>, \<^verbatim>\<open>hexutil\<close>): 256-bit helpers, hashes and
  addresses, hexadecimal text; Exp is modular exponentiation, and the textual forms read back exactly.  The locale
  \<^verbatim>\<open>fixed_bytes\<close> holds what hashes and addresses share.
  \<^item> \<^verbatim>\<open>Sha3\<close> (\<^verbatim>\<open>src/crypto/sha3\<close>): the unrolled permutation and the sponge; writing in pieces equals writing at once.
  \<^item> \<^verbatim>\<open>Params\<close> (\<^verbatim>\<open>src/params\<close>): fork schedule, gas tables, constants.
  \<^item> \<^verbatim>\<open>VM_Data\<close>, \<^verbatim>\<open>Opcodes\<close>, \<^verbatim>\<open>Analysis\<close> (\<^verbatim>\<open>stack.go\<close>, \<^verbatim>\<open>memory.go\<close>, \<^verbatim>\<open>intpool.go\<close>, \<^verbatim>\<open>opcodes.go\<close>, \<^verbatim>\<open>analysis.go\<close>): the stack
  implements the interface \<^verbatim>\<open>lifo\<close>; the bitmap of push arguments agrees with a left-to-right scan.
  \<^item> \<^verbatim>\<open>StateDB\<close> (\<^verbatim>\<open>statedb.go\<close>, \<^verbatim>\<open>src/core/evm.go\<close>): accounts, storage, logs and transfers; storage, code and nonces implement
  the interface \<^verbatim>\<open>kv_store\<close>.
  \<^item> \<^verbatim>\<open>EVM_Types\<close>, \<^verbatim>\<open>Gas\<close>, \<^verbatim>\<open>Precompiles\<close>, \<^verbatim>\<open>Calls\<close>, \<^verbatim>\<open>Instructions\<close>, \<^verbatim>\<open>Jump_Table\<close>, \<^verbatim>\<open>Interpreter\<close> (the remaining files of
  \<^verbatim>\<open>src/core/vm\<close>): contracts, gas and memory costs, precompiled contracts, the four kinds of call and creation, every
  instruction, the three instruction sets and the loop.
  \<^item> \<^verbatim>\<open>Word_Ops\<close>: the instructions as operations on 256-bit words, and the overflow markers.
  \<^item> \<^verbatim>\<open>Exec_Rules\<close>, \<^verbatim>\<open>Exec_Relations\<close>, \<^verbatim>\<open>Gas_Termination\<close>, \<^verbatim>\<open>Executions\<close>: rules for outcomes, relations that every execution keeps
  (locale \<^verbatim>\<open>evm_rel\<close>), termination by gas, and the bound of the stack as an invariant of the reachable frames.
  \<^item> \<^verbatim>\<open>Contract_Utils\<close>, \<^verbatim>\<open>No_Panic\<close>, \<^verbatim>\<open>Detection\<close>: the world of the fuzzer; no call panics there, and the marker check is exact.
  \<^item> \<^verbatim>\<open>Abi_Types\<close>, \<^verbatim>\<open>Abi_Codec\<close>, \<^verbatim>\<open>Abi_Typing\<close>, \<^verbatim>\<open>Abi_Methods\<close> (\<^verbatim>\<open>src/accounts/abi\<close>): type names, packing and unpacking, selectors and
  the fuzzing of arguments; calls decode to what was packed, and unpacking is safe on any input.
  \<^item> \<^verbatim>\<open>Fuzzing\<close>, \<^verbatim>\<open>Overflow_Detector\<close>, \<^verbatim>\<open>Dispatch\<close> (\<^verbatim>\<open>src/detectors\<close>, \<^verbatim>\<open>src/main.go\<close>): the campaign, which records its calls in a
  history that no operation reads, the second detector, and the goroutines of both modes as step relations over a channel and a wait
  group; a task completes, panics, which aborts the process, or blocks its worker.
  \<^item> \<^verbatim>\<open>RLP\<close>, \<^verbatim>\<open>RLP_Encoding\<close>, \<^verbatim>\<open>RLP_Decoding\<close>, \<^verbatim>\<open>RLP_Robust\<close> (\<^verbatim>\<open>src/rlp\<close>): the encoding buffer against the recursive encoding, readers and
  writers (locale \<^verbatim>\<open>io_writer\<close>), splitting, the stream decoder with its round trip (locale \<^verbatim>\<open>elem_decoder\<close>) and its
  behaviour on malformed input.
  \<^item> \<^verbatim>\<open>Trie_Keys\<close>, \<^verbatim>\<open>Trie_Nodes\<close>, \<^verbatim>\<open>Trie_Ops\<close> (\<^verbatim>\<open>src/trie/encoding.go\<close>, \<^verbatim>\<open>node.go\<close>, \<^verbatim>\<open>trie.go\<close>, \<^verbatim>\<open>database.go\<close>): key encodings, nodes with
  their decoding, and lookup, insertion and deletion over a database of nodes.
  \<^item> \<^verbatim>\<open>Trie_Spec\<close>, \<^verbatim>\<open>Trie_Store\<close>, \<^verbatim>\<open>Trie_Refine\<close>: a reference without hashes and database, in which every map has at most one minimal
  tree; the stored form of a tree and what decoding makes of it; and the refinement, by which the trie behaves as a map
  whatever part of it is in memory (locale \<^verbatim>\<open>map_store\<close>).

  Fuel.  One unit of fuel pays for one iteration of the interpreter loop or one level of calls.  With gas metering on every
  instruction that does not halt costs gas, so any fuel above the gas is enough (theory \<^verbatim>\<open>Executions\<close>); theorems about
  the fuzzer and the detector use it to show that the runs return.  Decoding consumes a byte in every round, so the length of
  the input is enough fuel there (theory \<^verbatim>\<open>RLP_Robust\<close>), with one exception: slices of one-byte arrays,
  whose decoding can run forever.  Decoding an array of a declared byte type panics.  The recursion
  of the trie takes a part of the key at every node that is not a bare hash, so fuel four times the length of the key plus four is
  enough; an embedded node is shorter than the node around it, which bounds the decoding of nodes.

  Parameters.  Code outside the sources is an argument of the definitions that use it: recovery of signatures, RIPEMD-160 and
  the curve operations of bn256 (one record, \<^verbatim>\<open>Crypto\<close>), the random sources of the fuzzing library and of \<^verbatim>\<open>crypto/rand\<close>, which may fail, the order in which Go
  iterates over a map, the JSON of contract interfaces, the compiler, what the file system says of a path, whether the log file and
  the user interface can be opened, the cartesian product of candidates, and the copying of a state by the \<^verbatim>\<open>copier\<close> package.
  Of the copies a campaign makes it is assumed only that they deliver the accounts of the saved or of the current state; with copies that
  restore the saved state every report is of a call that itself overflowed or wrote a marker, otherwise of one after such a call.

  Simplifications.  Tracer and debug hooks only observe and are left out, as are logging and printing.  A custom instruction
  table in the configuration is not modelled; the abort flag is constant during a run; the integers kept in the pool are
  recorded but never read back.  The caller of a contract is an argument of the operations that need it.

  Not modelled.  The front ends \<^verbatim>\<open>bruteforcer.go\<close> and \<^verbatim>\<open>creplayermain.go\<close>, the replay of transactions (\<^verbatim>\<open>src/creplayer\<close>: remote
  calls and files), generated bindings (\<^verbatim>\<open>src/accounts/abi/bind\<close>: a generator of Go text), key stores and hardware wallets
  (files and devices), the arithmetic of bn256 and the bindings to secp256k1 (C code or parameters of the precompiled contracts),
  blocks, transactions and receipts (\<^verbatim>\<open>src/core/types\<close>: not constructed by the program), metrics and logs.  In \<^verbatim>\<open>src/rlp\<close>, Go types that refer
  to themselves and user-defined encoders and decoders are left out.  In \<^verbatim>\<open>src/trie\<close>, hashing, committing,
  iterators, proofs and synchronisation are left out, as are the stores of \<^verbatim>\<open>src/ethdb\<close>.  The trie keeps keys and values shorter than
  2^53 and 2^56 bytes.
\<close>

end
